(* ===== verification/Prelude.thy ===== *)
theory Prelude imports Main "HOL-Library.Word" begin

unbundle bit_operations_syntax

text \<open>
  Shared vocabulary of the development: the named collections the component proofs feed to
  the simplifier, the model of Rust's \<open>Result\<close> (a sum, \<open>Inl\<close> the error), the machine
  integers, and the parts of Rust's \<open>str\<close>, \<open>std::path\<close> and \<open>std::net\<close> that the sources use.

  Text: a Rust \<open>str\<close> is the \<open>string\<close> of its UTF-8 bytes, so \<open>len\<close>, \<open>starts_with\<close>,
  \<open>ends_with\<close>, \<open>split\<close> on an ASCII character and comparison are the list operations.
  \<open>chars\<close> cuts the bytes into Unicode scalar values (each the string of its bytes), and
  \<open>to_string_lossy\<close> replaces malformed sequences the way \<open>String::from_utf8_lossy\<close> does.
\<close>

section \<open>Collections of facts\<close>

named_theorems abi_defs \<open>the numbers of the Linux x86-64 interface\<close>
named_theorems text_simps \<open>evaluation of the text operations\<close>
named_theorems result_simps \<open>evaluation of Result-valued code\<close>

section \<open>Machine integers and results\<close>

type_synonym u8 = "8 word"
type_synonym u16 = "16 word"
type_synonym u32 = "32 word"
type_synonym u64 = "64 word"
type_synonym u128 = "128 word"
type_synonym bytes = "u8 list"

text \<open>Rust's \<open>?\<close> operator and \<open>map_err\<close> on a \<open>Result\<close>.\<close>

fun and_then :: "'e + 'a \<Rightarrow> ('a \<Rightarrow> 'e + 'b) \<Rightarrow> 'e + 'b" where
  "and_then (Inl e) f = Inl e"
| "and_then (Inr x) f = f x"

fun map_err :: "('e \<Rightarrow> 'f) \<Rightarrow> 'e + 'a \<Rightarrow> 'f + 'a" where
  "map_err g (Inl e) = Inl (g e)"
| "map_err g (Inr x) = Inr x"

fun ok_or :: "'e \<Rightarrow> 'a option \<Rightarrow> 'e + 'a" where
  "ok_or e None = Inl e"
| "ok_or e (Some x) = Inr x"

lemma and_then_Inr [result_simps]:
  "and_then m f = Inr y \<longleftrightarrow> (\<exists>x. m = Inr x \<and> f x = Inr y)"
  by (cases m) auto

lemma and_then_Inl [result_simps]:
  "and_then m f = Inl e \<longleftrightarrow> m = Inl e \<or> (\<exists>x. m = Inr x \<and> f x = Inl e)"
  by (cases m) auto

lemma map_err_Inr [result_simps]: "map_err g m = Inr x \<longleftrightarrow> m = Inr x"
  by (cases m) auto

lemma map_err_Inl [result_simps]: "map_err g m = Inl e \<longleftrightarrow> (\<exists>e'. m = Inl e' \<and> e = g e')"
  by (cases m) auto

lemma ok_or_Inr [result_simps]: "ok_or e m = Inr x \<longleftrightarrow> m = Some x"
  by (cases m) auto

text \<open>
  A loop \<open>for (i, x) in xs.into_iter().enumerate()\<close> that pushes one result per element and
  returns at the first error.
\<close>

fun enumerate_map :: "(nat \<Rightarrow> 'a \<Rightarrow> 'e + 'b) \<Rightarrow> nat \<Rightarrow> 'a list \<Rightarrow> 'e + 'b list" where
  "enumerate_map f i [] = Inr []"
| "enumerate_map f i (x # xs) =
     (case f i x of Inl e \<Rightarrow> Inl e
      | Inr y \<Rightarrow> (case enumerate_map f (Suc i) xs of Inl e \<Rightarrow> Inl e | Inr ys \<Rightarrow> Inr (y # ys)))"

lemma enumerate_map_Inr:
  "enumerate_map f i xs = Inr ys \<longleftrightarrow>
     length ys = length xs \<and> (\<forall>k < length xs. f (i + k) (xs ! k) = Inr (ys ! k))"
proof (induction xs arbitrary: i ys)
  case Nil
  then show ?case by auto
next
  case (Cons x xs)
  show ?case
  proof (cases ys)
    case Nil
    then show ?thesis by (auto split: sum.splits)
  next
    case (Cons y zs)
    then show ?thesis
      using Cons.IH [of "Suc i" zs] by (auto simp: less_Suc_eq_0_disj split: sum.splits)
  qed
qed

lemma enumerate_map_Inl:
  "enumerate_map f i xs = Inl e \<longleftrightarrow>
     (\<exists>k < length xs. f (i + k) (xs ! k) = Inl e \<and>
        (\<forall>j < k. \<exists>y. f (i + j) (xs ! j) = Inr y))"
proof (induction xs arbitrary: i)
  case (Cons x xs)
  have "(\<exists>k < length (x # xs). f (i + k) ((x # xs) ! k) = Inl e \<and>
        (\<forall>j < k. \<exists>y. f (i + j) ((x # xs) ! j) = Inr y)) \<longleftrightarrow>
      f i x = Inl e \<or> (\<exists>y. f i x = Inr y) \<and> (\<exists>k < length xs. f (Suc i + k) (xs ! k) = Inl e \<and>
        (\<forall>j < k. \<exists>y. f (Suc i + j) (xs ! j) = Inr y))"
    (is "?l \<longleftrightarrow> ?r")
  proof
    assume ?l
    then obtain k where k: "k < Suc (length xs)" "f (i + k) ((x # xs) ! k) = Inl e"
      "\<And>j. j < k \<Longrightarrow> \<exists>y. f (i + j) ((x # xs) ! j) = Inr y" by auto
    show ?r
    proof (cases k)
      case 0
      with k show ?thesis by simp
    next
      case (Suc m)
      then have "\<exists>y. f (Suc i + j) (xs ! j) = Inr y" if "j < m" for j
        using k(3) [of "Suc j"] that by simp
      with Suc k show ?thesis using k(3) [of 0] by auto
    qed
  next
    assume r: ?r
    show ?l
    proof (cases "f i x = Inl e")
      case True
      then show ?thesis by (intro exI [of _ 0]) simp
    next
      case False
      with r obtain k where "k < length xs" "f (Suc i + k) (xs ! k) = Inl e"
        "\<forall>j < k. \<exists>y. f (Suc i + j) (xs ! j) = Inr y" "\<exists>y. f i x = Inr y" by auto
      then show ?thesis by (intro exI [of _ "Suc k"]) (auto simp: less_Suc_eq_0_disj)
    qed
  qed
  then show ?case using Cons.IH [of "Suc i"] by (auto split: sum.splits)
qed simp

section \<open>Text\<close>

definition code :: "char \<Rightarrow> nat" where
  "code c = of_char c"

text \<open>The number of bytes of the scalar value that starts with this byte (valid UTF-8).\<close>

definition utf8_width :: "char \<Rightarrow> nat" where
  "utf8_width c = (if code c < 0x80 then 1 else if code c < 0xE0 then 2
                   else if code c < 0xF0 then 3 else 4)"

type_synonym rchar = string

fun chars_skip :: "nat \<Rightarrow> string \<Rightarrow> rchar \<Rightarrow> rchar list" where
  "chars_skip n [] acc = (if acc = [] then [] else [acc])"
| "chars_skip 0 (c # cs) acc =
     (if acc = [] then [] else [acc]) @ chars_skip (utf8_width c - 1) cs [c]"
| "chars_skip (Suc n) (c # cs) acc = chars_skip n cs (acc @ [c])"

definition chars :: "string \<Rightarrow> rchar list" where
  "chars s = chars_skip 0 s []"

definition is_ascii :: "string \<Rightarrow> bool" where
  "is_ascii s = list_all (\<lambda>c. code c < 0x80) s"

lemma chars_skip_ascii:
  "is_ascii s \<Longrightarrow> chars_skip 0 s acc = (if acc = [] then [] else [acc]) @ map (\<lambda>c. [c]) s"
  by (induction s arbitrary: acc) (auto simp: is_ascii_def utf8_width_def)

lemma chars_ascii: "is_ascii s \<Longrightarrow> chars s = map (\<lambda>c. [c]) s"
  by (simp add: chars_def chars_skip_ascii)

lemma concat_chars_skip: "concat (chars_skip n s acc) = acc @ s"
  by (induction n s acc rule: chars_skip.induct) auto

lemma concat_chars: "concat (chars s) = s"
  by (simp add: chars_def concat_chars_skip)

text \<open>\<open>String::from_utf8_lossy\<close>: the length of the next chunk and whether it is well formed.\<close>

definition cont :: "nat \<Rightarrow> nat \<Rightarrow> nat list \<Rightarrow> bool" where
  "cont lo hi bs = (case bs of [] \<Rightarrow> False | b # _ \<Rightarrow> lo \<le> b \<and> b \<le> hi)"

definition utf8_chunk :: "nat list \<Rightarrow> bool \<times> nat" where
  "utf8_chunk bs = (case bs of [] \<Rightarrow> (True, 1) | b # r \<Rightarrow>
     if b < 0x80 then (True, 1)
     else if 0xC2 \<le> b \<and> b \<le> 0xDF then (if cont 0x80 0xBF r then (True, 2) else (False, 1))
     else if 0xE0 \<le> b \<and> b \<le> 0xEF then
       (if \<not> cont (if b = 0xE0 then 0xA0 else 0x80) (if b = 0xED then 0x9F else 0xBF) r
        then (False, 1)
        else if \<not> cont 0x80 0xBF (drop 1 r) then (False, 2) else (True, 3))
     else if 0xF0 \<le> b \<and> b \<le> 0xF4 then
       (if \<not> cont (if b = 0xF0 then 0x90 else 0x80) (if b = 0xF4 then 0x8F else 0xBF) r
        then (False, 1)
        else if \<not> cont 0x80 0xBF (drop 1 r) then (False, 2)
        else if \<not> cont 0x80 0xBF (drop 2 r) then (False, 3) else (True, 4))
     else (False, 1))"

lemma utf8_chunk_pos: "0 < snd (utf8_chunk bs)"
  by (simp add: utf8_chunk_def split: list.split)

definition replacement_char :: string where
  "replacement_char = [char_of (0xEF::nat), char_of (0xBF::nat), char_of (0xBD::nat)]"

function lossy :: "string \<Rightarrow> string" where
  "lossy s = (if s = [] then [] else
     let (ok, n) = utf8_chunk (map code s)
     in (if ok then take n s else replacement_char) @ lossy (drop n s))"
  by pat_completeness auto
termination
proof (relation "measure length")
  fix s x xa y
  assume "s \<noteq> ([]::string)" and "x = utf8_chunk (map code s)" and "(xa, y) = x"
  then have "0 < y" by (metis snd_conv utf8_chunk_pos)
  with \<open>s \<noteq> []\<close> show "(drop y s, s) \<in> measure length" by simp
qed simp

declare lossy.simps [simp del]

definition to_string_lossy :: "string \<Rightarrow> string" where
  "to_string_lossy p = lossy p"

lemma lossy_ascii: "is_ascii s \<Longrightarrow> to_string_lossy s = s"
proof (induction s)
  case Nil
  then show ?case by (simp add: to_string_lossy_def lossy.simps)
next
  case (Cons c s)
  then have "lossy s = s" and "code c < 0x80"
    by (simp_all add: is_ascii_def to_string_lossy_def)
  then show ?case
    by (simp add: to_string_lossy_def lossy.simps [of "c # s"] utf8_chunk_def)
qed


section \<open>String slicing, searching and splitting\<close>

fun strip_prefix :: "string \<Rightarrow> string \<Rightarrow> string option" where
  "strip_prefix [] s = Some s"
| "strip_prefix (p # ps) [] = None"
| "strip_prefix (p # ps) (c # cs) = (if p = c then strip_prefix ps cs else None)"

definition starts_with :: "string \<Rightarrow> string \<Rightarrow> bool" where
  "starts_with p s = (take (length p) s = p)"

definition ends_with :: "string \<Rightarrow> string \<Rightarrow> bool" where
  "ends_with p s = (length p \<le> length s \<and> drop (length s - length p) s = p)"

fun contains_str :: "string \<Rightarrow> string \<Rightarrow> bool" where
  "contains_str p [] = (p = [])"
| "contains_str p (c # cs) = (starts_with p (c # cs) \<or> contains_str p cs)"

text \<open>\<open>str::split\<close> on one ASCII character: always at least one piece.\<close>

fun split_on :: "char \<Rightarrow> string \<Rightarrow> string list" where
  "split_on d [] = [[]]"
| "split_on d (c # cs) =
     (if c = d then [] # split_on d cs
      else (case split_on d cs of [] \<Rightarrow> [[c]] | p # ps \<Rightarrow> (c # p) # ps))"

fun join_with :: "string \<Rightarrow> string list \<Rightarrow> string" where
  "join_with d [] = []"
| "join_with d [x] = x"
| "join_with d (x # y # xs) = x @ d @ join_with d (y # xs)"

fun split_once :: "char \<Rightarrow> string \<Rightarrow> (string \<times> string) option" where
  "split_once d [] = None"
| "split_once d (c # cs) =
     (if c = d then Some ([], cs)
      else (case split_once d cs of None \<Rightarrow> None | Some (a, b) \<Rightarrow> Some (c # a, b)))"

lemma strip_prefix_iff: "strip_prefix p s = Some r \<longleftrightarrow> s = p @ r"
  by (induction p s rule: strip_prefix.induct) auto

lemma strip_prefix_None: "strip_prefix p s = None \<longleftrightarrow> (\<forall>r. s \<noteq> p @ r)"
  by (induction p s rule: strip_prefix.induct) auto

lemma starts_with_iff: "starts_with p s \<longleftrightarrow> (\<exists>r. s = p @ r)"
  unfolding starts_with_def by (metis append_eq_conv_conj append_take_drop_id)

lemma ends_with_iff: "ends_with p s \<longleftrightarrow> (\<exists>r. s = r @ p)"
proof
  assume "ends_with p s"
  then have "s = take (length s - length p) s @ p"
    unfolding ends_with_def by (metis append_take_drop_id)
  then show "\<exists>r. s = r @ p" ..
next
  assume "\<exists>r. s = r @ p"
  then show "ends_with p s" by (auto simp: ends_with_def)
qed

lemma contains_str_iff: "contains_str p s \<longleftrightarrow> (\<exists>a b. s = a @ p @ b)"
proof (induction s)
  case Nil
  then show ?case by auto
next
  case (Cons c s)
  have "(\<exists>a b. c # s = a @ p @ b) \<longleftrightarrow> (\<exists>b. c # s = p @ b) \<or> (\<exists>a b. s = a @ p @ b)"
    by (metis append_Cons append_Nil neq_Nil_conv list.inject)
  with Cons.IH show ?case by (simp add: starts_with_iff)
qed

lemma split_on_not_Nil [simp]: "split_on d s \<noteq> []"
  by (cases s) (auto split: list.split)

lemma join_split_on: "join_with [d] (split_on d s) = s"
proof (induction s)
  case Nil
  then show ?case by simp
next
  case (Cons c s)
  obtain p ps where ps: "split_on d s = p # ps"
    by (meson neq_Nil_conv split_on_not_Nil)
  then show ?case using Cons.IH by (cases ps) auto
qed

lemma split_on_pieces: "p \<in> set (split_on d s) \<Longrightarrow> d \<notin> set p"
proof (induction s arbitrary: p)
  case Nil
  then show ?case by simp
next
  case (Cons c s)
  obtain q ps where ps: "split_on d s = q # ps"
    by (meson neq_Nil_conv split_on_not_Nil)
  then show ?case using Cons by (fastforce split: if_splits)
qed

lemma split_on_no_sep: "d \<notin> set s \<Longrightarrow> split_on d s = [s]"
  by (induction s) auto

lemma split_on_append_sep: "split_on d (a @ d # b) = split_on d a @ split_on d b"
proof (induction a)
  case Nil
  then show ?case by simp
next
  case (Cons c a)
  obtain p ps where ps: "split_on d a = p # ps"
    by (meson neq_Nil_conv split_on_not_Nil)
  then show ?case using Cons.IH by auto
qed

lemma split_once_Some: "split_once d s = Some (a, b) \<longleftrightarrow> s = a @ d # b \<and> d \<notin> set a"
proof (induction s arbitrary: a)
  case Nil
  then show ?case by simp
next
  case (Cons c s)
  show ?case
  proof (cases a)
    case Nil
    then show ?thesis by (cases "split_once d s") auto
  next
    case (Cons x xs)
    with Cons.IH [of xs] show ?thesis by (cases "split_once d s") auto
  qed
qed

lemma split_once_None: "split_once d s = None \<longleftrightarrow> d \<notin> set s"
  by (induction s) (auto split: option.split)

section \<open>ASCII classes and case\<close>

definition is_digit :: "char \<Rightarrow> bool" where
  "is_digit c = (48 \<le> code c \<and> code c \<le> 57)"

definition is_upper :: "char \<Rightarrow> bool" where
  "is_upper c = (65 \<le> code c \<and> code c \<le> 90)"

definition is_lower :: "char \<Rightarrow> bool" where
  "is_lower c = (97 \<le> code c \<and> code c \<le> 122)"

definition is_alphanumeric :: "char \<Rightarrow> bool" where
  "is_alphanumeric c = (is_digit c \<or> is_upper c \<or> is_lower c)"

definition lower_char :: "char \<Rightarrow> char" where
  "lower_char c = (if is_upper c then char_of (code c + 32) else c)"

definition to_ascii_lowercase :: "string \<Rightarrow> string" where
  "to_ascii_lowercase s = map lower_char s"

definition eq_ignore_ascii_case :: "string \<Rightarrow> string \<Rightarrow> bool" where
  "eq_ignore_ascii_case a b = (to_ascii_lowercase a = to_ascii_lowercase b)"

lemma code_lt_256: "code c < 256"
  by (simp add: code_def)

lemma code_char_of: "n < 256 \<Longrightarrow> code (char_of n) = n"
  by (simp add: code_def)

lemma lower_char_idem [simp]: "lower_char (lower_char c) = lower_char c"
  by (auto simp: lower_char_def is_upper_def code_char_of)

lemma to_ascii_lowercase_idem [simp]:
  "to_ascii_lowercase (to_ascii_lowercase s) = to_ascii_lowercase s"
  by (simp add: to_ascii_lowercase_def)

lemma length_to_ascii_lowercase [simp]: "length (to_ascii_lowercase s) = length s"
  by (simp add: to_ascii_lowercase_def)

section \<open>Decimal numbers\<close>

text \<open>\<open>str::parse\<close> for an unsigned integer: an optional \<open>+\<close>, at least one digit, no overflow.\<close>

fun parse_digits :: "nat \<Rightarrow> string \<Rightarrow> nat option" where
  "parse_digits acc [] = Some acc"
| "parse_digits acc (c # cs) =
     (if is_digit c then parse_digits (10 * acc + (code c - 48)) cs else None)"

definition parse_uint :: "nat \<Rightarrow> string \<Rightarrow> nat option" where
  "parse_uint hi s =
     (let d = (case s of [] \<Rightarrow> [] | c # cs \<Rightarrow> if c = CHR ''+'' then cs else s)
      in if d = [] then None
         else (case parse_digits 0 d of
                 None \<Rightarrow> None | Some n \<Rightarrow> if n \<le> hi then Some n else None))"

definition digit_char :: "nat \<Rightarrow> char" where
  "digit_char n = char_of (48 + n)"

fun show_nat :: "nat \<Rightarrow> string" where
  "show_nat n = (if n < 10 then [digit_char n] else show_nat (n div 10) @ [digit_char (n mod 10)])"

declare show_nat.simps [simp del]

definition show_int :: "int \<Rightarrow> string" where
  "show_int i = (if i < 0 then ''-'' @ show_nat (nat (- i)) else show_nat (nat i))"

lemma digit_char_props:
  "n < 10 \<Longrightarrow> is_digit (digit_char n) \<and> code (digit_char n) = 48 + n"
  by (simp add: digit_char_def is_digit_def code_char_of)

lemma show_nat_digits: "\<forall>c \<in> set (show_nat n). is_digit c"
proof (induction n rule: show_nat.induct)
  case (1 n)
  then show ?case
    by (cases "n < 10") (auto simp: show_nat.simps [of n] digit_char_props)
qed

lemma show_nat_not_Nil [simp]: "show_nat n \<noteq> []"
  by (subst show_nat.simps) simp

lemma parse_digits_append:
  "parse_digits acc (xs @ ys) =
     (case parse_digits acc xs of None \<Rightarrow> None | Some a \<Rightarrow> parse_digits a ys)"
  by (induction xs arbitrary: acc) auto

lemma parse_digits_show: "parse_digits 0 (show_nat n) = Some n"
proof (induction n rule: show_nat.induct)
  case (1 n)
  then show ?case
    by (cases "n < 10") (auto simp: show_nat.simps [of n] digit_char_props parse_digits_append)
qed

lemma parse_uint_show: "n \<le> hi \<Longrightarrow> parse_uint hi (show_nat n) = Some n"
proof -
  assume le: "n \<le> hi"
  obtain c cs where c: "show_nat n = c # cs" by (meson neq_Nil_conv show_nat_not_Nil)
  then have "is_digit c" using show_nat_digits [of n] by simp
  then have "c \<noteq> CHR ''+''" by (auto simp: is_digit_def code_def)
  with le c show ?thesis
    using parse_digits_show [of n] by (simp add: parse_uint_def)
qed

lemma parse_uint_le: "parse_uint hi s = Some n \<Longrightarrow> n \<le> hi"
  by (auto simp: parse_uint_def Let_def split: if_splits option.splits list.splits)

end
