(* ===== verification/Effect.thy ===== *)
theory Effect imports Prelude begin

text \<open>
  Code that may fail and changes a state, shared by the components that call out of the process: a
  function from the state to an error or a value and the new state. The state keeps a log of the
  calls made; a call's answer is a function of that log, so whoever answers is arbitrary and may
  answer the same call differently later.

  \<open>holds m s Q\<close> says that running \<open>m\<close> in \<open>s\<close> ends in an outcome and a state satisfying \<open>Q\<close>; the
  rules in \<open>holds_rules\<close> follow the combinators.
\<close>

text \<open>An \<open>io::Error\<close> is its raw OS error, if it has one.\<close>

type_synonym io_error = "int option"
type_synonym fd = nat

section \<open>Combinators\<close>

type_synonym ('s, 'e, 'a) eff = "'s \<Rightarrow> ('e + 'a) \<times> 's"

definition retE :: "'a \<Rightarrow> ('s, 'e, 'a) eff" where
  "retE x = (\<lambda>w. (Inr x, w))"

definition failE :: "'e \<Rightarrow> ('s, 'e, 'a) eff" where
  "failE e = (\<lambda>w. (Inl e, w))"

definition bindE :: "('s, 'e, 'a) eff \<Rightarrow> ('a \<Rightarrow> ('s, 'e, 'b) eff) \<Rightarrow> ('s, 'e, 'b) eff" where
  "bindE m f = (\<lambda>w. case m w of (Inl e, w') \<Rightarrow> (Inl e, w') | (Inr x, w') \<Rightarrow> f x w')"

text \<open>Run a closure and keep its \<open>Result\<close> as a value.\<close>

definition tryE :: "('s, 'e, 'a) eff \<Rightarrow> ('s, 'f, 'e + 'a) eff" where
  "tryE m = (\<lambda>w. case m w of (r, w') \<Rightarrow> (Inr r, w'))"

text \<open>The \<open>?\<close> operator on a \<open>Result\<close> value, with the conversion of the error.\<close>

definition liftE :: "('f \<Rightarrow> 'e) \<Rightarrow> 'f + 'a \<Rightarrow> ('s, 'e, 'a) eff" where
  "liftE g r = (case r of Inl e \<Rightarrow> failE (g e) | Inr x \<Rightarrow> retE x)"

text \<open>What a scope does when it is left, whichever way: the drops of its owned values.\<close>

definition finallyE :: "('s, 'e, 'a) eff \<Rightarrow> ('s \<Rightarrow> 's) \<Rightarrow> ('s, 'e, 'a) eff" where
  "finallyE m cleanup = (\<lambda>w. case m w of (r, w') \<Rightarrow> (r, cleanup w'))"

text \<open>One call: ask the environment, log the call with its answer.\<close>

definition ask :: "('l list \<Rightarrow> 'r) \<Rightarrow> ('r \<Rightarrow> 'l) \<Rightarrow> ('l list, 'e, 'r) eff" where
  "ask answer mk = (\<lambda>h. let r = answer h in (Inr r, h @ [mk r]))"

text \<open>A loop with \<open>?\<close> in its body.\<close>

fun eachE :: "('a \<Rightarrow> ('s, 'e, unit) eff) \<Rightarrow> 'a list \<Rightarrow> ('s, 'e, unit) eff" where
  "eachE f [] = retE ()"
| "eachE f (x # xs) = bindE (f x) (\<lambda>_. eachE f xs)"

lemmas eff_defs = retE_def failE_def bindE_def tryE_def liftE_def finallyE_def ask_def

section \<open>Outcomes\<close>

named_theorems holds_rules \<open>outcome rules of combinators and operations\<close>

definition holds :: "('s, 'e, 'a) eff \<Rightarrow> 's \<Rightarrow> ('e + 'a \<Rightarrow> 's \<Rightarrow> bool) \<Rightarrow> bool" where
  "holds m s Q = (case m s of (r, s') \<Rightarrow> Q r s')"

lemma holdsD: "holds m s Q \<Longrightarrow> m s = (r, s') \<Longrightarrow> Q r s'"
  by (simp add: holds_def)

lemma holdsI: "(\<And>r s'. m s = (r, s') \<Longrightarrow> Q r s') \<Longrightarrow> holds m s Q"
  by (simp add: holds_def split: prod.split)

lemma holds_mono: "holds m s R \<Longrightarrow> (\<And>r s'. R r s' \<Longrightarrow> Q r s') \<Longrightarrow> holds m s Q"
  by (auto simp: holds_def)

lemma holds_ret [holds_rules]: "Q (Inr x) s \<Longrightarrow> holds (retE x) s Q"
  by (simp add: holds_def retE_def)

lemma holds_fail [holds_rules]: "Q (Inl e) s \<Longrightarrow> holds (failE e) s Q"
  by (simp add: holds_def failE_def)

definition then_post :: "('a \<Rightarrow> ('s, 'e, 'b) eff) \<Rightarrow> ('e + 'b \<Rightarrow> 's \<Rightarrow> bool) \<Rightarrow> 'e + 'a \<Rightarrow> 's \<Rightarrow> bool" where
  "then_post f Q r s = (case r of Inl e \<Rightarrow> Q (Inl e) s | Inr x \<Rightarrow> holds (f x) s Q)"

lemma then_post_Inl [holds_rules]: "Q (Inl e) s \<Longrightarrow> then_post f Q (Inl e) s"
  by (simp add: then_post_def)

lemma then_post_Inr [holds_rules]: "holds (f x) s Q \<Longrightarrow> then_post f Q (Inr x) s"
  by (simp add: then_post_def)

lemma holds_bind [holds_rules]: "holds m s (then_post f Q) \<Longrightarrow> holds (bindE m f) s Q"
  by (auto simp: holds_def bindE_def then_post_def split: prod.splits sum.splits)

lemma holds_try [holds_rules]: "holds m s (\<lambda>r. Q (Inr r)) \<Longrightarrow> holds (tryE m) s Q"
  by (auto simp: holds_def tryE_def split: prod.splits)

lemma holds_lift [holds_rules]:
  "(\<And>x. r = Inr x \<Longrightarrow> Q (Inr x) s) \<Longrightarrow> (\<And>e. r = Inl e \<Longrightarrow> Q (Inl (g e)) s) \<Longrightarrow> holds (liftE g r) s Q"
  by (cases r) (auto simp: liftE_def intro: holds_rules)

lemma holds_finally [holds_rules]: "holds m s (\<lambda>r s'. Q r (c s')) \<Longrightarrow> holds (finallyE m c) s Q"
  by (auto simp: holds_def finallyE_def split: prod.splits)

lemma holds_ask: "Q (Inr (answer h)) (h @ [mk (answer h)]) \<Longrightarrow> holds (ask answer mk) h Q"
  by (simp add: holds_def ask_def Let_def)

lemma holds_if [holds_rules]:
  "(b \<Longrightarrow> holds m s Q) \<Longrightarrow> (\<not> b \<Longrightarrow> holds m' s Q) \<Longrightarrow> holds (if b then m else m') s Q"
  by simp

lemma holds_case_sum [holds_rules]:
  "(\<And>e. r = Inl e \<Longrightarrow> holds (f e) s Q) \<Longrightarrow> (\<And>x. r = Inr x \<Longrightarrow> holds (g x) s Q) \<Longrightarrow>
   holds (case r of Inl e \<Rightarrow> f e | Inr x \<Rightarrow> g x) s Q"
  by (cases r) simp_all

lemma holds_case_option [holds_rules]:
  "(x = None \<Longrightarrow> holds m s Q) \<Longrightarrow> (\<And>y. x = Some y \<Longrightarrow> holds (g y) s Q) \<Longrightarrow>
   holds (case x of None \<Rightarrow> m | Some y \<Rightarrow> g y) s Q"
  by (cases x) simp_all

lemma holds_case_prod [holds_rules]:
  "(\<And>a b. x = (a, b) \<Longrightarrow> holds (f a b) s Q) \<Longrightarrow> holds (case x of (a, b) \<Rightarrow> f a b) s Q"
  by (cases x) simp

end
