(* ===== verification/Seccomp_Filter.thy ===== *)
theory Seccomp_Filter imports Prelude begin

text \<open>
  \<open>src/src/sandbox/filter.rs\<close>: the seccomp cBPF program. The builder is translated as it is (one
  pass that pushes instructions and computes forward jumps from the current length); its meaning
  is given by \<open>run\<close>, the interpreter of the four instruction forms that the source's own tests
  use, with fuel for the number of instructions executed.
\<close>

section \<open>Instructions and constants\<close>

record sock_filter =
  sf_code :: u16
  sf_jt :: u8
  sf_jf :: u8
  sf_k :: u32

definition BPF_LD_W_ABS :: u16 where [abi_defs]: "BPF_LD_W_ABS = 0x20"
definition BPF_JEQ_K :: u16 where [abi_defs]: "BPF_JEQ_K = 0x15"
definition BPF_JSET_K :: u16 where [abi_defs]: "BPF_JSET_K = 0x45"
definition BPF_RET_K :: u16 where [abi_defs]: "BPF_RET_K = 0x06"

definition SECCOMP_DATA_NR :: u32 where [abi_defs]: "SECCOMP_DATA_NR = 0"
definition SECCOMP_DATA_ARCH :: u32 where [abi_defs]: "SECCOMP_DATA_ARCH = 4"
definition SECCOMP_DATA_ARGS :: u32 where [abi_defs]: "SECCOMP_DATA_ARGS = 16"
definition SENDTO_DEST_ARG :: u32 where [abi_defs]: "SENDTO_DEST_ARG = 4"
definition SENDTO_DEST_LO :: u32 where [abi_defs]:
  "SENDTO_DEST_LO = SECCOMP_DATA_ARGS + SENDTO_DEST_ARG * 8"
definition SENDTO_DEST_HI :: u32 where [abi_defs]: "SENDTO_DEST_HI = SENDTO_DEST_LO + 4"

definition SECCOMP_RET_ALLOW :: u32 where [abi_defs]: "SECCOMP_RET_ALLOW = 0x7FFF0000"
definition SECCOMP_RET_USER_NOTIF :: u32 where [abi_defs]: "SECCOMP_RET_USER_NOTIF = 0x7FC00000"
definition AUDIT_ARCH_X86_64 :: u32 where [abi_defs]: "AUDIT_ARCH_X86_64 = 0xC000003E"
definition X32_SYSCALL_BIT :: u32 where [abi_defs]: "X32_SYSCALL_BIT = 0x40000000"

section \<open>The tables\<close>

definition NR_OPEN :: u32 where [abi_defs]: "NR_OPEN = 2"
definition NR_CREAT :: u32 where [abi_defs]: "NR_CREAT = 85"
definition NR_OPENAT :: u32 where [abi_defs]: "NR_OPENAT = 257"
definition NR_OPENAT2 :: u32 where [abi_defs]: "NR_OPENAT2 = 437"
definition NR_TRUNCATE :: u32 where [abi_defs]: "NR_TRUNCATE = 76"
definition NR_RENAME :: u32 where [abi_defs]: "NR_RENAME = 82"
definition NR_MKDIR :: u32 where [abi_defs]: "NR_MKDIR = 83"
definition NR_RMDIR :: u32 where [abi_defs]: "NR_RMDIR = 84"
definition NR_LINK :: u32 where [abi_defs]: "NR_LINK = 86"
definition NR_UNLINK :: u32 where [abi_defs]: "NR_UNLINK = 87"
definition NR_SYMLINK :: u32 where [abi_defs]: "NR_SYMLINK = 88"
definition NR_CHMOD :: u32 where [abi_defs]: "NR_CHMOD = 90"
definition NR_CHOWN :: u32 where [abi_defs]: "NR_CHOWN = 92"
definition NR_MKDIRAT :: u32 where [abi_defs]: "NR_MKDIRAT = 258"
definition NR_FCHOWNAT :: u32 where [abi_defs]: "NR_FCHOWNAT = 260"
definition NR_UNLINKAT :: u32 where [abi_defs]: "NR_UNLINKAT = 263"
definition NR_RENAMEAT :: u32 where [abi_defs]: "NR_RENAMEAT = 264"
definition NR_LINKAT :: u32 where [abi_defs]: "NR_LINKAT = 265"
definition NR_SYMLINKAT :: u32 where [abi_defs]: "NR_SYMLINKAT = 266"
definition NR_FCHMODAT :: u32 where [abi_defs]: "NR_FCHMODAT = 268"
definition NR_RENAMEAT2 :: u32 where [abi_defs]: "NR_RENAMEAT2 = 316"
definition NR_CLONE :: u32 where [abi_defs]: "NR_CLONE = 56"
definition NR_FORK :: u32 where [abi_defs]: "NR_FORK = 57"
definition NR_VFORK :: u32 where [abi_defs]: "NR_VFORK = 58"
definition NR_EXECVE :: u32 where [abi_defs]: "NR_EXECVE = 59"
definition NR_EXECVEAT :: u32 where [abi_defs]: "NR_EXECVEAT = 322"
definition NR_CLONE3 :: u32 where [abi_defs]: "NR_CLONE3 = 435"
definition NR_PTRACE :: u32 where [abi_defs]: "NR_PTRACE = 101"
definition NR_PROCESS_VM_READV :: u32 where [abi_defs]: "NR_PROCESS_VM_READV = 310"
definition NR_PROCESS_VM_WRITEV :: u32 where [abi_defs]: "NR_PROCESS_VM_WRITEV = 311"
definition NR_PIDFD_GETFD :: u32 where [abi_defs]: "NR_PIDFD_GETFD = 438"
definition NR_CONNECT :: u32 where [abi_defs]: "NR_CONNECT = 42"
definition NR_SENDTO :: u32 where [abi_defs]: "NR_SENDTO = 44"
definition NR_BIND :: u32 where [abi_defs]: "NR_BIND = 49"
definition NR_IO_URING_SETUP :: u32 where [abi_defs]: "NR_IO_URING_SETUP = 425"
definition NR_IO_URING_ENTER :: u32 where [abi_defs]: "NR_IO_URING_ENTER = 426"
definition NR_IO_URING_REGISTER :: u32 where [abi_defs]: "NR_IO_URING_REGISTER = 427"

definition MEDIATED :: "u32 list" where
  "MEDIATED =
    [NR_OPEN, NR_CREAT, NR_OPENAT, NR_OPENAT2, NR_TRUNCATE, NR_RENAME, NR_MKDIR, NR_RMDIR,
     NR_LINK, NR_UNLINK, NR_SYMLINK, NR_CHMOD, NR_CHOWN, NR_MKDIRAT, NR_FCHOWNAT, NR_UNLINKAT,
     NR_RENAMEAT, NR_LINKAT, NR_SYMLINKAT, NR_FCHMODAT, NR_RENAMEAT2, NR_CLONE, NR_FORK,
     NR_VFORK, NR_EXECVE, NR_EXECVEAT, NR_CLONE3, NR_PTRACE, NR_PROCESS_VM_READV,
     NR_PROCESS_VM_WRITEV, NR_CONNECT, NR_SENDTO, NR_BIND]"

definition DENIED_RECORDED :: "u32 list" where
  "DENIED_RECORDED =
    [NR_PIDFD_GETFD, NR_IO_URING_SETUP, NR_IO_URING_ENTER, NR_IO_URING_REGISTER]"

section \<open>The builder\<close>

definition insn :: "u16 \<Rightarrow> nat \<Rightarrow> nat \<Rightarrow> u32 \<Rightarrow> sock_filter" where
  "insn op jt jf k = \<lparr>sf_code = op, sf_jt = of_nat jt, sf_jf = of_nat jf, sf_k = k\<rparr>"

definition jump_to :: "nat \<Rightarrow> nat \<Rightarrow> nat" where
  "jump_to target from_pc = target - from_pc - 1"

text \<open>One turn of the \<open>for\<close> loop over the tabled numbers: push the test of one number.\<close>

definition emit_nr :: "nat \<Rightarrow> nat \<Rightarrow> sock_filter list \<Rightarrow> u32 \<Rightarrow> sock_filter list" where
  "emit_nr allow_pc notif_pc prog nr =
     (let pc = length prog
      in if nr = NR_SENDTO then
           prog @
           [insn BPF_JEQ_K 0 4 nr,
            insn BPF_LD_W_ABS 0 0 SENDTO_DEST_LO,
            insn BPF_JEQ_K 0 (jump_to notif_pc (pc + 2)) 0,
            insn BPF_LD_W_ABS 0 0 SENDTO_DEST_HI,
            insn BPF_JEQ_K (jump_to allow_pc (pc + 4)) (jump_to notif_pc (pc + 4)) 0]
         else prog @ [insn BPF_JEQ_K (jump_to notif_pc pc) 0 nr])"

definition build_for :: "u32 list \<Rightarrow> sock_filter list" where
  "build_for tabled =
     (let len = 4 + length tabled + 4 + 2; allow_pc = len - 2; notif_pc = len - 1;
          head = [insn BPF_LD_W_ABS 0 0 SECCOMP_DATA_ARCH,
                  insn BPF_JEQ_K 0 (jump_to notif_pc 1) AUDIT_ARCH_X86_64,
                  insn BPF_LD_W_ABS 0 0 SECCOMP_DATA_NR,
                  insn BPF_JSET_K (jump_to notif_pc 3) 0 X32_SYSCALL_BIT]
      in foldl (emit_nr allow_pc notif_pc) head tabled @
         [insn BPF_RET_K 0 0 SECCOMP_RET_ALLOW, insn BPF_RET_K 0 0 SECCOMP_RET_USER_NOTIF])"

definition build_filter :: "sock_filter list" where
  "build_filter = build_for (MEDIATED @ DENIED_RECORDED)"

section \<open>The machine\<close>

datatype run_error = PcOutOfRange nat | BadLoad u32 | UnknownOpcode u16 | BudgetExhausted

definition load_abs :: "u32 \<Rightarrow> u32 \<Rightarrow> u64 list \<Rightarrow> u32 \<Rightarrow> u32 option" where
  "load_abs nr arch args k =
     (if k = SECCOMP_DATA_NR then Some nr
      else if k = SECCOMP_DATA_ARCH then Some arch
      else if SECCOMP_DATA_ARGS \<le> k \<and> k < SECCOMP_DATA_ARGS + 48 then
        (let relative = k - SECCOMP_DATA_ARGS; arg = args ! unat (relative div 8)
         in if relative mod 8 = 0 then Some (ucast arg)
            else if relative mod 8 = 4 then Some (ucast (drop_bit 32 arg))
            else None)
      else None)"

fun run :: "sock_filter list \<Rightarrow> u32 \<Rightarrow> u32 \<Rightarrow> u64 list \<Rightarrow> nat \<Rightarrow> nat \<Rightarrow> u32 \<Rightarrow> run_error + u32" where
  "run prog nr arch args 0 pc acc = Inl BudgetExhausted"
| "run prog nr arch args (Suc budget) pc acc =
     (if length prog \<le> pc then Inl (PcOutOfRange pc)
      else let i = prog ! pc in
        if sf_code i = BPF_LD_W_ABS then
          (case load_abs nr arch args (sf_k i) of
             None \<Rightarrow> Inl (BadLoad (sf_k i))
           | Some v \<Rightarrow> run prog nr arch args budget (pc + 1) v)
        else if sf_code i = BPF_JEQ_K then
          run prog nr arch args budget
            (pc + 1 + unat (if acc = sf_k i then sf_jt i else sf_jf i)) acc
        else if sf_code i = BPF_JSET_K then
          run prog nr arch args budget
            (pc + 1 + unat (if acc AND sf_k i \<noteq> 0 then sf_jt i else sf_jf i)) acc
        else if sf_code i = BPF_RET_K then Inr (sf_k i)
        else Inl (UnknownOpcode (sf_code i)))"

definition run_filter :: "sock_filter list \<Rightarrow> u32 \<Rightarrow> u32 \<Rightarrow> u64 list \<Rightarrow> run_error + u32" where
  "run_filter prog nr arch args = run prog nr arch args (length prog + 1) 0 0"

section \<open>Execution lemmas\<close>

lemma unat_u8: "n < 256 \<Longrightarrow> unat (of_nat n :: u8) = n"
  by (simp add: unat_of_nat)

lemma run_ld:
  assumes "pc < length prog" "prog ! pc = insn BPF_LD_W_ABS a b k" "load_abs nr arch args k = Some v"
  shows "run prog nr arch args (Suc n) pc acc = run prog nr arch args n (pc + 1) v"
  using assms by (simp add: insn_def)

lemma run_jeq:
  assumes "pc < length prog" "prog ! pc = insn BPF_JEQ_K a b k" "a < 256" "b < 256"
  shows "run prog nr arch args (Suc n) pc acc =
    run prog nr arch args n (pc + 1 + (if acc = k then a else b)) acc"
  using assms by (simp add: insn_def unat_u8 BPF_LD_W_ABS_def BPF_JEQ_K_def)

lemma run_jset:
  assumes "pc < length prog" "prog ! pc = insn BPF_JSET_K a b k" "a < 256" "b < 256"
  shows "run prog nr arch args (Suc n) pc acc =
    run prog nr arch args n (pc + 1 + (if acc AND k \<noteq> 0 then a else b)) acc"
  using assms by (simp add: insn_def unat_u8 BPF_LD_W_ABS_def BPF_JEQ_K_def BPF_JSET_K_def)

lemma run_ret:
  assumes "pc < length prog" "prog ! pc = insn BPF_RET_K a b k" "0 < n"
  shows "run prog nr arch args n pc acc = Inr k"
  using assms by (cases n) (simp_all add: insn_def abi_defs)

declare run.simps [simp del]

lemma load_arch: "load_abs nr arch args SECCOMP_DATA_ARCH = Some arch"
  by (simp add: load_abs_def abi_defs)

lemma load_nr: "load_abs nr arch args SECCOMP_DATA_NR = Some nr"
  by (simp add: load_abs_def)

lemma load_dest_lo: "load_abs nr arch args SENDTO_DEST_LO = Some (ucast (args ! 4))"
  by (simp add: load_abs_def abi_defs)

lemma load_dest_hi: "load_abs nr arch args SENDTO_DEST_HI = Some (ucast (drop_bit 32 (args ! 4)))"
  by (simp add: load_abs_def abi_defs)

lemma halves_zero: "(ucast a :: u32) = 0 \<and> (ucast (drop_bit 32 a) :: u32) = 0 \<longleftrightarrow> (a :: u64) = 0"
proof
  assume z: "(ucast a :: u32) = 0 \<and> (ucast (drop_bit 32 a) :: u32) = 0"
  show "a = 0"
  proof (rule bit_word_eqI)
    fix n assume "n < LENGTH(64)"
    have "\<not> bit (ucast a :: u32) n" "\<not> bit (ucast (drop_bit 32 a) :: u32) (n - 32)"
      using z by simp_all
    with \<open>n < LENGTH(64)\<close> show "bit a n = bit 0 n"
      by (cases "n < 32") (auto simp: bit_simps)
  qed
qed simp

definition table_len :: "u32 list \<Rightarrow> nat" where
  "table_len ts = sum_list (map (\<lambda>nr. if nr = NR_SENDTO then 5 else 1) ts)"

lemma emit_extends: "\<exists>b. foldl (emit_nr a n) prog ts = prog @ b \<and> length b = table_len ts"
proof (induction ts arbitrary: prog)
  case (Cons t ts)
  obtain c where c: "emit_nr a n prog t = prog @ c" "length c = (if t = NR_SENDTO then 5 else 1)"
    by (cases "t = NR_SENDTO") (simp_all add: emit_nr_def Let_def)
  obtain b where "foldl (emit_nr a n) (prog @ c) ts = (prog @ c) @ b" "length b = table_len ts"
    using Cons.IH by blast
  with c show ?case by (intro exI [of _ "c @ b"]) (simp add: table_len_def)
qed (simp add: table_len_def)

text \<open>
  The heart of the correctness proof: from the first instruction of the tests of \<open>ts\<close>, with the
  system call number in the accumulator, the program answers according to \<open>ts\<close>.
\<close>

definition routed :: "u32 list \<Rightarrow> u32 \<Rightarrow> u64 list \<Rightarrow> bool" where
  "routed ts nr args = (nr \<in> set ts \<and> (nr = NR_SENDTO \<longrightarrow> args ! 4 \<noteq> 0))"


lemma at_offset: "pc = length xs \<Longrightarrow> k < length ys \<Longrightarrow> (xs @ ys @ zs) ! (pc + k) = ys ! k"
  by (simp add: nth_append)

lemma run_table:
  assumes "P = foldl (emit_nr a n) prog ts @ [insn BPF_RET_K 0 0 SECCOMP_RET_ALLOW,
      insn BPF_RET_K 0 0 SECCOMP_RET_USER_NOTIF]"
    and "a = length prog + table_len ts" and "n = Suc a" and "a < 256 + length prog"
    and "length P - length prog \<le> budget"
  shows "run P nr arch args budget (length prog) nr =
    Inr (if routed ts nr args then SECCOMP_RET_USER_NOTIF else SECCOMP_RET_ALLOW)"
  using assms
proof (induction ts arbitrary: prog budget)
  case Nil
  then have "P ! length prog = insn BPF_RET_K 0 0 SECCOMP_RET_ALLOW" by (simp add: nth_append)
  with Nil show ?case
    using run_ret [of "length prog" P 0 0 SECCOMP_RET_ALLOW budget] by (simp add: routed_def)
next
  case (Cons t ts)
  define c where "c = drop (length prog) (emit_nr a n prog t)"
  have c: "emit_nr a n prog t = prog @ c" by (simp add: c_def emit_nr_def Let_def)
  obtain b where b: "foldl (emit_nr a n) (prog @ c) ts = (prog @ c) @ b" "length b = table_len ts"
    using emit_extends by blast
  let ?pc = "length prog"
  have len_c: "length c = (if t = NR_SENDTO then 5 else 1)"
    by (cases "t = NR_SENDTO") (simp_all add: c_def emit_nr_def Let_def)
  have a_eq: "a = ?pc + length c + length b"
    using Cons.prems(2) b(2) len_c by (simp add: table_len_def)
  have P: "P = prog @ c @ (b @ [insn BPF_RET_K 0 0 SECCOMP_RET_ALLOW,
      insn BPF_RET_K 0 0 SECCOMP_RET_USER_NOTIF])"
    using Cons.prems(1) b(1) c by simp
  have at: "P ! (?pc + k) = c ! k" if "k < length c" for k
    unfolding P using at_offset [OF refl that] .
  have allow: "P ! a = insn BPF_RET_K 0 0 SECCOMP_RET_ALLOW"
    and notif: "P ! n = insn BPF_RET_K 0 0 SECCOMP_RET_USER_NOTIF"
    using P a_eq Cons.prems(3) by (simp_all add: nth_append)
  have len_P: "length P = Suc n" using P a_eq Cons.prems(3) by simp
  have to_allow: "run P nr arch args m a v = Inr SECCOMP_RET_ALLOW" if "0 < m" for m v
    using run_ret [OF _ allow that] len_P Cons.prems(3) by simp
  have to_notif: "run P nr arch args m n v = Inr SECCOMP_RET_USER_NOTIF" if "0 < m" for m v
    using run_ret [OF _ notif that] len_P by simp
  have rest: "run P nr arch args m (?pc + length c) nr =
      Inr (if routed ts nr args then SECCOMP_RET_USER_NOTIF else SECCOMP_RET_ALLOW)"
    if "length P - (?pc + length c) \<le> m" for m
    using Cons.IH [of "prog @ c" m] Cons.prems that c len_c b by (simp add: a_eq)
  show ?case
  proof (cases "t = NR_SENDTO")
    case False
    then have c1: "c = [insn BPF_JEQ_K (jump_to n ?pc) 0 t]" by (simp add: c_def emit_nr_def Let_def)
    obtain m where m: "budget = Suc m" "0 < m" "length P - (?pc + 1) \<le> m"
      using Cons.prems(5) len_P a_eq Cons.prems(3) by (cases budget) auto
    have "?pc < length P" using len_P a_eq Cons.prems(3) by simp
    moreover have "P ! ?pc = insn BPF_JEQ_K (jump_to n ?pc) 0 t" using at [of 0] c1 by simp
    moreover have "jump_to n ?pc < 256" using a_eq Cons.prems(3,4) by (simp add: jump_to_def)
    ultimately have "run P nr arch args (Suc m) ?pc nr =
        run P nr arch args m (?pc + 1 + (if nr = t then jump_to n ?pc else 0)) nr"
      by (rule run_jeq) simp
    moreover have "?pc + 1 + jump_to n ?pc = n" using a_eq Cons.prems(3) by (simp add: jump_to_def)
    ultimately show ?thesis
      using to_notif [OF m(2)] rest [of m] m(3) c1 False m(1) by (auto simp: routed_def)
  next
    case True
    then have c5: "c = [insn BPF_JEQ_K 0 4 t, insn BPF_LD_W_ABS 0 0 SENDTO_DEST_LO,
        insn BPF_JEQ_K 0 (jump_to n (?pc + 2)) 0, insn BPF_LD_W_ABS 0 0 SENDTO_DEST_HI,
        insn BPF_JEQ_K (jump_to a (?pc + 4)) (jump_to n (?pc + 4)) 0]"
      by (simp add: c_def emit_nr_def Let_def)
    have len5: "length c = 5" using len_c True by simp
    have "7 \<le> length P - ?pc" using len_P a_eq Cons.prems(3) len5 by simp
    with Cons.prems(5) obtain m where m: "budget = Suc (Suc (Suc (Suc (Suc m))))" "2 \<le> m"
      "length P - (?pc + 5) \<le> m"
      by (intro that [of "budget - 5"]) auto
    have in_P: "?pc + 4 < length P" using len_P a_eq Cons.prems(3) len5 by simp
    have jumps: "jump_to n (?pc + 2) < 256" "jump_to a (?pc + 4) < 256" "jump_to n (?pc + 4) < 256"
      "?pc + 2 + 1 + jump_to n (?pc + 2) = n" "?pc + 4 + 1 + jump_to a (?pc + 4) = a"
      "?pc + 4 + 1 + jump_to n (?pc + 4) = n"
      using a_eq Cons.prems(3,4) len5 by (simp_all add: jump_to_def)
    let ?lo = "ucast (args ! 4) :: u32" and ?hi = "ucast (drop_bit 32 (args ! 4)) :: u32"
    have s1: "run P nr arch args (Suc k) ?pc nr =
        run P nr arch args k (?pc + 1 + (if nr = t then 0 else 4)) nr" for k
      using at [of 0] c5 len5 in_P by (intro run_jeq) simp_all
    have s2: "run P nr arch args (Suc k) (?pc + 1) nr = run P nr arch args k (?pc + 1 + 1) ?lo" for k
      using at [of 1] c5 len5 in_P by (intro run_ld [OF _ _ load_dest_lo, of _ _ 0 0]) simp_all
    have s3: "run P nr arch args (Suc k) (?pc + 2) v = run P nr arch args k
        (?pc + 2 + 1 + (if v = 0 then 0 else jump_to n (?pc + 2))) v" for k v
      using at [of 2] c5 len5 in_P jumps(1-3) by (intro run_jeq) simp_all
    have s4: "run P nr arch args (Suc k) (?pc + 3) v = run P nr arch args k (?pc + 3 + 1) ?hi" for k v
      using at [of 3] c5 len5 in_P by (intro run_ld [OF _ _ load_dest_hi, of _ _ 0 0]) simp_all
    have s5: "run P nr arch args (Suc k) (?pc + 4) v = run P nr arch args k
        (?pc + 4 + 1 + (if v = 0 then jump_to a (?pc + 4) else jump_to n (?pc + 4))) v" for k v
      using at [of 4] c5 len5 in_P jumps(1-3) by (intro run_jeq) simp_all
    show ?thesis
    proof (cases "nr = t")
      case False
      have "run P nr arch args budget ?pc nr =
          run P nr arch args (Suc (Suc (Suc (Suc m)))) (?pc + length c) nr"
        unfolding m(1) s1 len5 using False by (simp add: add.commute)
      then show ?thesis using rest [of "Suc (Suc (Suc (Suc m)))"] m(3) len5 True False
        by (simp add: routed_def)
    next
      case nr: True
      have run1: "run P nr arch args budget ?pc nr =
          run P nr arch args (Suc (Suc m)) (?pc + 2 + 1 + (if ?lo = 0 then 0 else jump_to n (?pc + 2))) ?lo"
        unfolding m(1) s1 using nr s2 s3 by simp
      show ?thesis
      proof (cases "?lo = 0")
        case False
        then have "args ! 4 \<noteq> 0" by auto
        with run1 False nr True jumps(4) to_notif show ?thesis by (simp add: routed_def)
      next
        case lo: True
        have "run P nr arch args budget ?pc nr =
            run P nr arch args m (?pc + 4 + 1 + (if ?hi = 0 then jump_to a (?pc + 4) else jump_to n (?pc + 4))) ?hi"
        proof -
          have e: "?pc + 2 + 1 + 0 = ?pc + 3" "?pc + 3 + 1 = ?pc + 4" by simp_all
          have "run P nr arch args budget ?pc nr = run P nr arch args (Suc (Suc m)) (?pc + 3) ?lo"
            using run1 unfolding if_P [OF lo] e .
          also have "\<dots> = run P nr arch args (Suc m) (?pc + 4) ?hi" unfolding s4 e ..
          also note s5
          finally show ?thesis .
        qed
        moreover have "?hi = 0 \<longleftrightarrow> args ! 4 = 0" using halves_zero [of "args ! 4"] lo by simp
        ultimately show ?thesis
          using nr True jumps(5,6) to_allow [of m] to_notif [of m] m(2) by (auto simp: routed_def)
      qed
    qed
  qed
qed


text \<open>The whole program for any table that holds \<open>sendto\<close> once and keeps the jumps in a byte.\<close>

lemma run_build_for:
  assumes "distinct ts" and "NR_SENDTO \<in> set ts" and "length ts + 7 \<le> 255"
  shows "run_filter (build_for ts) nr arch args =
    Inr (if arch \<noteq> AUDIT_ARCH_X86_64 \<or> nr AND X32_SYSCALL_BIT \<noteq> 0 \<or> routed ts nr args
         then SECCOMP_RET_USER_NOTIF else SECCOMP_RET_ALLOW)"
proof -
  have tl: "table_len ts = length ts + 4"
    using assms(1,2)
  proof (induction ts)
    case (Cons t ts)
    have "NR_SENDTO \<notin> set ts \<Longrightarrow> table_len ts = length ts"
      by (induction ts) (auto simp: table_len_def)
    with Cons show ?case by (auto simp: table_len_def)
  qed simp
  define a where "a = length ts + 8"
  define n where "n = length ts + 9"
  define hd4 where "hd4 = [insn BPF_LD_W_ABS 0 0 SECCOMP_DATA_ARCH,
      insn BPF_JEQ_K 0 (jump_to n 1) AUDIT_ARCH_X86_64, insn BPF_LD_W_ABS 0 0 SECCOMP_DATA_NR,
      insn BPF_JSET_K (jump_to n 3) 0 X32_SYSCALL_BIT]"
  define P where "P = build_for ts"
  have P: "P = foldl (emit_nr a n) hd4 ts @ [insn BPF_RET_K 0 0 SECCOMP_RET_ALLOW,
      insn BPF_RET_K 0 0 SECCOMP_RET_USER_NOTIF]"
    by (simp add: P_def build_for_def Let_def a_def n_def hd4_def add.commute)
  obtain b where b: "foldl (emit_nr a n) hd4 ts = hd4 @ b" "length b = table_len ts"
    using emit_extends by blast
  have len: "length P = n + 1" and len4: "length hd4 = 4"
    using P b tl by (simp_all add: n_def hd4_def)
  have at: "P ! k = hd4 ! k" if "k < 4" for k using P b that len4 by (simp add: nth_append)
  have notif: "P ! n = insn BPF_RET_K 0 0 SECCOMP_RET_USER_NOTIF"
    using P b tl len4 by (simp add: nth_append n_def)
  have j: "jump_to n 1 < 256" "jump_to n 3 < 256" "1 + 1 + jump_to n 1 = n" "3 + 1 + jump_to n 3 = n"
    using assms(3) by (simp_all add: jump_to_def n_def)
  have n4: "4 < n" by (simp add: n_def)
  have to_notif: "run P nr arch args (Suc m) n v = Inr SECCOMP_RET_USER_NOTIF" for m v
    using run_ret [OF _ notif, of "Suc m"] len by simp
  have s0: "run P nr arch args (Suc k) 0 v = run P nr arch args k 1 arch" for k v
    using at [of 0] len n4 by (subst run_ld [OF _ _ load_arch, of _ _ 0 0]) (simp_all add: hd4_def)
  have s1: "run P nr arch args (Suc k) 1 v = run P nr arch args k
      (if v = AUDIT_ARCH_X86_64 then 2 else n) v" for k v
    using at [of 1] len n4 j(1,3) run_jeq [of 1 P 0 "jump_to n 1" AUDIT_ARCH_X86_64 nr arch args k v]
    by (auto simp: hd4_def numeral_2_eq_2)
  have s2: "run P nr arch args (Suc k) 2 v = run P nr arch args k 3 nr" for k v
    using at [of 2] len n4 by (subst run_ld [OF _ _ load_nr, of _ _ 0 0]) (simp_all add: hd4_def)
  have s3: "run P nr arch args (Suc k) 3 v = run P nr arch args k
      (if v AND X32_SYSCALL_BIT \<noteq> 0 then n else 4) v" for k v
    using at [of 3] len n4 j(2,4) run_jset [of 3 P "jump_to n 3" 0 X32_SYSCALL_BIT nr arch args k v]
    by (simp add: hd4_def)
  have table: "run P nr arch args k 4 nr =
      Inr (if routed ts nr args then SECCOMP_RET_USER_NOTIF else SECCOMP_RET_ALLOW)"
    if "n - 3 \<le> k" for k
    using run_table [OF P, of k nr arch args] tl len4 len that assms(3) by (simp add: a_def n_def)
  obtain k where k: "length P + 1 = Suc (Suc (Suc (Suc (Suc k))))" "n - 3 \<le> Suc k"
    using len n4 by (intro that [of "n - 3"]) auto
  have "run P nr arch args (length P + 1) 0 0 =
      Inr (if arch \<noteq> AUDIT_ARCH_X86_64 \<or> nr AND X32_SYSCALL_BIT \<noteq> 0 \<or> routed ts nr args
           then SECCOMP_RET_USER_NOTIF else SECCOMP_RET_ALLOW)"
  proof (cases "arch = AUDIT_ARCH_X86_64")
    case True
    have "run P nr arch args (length P + 1) 0 0 =
        run P nr arch args (Suc k) (if nr AND X32_SYSCALL_BIT \<noteq> 0 then n else 4) nr"
      unfolding k(1) s0 s1 if_P [OF True] s2 s3 ..
    with True show ?thesis using to_notif table [OF k(2)] by (cases "nr AND X32_SYSCALL_BIT = 0") auto
  next
    case False
    have "run P nr arch args (length P + 1) 0 0 = run P nr arch args (Suc (Suc (Suc k))) n arch"
      unfolding k(1) s0 s1 if_not_P [OF False] ..
    with False show ?thesis using to_notif by simp
  qed
  then show ?thesis by (simp add: run_filter_def P_def)
qed

lemma tables_distinct: "distinct (MEDIATED @ DENIED_RECORDED)"
  by (simp add: MEDIATED_def DENIED_RECORDED_def abi_defs)

lemma sendto_tabled: "NR_SENDTO \<in> set MEDIATED"
  by (simp add: MEDIATED_def)

lemma tables_length: "length (MEDIATED @ DENIED_RECORDED) = 37"
  by (simp add: MEDIATED_def DENIED_RECORDED_def)

section \<open>Properties\<close>

text \<open>
  C12. What the kernel does with the installed program: for every system call number, every
  architecture word and every six arguments, the program runs to a return within its length, and
  notifies the supervisor exactly when the architecture is foreign, the x32 bit is set, or the
  number is tabled, except for \<open>sendto\<close> with a null 64-bit destination; everything else passes.
\<close>

theorem filter_routes_exactly:
  "run_filter build_filter nr arch args =
    Inr (if arch = AUDIT_ARCH_X86_64 \<and> nr AND X32_SYSCALL_BIT = 0 then
           if nr \<in> set MEDIATED \<union> set DENIED_RECORDED then
             if nr = NR_SENDTO \<and> args ! 4 = 0 then SECCOMP_RET_ALLOW else SECCOMP_RET_USER_NOTIF
           else SECCOMP_RET_ALLOW
         else SECCOMP_RET_USER_NOTIF)"
  unfolding build_filter_def using run_build_for [OF tables_distinct] sendto_tabled tables_length
  by (auto simp: routed_def)

end
