(* ===== verification/Rust_Path.thy ===== *)
theory Rust_Path imports Prelude begin

text \<open>
  The part of Rust's \<open>std::path\<close> (Unix) the sources use. A \<open>Path\<close> is the string of its bytes;
  equality, \<open>starts_with\<close>, \<open>parent\<close> and \<open>file_name\<close> work on its components, \<open>join\<close> on the text.
\<close>

type_synonym path = string

datatype path_component = RootDir | CurDir | ParentDir | Normal string

definition is_absolute :: "path \<Rightarrow> bool" where
  "is_absolute p = starts_with ''/'' p"

fun body_component :: "string \<Rightarrow> path_component list" where
  "body_component s = (if s = [] \<or> s = ''.'' then [] else if s = ''..'' then [ParentDir] else [Normal s])"

definition body_components :: "string list \<Rightarrow> path_component list" where
  "body_components ss = concat (map body_component ss)"

definition components :: "path \<Rightarrow> path_component list" where
  "components p =
     (if is_absolute p then RootDir # body_components (split_on CHR ''/'' (tl p))
      else case split_on CHR ''/'' p of
             [] \<Rightarrow> []
           | s # ss \<Rightarrow> (if s = ''.'' then [CurDir] else body_component s) @ body_components ss)"

definition path_eq :: "path \<Rightarrow> path \<Rightarrow> bool" where
  "path_eq a b = (components a = components b)"

text \<open>\<open>p.starts_with(base)\<close>.\<close>

definition path_starts_with :: "path \<Rightarrow> path \<Rightarrow> bool" where
  "path_starts_with p base = (take (length (components base)) (components p) = components base)"

definition path_join :: "path \<Rightarrow> path \<Rightarrow> path" where
  "path_join base p =
     (if is_absolute p then p
      else if base = [] \<or> last base = CHR ''/'' then base @ p
      else base @ CHR ''/'' # p)"

fun trivial_piece :: "string \<Rightarrow> bool" where
  "trivial_piece s = (s = [] \<or> s = ''.'')"

text \<open>Drop trailing pieces that are no component; a leading \<open>.\<close> of a relative path is one.\<close>

definition trim_pieces :: "bool \<Rightarrow> string list \<Rightarrow> string list" where
  "trim_pieces absolute ps =
     (let t = rev (dropWhile trivial_piece (rev ps))
      in if t = [] \<and> \<not> absolute \<and> ps \<noteq> [] \<and> hd ps = ''.'' then [''.''] else t)"

definition path_parent :: "path \<Rightarrow> path option" where
  "path_parent p =
     (let absolute = is_absolute p;
          t = trim_pieces absolute (split_on CHR ''/'' (if absolute then tl p else p))
      in if t = [] then None
         else Some ((if absolute then ''/'' else []) @
                    join_with ''/'' (trim_pieces absolute (butlast t))))"

definition path_file_name :: "path \<Rightarrow> string option" where
  "path_file_name p =
     (case rev (components p) of Normal s # _ \<Rightarrow> Some s | _ \<Rightarrow> None)"

text \<open>
  \<open>p.strip_prefix(base)\<close> for absolute paths: the text left after the components of \<open>base\<close>, with
  what is no component trimmed at both ends.
\<close>

fun drop_components :: "nat \<Rightarrow> string list \<Rightarrow> string list" where
  "drop_components 0 ps = ps"
| "drop_components (Suc n) [] = []"
| "drop_components (Suc n) (p # ps) =
     (if trivial_piece p then drop_components (Suc n) ps else drop_components n ps)"

definition path_strip_prefix :: "path \<Rightarrow> path \<Rightarrow> path option" where
  "path_strip_prefix p base =
     (if is_absolute p \<and> is_absolute base \<and> path_starts_with p base
      then Some (join_with ''/'' (rev (dropWhile trivial_piece (rev (dropWhile trivial_piece
             (drop_components (length (components base) - 1) (split_on CHR ''/'' (tl p))))))))
      else None)"

section \<open>Laws\<close>

lemma is_absolute_Cons [simp]: "is_absolute (c # p) \<longleftrightarrow> c = CHR ''/''"
  by (simp add: is_absolute_def starts_with_def)

lemma is_absolute_Nil [simp]: "\<not> is_absolute []"
  by (simp add: is_absolute_def starts_with_def)

lemma path_starts_with_iff:
  "path_starts_with p base \<longleftrightarrow> (\<exists>cs. components p = components base @ cs)"
  unfolding path_starts_with_def by (metis append_eq_conv_conj append_take_drop_id)

lemma path_starts_with_refl [simp]: "path_starts_with p p"
  by (simp add: path_starts_with_def)

lemma path_starts_with_trans:
  "path_starts_with p q \<Longrightarrow> path_starts_with q r \<Longrightarrow> path_starts_with p r"
  unfolding path_starts_with_iff by (metis append.assoc)

lemma join_absolute [simp]: "is_absolute p \<Longrightarrow> path_join base p = p"
  by (simp add: path_join_def)

lemma is_absolute_join: "is_absolute base \<Longrightarrow> is_absolute (path_join base p)"
  by (cases base) (auto simp: path_join_def)

lemma body_components_append [simp]:
  "body_components (a @ b) = body_components a @ body_components b"
  by (simp add: body_components_def)

lemma body_components_split_sep:
  "body_components (split_on CHR ''/'' (a @ CHR ''/'' # b)) =
   body_components (split_on CHR ''/'' a) @ body_components (split_on CHR ''/'' b)"
  by (simp add: split_on_append_sep)

lemma body_components_Nil_piece [simp]: "body_components ([] # ss) = body_components ss"
  by (simp add: body_components_def)

lemma components_absolute: "components (CHR ''/'' # p) = RootDir # body_components (split_on CHR ''/'' p)"
  by (simp add: components_def)

text \<open>Joining a relative path below an absolute base appends its components.\<close>

lemma components_join:
  assumes "is_absolute base" and "\<not> is_absolute p"
  shows "components (path_join base p) = components base @ body_components (split_on CHR ''/'' p)"
proof -
  obtain b where b: "base = CHR ''/'' # b" using assms(1) by (cases base) auto
  show ?thesis
  proof (cases "b = [] \<or> last b = CHR ''/''")
    case True
    show ?thesis
    proof (cases "b = []")
      case True
      then show ?thesis using assms b
        by (simp add: path_join_def components_absolute) (simp add: body_components_def)
    next
      case False
      then obtain b' where b': "b = b' @ [CHR ''/'']"
        using True by (metis append_butlast_last_id)
      then have "path_join base p = CHR ''/'' # (b' @ CHR ''/'' # p)"
        using assms b by (simp add: path_join_def)
      moreover have "body_components (split_on CHR ''/'' b) = body_components (split_on CHR ''/'' b')"
        unfolding b' by (simp add: split_on_append_sep) (simp add: body_components_def)
      ultimately show ?thesis
        using b by (simp add: components_absolute body_components_split_sep)
    qed
  next
    case False
    then have "path_join base p = CHR ''/'' # (b @ CHR ''/'' # p)"
      using assms b by (simp add: path_join_def)
    then show ?thesis using b by (simp add: components_absolute body_components_split_sep)
  qed
qed

lemma join_starts_with:
  assumes "is_absolute base" and "\<not> is_absolute p"
  shows "path_starts_with (path_join base p) base"
  unfolding path_starts_with_iff components_join [OF assms] by blast

section \<open>Ancestors\<close>

lemma join_take_length: "length (join_with [d] (take k ps)) \<le> length (join_with [d] ps)"
proof (induction ps arbitrary: k)
  case (Cons x xs)
  show ?case
  proof (cases k)
    case (Suc j)
    then show ?thesis using Cons.IH [of j] by (cases xs; cases j) auto
  qed simp
qed simp

lemma join_take_length_strict:
  "k < length ps \<Longrightarrow> last ps \<noteq> [] \<Longrightarrow> length (join_with [d] (take k ps)) < length (join_with [d] ps)"
proof (induction ps arbitrary: k)
  case (Cons x xs)
  show ?case
  proof (cases k)
    case 0
    with Cons.prems show ?thesis by (cases xs) auto
  next
    case (Suc j)
    with Cons.prems have "length (join_with [d] (take j xs)) < length (join_with [d] xs)"
      by (intro Cons.IH) (auto split: if_splits)
    with Suc show ?thesis by (cases xs; cases j) auto
  qed
qed simp

lemma rev_dropWhile_take: "\<exists>k. rev (dropWhile Q (rev ps)) = take k ps"
proof -
  have "rev ps = takeWhile Q (rev ps) @ dropWhile Q (rev ps)" by simp
  then have "ps = rev (dropWhile Q (rev ps)) @ rev (takeWhile Q (rev ps))"
    by (metis rev_append rev_rev_ident)
  then show ?thesis by (metis append_eq_conv_conj)
qed

lemma trim_pieces_take:
  obtains k where "trim_pieces a ps = take k ps" "trim_pieces a ps \<noteq> [] \<longrightarrow> last (trim_pieces a ps) \<noteq> []"
proof -
  let ?t = "rev (dropWhile trivial_piece (rev ps))"
  consider "trim_pieces a ps = ?t" | "trim_pieces a ps = [''.'']" "ps \<noteq> []" "hd ps = ''.''"
    unfolding trim_pieces_def Let_def by argo
  then show thesis
  proof cases
    case 1
    have "last ?t \<noteq> []" if "?t \<noteq> []"
      using that hd_dropWhile [of trivial_piece "rev ps"] by (auto simp: last_rev)
    then show thesis using that 1 rev_dropWhile_take [of trivial_piece ps] by metis
  next
    case 2
    then show thesis by (intro that [of 1]) (cases ps, auto)
  qed
qed

lemma path_parent_length:
  assumes "path_parent p = Some q"
  shows "length q < length p"
proof -
  let ?a = "is_absolute p"
  let ?ps = "split_on CHR ''/'' (if ?a then tl p else p)"
  let ?t = "trim_pieces ?a ?ps"
  have t: "?t \<noteq> []" and q: "q = (if ?a then ''/'' else []) @ join_with ''/'' (trim_pieces ?a (butlast ?t))"
    using assms unfolding path_parent_def Let_def by (metis option.distinct(1), metis option.distinct(1) option.inject)
  obtain k where k: "?t = take k ?ps" and l: "last ?t \<noteq> []"
    by (rule trim_pieces_take [of ?a ?ps]) (use t in blast)
  obtain j where j: "trim_pieces ?a (butlast ?t) = take j (butlast ?t)"
    by (rule trim_pieces_take) blast
  have "take j (butlast ?t) = take (min j (length ?t - 1)) ?t" by (simp add: butlast_conv_take)
  moreover have "min j (length ?t - 1) < length ?t" using t by (cases ?t) auto
  ultimately have "length (join_with ''/'' (trim_pieces ?a (butlast ?t))) < length (join_with ''/'' ?t)"
    using join_take_length_strict [OF _ l] j by metis
  also have "\<dots> \<le> length (join_with ''/'' ?ps)" unfolding k by (rule join_take_length)
  also have "\<dots> = length (if ?a then tl p else p)" by (simp only: join_split_on)
  finally show ?thesis using q by (cases p) (auto split: if_splits)
qed

text \<open>\<open>while let Some(parent) = existing.parent()\<close> visits these, nearest first.\<close>

function ancestors :: "path \<Rightarrow> path list" where
  "ancestors p = (case path_parent p of None \<Rightarrow> [] | Some q \<Rightarrow> q # ancestors q)"
  by auto
termination by (relation "measure length") (auto intro: path_parent_length)

declare ancestors.simps [simp del]

end
