(* ===== verification/Recorder.thy ===== *)
theory Recorder imports Rust_Path begin

text \<open>
  \<open>src/src/recorder.rs\<close>: the trace vocabulary (events, facts, decisions), the trace writer, the
  run id and the state root. The JSON encoder (\<open>serde_json\<close>) and the sink the bytes go to are
  parameters: an encoder is a function to an error or the bytes of one line, a sink a state with
  a write and a flush operation that may fail.
\<close>

section \<open>The trace vocabulary\<close>

definition TRACE_SCHEMA_VERSION :: nat where
  "TRACE_SCHEMA_VERSION = 1"

datatype mode = RecordOnly | Enforce

datatype attendance = Attended | Unattended

datatype snapshot_mechanism = Overlay | Copy

record run_meta =
  rm_schema_version :: nat
  rm_mode :: mode
  rm_attendance :: attendance
  rm_policy_digest :: "string option"
  rm_kernel :: string
  rm_landlock_abi :: "nat option"
  rm_landlock_residuals :: "string list option"
  rm_snapshot_mechanism :: snapshot_mechanism
  rm_snapshot_reason :: string
  rm_argv :: "string list"
  rm_workspace :: path
  rm_start_ts :: nat

datatype fs_access = AccRead | AccWrite | AccCreate | AccDelete

datatype decision = Allow | Deny | Ask

datatype ask_resolution = Approved | Denied | TimedOut | NoOperator

datatype fs_operand = PathOperand | DestOperand

record fs_operand_decision =
  od_operand :: fs_operand
  od_access :: fs_access
  od_decision :: decision
  od_ask_resolution :: "ask_resolution option"
  od_matched_rule :: string

datatype fact =
    FsFact path "fs_access list" "path option"
  | NetFact string u16
  | ProcessFact "u64 option"
  | CrossProcessFact u32
  | ExecFact path
  | RawFact

record syscall_event =
  ev_pid :: u32
  ev_syscall :: string
  ev_fact :: fact
  ev_decision :: decision
  ev_ask_resolution :: "ask_resolution option"
  ev_matched_rule :: string
  ev_would_deny :: "bool option"
  ev_operand_decisions :: "fs_operand_decision list option"

datatype event_body =
    RunStart run_meta
  | SyscallBody syscall_event
  | Step nat
  | RunEnd "int option" "int option" nat

record event =
  e_seq :: nat
  e_ts :: nat
  e_body :: event_body

datatype 'io recorder_error =
    ClockBeforeEpoch | Random string | Serialize string | WriteFailed 'io | Setup 'io

section \<open>The trace writer\<close>

text \<open>A sink: its state, \<open>write_all\<close>, \<open>flush\<close> and \<open>sync\<close> of the implementing type.\<close>

record ('s, 'io) sink_ops =
  so_write_all :: "string \<Rightarrow> 's \<Rightarrow> ('io + unit) \<times> 's"
  so_flush :: "'s \<Rightarrow> ('io + unit) \<times> 's"
  so_sync :: "'s \<Rightarrow> ('io + unit) \<times> 's"

record 's trace_writer =
  tw_sink :: 's
  tw_next_seq :: nat

definition new_writer :: "'s \<Rightarrow> 's trace_writer" where
  "new_writer s = \<lparr>tw_sink = s, tw_next_seq = 0\<rparr>"

definition trace_append ::
  "(event \<Rightarrow> string + string) \<Rightarrow> ('s, 'io) sink_ops \<Rightarrow> nat \<Rightarrow> event_body \<Rightarrow> 's trace_writer \<Rightarrow>
   ('io recorder_error + nat) \<times> 's trace_writer" where
  "trace_append encode ops ts body w =
     (let seq = tw_next_seq w
      in case encode \<lparr>e_seq = seq, e_ts = ts, e_body = body\<rparr> of
           Inl e \<Rightarrow> (Inl (Serialize e), w)
         | Inr line \<Rightarrow>
             (case so_write_all ops (line @ [CHR 0x0A]) (tw_sink w) of
                (Inl e, s) \<Rightarrow> (Inl (WriteFailed e), w\<lparr>tw_sink := s\<rparr>)
              | (Inr _, s) \<Rightarrow> (Inr seq, w\<lparr>tw_sink := s, tw_next_seq := seq + 1\<rparr>)))"

definition trace_sync ::
  "('s, 'io) sink_ops \<Rightarrow> 's trace_writer \<Rightarrow> ('io recorder_error + unit) \<times> 's trace_writer" where
  "trace_sync ops w =
     (case so_flush ops (tw_sink w) of
        (Inl e, s) \<Rightarrow> (Inl (WriteFailed e), w\<lparr>tw_sink := s\<rparr>)
      | (Inr _, s) \<Rightarrow>
          (case so_sync ops s of
             (Inl e, s') \<Rightarrow> (Inl (WriteFailed e), w\<lparr>tw_sink := s'\<rparr>)
           | (Inr _, s') \<Rightarrow> (Inr (), w\<lparr>tw_sink := s'\<rparr>)))"

text \<open>The events a caller appends in order, stopping at the first failure.\<close>

fun append_all ::
  "(event \<Rightarrow> string + string) \<Rightarrow> ('s, 'io) sink_ops \<Rightarrow> (nat \<times> event_body) list \<Rightarrow> 's trace_writer \<Rightarrow>
   ('io recorder_error + unit) \<times> 's trace_writer" where
  "append_all encode ops [] w = (Inr (), w)"
| "append_all encode ops ((ts, b) # bs) w =
     (case trace_append encode ops ts b w of
        (Inl e, w') \<Rightarrow> (Inl e, w')
      | (Inr _, w') \<Rightarrow> append_all encode ops bs w')"

section \<open>Run ids and the state root\<close>

definition default_state_root :: "string option \<Rightarrow> string option \<Rightarrow> path option" where
  "default_state_root xdg home =
     (case (xdg, home) of
        (Some x, h) \<Rightarrow>
          if x \<noteq> [] then Some (path_join x ''leash'')
          else (case h of Some hm \<Rightarrow> if hm \<noteq> [] then Some (path_join hm ''.local/state/leash'') else None
                        | None \<Rightarrow> None)
      | (None, Some hm) \<Rightarrow> if hm \<noteq> [] then Some (path_join hm ''.local/state/leash'') else None
      | (None, None) \<Rightarrow> None)"

text \<open>\<open>civil_from_days\<close> over \<open>i64\<close>; \<open>/\<close> truncates toward zero, so it is \<open>sdiv\<close> written out.\<close>

definition tdiv :: "int \<Rightarrow> int \<Rightarrow> int" where
  "tdiv a b = (if a < 0 then - ((- a) div b) else a div b)"

definition civil_from_days :: "int \<Rightarrow> int \<times> int \<times> int" where
  "civil_from_days z0 =
     (let z = z0 + 719468;
          era = tdiv (if z \<ge> 0 then z else z - 146096) 146097;
          doe = z - era * 146097;
          yoe = tdiv (doe - tdiv doe 1460 + tdiv doe 36524 - tdiv doe 146096) 365;
          doy = doe - (365 * yoe + tdiv yoe 4 - tdiv yoe 100);
          mp = tdiv (5 * doy + 2) 153;
          d = doy - tdiv (153 * mp + 2) 5 + 1;
          m = (if mp < 10 then mp + 3 else mp - 9);
          y = yoe + era * 400 + (if m \<le> 2 then 1 else 0)
      in (y, m, d))"

definition pad :: "nat \<Rightarrow> int \<Rightarrow> string" where
  "pad w i = (let s = show_int i in replicate (w - length s) CHR ''0'' @ s)"

definition format_utc_compact :: "nat \<Rightarrow> string" where
  "format_utc_compact secs =
     (let days = secs div 86400; r = secs mod 86400; (y, m, d) = civil_from_days (int days)
      in pad 4 y @ pad 2 m @ pad 2 d @ ''T'' @ pad 2 (int (r div 3600)) @
         pad 2 (int (r mod 3600 div 60)) @ pad 2 (int (r mod 60)) @ ''Z'')"

definition base32 :: string where
  "base32 = ''abcdefghijklmnopqrstuvwxyz234567''"

definition run_id_suffix :: "u32 \<Rightarrow> string" where
  "run_id_suffix bits = map (\<lambda>i. base32 ! unat (drop_bit (5 * i) bits AND 0x1F)) [0..<6]"

text \<open>The clock reading is \<open>None\<close> before the epoch; the random source gives its four bytes.\<close>

definition generate_run_id :: "nat option \<Rightarrow> string + u32 \<Rightarrow> 'io recorder_error + string" where
  "generate_run_id now random =
     and_then (ok_or ClockBeforeEpoch now) (\<lambda>secs.
     and_then (map_err Random random) (\<lambda>bits.
       Inr (format_utc_compact secs @ ''-'' @ run_id_suffix bits)))"

section \<open>What the writer guarantees\<close>

definition newline :: char where
  "newline = CHR 0x0A"

text \<open>A sink that either reports an error or has taken the whole line after what it held.\<close>

definition honest_sink :: "('s \<Rightarrow> string) \<Rightarrow> ('s, 'io) sink_ops \<Rightarrow> bool" where
  "honest_sink content ops \<longleftrightarrow>
     (\<forall>l s s'. so_write_all ops l s = (Inr (), s') \<longrightarrow> content s' = content s @ l)"

lemma trace_append_Ok:
  assumes "trace_append encode ops ts b w = (Inr n, w')"
  shows "n = tw_next_seq w \<and> tw_next_seq w' = Suc n \<and>
    (\<exists>line. encode \<lparr>e_seq = n, e_ts = ts, e_body = b\<rparr> = Inr line \<and>
            so_write_all ops (line @ [newline]) (tw_sink w) = (Inr (), tw_sink w'))"
  using assms by (auto simp: trace_append_def Let_def newline_def split: sum.splits prod.splits)

lemma trace_append_Err:
  "trace_append encode ops ts b w = (Inl e, w') \<Longrightarrow> tw_next_seq w' = tw_next_seq w"
  by (auto simp: trace_append_def Let_def split: sum.splits prod.splits)

fun encode_all :: "(event \<Rightarrow> string + string) \<Rightarrow> nat \<Rightarrow> (nat \<times> event_body) list \<Rightarrow> string + string list" where
  "encode_all encode n [] = Inr []"
| "encode_all encode n ((ts, b) # bs) =
     and_then (encode \<lparr>e_seq = n, e_ts = ts, e_body = b\<rparr>) (\<lambda>l.
     and_then (encode_all encode (Suc n) bs) (\<lambda>ls. Inr (l # ls)))"

lemma append_all_lines:
  assumes "honest_sink content ops" and "append_all encode ops bs w = (Inr (), w')"
  shows "\<exists>ls. encode_all encode (tw_next_seq w) bs = Inr ls \<and>
    content (tw_sink w') = content (tw_sink w) @ concat (map (\<lambda>l. l @ [newline]) ls) \<and>
    tw_next_seq w' = tw_next_seq w + length bs"
  using assms(2)
proof (induction bs arbitrary: w)
  case Nil
  then show ?case by simp
next
  case (Cons b bs)
  obtain ts body where b: "b = (ts, body)" by (cases b)
  then obtain n v where v: "trace_append encode ops ts body w = (Inr n, v)"
    "append_all encode ops bs v = (Inr (), w')"
    using Cons.prems by (auto split: prod.splits sum.splits)
  from trace_append_Ok [OF v(1)] obtain l where
    l: "n = tw_next_seq w" "tw_next_seq v = Suc n"
       "encode \<lparr>e_seq = n, e_ts = ts, e_body = body\<rparr> = Inr l"
       "so_write_all ops (l @ [newline]) (tw_sink w) = (Inr (), tw_sink v)" by blast
  moreover have "content (tw_sink v) = content (tw_sink w) @ l @ [newline]"
    using assms(1) l(4) by (auto simp: honest_sink_def)
  ultimately show ?case using Cons.IH [OF v(2)] b by auto
qed

lemma split_lines:
  "\<forall>l \<in> set ls. newline \<notin> set l \<Longrightarrow>
   split_on newline (concat (map (\<lambda>l. l @ [newline]) ls)) = ls @ [[]]"
proof (induction ls)
  case (Cons l ls)
  have "split_on newline (l @ newline # concat (map (\<lambda>l. l @ [newline]) ls)) = [l] @ ls @ [[]]"
    unfolding split_on_append_sep using Cons split_on_no_sep [of newline l] by simp
  then show ?case by simp
qed simp

lemma encode_all_newlines:
  assumes "\<And>e l. encode e = Inr l \<Longrightarrow> newline \<notin> set l" and "encode_all encode n bs = Inr ls"
  shows "length ls = length bs \<and> (\<forall>l \<in> set ls. newline \<notin> set l)"
  using assms(2)
proof (induction bs arbitrary: n ls)
  case (Cons b bs)
  then show ?case using assms(1) by (cases b) (fastforce simp: result_simps)
qed simp

section \<open>Properties\<close>

text \<open>
  The trace is append-only, gapless and line-per-event: after a successful series of appends
  the sink holds exactly what it held before followed by one line per event, in order, event
  \<open>i\<close> encoded with sequence number \<open>next_seq + i\<close>; and when the encoder emits no raw newline
  (compact JSON escapes it), splitting a fresh trace at newlines gives back the encoded events.
\<close>

theorem trace_is_line_per_event:
  assumes "honest_sink content ops" and "\<And>e l. encode e = Inr l \<Longrightarrow> newline \<notin> set l"
    and "content s = []" and "append_all encode ops bs (new_writer s) = (Inr (), w')"
  shows "\<exists>ls. encode_all encode 0 bs = Inr ls \<and> length ls = length bs \<and>
    split_on newline (content (tw_sink w')) = ls @ [[]] \<and> tw_next_seq w' = length bs"
  using append_all_lines [OF assms(1,4)] assms(3) encode_all_newlines [of encode, OF assms(2)]
  by (auto simp: new_writer_def split_lines)

definition buffer_ops :: "(string, unit) sink_ops" where
  "buffer_ops = \<lparr>so_write_all = (\<lambda>l s. (Inr (), s @ l)), so_flush = (\<lambda>s. (Inr (), s)),
                 so_sync = (\<lambda>s. (Inr (), s))\<rparr>"

lemma trace_is_line_per_event_witness:
  "\<exists>ls. encode_all (\<lambda>e. Inr (show_nat (e_seq e))) 0 [(7, Step 1), (8, Step 2)] = Inr ls \<and>
    length ls = length [(7 :: nat, Step 1), (8, Step 2)] \<and>
    split_on newline (id (tw_sink \<lparr>tw_sink = show_nat 0 @ [newline] @ show_nat 1 @ [newline],
      tw_next_seq = 2\<rparr>)) = ls @ [[]] \<and>
    tw_next_seq \<lparr>tw_sink = show_nat 0 @ [newline] @ show_nat 1 @ [newline], tw_next_seq = 2\<rparr> =
      length [(7 :: nat, Step 1), (8, Step 2)]"
proof (rule trace_is_line_per_event [where ops = buffer_ops and s = "[]"])
  show "honest_sink id buffer_ops" by (simp add: honest_sink_def buffer_ops_def)
  show "newline \<notin> set l" if "Inr (show_nat (e_seq e)) = (Inr l :: string + string)"
    for e :: event and l
    using that show_nat_digits [of "e_seq e"] by (auto simp: newline_def is_digit_def code_def)
  show "append_all (\<lambda>e. Inr (show_nat (e_seq e))) buffer_ops [(7, Step 1), (8, Step 2)]
      (new_writer []) =
    (Inr (), \<lparr>tw_sink = show_nat 0 @ [newline] @ show_nat 1 @ [newline], tw_next_seq = 2\<rparr>)"
    by (simp add: trace_append_def buffer_ops_def new_writer_def newline_def)
qed simp

end
