(* ===== verification/Fact_Table.thy ===== *)
theory Fact_Table imports Seccomp_Filter Recorder begin

text \<open>
  \<open>src/src/supervisor/fact.rs\<close>: for a trapped system call number, which registers hold path
  pointers and which access the call requests. Register positions are indices into the six
  arguments of the notification.
\<close>

section \<open>Shapes\<close>

definition O_ACCMODE :: u64 where [abi_defs]: "O_ACCMODE = 3"
definition O_WRONLY :: u64 where [abi_defs]: "O_WRONLY = 1"
definition O_RDWR :: u64 where [abi_defs]: "O_RDWR = 2"
definition O_CREAT :: u64 where [abi_defs]: "O_CREAT = 0x40"
definition O_TRUNC :: u64 where [abi_defs]: "O_TRUNC = 0x200"
definition AT_FDCWD :: u64 where [abi_defs]: "AT_FDCWD = ucast (- 100 :: u32)"

record path_arg =
  pa_path_arg :: nat
  pa_dirfd_arg :: "nat option"
  pa_anchor :: bool

definition pa_at :: "nat \<Rightarrow> nat \<Rightarrow> path_arg" where
  "pa_at dirfd p = \<lparr>pa_path_arg = p, pa_dirfd_arg = Some dirfd, pa_anchor = True\<rparr>"

definition pa_cwd :: "nat \<Rightarrow> path_arg" where
  "pa_cwd p = \<lparr>pa_path_arg = p, pa_dirfd_arg = None, pa_anchor = True\<rparr>"

definition pa_verbatim :: "nat \<Rightarrow> path_arg" where
  "pa_verbatim p = \<lparr>pa_path_arg = p, pa_dirfd_arg = None, pa_anchor = False\<rparr>"

datatype access_spec = Fixed "fs_access list" | OpenFlags nat | OpenHow nat

record fs_shape_rec =
  fs_name :: string
  fs_path :: path_arg
  fs_dest :: "path_arg option"
  fs_access_spec :: access_spec

definition shape :: "string \<Rightarrow> path_arg \<Rightarrow> path_arg option \<Rightarrow> access_spec \<Rightarrow> fs_shape_rec" where
  "shape n p d a = \<lparr>fs_name = n, fs_path = p, fs_dest = d, fs_access_spec = a\<rparr>"

definition fs_shape :: "u32 \<Rightarrow> fs_shape_rec option" where
  "fs_shape nr =
    (if nr = NR_OPEN then Some (shape ''open'' (pa_cwd 0) None (OpenFlags 1))
     else if nr = NR_CREAT then Some (shape ''creat'' (pa_cwd 0) None (Fixed [AccWrite, AccCreate]))
     else if nr = NR_OPENAT then Some (shape ''openat'' (pa_at 0 1) None (OpenFlags 2))
     else if nr = NR_OPENAT2 then Some (shape ''openat2'' (pa_at 0 1) None (OpenHow 2))
     else if nr = NR_TRUNCATE then Some (shape ''truncate'' (pa_cwd 0) None (Fixed [AccWrite]))
     else if nr = NR_RENAME then Some (shape ''rename'' (pa_cwd 0) (Some (pa_cwd 1)) (Fixed [AccWrite]))
     else if nr = NR_RENAMEAT then Some (shape ''renameat'' (pa_at 0 1) (Some (pa_at 2 3)) (Fixed [AccWrite]))
     else if nr = NR_RENAMEAT2 then Some (shape ''renameat2'' (pa_at 0 1) (Some (pa_at 2 3)) (Fixed [AccWrite]))
     else if nr = NR_MKDIR then Some (shape ''mkdir'' (pa_cwd 0) None (Fixed [AccCreate]))
     else if nr = NR_MKDIRAT then Some (shape ''mkdirat'' (pa_at 0 1) None (Fixed [AccCreate]))
     else if nr = NR_RMDIR then Some (shape ''rmdir'' (pa_cwd 0) None (Fixed [AccDelete]))
     else if nr = NR_UNLINK then Some (shape ''unlink'' (pa_cwd 0) None (Fixed [AccDelete]))
     else if nr = NR_UNLINKAT then Some (shape ''unlinkat'' (pa_at 0 1) None (Fixed [AccDelete]))
     else if nr = NR_LINK then Some (shape ''link'' (pa_cwd 0) (Some (pa_cwd 1)) (Fixed [AccCreate]))
     else if nr = NR_LINKAT then Some (shape ''linkat'' (pa_at 0 1) (Some (pa_at 2 3)) (Fixed [AccCreate]))
     else if nr = NR_SYMLINK then Some (shape ''symlink'' (pa_verbatim 0) (Some (pa_cwd 1)) (Fixed [AccCreate]))
     else if nr = NR_SYMLINKAT then Some (shape ''symlinkat'' (pa_verbatim 0) (Some (pa_at 1 2)) (Fixed [AccCreate]))
     else if nr = NR_CHMOD then Some (shape ''chmod'' (pa_cwd 0) None (Fixed [AccWrite]))
     else if nr = NR_FCHMODAT then Some (shape ''fchmodat'' (pa_at 0 1) None (Fixed [AccWrite]))
     else if nr = NR_CHOWN then Some (shape ''chown'' (pa_cwd 0) None (Fixed [AccWrite]))
     else if nr = NR_FCHOWNAT then Some (shape ''fchownat'' (pa_at 0 1) None (Fixed [AccWrite]))
     else None)"

definition syscall_name :: "u32 \<Rightarrow> string option" where
  "syscall_name nr =
     (case fs_shape nr of
        Some s \<Rightarrow> Some (fs_name s)
      | None \<Rightarrow>
        if nr = NR_CLONE then Some ''clone''
          else if nr = NR_FORK then Some ''fork''
          else if nr = NR_VFORK then Some ''vfork''
          else if nr = NR_EXECVE then Some ''execve''
          else if nr = NR_EXECVEAT then Some ''execveat''
          else if nr = NR_CLONE3 then Some ''clone3''
          else if nr = NR_PTRACE then Some ''ptrace''
          else if nr = NR_PROCESS_VM_READV then Some ''process_vm_readv''
          else if nr = NR_PROCESS_VM_WRITEV then Some ''process_vm_writev''
          else if nr = NR_PIDFD_GETFD then Some ''pidfd_getfd''
          else if nr = NR_CONNECT then Some ''connect''
          else if nr = NR_SENDTO then Some ''sendto''
          else if nr = NR_BIND then Some ''bind''
          else if nr = NR_IO_URING_SETUP then Some ''io_uring_setup''
          else if nr = NR_IO_URING_ENTER then Some ''io_uring_enter''
          else if nr = NR_IO_URING_REGISTER then Some ''io_uring_register''
          else None)"

definition open_flags_access :: "u64 \<Rightarrow> fs_access list" where
  "open_flags_access flags =
     (let mode = flags AND O_ACCMODE;
          base = (if mode = O_WRONLY then [AccWrite]
                  else if mode = O_RDWR then [AccRead, AccWrite] else [AccRead]);
          trunc = (if flags AND O_TRUNC \<noteq> 0 \<and> AccWrite \<notin> set base then base @ [AccWrite] else base)
      in if flags AND O_CREAT \<noteq> 0 then trunc @ [AccCreate] else trunc)"

section \<open>Lemmas\<close>

definition fs_numbers :: "u32 set" where
  "fs_numbers = {NR_OPEN, NR_CREAT, NR_OPENAT, NR_OPENAT2, NR_TRUNCATE, NR_RENAME, NR_RENAMEAT,
     NR_RENAMEAT2, NR_MKDIR, NR_MKDIRAT, NR_RMDIR, NR_UNLINK, NR_UNLINKAT, NR_LINK, NR_LINKAT,
     NR_SYMLINK, NR_SYMLINKAT, NR_CHMOD, NR_FCHMODAT, NR_CHOWN, NR_FCHOWNAT}"

lemma fs_shape_None: "fs_shape nr = None \<longleftrightarrow> nr \<notin> fs_numbers"
  by (simp add: fs_shape_def fs_numbers_def)

lemma fs_shape_cases:
  "fs_shape nr = Some s \<Longrightarrow> \<exists>n p d a. s = shape n p d a \<and>
     p \<in> {pa_cwd 0, pa_at 0 1, pa_verbatim 0} \<and>
     d \<in> {None, Some (pa_cwd 1), Some (pa_at 2 3), Some (pa_at 1 2)} \<and>
     a \<in> {Fixed [AccWrite], Fixed [AccCreate], Fixed [AccDelete], Fixed [AccWrite, AccCreate],
          OpenFlags 1, OpenFlags 2, OpenHow 2}"
  unfolding fs_shape_def by (auto split: if_splits)


definition arg_in_bounds :: "path_arg \<Rightarrow> bool" where
  "arg_in_bounds p = (pa_path_arg p < 6 \<and> (case pa_dirfd_arg p of None \<Rightarrow> True | Some d \<Rightarrow> d < 6))"

definition shape_in_bounds :: "fs_shape_rec \<Rightarrow> bool" where
  "shape_in_bounds s = (arg_in_bounds (fs_path s) \<and>
     (case fs_dest s of None \<Rightarrow> True | Some d \<Rightarrow> arg_in_bounds d) \<and>
     (case fs_access_spec s of Fixed as \<Rightarrow> as \<noteq> [] | OpenFlags i \<Rightarrow> i < 6 | OpenHow i \<Rightarrow> i < 6))"

lemmas path_arg_defs = pa_at_def pa_cwd_def pa_verbatim_def

lemma shape_in_bounds_fs_shape: "fs_shape nr = Some s \<Longrightarrow> shape_in_bounds s"
  using fs_shape_cases [of nr s]
  by (auto simp: shape_in_bounds_def arg_in_bounds_def shape_def path_arg_defs)

definition other_numbers :: "u32 list" where
  "other_numbers = [NR_CLONE, NR_FORK, NR_VFORK, NR_EXECVE, NR_EXECVEAT, NR_CLONE3, NR_PTRACE,
     NR_PROCESS_VM_READV, NR_PROCESS_VM_WRITEV, NR_PIDFD_GETFD, NR_CONNECT, NR_SENDTO, NR_BIND,
     NR_IO_URING_SETUP, NR_IO_URING_ENTER, NR_IO_URING_REGISTER]"

lemma syscall_name_None: "syscall_name nr = None \<longleftrightarrow> nr \<notin> fs_numbers \<and> nr \<notin> set other_numbers"
proof (cases "fs_shape nr")
  case None
  then show ?thesis using fs_shape_None [of nr] by (simp add: syscall_name_def other_numbers_def)
next
  case (Some s)
  then have "nr \<in> fs_numbers" using fs_shape_None [of nr] by auto
  with Some show ?thesis by (simp add: syscall_name_def)
qed

lemma tables_split: "set MEDIATED \<union> set DENIED_RECORDED = fs_numbers \<union> set other_numbers"
  by (auto simp: MEDIATED_def DENIED_RECORDED_def fs_numbers_def other_numbers_def)

lemma open_flags_access_set:
  "set (open_flags_access f) =
     (if f AND O_ACCMODE = O_WRONLY then {} else {AccRead}) \<union>
     (if f AND O_ACCMODE \<in> {O_WRONLY, O_RDWR} \<or> f AND O_TRUNC \<noteq> 0 then {AccWrite} else {}) \<union>
     (if f AND O_CREAT \<noteq> 0 then {AccCreate} else {})"
  by (auto simp: open_flags_access_def Let_def)

section \<open>Properties\<close>

text \<open>
  The filter and the fact table agree: the numbers the supervisor can name are exactly the
  numbers the filter routes to it, so no notification from the pinned architecture is unknown,
  and no argument index of a shape is outside the six registers.
\<close>

theorem fact_table_covers_filter:
  "(syscall_name nr \<noteq> None \<longleftrightarrow> nr \<in> set MEDIATED \<union> set DENIED_RECORDED) \<and>
   (case fs_shape nr of None \<Rightarrow> True | Some s \<Rightarrow> shape_in_bounds s)"
  unfolding tables_split using syscall_name_None [of nr] shape_in_bounds_fs_shape [of nr]
  by (auto split: option.split)

text \<open>
  The access of an open is exactly what its flags say: reading unless write-only, writing for
  the two write modes or truncation (also on a read-only open), creating with \<open>O_CREAT\<close>; it is
  never empty, holds nothing twice and never claims a delete.
\<close>

theorem open_flags_access_exact:
  "set (open_flags_access f) =
     (if f AND O_ACCMODE = O_WRONLY then {} else {AccRead}) \<union>
     (if f AND O_ACCMODE \<in> {O_WRONLY, O_RDWR} then {AccWrite}
      else if f AND O_TRUNC = 0 then {} else {AccWrite}) \<union>
     (if f AND O_CREAT \<noteq> 0 then {AccCreate} else {}) \<and>
   distinct (open_flags_access f) \<and> open_flags_access f \<noteq> []"
  unfolding open_flags_access_set by (auto simp: open_flags_access_def Let_def)

end
