(* ===== verification/Mem.thy ===== *)
theory Mem imports Prelude begin

text \<open>
  \<open>src/src/supervisor/mem.rs\<close>: bounded reads of child memory. The reader (\<open>pread\<close> on
  \<open>/proc/pid/mem\<close>) is a parameter over a state: it is given a position and a buffer size and
  gives an error or the bytes it put at the front of the buffer. The child may change its memory
  between two reads, so the state is threaded and nothing is assumed of it.
\<close>

section \<open>Operations\<close>

definition PATH_READ_CAP :: nat where "PATH_READ_CAP = 4096"
definition NETWORK_PAYLOAD_CAP :: nat where "NETWORK_PAYLOAD_CAP = 65535"
definition ABSOLUTE_READ_CAP :: nat where "ABSOLUTE_READ_CAP = NETWORK_PAYLOAD_CAP"
definition OPEN_HOW_FLAGS_SIZE :: nat where "OPEN_HOW_FLAGS_SIZE = 8"

datatype 'io mem_read_error = MemIo 'io | MappingEnded | NoNulWithinCap nat | Short nat nat

type_synonym ('s, 'io) mem_reader = "'s \<Rightarrow> u64 \<Rightarrow> nat \<Rightarrow> ('io + bytes) \<times> 's"

text \<open>
  The inner loop: fill a buffer of \<open>want\<close> bytes from \<open>pos\<close>; \<open>buf\<close> is the filled front, \<open>got\<close> its
  length. It stops at a zero-byte read, an error, or a full buffer.
\<close>

function fill ::
  "('s, 'io) mem_reader \<Rightarrow> u64 \<Rightarrow> nat \<Rightarrow> bytes \<Rightarrow> 's \<Rightarrow> ('io option \<times> bytes) \<times> 's" where
  "fill read_at pos want buf s =
     (if length buf < want then
        (case read_at s (pos + of_nat (length buf)) (want - length buf) of
           (Inl e, s') \<Rightarrow> ((Some e, buf), s')
         | (Inr bs, s') \<Rightarrow>
             if bs = [] then ((None, buf), s')
             else fill read_at pos want (buf @ take (want - length buf) bs) s')
      else ((None, buf), s))"
  by pat_completeness auto
termination
  by (relation "measure (\<lambda>(r, pos, want, buf, s). want - length buf)") (auto simp: neq_Nil_conv)

declare fill.simps [simp del]

definition nul_position :: "bytes \<Rightarrow> nat option" where
  "nul_position bs = (if 0 \<in> set bs then Some (length (takeWhile (\<lambda>b. b \<noteq> 0) bs)) else None)"

definition PAGE :: nat where "PAGE = 4096"

definition want_at :: "u64 \<Rightarrow> nat \<Rightarrow> nat" where
  "want_at pos room = min (PAGE - unat pos mod PAGE) room"

function cstr_loop ::
  "('s, 'io) mem_reader \<Rightarrow> u64 \<Rightarrow> nat \<Rightarrow> bytes \<Rightarrow> 's \<Rightarrow> ('io mem_read_error + bytes) \<times> 's" where
  "cstr_loop read_at addr cap out s =
     (if length out < cap then
        (let pos = addr + of_nat (length out);
             want = want_at pos (cap - length out);
             ((err, buf), s') = fill read_at pos want [] s
         in case nul_position buf of
              Some n \<Rightarrow> (Inr (out @ take n buf), s')
            | None \<Rightarrow>
                (case err of
                   Some e \<Rightarrow> (Inl (MemIo e), s')
                 | None \<Rightarrow>
                     if length buf < want then (Inl MappingEnded, s')
                     else cstr_loop read_at addr cap (out @ buf) s'))
      else (Inl (NoNulWithinCap cap), s))"
  by pat_completeness auto
termination
proof (relation "measure (\<lambda>(r, addr, cap, out, s). cap - length out)", goal_cases)
  case (2 read_at addr cap out s pos want res s' eb err buf)
  have "0 < want" using 2 by (simp add: want_at_def PAGE_def)
  with 2 show ?case by simp
qed simp

declare cstr_loop.simps [simp del]

definition read_cstr_capped ::
  "('s, 'io) mem_reader \<Rightarrow> u64 \<Rightarrow> nat \<Rightarrow> 's \<Rightarrow> ('io mem_read_error + bytes) \<times> 's" where
  "read_cstr_capped read_at addr cap s = cstr_loop read_at addr (min cap ABSOLUTE_READ_CAP) [] s"

function exact_loop ::
  "('s, 'io) mem_reader \<Rightarrow> u64 \<Rightarrow> nat \<Rightarrow> bytes \<Rightarrow> 's \<Rightarrow> ('io mem_read_error + bytes) \<times> 's" where
  "exact_loop read_at addr len buf s =
     (if length buf < len then
        (case read_at s (addr + of_nat (length buf)) (len - length buf) of
           (Inl e, s') \<Rightarrow> (Inl (MemIo e), s')
         | (Inr bs, s') \<Rightarrow>
             if bs = [] then (Inl (Short len (length buf)), s')
             else exact_loop read_at addr len (buf @ take (len - length buf) bs) s')
      else (Inr buf, s))"
  by pat_completeness auto
termination
  by (relation "measure (\<lambda>(r, addr, len, buf, s). len - length buf)") (auto simp: neq_Nil_conv)

declare exact_loop.simps [simp del]

definition read_exact_capped ::
  "('s, 'io) mem_reader \<Rightarrow> u64 \<Rightarrow> nat \<Rightarrow> 's \<Rightarrow> ('io mem_read_error + bytes) \<times> 's" where
  "read_exact_capped read_at addr len s = exact_loop read_at addr (min len ABSOLUTE_READ_CAP) [] s"

text \<open>\<open>ChildMem\<close>: the same over an opened \<open>/proc/pid/mem\<close>.\<close>

definition read_path :: "('s, 'io) mem_reader \<Rightarrow> u64 \<Rightarrow> 's \<Rightarrow> ('io mem_read_error + bytes) \<times> 's" where
  "read_path read_at addr s = read_cstr_capped read_at addr PATH_READ_CAP s"

definition read_exact :: "('s, 'io) mem_reader \<Rightarrow> u64 \<Rightarrow> nat \<Rightarrow> 's \<Rightarrow> ('io mem_read_error + bytes) \<times> 's" where
  "read_exact read_at addr len s = read_exact_capped read_at addr len s"

section \<open>Lemmas\<close>

lemma fill_length: "length buf \<le> want \<Longrightarrow> fill r pos want buf s = ((e, out), s') \<Longrightarrow> length out \<le> want"
proof (induction r pos want buf s rule: fill.induct)
  case (1 r pos want buf s)
  then show ?case
    by (subst (asm) (2) fill.simps) (auto split: if_splits prod.splits sum.splits)
qed

lemma takeWhile_shorter: "\<exists>x \<in> set xs. \<not> Q x \<Longrightarrow> length (takeWhile Q xs) < length xs"
  by (induction xs) auto

lemma nul_position_Some:
  "nul_position bs = Some n \<Longrightarrow> n < length bs \<and> bs ! n = 0 \<and> 0 \<notin> set (take n bs)"
proof -
  assume a: "nul_position bs = Some n"
  then have n: "n = length (takeWhile (\<lambda>b. b \<noteq> 0) bs)" and z: "0 \<in> set bs"
    by (auto simp: nul_position_def split: if_splits)
  have "take n bs = takeWhile (\<lambda>b. b \<noteq> 0) bs" unfolding n by (rule takeWhile_eq_take [symmetric])
  moreover have "n < length bs" unfolding n using z takeWhile_shorter [of bs "\<lambda>b. b \<noteq> 0"] by auto
  moreover have "bs ! n = 0" using nth_length_takeWhile [of "\<lambda>b. b \<noteq> 0" bs] n \<open>n < length bs\<close> by simp
  ultimately show ?thesis by (auto dest: set_takeWhileD)
qed

lemma nul_position_None: "nul_position bs = None \<longleftrightarrow> 0 \<notin> set bs"
  by (simp add: nul_position_def)

text \<open>A successful string read is nul-free and, with its nul, fits the cap.\<close>

lemma cstr_loop_Ok:
  "0 \<notin> set out \<Longrightarrow> cstr_loop r addr cap out s = (Inr v, s') \<Longrightarrow> 0 \<notin> set v \<and> length v < cap"
proof (induction r addr cap out s rule: cstr_loop.induct)
  case (1 r addr cap out s)
  define pos where "pos = addr + (of_nat (length out) :: u64)"
  define want where "want = want_at pos (cap - length out)"
  obtain err buf t where f: "fill r pos want [] s = ((err, buf), t)" by (metis prod.exhaust)
  have lb: "length buf \<le> want" using fill_length [OF _ f] by simp
  have lw: "want \<le> cap - length out" by (simp add: want_def want_at_def)
  show ?case
  proof (cases "length out < cap")
    case True
    note code = cstr_loop.simps [of r addr cap out s, folded pos_def, folded want_def]
    show ?thesis
    proof (cases "nul_position buf")
      case (Some n)
      then have "v = out @ take n buf" using 1(3) True f
        by (subst (asm) code) (auto simp: Let_def pos_def want_def)
      then show ?thesis using nul_position_Some [OF Some] 1(2) lb lw True by auto
    next
      case None
      then have "err = None" "\<not> length buf < want" "cstr_loop r addr cap (out @ buf) t = (Inr v, s')"
        using 1(3) True f
        by (subst (asm) code, auto simp: Let_def pos_def want_def split: option.splits if_splits)+
      then show ?thesis
        using 1(1) [OF True pos_def want_def refl f [symmetric] refl None] None 1(2)
        by (auto simp: nul_position_None)
    qed
  next
    case False
    with 1(3) show ?thesis by (subst (asm) cstr_loop.simps) simp
  qed
qed

subsection \<open>Faithful copies\<close>

definition honest_reader :: "('s, 'io) mem_reader \<Rightarrow> (u64 \<Rightarrow> u8) \<Rightarrow> bool" where
  "honest_reader r m \<longleftrightarrow> (\<forall>s pos n bs s'. r s pos n = (Inr bs, s') \<longrightarrow>
     (\<forall>i < length bs. bs ! i = m (pos + of_nat i)))"

definition copies :: "(u64 \<Rightarrow> u8) \<Rightarrow> u64 \<Rightarrow> bytes \<Rightarrow> bool" where
  "copies m addr bs \<longleftrightarrow> (\<forall>i < length bs. bs ! i = m (addr + of_nat i))"

lemma copies_append: "copies m a xs \<Longrightarrow> copies m (a + of_nat (length xs)) ys \<Longrightarrow> copies m a (xs @ ys)"
  unfolding copies_def
proof (intro allI impI)
  fix i
  assume x: "\<forall>i < length xs. xs ! i = m (a + of_nat i)"
    and y: "\<forall>i < length ys. ys ! i = m (a + of_nat (length xs) + of_nat i)" and i: "i < length (xs @ ys)"
  show "(xs @ ys) ! i = m (a + of_nat i)"
  proof (cases "i < length xs")
    case False
    then obtain j where "i = length xs + j" by (metis le_add_diff_inverse not_less)
    with i y show ?thesis by (simp add: nth_append add.assoc)
  qed (use x in \<open>simp add: nth_append\<close>)
qed

lemma copies_take: "copies m a xs \<Longrightarrow> copies m a (take n xs)"
  by (simp add: copies_def)

lemma fill_copies:
  "honest_reader r m \<Longrightarrow> copies m pos buf \<Longrightarrow> fill r pos want buf s = ((e, out), s') \<Longrightarrow> copies m pos out"
proof (induction r pos want buf s rule: fill.induct)
  case (1 r pos want buf s)
  show ?case
  proof (cases "length buf < want")
    case True
    obtain res t where r: "r s (pos + of_nat (length buf)) (want - length buf) = (res, t)"
      by (metis prod.exhaust)
    show ?thesis
    proof (cases res)
      case (Inl x)
      with 1(4) True r 1(3) show ?thesis by (subst (asm) fill.simps) simp
    next
      case (Inr bs)
      then have "copies m (pos + of_nat (length buf)) bs"
        using 1(2) r Inr unfolding honest_reader_def copies_def by blast
      then have c: "copies m pos (buf @ take (want - length buf) bs)"
        using 1(3) by (intro copies_append copies_take)
      show ?thesis
      proof (cases "bs = []")
        case False
        have "fill r pos want (buf @ take (want - length buf) bs) t = ((e, out), s')"
          using 1(4) True r Inr False by (subst (asm) fill.simps) simp
        with 1(1) [OF True r [symmetric] Inr False 1(2) c] show ?thesis by simp
      qed (use 1(3,4) True r Inr in \<open>subst (asm) fill.simps, simp\<close>)
    qed
  next
    case False
    with 1(3,4) show ?thesis by (subst (asm) fill.simps) simp
  qed
qed

text \<open>One turn of the outer loop, as its cases.\<close>

lemma cstr_loop_turn:
  assumes "length out < cap" and "fill r (addr + of_nat (length out)) want [] s = ((err, buf), t)"
    and "want = want_at (addr + of_nat (length out)) (cap - length out)"
  shows "cstr_loop r addr cap out s =
    (case nul_position buf of
       Some n \<Rightarrow> (Inr (out @ take n buf), t)
     | None \<Rightarrow> (case err of Some e \<Rightarrow> (Inl (MemIo e), t)
         | None \<Rightarrow> if length buf < want then (Inl MappingEnded, t)
                   else cstr_loop r addr cap (out @ buf) t))"
  using assms by (subst cstr_loop.simps) (simp add: Let_def)

lemma cstr_loop_copies:
  "honest_reader r m \<Longrightarrow> copies m addr out \<Longrightarrow> cstr_loop r addr cap out s = (Inr v, s') \<Longrightarrow>
   copies m addr v \<and> m (addr + of_nat (length v)) = 0"
proof (induction r addr cap out s rule: cstr_loop.induct)
  case (1 r addr cap out s)
  define pos where "pos = addr + (of_nat (length out) :: u64)"
  define want where "want = want_at pos (cap - length out)"
  obtain err buf t where f: "fill r pos want [] s = ((err, buf), t)" by (metis prod.exhaust)
  have cb: "copies m pos buf" using fill_copies [OF 1(2) _ f] by (simp add: copies_def)
  show ?case
  proof (cases "length out < cap")
    case True
    note turn = cstr_loop_turn [OF True f [unfolded pos_def] want_def [unfolded pos_def], folded pos_def]
    show ?thesis
    proof (cases "nul_position buf")
      case (Some n)
      then have v: "v = out @ take n buf" using 1(4) turn by simp
      have n: "n < length buf" "buf ! n = 0" using nul_position_Some [OF Some] by auto
      have "copies m addr v" unfolding v using 1(3) cb unfolding pos_def
        by (intro copies_append copies_take)
      moreover have "m (pos + of_nat n) = 0" using cb n by (simp add: copies_def)
      ultimately show ?thesis using v n by (simp add: pos_def add.assoc)
    next
      case None
      then have "cstr_loop r addr cap (out @ buf) t = (Inr v, s')" "err = None" "\<not> length buf < want"
        using 1(4) turn by (auto split: option.splits if_splits)
      moreover have "copies m addr (out @ buf)" using 1(3) cb unfolding pos_def by (rule copies_append)
      ultimately show ?thesis
        using 1(1) [OF True pos_def want_def refl f [symmetric] refl None] 1(2) by auto
    qed
  next
    case False
    with 1(4) show ?thesis by (subst (asm) cstr_loop.simps) simp
  qed
qed

subsection \<open>What is requested\<close>

text \<open>A request that stays below the cap and inside one page.\<close>

definition in_window :: "u64 \<Rightarrow> nat \<Rightarrow> u64 \<Rightarrow> nat \<Rightarrow> bool" where
  "in_window addr cap pos n \<longleftrightarrow>
     (\<exists>k. pos = addr + of_nat k \<and> k + n \<le> cap) \<and> unat pos mod PAGE + n \<le> PAGE"

lemma page_offset:
  assumes "unat pos mod PAGE + j < PAGE"
  shows "unat (pos + of_nat j :: u64) mod PAGE = unat pos mod PAGE + j"
proof -
  have dvd: "PAGE dvd 2 ^ 64" by (simp add: PAGE_def)
  have "unat (pos + of_nat j :: u64) mod PAGE = (unat pos + j mod 2 ^ 64) mod 2 ^ 64 mod PAGE"
    by (simp add: unat_word_ariths unat_of_nat)
  also have "\<dots> = (unat pos + j) mod PAGE"
    by (metis dvd mod_add_right_eq mod_mod_cancel)
  also have "\<dots> = unat pos mod PAGE + j"
    using assms by (metis mod_add_left_eq mod_less)
  finally show ?thesis .
qed

lemma fill_requests:
  assumes keep: "\<And>s q n res s'. I s \<Longrightarrow> in_window addr cap q n \<Longrightarrow> r s q n = (res, s') \<Longrightarrow> I s'"
    and pos: "pos = addr + of_nat k" "k + want \<le> cap" "unat pos mod PAGE + want \<le> PAGE"
  shows "length buf \<le> want \<Longrightarrow> I s \<Longrightarrow> fill r pos want buf s = (res, s') \<Longrightarrow> I s'"
proof (induction "want - length buf" arbitrary: buf s rule: less_induct)
  case less
  show ?case
  proof (cases "length buf < want")
    case True
    obtain res' t where r: "r s (pos + of_nat (length buf)) (want - length buf) = (res', t)"
      by (metis prod.exhaust)
    have "in_window addr cap (pos + of_nat (length buf)) (want - length buf)"
      unfolding in_window_def
    proof (intro conjI exI [of _ "k + length buf"])
      show "unat (pos + of_nat (length buf)) mod PAGE + (want - length buf) \<le> PAGE"
        using page_offset [of pos "length buf"] pos(3) True by simp
    qed (use pos True in \<open>simp_all add: add.assoc\<close>)
    then have t: "I t" using keep less.prems(2) r by blast
    show ?thesis
    proof (cases res')
      case (Inl x)
      with less.prems(3) True r t show ?thesis by (subst (asm) fill.simps) auto
    next
      case (Inr bs)
      show ?thesis
      proof (cases "bs = []")
        case True
        with less.prems(3) \<open>length buf < want\<close> r t Inr show ?thesis by (subst (asm) fill.simps) auto
      next
        case False
        have "fill r pos want (buf @ take (want - length buf) bs) t = (res, s')"
          using less.prems(3) True r Inr False by (subst (asm) fill.simps) simp
        with less.hyps [of "buf @ take (want - length buf) bs" t] t True False show ?thesis
          by (auto simp: neq_Nil_conv)
      qed
    qed
  next
    case False
    with less.prems show ?thesis by (subst (asm) fill.simps) simp
  qed
qed

lemma cstr_loop_requests:
  assumes keep: "\<And>s q n res s'. I s \<Longrightarrow> in_window addr cap q n \<Longrightarrow> r s q n = (res, s') \<Longrightarrow> I s'"
  shows "I s \<Longrightarrow> cstr_loop r addr cap out s = (res, s') \<Longrightarrow> I s'"
proof (induction "cap - length out" arbitrary: out s rule: less_induct)
  case less
  define pos where "pos = addr + (of_nat (length out) :: u64)"
  define want where "want = want_at pos (cap - length out)"
  obtain err buf t where f: "fill r pos want [] s = ((err, buf), t)" by (metis prod.exhaust)
  show ?case
  proof (cases "length out < cap")
    case True
    have w: "length out + want \<le> cap" "unat pos mod PAGE + want \<le> PAGE" "0 < want"
      using True by (auto simp: want_def want_at_def PAGE_def min_def)
    have t: "I t"
      using fill_requests [of I addr cap r, OF keep pos_def w(1,2) _ less.prems(1) f] by simp
    note turn = cstr_loop_turn [OF True f [unfolded pos_def] want_def [unfolded pos_def]]
    show ?thesis
      using less.prems(2) less.hyps [of "out @ buf" t] t w True unfolding turn
      by (auto split: option.splits if_splits)
  next
    case False
    with less.prems show ?thesis by (subst (asm) cstr_loop.simps) simp
  qed
qed


subsection \<open>Readable memory is read\<close>

definition delivers :: "('s, 'io) mem_reader \<Rightarrow> bool" where
  "delivers r \<longleftrightarrow> (\<forall>s q n. 0 < n \<longrightarrow> (\<exists>bs s'. r s q n = (Inr bs, s') \<and> bs \<noteq> []))"

lemma fill_delivers:
  "delivers r \<Longrightarrow> length buf \<le> want \<Longrightarrow> \<exists>out t. fill r pos want buf s = ((None, out), t) \<and> length out = want"
proof (induction "want - length buf" arbitrary: buf s rule: less_induct)
  case less
  show ?case
  proof (cases "length buf < want")
    case True
    then obtain bs t where r: "r s (pos + of_nat (length buf)) (want - length buf) = (Inr bs, t)" "bs \<noteq> []"
      using less.prems(1) unfolding delivers_def by (metis zero_less_diff)
    then have "fill r pos want buf s = fill r pos want (buf @ take (want - length buf) bs) t"
      using True by (subst fill.simps) simp
    with less.hyps [of "buf @ take (want - length buf) bs" t] less.prems r True show ?thesis
      by (auto simp: neq_Nil_conv)
  next
    case False
    with less.prems show ?thesis by (subst fill.simps) simp
  qed
qed

lemma cstr_loop_delivers:
  assumes "delivers r" "honest_reader r m" "m (addr + of_nat k) = 0" "k < cap"
  shows "copies m addr out \<Longrightarrow> 0 \<notin> set out \<Longrightarrow> length out \<le> cap \<Longrightarrow>
    \<exists>v s'. cstr_loop r addr cap out s = (Inr v, s')"
proof (induction "cap - length out" arbitrary: out s rule: less_induct)
  case less
  have "length out < cap"
  proof (rule ccontr)
    assume "\<not> length out < cap"
    then have "k < length out" using assms(4) by simp
    then have "out ! k = 0" using less.prems(1) assms(3) by (simp add: copies_def)
    with \<open>k < length out\<close> less.prems(2) show False by (metis nth_mem)
  qed
  define pos where "pos = addr + (of_nat (length out) :: u64)"
  define want where "want = want_at pos (cap - length out)"
  obtain buf t where f: "fill r pos want [] s = ((None, buf), t)" "length buf = want"
    using fill_delivers [OF assms(1), of "[]" want pos s] by auto
  have w: "0 < want" "want \<le> cap - length out"
    using \<open>length out < cap\<close> by (auto simp: want_def want_at_def PAGE_def)
  note turn = cstr_loop_turn [OF \<open>length out < cap\<close> f(1) [unfolded pos_def] want_def [unfolded pos_def]]
  show ?case
  proof (cases "nul_position buf")
    case None
    have "copies m pos buf" using fill_copies [OF assms(2) _ f(1)] by (simp add: copies_def)
    then have "copies m addr (out @ buf)" using copies_append [OF less.prems(1), of buf] by (simp add: pos_def)
    moreover have "0 \<notin> set (out @ buf)" using None less.prems(2) by (simp add: nul_position_None)
    ultimately show ?thesis
      using less.hyps [of "out @ buf" t] w f(2) \<open>length out < cap\<close> None
      unfolding turn by simp
  qed (simp add: turn)
qed

lemma exact_loop_Ok:
  "honest_reader r m \<Longrightarrow> copies m addr buf \<Longrightarrow> length buf \<le> len \<Longrightarrow>
   exact_loop r addr len buf s = (Inr v, s') \<Longrightarrow> length v = len \<and> copies m addr v"
proof (induction r addr len buf s rule: exact_loop.induct)
  case (1 r addr len buf s)
  show ?case
  proof (cases "length buf < len")
    case True
    obtain res t where r: "r s (addr + of_nat (length buf)) (len - length buf) = (res, t)"
      by (metis prod.exhaust)
    show ?thesis
    proof (cases res)
      case (Inl x)
      with 1(5) True r show ?thesis by (subst (asm) exact_loop.simps) simp
    next
      case (Inr bs)
      then have "copies m (addr + of_nat (length buf)) bs"
        using 1(2) r unfolding honest_reader_def copies_def by blast
      then have c: "copies m addr (buf @ take (len - length buf) bs)"
        using 1(3) by (intro copies_append copies_take)
      show ?thesis
      proof (cases "bs = []")
        case False
        have "exact_loop r addr len (buf @ take (len - length buf) bs) t = (Inr v, s')"
          using 1(5) True r Inr False by (subst (asm) exact_loop.simps) simp
        moreover have "length (buf @ take (len - length buf) bs) \<le> len" using True by simp
        ultimately show ?thesis using 1(1) [OF True r [symmetric] Inr False 1(2) c] by blast
      qed (use 1(5) True r Inr in \<open>subst (asm) exact_loop.simps, simp\<close>)
    qed
  next
    case False
    with 1(3-5) show ?thesis by (subst (asm) exact_loop.simps) simp
  qed
qed

section \<open>Properties\<close>

text \<open>
  C31. A path read from child memory is exact and bounded: over memory \<open>m\<close> (whatever short reads
  the kernel makes), a successful read is the nul-free string at the address, followed there by
  its nul, and shorter than \<open>PATH_MAX\<close>.
\<close>

theorem read_path_exact:
  assumes "honest_reader r m" and "read_path r addr s = (Inr v, s')"
  shows "copies m addr v \<and> m (addr + of_nat (length v)) = 0 \<and> 0 \<notin> set v \<and> length v < 4096"
  using cstr_loop_copies [OF assms(1), of addr "[]"] cstr_loop_Ok [of "[]" r addr] assms(2)
  unfolding read_path_def read_cstr_capped_def
  by (auto simp: copies_def PATH_READ_CAP_def ABSOLUTE_READ_CAP_def NETWORK_PAYLOAD_CAP_def)

definition memory_reader :: "(u64 \<Rightarrow> u8) \<Rightarrow> (unit, unit) mem_reader" where
  "memory_reader m s pos n = (Inr (map (\<lambda>i. m (pos + of_nat i)) [0..<n]), s)"

lemma memory_reader_honest: "honest_reader (memory_reader m) m"
  by (simp add: honest_reader_def memory_reader_def)

lemma memory_reader_delivers: "delivers (memory_reader m)"
  by (simp add: delivers_def memory_reader_def)

lemma read_path_zero: "read_path (memory_reader (\<lambda>_. 0)) 0 () = (Inr [], ())"
proof -
  have "\<exists>out t. fill (memory_reader (\<lambda>_. 0)) 0 4096 [] () = ((None, out), t) \<and> length out = 4096"
    by (rule fill_delivers) (simp_all add: memory_reader_delivers)
  then obtain out t where f: "fill (memory_reader (\<lambda>_. 0)) 0 4096 [] () = ((None, out), t)"
    "length out = 4096" by blast
  have "copies (\<lambda>_. 0) 0 out" using fill_copies [OF memory_reader_honest _ f(1)] by (simp add: copies_def)
  then have o: "out ! 0 = 0" using f(2) by (simp add: copies_def)
  then have "nul_position out = Some 0" using f(2) by (cases out) (simp_all add: nul_position_def)
  then show ?thesis
    using cstr_loop_turn [of "[]" 4096 "memory_reader (\<lambda>_. 0)" 0 4096 "()" None out t] f(1)
    by (simp add: read_path_def read_cstr_capped_def PATH_READ_CAP_def ABSOLUTE_READ_CAP_def
        NETWORK_PAYLOAD_CAP_def want_at_def PAGE_def)
qed

lemma read_path_exact_witness:
  "copies (\<lambda>_. 0 :: u8) 0 [] \<and> (\<lambda>_. 0 :: u8) (0 + of_nat (length ([] :: bytes)) :: u64) = 0 \<and>
   (0 :: u8) \<notin> set [] \<and> length ([] :: bytes) < 4096"
  using read_path_exact [OF memory_reader_honest read_path_zero] .

text \<open>
  Every request a string read makes stays inside the window: below the cap, from the address
  on, and within one page. Stated for any invariant \<open>I\<close> of the reader's state that requests in
  the window keep: the read keeps it too, whatever the reader returns.
\<close>

theorem read_cstr_requests_bounded:
  assumes "\<And>s q n res s'. I s \<Longrightarrow> in_window addr (min cap 65535) q n \<Longrightarrow> r s q n = (res, s') \<Longrightarrow> I s'"
    and "I s" and "read_cstr_capped r addr cap s = (res, s')"
  shows "I s'"
proof -
  have loop: "cstr_loop r addr (min cap 65535) [] s = (res, s')"
    using assms(3) by (simp add: read_cstr_capped_def ABSOLUTE_READ_CAP_def NETWORK_PAYLOAD_CAP_def)
  show ?thesis
    by (rule cstr_loop_requests [of I addr "min cap 65535" r, OF _ assms(2) loop]) (rule assms(1))
qed

lemma read_cstr_requests_bounded_witness: "(\<lambda>_. True) ()"
  by (rule read_cstr_requests_bounded [of "\<lambda>_. True" 0 4096 "memory_reader (\<lambda>_. 0)" "()" "Inr []"])
     (use read_path_zero in \<open>simp_all add: read_path_def PATH_READ_CAP_def\<close>)

text \<open>
  A readable string is never refused: when every request is answered with at least one byte
  of memory \<open>m\<close> and \<open>m\<close> has a nul within the path cap, the read terminates with a path.
\<close>

theorem read_path_total_on_readable:
  assumes "delivers r" and "honest_reader r m" and "m (addr + of_nat k) = 0" and "k < 4096"
  shows "\<exists>v s'. read_path r addr s = (Inr v, s')"
  using cstr_loop_delivers [OF assms, of "[]" s]
  by (simp add: copies_def read_path_def read_cstr_capped_def PATH_READ_CAP_def
      ABSOLUTE_READ_CAP_def NETWORK_PAYLOAD_CAP_def)

lemma read_path_total_on_readable_witness:
  "\<exists>v s'. read_path (memory_reader (\<lambda>a. if a = 0x1003 then 0 else 47)) 0x1000 () = (Inr v, s')"
  by (rule read_path_total_on_readable [OF memory_reader_delivers memory_reader_honest, of _ _ 3])
     simp_all

text \<open>
  A fixed-size read gives all of the bytes or an error: its length is the requested length cut
  at the absolute cap of 65535 (not at one page), and it is a copy of memory.
\<close>

theorem read_exact_all_or_error:
  assumes "honest_reader r m" and "read_exact r addr len s = (Inr v, s')"
  shows "length v = min len 65535 \<and> copies m addr v"
  using exact_loop_Ok [OF assms(1), of addr "[]" "min len 65535" s v s'] assms(2)
  by (simp add: copies_def read_exact_def read_exact_capped_def ABSOLUTE_READ_CAP_def
      NETWORK_PAYLOAD_CAP_def)

lemma read_exact_all_or_error_witness:
  "length [0 :: u8, 0] = min 2 65535 \<and> copies (\<lambda>_. 0) 8 [0 :: u8, 0]"
  by (rule read_exact_all_or_error [OF memory_reader_honest, of _ _ 2 "()" "[0, 0]" "()"])
     (simp add: read_exact_def read_exact_capped_def exact_loop.simps memory_reader_def
       ABSOLUTE_READ_CAP_def NETWORK_PAYLOAD_CAP_def numeral_2_eq_2)

end
