(* ===== verification/Glob.thy ===== *)
theory Glob imports Prelude begin

text \<open>
  \<open>src/src/policy/glob.rs\<close>: compilation and matching of the path globs. A compiled glob is a
  list of segments, a segment a list of units; \<open>match_segments\<close> and \<open>units_match\<close> are the two
  index loops of the source with their backtracking state (the last star and the text
  position given to it). The locale \<open>backtracking\<close> is the contract both loops share; it is
  interpreted on each of them, which gives their equivalence to the declarative semantics
  \<open>wild\<close>, where a star stands for any stretch of the text.
\<close>

section \<open>Data\<close>

datatype glob_unit = Literal rchar | Star | Question

datatype segment = DoubleStar | Pattern "glob_unit list"

record glob =
  glob_raw :: string
  glob_segments :: "segment list"

datatype glob_error = GlobEmpty | TooManyStars | MalformedDoubleStar | UnsupportedSyntax

section \<open>Compilation\<close>

text \<open>The inner loop of the star-run walk: the index after a run of stars.\<close>

function run_end :: "rchar list \<Rightarrow> nat \<Rightarrow> nat" where
  "run_end cs i = (if i < length cs \<and> cs ! i = ''*'' then run_end cs (i + 1) else i)"
  by pat_completeness auto
termination by (relation "measure (\<lambda>(cs, i). length cs - i)") auto

declare run_end.simps [simp del]

lemma run_end_ge: "i \<le> run_end cs i"
proof (induction cs i rule: run_end.induct)
  case (1 cs i)
  then show ?case by (subst run_end.simps) force
qed

lemma run_end_gt: "i < length cs \<Longrightarrow> cs ! i = ''*'' \<Longrightarrow> i < run_end cs i"
  using run_end_ge [of "i + 1" cs] by (subst run_end.simps) simp

function check_runs :: "rchar list \<Rightarrow> nat \<Rightarrow> glob_error option" where
  "check_runs cs i =
     (if i < length cs then
        if cs ! i \<noteq> ''*'' then check_runs cs (i + 1)
        else
          let j = run_end cs i; run = j - i;
              before_ok = (i = 0 \<or> cs ! (i - 1) = ''/'');
              after_ok = (j = length cs \<or> cs ! j = ''/'')
          in if run > 2 then Some TooManyStars
             else if run = 2 \<and> (\<not> before_ok \<or> \<not> after_ok) then Some MalformedDoubleStar
             else check_runs cs j
      else None)"
  by pat_completeness auto
termination
  by (relation "measure (\<lambda>(cs, i). length cs - i)") (use run_end_gt in \<open>auto simp: diff_less_mono2\<close>)

declare check_runs.simps [simp del]

fun unit_of :: "rchar \<Rightarrow> glob_unit" where
  "unit_of c = (if c = ''*'' then Star else if c = ''?'' then Question else Literal c)"

definition segment_of :: "string \<Rightarrow> segment" where
  "segment_of seg = (if seg = ''**'' then DoubleStar else Pattern (map unit_of (chars seg)))"

definition compile :: "string \<Rightarrow> glob_error + glob" where
  "compile raw =
     (if raw = [] then Inl GlobEmpty
      else if (\<exists>c \<in> set raw. c \<in> set ''[]{}'') \<or> starts_with ''!'' raw then Inl UnsupportedSyntax
      else case check_runs (chars raw) 0 of
             Some e \<Rightarrow> Inl e
           | None \<Rightarrow> Inr \<lparr>glob_raw = raw,
                           glob_segments = map segment_of (split_on CHR ''/'' raw)\<rparr>)"

definition as_str :: "glob \<Rightarrow> string" where
  "as_str g = glob_raw g"

section \<open>Matching\<close>

text \<open>The \<open>while\<close> after the main loop: skip trailing stars, then the pattern must be used up.\<close>

function skip_stars :: "glob_unit list \<Rightarrow> nat \<Rightarrow> bool" where
  "skip_stars us ui =
     (if ui < length us \<and> us ! ui = Star then skip_stars us (ui + 1) else ui = length us)"
  by pat_completeness auto
termination by (relation "measure (\<lambda>(us, i). length us - i)") auto

function skip_double_stars :: "segment list \<Rightarrow> nat \<Rightarrow> bool" where
  "skip_double_stars ss i =
     (if i < length ss \<and> ss ! i = DoubleStar then skip_double_stars ss (i + 1)
      else i = length ss)"
  by pat_completeness auto
termination by (relation "measure (\<lambda>(us, i). length us - i)") auto

declare skip_stars.simps [simp del] skip_double_stars.simps [simp del]

text \<open>
  The loops terminate by a lexicographic measure: a new star moves the remembered star
  right, a retry moves the text position given to it, a plain step moves the text index.
\<close>

fun star_rank :: "nat \<Rightarrow> nat \<Rightarrow> nat option \<Rightarrow> nat" where
  "star_rank len ui None = Suc len"
| "star_rank len ui (Some s) = (if s < ui then len - s else Suc len)"

definition loop_measure ::
  "(('u list \<times> 'c list \<times> nat \<times> nat \<times> nat option \<times> nat) \<times>
    ('u list \<times> 'c list \<times> nat \<times> nat \<times> nat option \<times> nat)) set" where
  "loop_measure = measures
     [\<lambda>(us, ts, ui, ti, star, st). star_rank (length us) ui star,
      \<lambda>(us, ts, ui, ti, star, st). case star of None \<Rightarrow> 0 | Some _ \<Rightarrow> Suc (length ts) - st,
      \<lambda>(us, ts, ui, ti, star, st). length ts - ti]"

lemma wf_loop_measure: "wf loop_measure"
  by (simp add: loop_measure_def)

lemma loop_measure_star:
  "ui < length us \<Longrightarrow>
   ((us, ts, Suc ui, ti, Some ui, ti), (us, ts, ui, ti, star, st)) \<in> loop_measure"
  by (cases star) (auto simp: loop_measure_def)

lemma loop_measure_step:
  "ti < length ts \<Longrightarrow>
   ((us, ts, Suc ui, Suc ti, star, st), (us, ts, ui, ti, star, st)) \<in> loop_measure"
  by (cases star) (auto simp: loop_measure_def)

lemma loop_measure_retry:
  "ti < length ts \<Longrightarrow>
   ((us, ts, Suc s, Suc st, Some s, Suc st), (us, ts, ui, ti, Some s, st)) \<in> loop_measure"
  by (auto simp: loop_measure_def)

lemmas loop_measures = wf_loop_measure loop_measure_star loop_measure_step loop_measure_retry

text \<open>
  One match arm per unit: does the unit take the character (\<open>Star\<close> is handled before)?
  A character that is not taken falls through to the backtracking step, as in the source.
\<close>

fun unit_takes :: "glob_unit \<Rightarrow> rchar \<Rightarrow> bool" where
  "unit_takes (Literal c) x = (x = c)"
| "unit_takes Question x = True"
| "unit_takes Star x = False"

function units_loop ::
  "glob_unit list \<Rightarrow> rchar list \<Rightarrow> nat \<Rightarrow> nat \<Rightarrow> nat option \<Rightarrow> nat \<Rightarrow> bool" where
  "units_loop us ts ui ti star_ui star_ti =
     (if ti < length ts then
        if ui < length us \<and> us ! ui = Star then units_loop us ts (Suc ui) ti (Some ui) ti
        else if ui < length us \<and> unit_takes (us ! ui) (ts ! ti)
        then units_loop us ts (Suc ui) (Suc ti) star_ui star_ti
        else (case star_ui of
                Some sui \<Rightarrow> units_loop us ts (Suc sui) (Suc star_ti) (Some sui) (Suc star_ti)
              | None \<Rightarrow> False)
      else skip_stars us ui)"
  by pat_completeness auto
termination by (relation loop_measure) (simp_all add: loop_measures)

declare units_loop.simps [simp del]

definition units_match :: "glob_unit list \<Rightarrow> string \<Rightarrow> bool" where
  "units_match us component = units_loop us (chars component) 0 0 None 0"

fun segment_takes :: "segment \<Rightarrow> string \<Rightarrow> bool" where
  "segment_takes (Pattern us) component = units_match us component"
| "segment_takes DoubleStar component = False"

function segments_loop ::
  "segment list \<Rightarrow> string list \<Rightarrow> nat \<Rightarrow> nat \<Rightarrow> nat option \<Rightarrow> nat \<Rightarrow> bool" where
  "segments_loop ss ts pi ti star_pi star_ti =
     (if ti < length ts then
        if pi < length ss \<and> ss ! pi = DoubleStar then segments_loop ss ts (Suc pi) ti (Some pi) ti
        else if pi < length ss \<and> segment_takes (ss ! pi) (ts ! ti)
        then segments_loop ss ts (Suc pi) (Suc ti) star_pi star_ti
        else (case star_pi of
                Some spi \<Rightarrow> segments_loop ss ts (Suc spi) (Suc star_ti) (Some spi) (Suc star_ti)
              | None \<Rightarrow> False)
      else skip_double_stars ss pi)"
  by pat_completeness auto
termination by (relation loop_measure) (simp_all add: loop_measures)

declare segments_loop.simps [simp del]

definition match_segments :: "segment list \<Rightarrow> string list \<Rightarrow> bool" where
  "match_segments ss ts = segments_loop ss ts 0 0 None 0"

definition is_match :: "glob \<Rightarrow> string \<Rightarrow> bool" where
  "is_match g path = match_segments (glob_segments g) (split_on CHR ''/'' path)"

section \<open>The declarative semantics\<close>

text \<open>
  \<open>wild\<close> is the meaning of a pattern by recursion on the pattern; \<open>fits\<close> says which stretch of
  the text one element stands for, and \<open>wild_iff\<close> that a text matches exactly when it can be
  cut into stretches that fit the elements in order.
\<close>

fun wild :: "('u \<Rightarrow> bool) \<Rightarrow> ('u \<Rightarrow> 'c \<Rightarrow> bool) \<Rightarrow> 'u list \<Rightarrow> 'c list \<Rightarrow> bool" where
  "wild star takes [] ts \<longleftrightarrow> ts = []"
| "wild star takes (p # ps) [] \<longleftrightarrow> star p \<and> wild star takes ps []"
| "wild star takes (p # ps) (t # ts) \<longleftrightarrow>
     (if star p then wild star takes ps (t # ts) \<or> wild star takes (p # ps) ts
      else takes p t \<and> wild star takes ps ts)"

definition fits :: "('u \<Rightarrow> bool) \<Rightarrow> ('u \<Rightarrow> 'c \<Rightarrow> bool) \<Rightarrow> 'u \<Rightarrow> 'c list \<Rightarrow> bool" where
  "fits star takes p xs = (star p \<or> (\<exists>t. xs = [t] \<and> takes p t))"

lemma wild_star_iff:
  "star p \<Longrightarrow> wild star takes (p # ps) ts \<longleftrightarrow> (\<exists>k \<le> length ts. wild star takes ps (drop k ts))"
proof (induction ts)
  case Nil
  then show ?case by simp
next
  case (Cons t ts)
  have "(\<exists>k \<le> length (t # ts). wild star takes ps (drop k (t # ts))) \<longleftrightarrow>
        wild star takes ps (t # ts) \<or> (\<exists>k \<le> length ts. wild star takes ps (drop k ts))"
    by (metis (no_types, lifting) Suc_le_mono bot_nat_0.extremum drop0 drop_Suc_Cons
        length_Cons not0_implies_Suc)
  with Cons show ?case by simp
qed

lemma wild_iff:
  "wild star takes ps ts \<longleftrightarrow> (\<exists>xss. concat xss = ts \<and> list_all2 (fits star takes) ps xss)"
proof (induction ps arbitrary: ts)
  case Nil
  then show ?case by auto
next
  case (Cons p ps)
  have split: "(\<exists>xss. concat xss = ts \<and> list_all2 (fits star takes) (p # ps) xss) \<longleftrightarrow>
    (\<exists>xs ys. ts = xs @ ys \<and> fits star takes p xs \<and> wild star takes ps ys)"
    by (auto simp: list_all2_Cons1 Cons.IH) (metis concat.simps(2))+
  show ?case
  proof (cases "star p")
    case True
    then have "wild star takes (p # ps) ts \<longleftrightarrow> (\<exists>xs ys. ts = xs @ ys \<and> wild star takes ps ys)"
      unfolding wild_star_iff [of star p, OF True]
      by (metis append_eq_conv_conj append_take_drop_id le_add1 length_append)
    moreover have "fits star takes p xs" for xs using True by (simp add: fits_def)
    ultimately show ?thesis unfolding split by simp
  next
    case False
    have "(\<exists>xs ys. ts = xs @ ys \<and> fits star takes p xs \<and> wild star takes ps ys) \<longleftrightarrow>
      (\<exists>t ys. ts = t # ys \<and> takes p t \<and> wild star takes ps ys)"
      using False unfolding fits_def by (metis append_Cons append_Nil)
    with False show ?thesis unfolding split by (cases ts) auto
  qed
qed

lemma wild_star_drop:
  assumes "star p" "m \<le> length ts"
  shows "wild star takes (p # ps) (drop m ts) \<longleftrightarrow>
    (\<exists>n. m \<le> n \<and> n \<le> length ts \<and> wild star takes ps (drop n ts))"
proof
  assume "wild star takes (p # ps) (drop m ts)"
  then obtain k where "k \<le> length ts - m" "wild star takes ps (drop (k + m) ts)"
    unfolding wild_star_iff [of star p, OF assms(1)] by auto
  with assms(2) show "\<exists>n. m \<le> n \<and> n \<le> length ts \<and> wild star takes ps (drop n ts)"
    by (intro exI [of _ "k + m"]) simp
next
  assume "\<exists>n. m \<le> n \<and> n \<le> length ts \<and> wild star takes ps (drop n ts)"
  then obtain n where n: "m \<le> n" "n \<le> length ts" "wild star takes ps (drop n ts)" by blast
  then show "wild star takes (p # ps) (drop m ts)"
    unfolding wild_star_iff [of star p, OF assms(1)] by (intro exI [of _ "n - m"]) simp
qed


lemma wild_length:
  "wild star takes (ps @ qs) ts \<Longrightarrow> \<forall>p \<in> set ps. \<not> star p \<Longrightarrow>
   length ps \<le> length ts \<and> wild star takes qs (drop (length ps) ts)"
proof (induction ps arbitrary: ts)
  case Nil
  then show ?case by simp
next
  case (Cons p ps)
  then show ?case by (cases ts) auto
qed

lemma wild_Nil_text: "wild star takes ps [] \<longleftrightarrow> list_all star ps"
  by (induction ps) auto

section \<open>The contract of the two loops\<close>

text \<open>
  \<open>loop\<close> is any function that satisfies the step equation of the matching loop for the given
  notions of star and of a unit taking one text element. The state is the pattern index, the
  text index, the remembered star and the text index given to it.
\<close>

locale backtracking =
  fixes star :: "'u \<Rightarrow> bool"
    and takes :: "'u \<Rightarrow> 'c \<Rightarrow> bool"
    and loop :: "'u list \<Rightarrow> 'c list \<Rightarrow> nat \<Rightarrow> nat \<Rightarrow> nat option \<Rightarrow> nat \<Rightarrow> bool"
    and skip :: "'u list \<Rightarrow> nat \<Rightarrow> bool"
  assumes loop_eq:
    "loop us ts ui ti s st =
       (if ti < length ts then
          if ui < length us \<and> star (us ! ui) then loop us ts (Suc ui) ti (Some ui) ti
          else if ui < length us \<and> takes (us ! ui) (ts ! ti)
          then loop us ts (Suc ui) (Suc ti) s st
          else (case s of Some k \<Rightarrow> loop us ts (Suc k) (Suc st) (Some k) (Suc st) | None \<Rightarrow> False)
        else skip us ui)"
    and skip_eq: "skip us ui = (if ui < length us \<and> star (us ! ui) then skip us (Suc ui)
                                else ui = length us)"
begin

lemma skip_iff: "ui \<le> length us \<Longrightarrow> skip us ui \<longleftrightarrow> list_all star (drop ui us)"
proof (induction "length us - ui" arbitrary: ui)
  case 0
  then show ?case by (subst skip_eq) simp
next
  case (Suc n)
  then have "ui < length us" by simp
  then have "drop ui us = us ! ui # drop (Suc ui) us" by (simp add: Cons_nth_drop_Suc)
  moreover have "skip us (Suc ui) \<longleftrightarrow> list_all star (drop (Suc ui) us)"
    using Suc by simp
  ultimately show ?case using \<open>ui < length us\<close> by (subst skip_eq) simp
qed

text \<open>What the remembered star still offers: retries with a longer stretch for it.\<close>

definition retries :: "'u list \<Rightarrow> 'c list \<Rightarrow> nat option \<Rightarrow> nat \<Rightarrow> bool" where
  "retries us ts s st = (case s of None \<Rightarrow> False
     | Some k \<Rightarrow> \<exists>n. st < n \<and> n \<le> length ts \<and> wild star takes (drop (Suc k) us) (drop n ts))"

definition good :: "'u list \<Rightarrow> 'c list \<Rightarrow> nat \<Rightarrow> nat \<Rightarrow> nat option \<Rightarrow> nat \<Rightarrow> bool" where
  "good us ts ui ti s st \<longleftrightarrow> ui \<le> length us \<and> ti \<le> length ts \<and>
     (case s of None \<Rightarrow> True
      | Some k \<Rightarrow> k < ui \<and> star (us ! k) \<and> st \<le> ti \<and> ti - st = ui - Suc k \<and>
                  (\<forall>j. k < j \<and> j < ui \<longrightarrow> \<not> star (us ! j)))"

lemma retry_passes_block:
  assumes "good us ts ui ti (Some k) st" and "st < n" and "n \<le> length ts"
    and w: "wild star takes (drop (Suc k) us) (drop n ts)"
  shows "\<exists>m. ti < m \<and> m \<le> length ts \<and> wild star takes (drop ui us) (drop m ts)"
proof -
  define b where "b = take (ui - Suc k) (drop (Suc k) us)"
  have k: "k < ui" "ui \<le> length us" "st \<le> ti" "ti - st = ui - Suc k"
    using assms(1) by (auto simp: good_def)
  then have len: "length b = ui - Suc k" by (simp add: b_def)
  have us: "drop (Suc k) us = b @ drop ui us"
  proof -
    have "ui - Suc k + Suc k = ui" using k by simp
    then have "drop (ui - Suc k) (drop (Suc k) us) = drop ui us" by (simp add: drop_drop)
    then show ?thesis unfolding b_def by (metis append_take_drop_id)
  qed
  have "\<forall>p \<in> set b. \<not> star p"
  proof
    fix p assume "p \<in> set b"
    then obtain i where i: "i < length b" "p = b ! i" by (metis in_set_conv_nth)
    then have "p = us ! (Suc k + i)" "Suc k + i < ui" using k len by (auto simp: b_def)
    then show "\<not> star p" using assms(1) by (simp add: good_def)
  qed
  from wild_length [OF w [unfolded us] this] len
  have "ui - Suc k \<le> length ts - n" "wild star takes (drop ui us) (drop (ui - Suc k + n) ts)"
    by auto
  then show ?thesis
    using k assms(2,3) by (intro exI [of _ "ui - Suc k + n"]) auto
qed

lemma loop_spec:
  "good us ts ui ti s st \<Longrightarrow>
   loop us ts ui ti s st \<longleftrightarrow>
     wild star takes (drop ui us) (drop ti ts) \<or> retries us ts s st"
proof (induction "(us, ts, ui, ti, s, st)" arbitrary: ui ti s st
    rule: wf_induct_rule [OF wf_loop_measure])
  case (1 ui ti s st)
  note IH = 1(1) and g = 1(2)
  have ui: "ui \<le> length us" using g by (simp add: good_def)
  consider (stop) "\<not> ti < length ts"
    | (star) "ti < length ts" "ui < length us" "star (us ! ui)"
    | (step) "ti < length ts" "ui < length us" "\<not> star (us ! ui)" "takes (us ! ui) (ts ! ti)"
    | (miss) "ti < length ts" "ui < length us \<longrightarrow> \<not> star (us ! ui) \<and> \<not> takes (us ! ui) (ts ! ti)"
    by blast
  then show ?case
  proof cases
    case stop
    have "\<not> retries us ts s st"
    proof
      assume "retries us ts s st"
      then obtain k n where s: "s = Some k" "st < n" "n \<le> length ts"
        "wild star takes (drop (Suc k) us) (drop n ts)"
        by (auto simp: retries_def split: option.splits)
      from retry_passes_block [OF g [unfolded s(1)] s(2-4)] stop show False by auto
    qed
    with stop ui show ?thesis by (subst loop_eq) (simp add: skip_iff wild_Nil_text)
  next
    case star
    have hd: "drop ui us = us ! ui # drop (Suc ui) us"
      using star by (simp add: Cons_nth_drop_Suc)
    have "good us ts (Suc ui) ti (Some ui) ti" using star by (auto simp: good_def)
    with IH star have "loop us ts ui ti s st \<longleftrightarrow>
        wild star takes (drop (Suc ui) us) (drop ti ts) \<or> retries us ts (Some ui) ti"
      by (subst loop_eq) (simp add: loop_measure_star)
    also have "\<dots> \<longleftrightarrow> (\<exists>n. ti \<le> n \<and> n \<le> length ts \<and>
        wild star takes (drop (Suc ui) us) (drop n ts))"
      using star by (auto simp: retries_def le_less)
    also have "\<dots> \<longleftrightarrow> wild star takes (drop ui us) (drop ti ts)"
      unfolding hd using wild_star_drop [of star "us ! ui" ti ts] star by simp
    finally have eq: "loop us ts ui ti s st \<longleftrightarrow> wild star takes (drop ui us) (drop ti ts)" .
    have "retries us ts s st \<Longrightarrow> wild star takes (drop ui us) (drop ti ts)"
    proof -
      assume "retries us ts s st"
      then obtain k n where s: "s = Some k" "st < n" "n \<le> length ts"
        "wild star takes (drop (Suc k) us) (drop n ts)"
        by (auto simp: retries_def split: option.splits)
      from retry_passes_block [OF g [unfolded s(1)] s(2-4)] obtain m where
        m: "ti < m" "m \<le> length ts" "wild star takes (drop ui us) (drop m ts)" by blast
      from m(3) obtain j where "m \<le> j" "j \<le> length ts"
        "wild star takes (drop (Suc ui) us) (drop j ts)"
        unfolding hd using wild_star_drop [of star "us ! ui" m ts] star m(2) by auto
      with m show ?thesis
        unfolding hd using wild_star_drop [of star "us ! ui" ti ts] star
        by (simp add: exI [of _ j])
    qed
    with eq show ?thesis by blast
  next
    case step
    have "good us ts (Suc ui) (Suc ti) s st"
      using g step by (auto simp: good_def less_Suc_eq split: option.splits)
    with IH step have "loop us ts ui ti s st \<longleftrightarrow>
        wild star takes (drop (Suc ui) us) (drop (Suc ti) ts) \<or> retries us ts s st"
      by (subst loop_eq) (simp add: loop_measure_step)
    moreover have "drop ui us = us ! ui # drop (Suc ui) us" "drop ti ts = ts ! ti # drop (Suc ti) ts"
      using step by (simp_all add: Cons_nth_drop_Suc)
    ultimately show ?thesis using step by simp
  next
    case miss
    have no: "\<not> wild star takes (drop ui us) (drop ti ts)"
    proof (cases "ui < length us")
      case True
      then have "drop ui us = us ! ui # drop (Suc ui) us" "drop ti ts = ts ! ti # drop (Suc ti) ts"
        using miss by (simp_all add: Cons_nth_drop_Suc)
      with True miss show ?thesis by simp
    qed (use ui miss in simp)
    show ?thesis
    proof (cases s)
      case None
      with miss no show ?thesis by (subst loop_eq) (auto simp: retries_def)
    next
      case (Some k)
      have "good us ts (Suc k) (Suc st) (Some k) (Suc st)"
        using g miss Some by (auto simp: good_def)
      with IH miss Some have "loop us ts ui ti s st \<longleftrightarrow>
          wild star takes (drop (Suc k) us) (drop (Suc st) ts) \<or> retries us ts (Some k) (Suc st)"
        by (subst loop_eq) (auto simp: loop_measure_retry)
      also have "\<dots> \<longleftrightarrow> retries us ts (Some k) st"
      proof -
        have "st < length ts" using g miss Some by (simp add: good_def)
        then have "(\<exists>n. st < n \<and> n \<le> length ts \<and> Q n) \<longleftrightarrow>
            Q (Suc st) \<or> (\<exists>n. Suc st < n \<and> n \<le> length ts \<and> Q n)" for Q
          by (metis Suc_leI Suc_lessD le_less lessI)
        then show ?thesis by (simp only: retries_def option.case)
      qed
      finally show ?thesis using no Some by simp
    qed
  qed
qed

lemma loop_wild: "loop us ts 0 0 None 0 \<longleftrightarrow> wild star takes us ts"
  using loop_spec [of us ts 0 0 None 0] by (simp add: good_def retries_def)

lemma loop_cuts:
  "loop us ts 0 0 None 0 \<longleftrightarrow>
     (\<exists>xss. concat xss = ts \<and> list_all2 (fits star takes) us xss)"
  by (simp add: loop_wild wild_iff)

end

interpretation units: backtracking "\<lambda>u. u = Star" unit_takes units_loop skip_stars
proof
  show "units_loop us ts ui ti s st =
       (if ti < length ts then
          if ui < length us \<and> us ! ui = Star then units_loop us ts (Suc ui) ti (Some ui) ti
          else if ui < length us \<and> unit_takes (us ! ui) (ts ! ti)
          then units_loop us ts (Suc ui) (Suc ti) s st
          else (case s of Some k \<Rightarrow> units_loop us ts (Suc k) (Suc st) (Some k) (Suc st)
                | None \<Rightarrow> False)
        else skip_stars us ui)" for us ts ui ti s st
    by (rule units_loop.simps)
  show "skip_stars us ui = (if ui < length us \<and> us ! ui = Star then skip_stars us (Suc ui)
        else ui = length us)" for us ui
    by (subst skip_stars.simps) simp
qed

interpretation segs: backtracking "\<lambda>s. s = DoubleStar" segment_takes segments_loop skip_double_stars
proof
  show "segments_loop us ts ui ti s st =
       (if ti < length ts then
          if ui < length us \<and> us ! ui = DoubleStar
          then segments_loop us ts (Suc ui) ti (Some ui) ti
          else if ui < length us \<and> segment_takes (us ! ui) (ts ! ti)
          then segments_loop us ts (Suc ui) (Suc ti) s st
          else (case s of Some k \<Rightarrow> segments_loop us ts (Suc k) (Suc st) (Some k) (Suc st)
                | None \<Rightarrow> False)
        else skip_double_stars us ui)" for us ts ui ti s st
    by (rule segments_loop.simps)
  show "skip_double_stars us ui = (if ui < length us \<and> us ! ui = DoubleStar
        then skip_double_stars us (Suc ui) else ui = length us)" for us ui
    by (subst skip_double_stars.simps) simp
qed


section \<open>What the compiler accepts\<close>

definition double_at :: "rchar list \<Rightarrow> nat \<Rightarrow> bool" where
  "double_at cs k = (Suc k < length cs \<and> cs ! k = ''*'' \<and> cs ! Suc k = ''*'')"

definition stands_alone :: "rchar list \<Rightarrow> nat \<Rightarrow> bool" where
  "stands_alone cs k = ((k = 0 \<or> cs ! (k - 1) = ''/'') \<and>
                        (k + 2 = length cs \<or> cs ! (k + 2) = ''/''))"

definition stars_stand_alone :: "rchar list \<Rightarrow> bool" where
  "stars_stand_alone cs = (\<forall>k < length cs. double_at cs k \<longrightarrow> stands_alone cs k)"

lemma stars_stand_alone_iff:
  "stars_stand_alone cs \<longleftrightarrow> (\<forall>k. double_at cs k \<longrightarrow> stands_alone cs k)"
  by (auto simp: stars_stand_alone_def double_at_def)

lemma run_end_props:
  assumes "i \<le> length cs"
  shows "run_end cs i \<le> length cs \<and> (\<forall>k. i \<le> k \<and> k < run_end cs i \<longrightarrow> cs ! k = ''*'') \<and>
    (run_end cs i = length cs \<or> cs ! run_end cs i \<noteq> ''*'')"
  using assms
proof (induction cs i rule: run_end.induct)
  case (1 cs i)
  show ?case
  proof (cases "i < length cs \<and> cs ! i = ''*''")
    case True
    with 1 have IH: "run_end cs (i + 1) \<le> length cs"
      "\<forall>k. i + 1 \<le> k \<and> k < run_end cs (i + 1) \<longrightarrow> cs ! k = ''*''"
      "run_end cs (i + 1) = length cs \<or> cs ! run_end cs (i + 1) \<noteq> ''*''" by auto
    have "run_end cs i = run_end cs (i + 1)" using True by (subst run_end.simps) simp
    with IH True show ?thesis by (metis Suc_eq_plus1 le_neq_implies_less Suc_leI)
  next
    case False
    then have "run_end cs i = i" by (auto simp: run_end.simps [of cs i])
    with False 1 show ?thesis by auto
  qed
qed

lemma check_runs_None:
  "check_runs cs i = None \<longleftrightarrow> (\<forall>k \<ge> i. double_at cs k \<longrightarrow> stands_alone cs k)"
proof (induction cs i rule: check_runs.induct)
  case (1 cs i)
  have ge_split: "(\<forall>k \<ge> i. Q k) \<longleftrightarrow> Q i \<and> (\<forall>k \<ge> Suc i. Q k)" for Q
    by (metis Suc_leD Suc_leI le_neq_implies_less order_refl)
  consider (stop) "\<not> i < length cs" | (plain) "i < length cs" "cs ! i \<noteq> ''*''"
    | (run) "i < length cs" "cs ! i = ''*''" by blast
  then show ?case
  proof cases
    case stop
    then show ?thesis by (subst check_runs.simps) (auto simp: double_at_def)
  next
    case plain
    with 1(1) have "check_runs cs i = None \<longleftrightarrow> (\<forall>k \<ge> Suc i. double_at cs k \<longrightarrow> stands_alone cs k)"
      by (subst check_runs.simps) simp
    also have "\<dots> \<longleftrightarrow> (\<forall>k \<ge> i. double_at cs k \<longrightarrow> stands_alone cs k)"
      using plain ge_split [of "\<lambda>k. double_at cs k \<longrightarrow> stands_alone cs k"]
      by (auto simp: double_at_def)
    finally show ?thesis .
  next
    case run
    define j where "j = run_end cs i"
    have j: "i < j" "j \<le> length cs" "\<And>k. i \<le> k \<Longrightarrow> k < j \<Longrightarrow> cs ! k = ''*''"
      "j = length cs \<or> cs ! j \<noteq> ''*''"
      using run_end_gt [OF run] run_end_props [of i cs] run by (auto simp: j_def)
    have IH: "check_runs cs j = None \<longleftrightarrow> (\<forall>k \<ge> j. double_at cs k \<longrightarrow> stands_alone cs k)"
      if "\<not> (j - i > 2)" "\<not> (j - i = 2 \<and> (\<not> (i = 0 \<or> cs ! (i - 1) = ''/'') \<or>
          \<not> (j = length cs \<or> cs ! j = ''/'')))"
      using 1(2) [OF run(1) _ refl refl refl refl] run that unfolding j_def by simp
    have code: "check_runs cs i = (if j - i > 2 then Some TooManyStars
        else if j - i = 2 \<and> (\<not> (i = 0 \<or> cs ! (i - 1) = ''/'') \<or> \<not> (j = length cs \<or> cs ! j = ''/''))
        then Some MalformedDoubleStar else check_runs cs j)"
      using run by (subst check_runs.simps) (auto simp: Let_def j_def)
    consider (one) "j = Suc i" | (two) "j = Suc (Suc i)" | (more) "i + 2 < j"
      using j(1) by linarith
    then show ?thesis
    proof cases
      case one
      have "\<not> double_at cs i" using j one by (auto simp: double_at_def)
      with one code IH show ?thesis by (subst ge_split) simp
    next
      case two
      have "double_at cs i" using j two run by (auto simp: double_at_def)
      moreover have "\<not> double_at cs (Suc i)" using j two by (auto simp: double_at_def)
      moreover have "(\<forall>k \<ge> i. Q k) \<longleftrightarrow> Q i \<and> Q (Suc i) \<and> (\<forall>k \<ge> j. Q k)" for Q
        using ge_split [of Q] two by (metis Suc_leD Suc_leI le_neq_implies_less order_refl)
      ultimately show ?thesis using code IH two by (auto simp: stands_alone_def)
    next
      case more
      have "double_at cs i" using j more run by (auto simp: double_at_def)
      moreover have "\<not> stands_alone cs i"
        using j(2) j(3) [of "i + 2"] more by (auto simp: stands_alone_def)
      ultimately show ?thesis using code more by auto
    qed
  qed
qed

lemma compile_Inr:
  "compile raw = Inr g \<longleftrightarrow> raw \<noteq> [] \<and> set raw \<inter> set ''[]{}'' = {} \<and> hd raw \<noteq> CHR ''!'' \<and>
     stars_stand_alone (chars raw) \<and>
     g = \<lparr>glob_raw = raw, glob_segments = map segment_of (split_on CHR ''/'' raw)\<rparr>"
proof (cases "raw = []")
  case False
  define B where "B = set ''[]{}''"
  have hd: "starts_with ''!'' raw \<longleftrightarrow> hd raw = CHR ''!''"
    using False by (cases raw) (auto simp: starts_with_def)
  have "(\<exists>c \<in> set raw. c \<in> B) \<longleftrightarrow> set raw \<inter> B \<noteq> {}" by blast
  then show ?thesis
    using False hd check_runs_None [of "chars raw" 0] stars_stand_alone_iff [of "chars raw"]
    unfolding compile_def B_def [symmetric] by (auto split: option.split)
qed (simp add: compile_def)

section \<open>What a compiled glob matches\<close>

fun unit_fits :: "glob_unit \<Rightarrow> rchar list \<Rightarrow> bool" where
  "unit_fits (Literal c) xs = (xs = [c])"
| "unit_fits Question xs = (length xs = 1)"
| "unit_fits Star xs = True"

fun segment_fits :: "segment \<Rightarrow> string list \<Rightarrow> bool" where
  "segment_fits DoubleStar xs = True"
| "segment_fits (Pattern us) xs =
     (\<exists>component cuts. xs = [component] \<and> concat cuts = chars component \<and>
                       list_all2 unit_fits us cuts)"

lemma unit_fits_eq: "fits (\<lambda>u. u = Star) unit_takes = unit_fits"
proof (intro ext)
  show "fits (\<lambda>u. u = Star) unit_takes u xs = unit_fits u xs" for u xs
    by (cases u) (auto simp: fits_def length_Suc_conv)
qed

lemma units_match_iff:
  "units_match us component \<longleftrightarrow> (\<exists>cuts. concat cuts = chars component \<and> list_all2 unit_fits us cuts)"
  by (simp add: units_match_def units.loop_cuts unit_fits_eq)

lemma segment_fits_eq: "fits (\<lambda>s. s = DoubleStar) segment_takes = segment_fits"
proof (intro ext)
  show "fits (\<lambda>s. s = DoubleStar) segment_takes s xs = segment_fits s xs" for s xs
    by (cases s) (auto simp: fits_def units_match_iff)
qed

lemma is_match_iff:
  "is_match g path \<longleftrightarrow>
    (\<exists>cuts. concat cuts = split_on CHR ''/'' path \<and> list_all2 segment_fits (glob_segments g) cuts)"
  by (simp add: is_match_def match_segments_def segs.loop_cuts segment_fits_eq)

lemma is_match_wild:
  "is_match g path \<longleftrightarrow>
     wild (\<lambda>s. s = DoubleStar) segment_takes (glob_segments g) (split_on CHR ''/'' path)"
  by (simp add: is_match_def match_segments_def segs.loop_wild)

subsection \<open>Literal text\<close>

definition plain :: "string \<Rightarrow> bool" where
  "plain s = (CHR ''*'' \<notin> set s \<and> CHR ''?'' \<notin> set s)"

lemma chars_inj: "chars a = chars b \<Longrightarrow> a = b"
  by (metis concat_chars)

lemma units_of_plain:
  assumes "plain s"
  shows "map unit_of (chars s) = map Literal (chars s)"
proof -
  have "c \<noteq> ''*'' \<and> c \<noteq> ''?''" if "c \<in> set (chars s)" for c
  proof -
    have "set c \<subseteq> set (concat (chars s))" using that by auto
    with assms show ?thesis by (auto simp: concat_chars plain_def)
  qed
  then show ?thesis by simp
qed

lemma wild_literals: "wild (\<lambda>u. u = Star) unit_takes (map Literal cs) ts \<longleftrightarrow> ts = cs"
proof (induction cs arbitrary: ts)
  case (Cons c cs)
  then show ?case by (cases ts) auto
qed simp

lemma plain_segment_takes:
  assumes "plain s"
  shows "segment_of s \<noteq> DoubleStar \<and> (segment_takes (segment_of s) t \<longleftrightarrow> t = s)"
proof -
  have "s \<noteq> ''**''" using assms by (auto simp: plain_def)
  then have "segment_of s = Pattern (map Literal (chars s))"
    by (simp add: segment_of_def units_of_plain assms)
  then show ?thesis
    using chars_inj by (auto simp: units_match_def units.loop_wild wild_literals)
qed

lemma wild_plain_segments:
  "\<forall>w \<in> set ws. plain w \<Longrightarrow>
   wild (\<lambda>s. s = DoubleStar) segment_takes (map segment_of ws @ ss) ts \<longleftrightarrow>
     (\<exists>rest. ts = ws @ rest \<and> wild (\<lambda>s. s = DoubleStar) segment_takes ss rest)"
proof (induction ws arbitrary: ts)
  case (Cons w ws)
  then have "segment_of w \<noteq> DoubleStar" "\<And>t. segment_takes (segment_of w) t \<longleftrightarrow> t = w"
    using plain_segment_takes by auto
  with Cons show ?case by (cases ts) auto
qed simp

lemma plain_split: "plain s \<Longrightarrow> \<forall>w \<in> set (split_on d s). plain w"
proof -
  have "set w \<subseteq> set s" if "w \<in> set (split_on d s)" for w
    using that
  proof (induction s arbitrary: w)
    case (Cons c s)
    obtain q qs where q: "split_on d s = q # qs" by (meson neq_Nil_conv split_on_not_Nil)
    have "\<forall>v \<in> set (split_on d s). set v \<subseteq> set s" using Cons.IH by blast
    with q Cons.prems show ?case by (auto split: if_splits)
  qed simp
  then show "plain s \<Longrightarrow> \<forall>w \<in> set (split_on d s). plain w" by (auto simp: plain_def)
qed

lemma split_on_prefix:
  "(\<exists>rest. split_on d p = split_on d w @ rest) \<longleftrightarrow> p = w \<or> (\<exists>r. p = w @ d # r)"
proof
  assume "\<exists>rest. split_on d p = split_on d w @ rest"
  then obtain rest where r: "split_on d p = split_on d w @ rest" by blast
  show "p = w \<or> (\<exists>r. p = w @ d # r)"
  proof (cases rest)
    case Nil
    with r show ?thesis by (metis append_Nil2 join_split_on)
  next
    case (Cons x xs)
    have "join_with [d] (ws @ x # xs) = join_with [d] ws @ d # join_with [d] (x # xs)"
      if "ws \<noteq> []" for ws
      using that
    proof (induction ws rule: list_nonempty_induct)
      case (cons y ys)
      then show ?case by (cases ys) auto
    qed simp
    with r Cons show ?thesis by (metis join_split_on split_on_not_Nil)
  qed
next
  assume "p = w \<or> (\<exists>r. p = w @ d # r)"
  then show "\<exists>rest. split_on d p = split_on d w @ rest" by (auto simp: split_on_append_sep)
qed

lemma compile_segments: "compile raw = Inr g \<Longrightarrow>
   glob_segments g = map segment_of (split_on CHR ''/'' raw) \<and> glob_raw g = raw"
  by (simp add: compile_Inr)


section \<open>Properties\<close>

text \<open>
  C13. The matcher decides the glob language: \<open>is_match\<close>, the linear backtracking loops over
  segments and over characters, accepts a path exactly when the path's \<open>/\<close>-separated
  components can be cut, in order, into stretches that fit the segments, where \<open>**\<close> fits any
  number of components, and a normal segment one component whose characters can be cut the
  same way (\<open>*\<close> any number, \<open>?\<close> exactly one, a literal itself). The match is anchored at both
  ends.
\<close>

theorem glob_match_language:
  "is_match g path \<longleftrightarrow>
    (\<exists>cuts. concat cuts = split_on CHR ''/'' path \<and> list_all2 segment_fits (glob_segments g) cuts)"
  by (rule is_match_iff)

text \<open>
  The compiler accepts exactly the patterns of the schema: nonempty, no bracket or brace
  anywhere, no leading \<open>!\<close>, and every two adjacent stars are a whole path component (which also
  excludes a run of three); the result keeps the text and one segment per component.
\<close>

theorem glob_compile_accepts:
  "compile raw = Inr g \<longleftrightarrow> raw \<noteq> [] \<and> set raw \<inter> set ''[]{}'' = {} \<and> hd raw \<noteq> CHR ''!'' \<and>
     stars_stand_alone (chars raw) \<and>
     g = \<lparr>glob_raw = raw, glob_segments = map segment_of (split_on CHR ''/'' raw)\<rparr>"
  by (rule compile_Inr)

text \<open>
  A rule \<open>base/**\<close> with a literal base covers exactly the base and what lies beneath it,
  at a component boundary: \<open>/ws/**\<close> matches \<open>/ws\<close> and \<open>/ws/a/b\<close>, never \<open>/ws-other\<close>.
\<close>

theorem glob_subtree:
  assumes "compile (base @ ''/**'') = Inr g" and "plain base"
  shows "is_match g path \<longleftrightarrow> path = base \<or> (\<exists>rest. path = base @ CHR ''/'' # rest)"
proof -
  have "split_on CHR ''/'' (base @ ''/**'') = split_on CHR ''/'' base @ [''**'']"
    using split_on_append_sep [of "CHR ''/''" base "''**''"] by simp
  then have "is_match g path \<longleftrightarrow> (\<exists>rest. split_on CHR ''/'' path = split_on CHR ''/'' base @ rest \<and>
      wild (\<lambda>s. s = DoubleStar) segment_takes [DoubleStar] rest)"
    using compile_segments [OF assms(1)] plain_split [OF assms(2)]
    by (simp add: is_match_wild wild_plain_segments segment_of_def [of "''**''"])
  moreover have "wild (\<lambda>s. s = DoubleStar) segment_takes [DoubleStar] rest" for rest
    by (induction rest) auto
  ultimately show ?thesis by (simp add: split_on_prefix)
qed

lemma glob_subtree_witness:
  "is_match \<lparr>glob_raw = ''/ws/**'', glob_segments = map segment_of [[], ''ws'', ''**'']\<rparr> ''/ws/a'' \<longleftrightarrow>
     ''/ws/a'' = ''/ws'' \<or> (\<exists>rest. ''/ws/a'' = ''/ws'' @ CHR ''/'' # rest)"
  using glob_subtree [of "''/ws''" "\<lparr>glob_raw = ''/ws/**'', glob_segments = map segment_of [[], ''ws'', ''**'']\<rparr>" "''/ws/a''"]
  by (simp add: plain_def compile_Inr stars_stand_alone_iff double_at_def stands_alone_def chars_ascii is_ascii_def code_def
      nth_Cons' split: if_splits)

text \<open>
  A literal pattern (no star, no question mark) matches its own text only.
\<close>

theorem glob_literal:
  assumes "compile raw = Inr g" and "plain raw"
  shows "is_match g path \<longleftrightarrow> path = raw"
proof -
  have "is_match g path \<longleftrightarrow> split_on CHR ''/'' path = split_on CHR ''/'' raw"
    using compile_segments [OF assms(1)] plain_split [OF assms(2), of "CHR ''/''"]
      wild_plain_segments [of "split_on CHR ''/'' raw" "[]" "split_on CHR ''/'' path"]
    by (simp add: is_match_wild)
  then show ?thesis by (metis join_split_on)
qed

lemma glob_literal_witness:
  "is_match \<lparr>glob_raw = ''/a'', glob_segments = map segment_of [[], ''a'']\<rparr> ''/b'' \<longleftrightarrow> ''/b'' = ''/a''"
  using glob_literal [of "''/a''" "\<lparr>glob_raw = ''/a'', glob_segments = map segment_of [[], ''a'']\<rparr>" "''/b''"]
  by (simp add: plain_def compile_Inr stars_stand_alone_iff double_at_def chars_ascii is_ascii_def code_def nth_Cons')

end
