(* ===== verification/Rust_Net.thy ===== *)
theory Rust_Net imports Prelude begin

text \<open>
  The part of Rust's \<open>std::net\<close> the sources use: \<open>IpAddr\<close> as a 32- or 128-bit word, its parser
  (the readers of the standard library: each takes the rest of the text and gives the value
  and what is left, or \<open>None\<close> with nothing consumed), its \<open>Display\<close> and \<open>to_ipv4_mapped\<close>.
\<close>

datatype ipaddr = V4 u32 | V6 u128

definition to_ipv4_mapped :: "u128 \<Rightarrow> u32 option" where
  "to_ipv4_mapped w = (if drop_bit 32 w = 0xFFFF then Some (ucast w) else None)"

definition mapped :: "u32 \<Rightarrow> u128" where
  "mapped w = push_bit 32 0xFFFF OR ucast w"

section \<open>Readers\<close>

type_synonym 'a reader = "string \<Rightarrow> ('a \<times> string) option"

definition to_digit :: "nat \<Rightarrow> char \<Rightarrow> nat option" where
  "to_digit radix c =
     (let d = (if is_digit c then code c - 48
               else if is_lower c then code c - 87
               else if is_upper c then code c - 55 else 36)
      in if d < radix then Some d else None)"

text \<open>\<open>read_number\<close> with a digit limit: \<open>n\<close> counts the digits, \<open>max\<close> bounds the value.\<close>

fun read_digits :: "nat \<Rightarrow> nat \<Rightarrow> nat \<Rightarrow> nat \<Rightarrow> nat \<Rightarrow> string \<Rightarrow> (nat \<times> nat \<times> string) option" where
  "read_digits radix limit hi n acc [] = Some (n, acc, [])"
| "read_digits radix limit hi n acc (c # cs) =
     (case to_digit radix c of
        None \<Rightarrow> Some (n, acc, c # cs)
      | Some d \<Rightarrow> if hi < acc * radix + d \<or> limit < Suc n then None
                  else read_digits radix limit hi (Suc n) (acc * radix + d) cs)"

definition read_number :: "nat \<Rightarrow> nat \<Rightarrow> nat \<Rightarrow> bool \<Rightarrow> nat reader" where
  "read_number radix limit hi allow_zero_prefix s =
     (case read_digits radix limit hi 0 0 s of
        None \<Rightarrow> None
      | Some (n, v, r) \<Rightarrow>
          if n = 0 \<or> (\<not> allow_zero_prefix \<and> starts_with ''0'' s \<and> 1 < n) then None
          else Some (v, r))"

fun read_given_char :: "char \<Rightarrow> string \<Rightarrow> string option" where
  "read_given_char c [] = None"
| "read_given_char c (x # xs) = (if x = c then Some xs else None)"

definition read_separator :: "char \<Rightarrow> nat \<Rightarrow> 'a reader \<Rightarrow> 'a reader" where
  "read_separator sep i inner s =
     (if i = 0 then inner s
      else case read_given_char sep s of None \<Rightarrow> None | Some r \<Rightarrow> inner r)"

fun read_octets :: "nat \<Rightarrow> nat \<Rightarrow> nat reader" where
  "read_octets i 0 s = Some (0, s)"
| "read_octets i (Suc k) s =
     (case read_separator CHR ''.'' i (read_number 10 3 255 False) s of
        None \<Rightarrow> None
      | Some (v, r) \<Rightarrow> (case read_octets (Suc i) k r of
          None \<Rightarrow> None | Some (w, r') \<Rightarrow> Some (v * 256 ^ k + w, r')))"

definition read_ipv4 :: "u32 reader" where
  "read_ipv4 s = (case read_octets 0 4 s of None \<Rightarrow> None | Some (v, r) \<Rightarrow> Some (of_nat v, r))"

text \<open>
  \<open>read_groups\<close>: up to \<open>limit\<close> 16-bit groups from index \<open>i\<close>, the last two possibly an IPv4
  address; the result is the groups read, whether they ended in IPv4, and the rest.
\<close>

fun read_groups :: "nat \<Rightarrow> nat \<Rightarrow> string \<Rightarrow> nat list \<times> bool \<times> string" where
  "read_groups i 0 s = ([], False, s)"
| "read_groups i (Suc k) s =
     (case (if k = 0 then None else read_separator CHR '':'' i read_ipv4 s) of
        Some (a, r) \<Rightarrow> ([unat (drop_bit 16 a), unat (take_bit 16 a)], True, r)
      | None \<Rightarrow>
          (case read_separator CHR '':'' i (read_number 16 4 0xFFFF True) s of
             None \<Rightarrow> ([], False, s)
           | Some (g, r) \<Rightarrow>
               (let (gs, v4, r') = read_groups (Suc i) k r in (g # gs, v4, r'))))"

lemma read_octets_numeral [text_simps]:
  "read_octets i (numeral v) s =
     (case read_separator CHR ''.'' i (read_number 10 3 255 False) s of
        None \<Rightarrow> None
      | Some (x, r) \<Rightarrow> (case read_octets (Suc i) (pred_numeral v) r of
          None \<Rightarrow> None | Some (w, r') \<Rightarrow> Some (x * 256 ^ pred_numeral v + w, r')))"
  by (simp add: numeral_eq_Suc)

lemma read_groups_numeral [text_simps]:
  "read_groups i (numeral v) s =
     (case (if pred_numeral v = 0 then None else read_separator CHR '':'' i read_ipv4 s) of
        Some (a, r) \<Rightarrow> ([unat (drop_bit 16 a), unat (take_bit 16 a)], True, r)
      | None \<Rightarrow>
          (case read_separator CHR '':'' i (read_number 16 4 0xFFFF True) s of
             None \<Rightarrow> ([], False, s)
           | Some (g, r) \<Rightarrow>
               (let (gs, v4, r') = read_groups (Suc i) (pred_numeral v) r in (g # gs, v4, r'))))"
  by (simp add: numeral_eq_Suc)

lemma replicate_num [text_simps]: "replicate (numeral v) x = x # replicate (pred_numeral v) x"
  by (simp add: numeral_eq_Suc)

definition groups_word :: "nat list \<Rightarrow> u128" where
  "groups_word gs = of_nat (foldl (\<lambda>acc g. acc * 0x10000 + g) 0 gs)"

definition read_ipv6 :: "u128 reader" where
  "read_ipv6 s =
     (let (head, head_v4, r) = read_groups 0 8 s
      in if length head = 8 then Some (groups_word head, r)
         else if head_v4 then None
         else case read_given_char CHR '':'' r of None \<Rightarrow> None | Some r1 \<Rightarrow>
              (case read_given_char CHR '':'' r1 of None \<Rightarrow> None | Some r2 \<Rightarrow>
                 (let (tail, _, r3) = read_groups 0 (8 - (length head + 1)) r2
                  in Some (groups_word (head @ replicate (8 - length head - length tail) 0 @ tail),
                           r3))))"

definition parse_ip :: "string \<Rightarrow> ipaddr option" where
  "parse_ip s =
     (case (case read_ipv4 s of
              Some (a, r) \<Rightarrow> Some (V4 a, r)
            | None \<Rightarrow> map_option (\<lambda>(a, r). (V6 a, r)) (read_ipv6 s)) of
        Some (a, []) \<Rightarrow> Some a
      | _ \<Rightarrow> None)"

lemmas parse_ip_eval = parse_ip_def read_ipv4_def read_separator_def read_number_def to_digit_def
  is_digit_def is_lower_def is_upper_def code_def starts_with_def read_ipv6_def groups_word_def

section \<open>Display\<close>

definition octet :: "nat \<Rightarrow> u32 \<Rightarrow> nat" where
  "octet i w = unat (take_bit 8 (drop_bit (24 - 8 * i) w))"

definition show_ipv4 :: "u32 \<Rightarrow> string" where
  "show_ipv4 w = join_with ''.'' (map (\<lambda>i. show_nat (octet i w)) [0, 1, 2, 3])"

definition hex_digit :: "nat \<Rightarrow> char" where
  "hex_digit n = (if n < 10 then char_of (48 + n) else char_of (87 + n))"

fun show_hex :: "nat \<Rightarrow> string" where
  "show_hex n = (if n < 16 then [hex_digit n] else show_hex (n div 16) @ [hex_digit (n mod 16)])"

declare show_hex.simps [simp del]

definition ipv6_segments :: "u128 \<Rightarrow> nat list" where
  "ipv6_segments w = map (\<lambda>i. unat (take_bit 16 (drop_bit (112 - 16 * i) w))) [0..<8]"

text \<open>The first longest run of zero segments, as (start, length).\<close>

fun longest_zeros :: "nat \<Rightarrow> nat \<times> nat \<Rightarrow> nat \<times> nat \<Rightarrow> nat list \<Rightarrow> nat \<times> nat" where
  "longest_zeros i best cur [] = best"
| "longest_zeros i best cur (g # gs) =
     (if g = 0 then
        let cur' = (if snd cur = 0 then i else fst cur, Suc (snd cur));
            best' = (if snd best < snd cur' then cur' else best)
        in longest_zeros (Suc i) best' cur' gs
      else longest_zeros (Suc i) best (0, 0) gs)"

definition show_ipv6 :: "u128 \<Rightarrow> string" where
  "show_ipv6 w =
     (case to_ipv4_mapped w of
        Some a \<Rightarrow> ''::ffff:'' @ show_ipv4 a
      | None \<Rightarrow>
          (let gs = ipv6_segments w; (start, len) = longest_zeros 0 (0, 0) (0, 0) gs
           in if 1 < len
              then join_with '':'' (map show_hex (take start gs)) @ ''::'' @
                   join_with '':'' (map show_hex (drop (start + len) gs))
              else join_with '':'' (map show_hex gs)))"

fun show_ip :: "ipaddr \<Rightarrow> string" where
  "show_ip (V4 w) = show_ipv4 w"
| "show_ip (V6 w) = show_ipv6 w"

text \<open>\<open>Display\<close> of a \<open>SocketAddr\<close> (no scope id).\<close>

fun show_socket_addr :: "ipaddr \<Rightarrow> u16 \<Rightarrow> string" where
  "show_socket_addr (V4 w) port = show_ipv4 w @ '':'' @ show_nat (unat port)"
| "show_socket_addr (V6 w) port = ''['' @ show_ipv6 w @ '']:'' @ show_nat (unat port)"

section \<open>Laws\<close>

lemma drop_ucast_u32: "drop_bit 32 (ucast (a :: u32) :: u128) = 0"
  by (rule bit_word_eqI) (auto simp: bit_simps dest: bit_imp_le_length)

lemma ucast_push_u32: "(ucast (push_bit 32 (w :: u128)) :: u32) = 0"
  by (rule bit_word_eqI) (auto simp: bit_simps)

lemma ucast_ucast_u32: "(ucast (ucast (a :: u32) :: u128) :: u32) = a"
  by (rule bit_word_eqI) (auto simp: bit_simps)

lemma ucast_or: "(ucast (a OR b :: u128) :: u32) = ucast a OR ucast b"
  by (rule bit_word_eqI) (auto simp: bit_simps)

lemma to_ipv4_mapped_mapped: "to_ipv4_mapped (mapped a) = Some a"
proof -
  have "drop_bit 32 (push_bit 32 0xFFFF :: u128) = 0xFFFF"
    by simp
  then have "drop_bit 32 (mapped a) = 0xFFFF"
    by (simp only: mapped_def drop_bit_or drop_ucast_u32 or.right_neutral)
  moreover have "ucast (mapped a) = a"
    by (simp only: mapped_def ucast_or ucast_push_u32 ucast_ucast_u32 or.left_neutral)
  ultimately show ?thesis by (simp add: to_ipv4_mapped_def)
qed

lemma to_ipv4_mapped_iff: "to_ipv4_mapped w = Some a \<longleftrightarrow> w = mapped a"
proof
  assume "to_ipv4_mapped w = Some a"
  then have hi: "drop_bit 32 w = 0xFFFF" and lo: "ucast w = a"
    by (auto simp: to_ipv4_mapped_def split: if_splits)
  have "w = push_bit 32 (drop_bit 32 w) OR take_bit 32 w"
    by (rule bit_word_eqI) (auto simp: bit_simps)
  also have "take_bit 32 w = ucast a"
    unfolding lo [symmetric] by (rule bit_word_eqI) (auto simp: bit_simps)
  finally show "w = mapped a" by (simp add: hi mapped_def)
qed (simp add: to_ipv4_mapped_mapped)

end
