(* ===== verification/Host.thy ===== *)
theory Host imports Rust_Net begin

text \<open>
  \<open>src/src/policy/host.rs\<close>: the host rules of the net table, their parser and the two match
  primitives. A prefix length is a \<open>nat\<close> (the source's \<open>u8\<close>, so at most 255 after parsing).
\<close>

section \<open>Rules and their parser\<close>

datatype host_rule = Any | Exact string | Suffix string | Ip ipaddr | Cidr ipaddr nat

datatype host_error = HostEmpty | InvalidHostname | InvalidWildcard | InvalidCidr

fun normalize_ip :: "ipaddr \<Rightarrow> ipaddr" where
  "normalize_ip (V6 v6) = (case to_ipv4_mapped v6 of None \<Rightarrow> V6 v6 | Some v4 \<Rightarrow> V4 v4)"
| "normalize_ip (V4 v4) = V4 v4"

definition valid_label :: "string \<Rightarrow> bool" where
  "valid_label label =
     (if label = [] \<or> 63 < length label then False
      else if hd label = CHR ''-'' \<or> last label = CHR ''-'' then False
      else list_all (\<lambda>c. is_alphanumeric c \<or> c = CHR ''-'') label)"

definition valid_hostname :: "string \<Rightarrow> bool" where
  "valid_hostname host =
     (if host = [] \<or> 253 < length host then False
      else list_all valid_label (split_on CHR ''.'' host))"

definition parse_cidr :: "string \<Rightarrow> string \<Rightarrow> host_error + host_rule" where
  "parse_cidr addr prefix =
     and_then (ok_or InvalidCidr (parse_ip addr)) (\<lambda>a.
     and_then (ok_or InvalidCidr (parse_uint 255 prefix)) (\<lambda>p.
       if (case a of V4 _ \<Rightarrow> 32 | V6 _ \<Rightarrow> 128) < p then Inl InvalidCidr
       else case a of
           V6 v6 \<Rightarrow> (case to_ipv4_mapped v6 of
               Some v4 \<Rightarrow> if p < 96 then Inl InvalidCidr else Inr (Cidr (V4 v4) (p - 96))
             | None \<Rightarrow> Inr (Cidr a p))
         | V4 _ \<Rightarrow> Inr (Cidr a p)))"

definition parse_host :: "string \<Rightarrow> host_error + host_rule" where
  "parse_host host =
     (if host = [] then Inl HostEmpty
      else if host = ''*'' then Inr Any
      else case strip_prefix ''*.'' host of
        Some suffix \<Rightarrow>
          if valid_hostname suffix then Inr (Suffix (to_ascii_lowercase suffix))
          else Inl InvalidWildcard
      | None \<Rightarrow>
        (case split_once CHR ''/'' host of
           Some (addr, prefix) \<Rightarrow> parse_cidr addr prefix
         | None \<Rightarrow>
           (case parse_ip host of
              Some ip \<Rightarrow> Inr (Ip (normalize_ip ip))
            | None \<Rightarrow>
              if valid_hostname host then Inr (Exact (to_ascii_lowercase host))
              else Inl InvalidHostname)))"

section \<open>Matching\<close>

fun cidr_contains :: "ipaddr \<Rightarrow> nat \<Rightarrow> ipaddr \<Rightarrow> bool" where
  "cidr_contains (V4 net) prefix (V4 target) =
     (let mask = (if prefix = 0 then 0 else push_bit (32 - prefix) (- 1))
      in net AND mask = target AND mask)"
| "cidr_contains (V6 net) prefix (V6 target) =
     (let mask = (if prefix = 0 then 0 else push_bit (128 - prefix) (- 1))
      in net AND mask = target AND mask)"
| "cidr_contains _ prefix _ = False"

fun matches_ip :: "host_rule \<Rightarrow> ipaddr \<Rightarrow> bool" where
  "matches_ip Any ip = True"
| "matches_ip (Ip a) ip = (a = ip)"
| "matches_ip (Cidr addr prefix) ip = cidr_contains addr prefix ip"
| "matches_ip (Exact _) ip = False"
| "matches_ip (Suffix _) ip = False"

fun matches_hostname :: "host_rule \<Rightarrow> string \<Rightarrow> bool" where
  "matches_hostname Any name = True"
| "matches_hostname (Exact h) name = eq_ignore_ascii_case name h"
| "matches_hostname (Suffix suffix) name =
     (let name = to_ascii_lowercase name
      in length suffix + 1 < length name \<and> ends_with suffix name \<and>
         name ! (length name - length suffix - 1) = CHR ''.'')"
| "matches_hostname (Ip _) name = False"
| "matches_hostname (Cidr _ _) name = False"

fun show_host :: "host_rule \<Rightarrow> string" where
  "show_host Any = ''*''"
| "show_host (Exact h) = h"
| "show_host (Suffix s) = ''*.'' @ s"
| "show_host (Ip ip) = show_ip ip"
| "show_host (Cidr addr prefix) = show_ip addr @ ''/'' @ show_nat prefix"

section \<open>Lemmas\<close>

lemma masked_eq_iff:
  fixes a b :: "'a::len word"
  assumes "p \<le> LENGTH('a)"
  shows "a AND push_bit (LENGTH('a) - p) (- 1) = b AND push_bit (LENGTH('a) - p) (- 1) \<longleftrightarrow>
    (\<forall>i. LENGTH('a) - p \<le> i \<and> i < LENGTH('a) \<longrightarrow> bit a i = bit b i)"
proof
  assume eq: "a AND push_bit (LENGTH('a) - p) (- 1) = b AND push_bit (LENGTH('a) - p) (- 1)"
  show "\<forall>i. LENGTH('a) - p \<le> i \<and> i < LENGTH('a) \<longrightarrow> bit a i = bit b i"
  proof (intro allI impI)
    fix i assume "LENGTH('a) - p \<le> i \<and> i < LENGTH('a)"
    then show "bit a i = bit b i"
      using arg_cong [OF eq, of "\<lambda>w. bit w i"] by (simp add: bit_simps)
  qed
next
  assume "\<forall>i. LENGTH('a) - p \<le> i \<and> i < LENGTH('a) \<longrightarrow> bit a i = bit b i"
  then show "a AND push_bit (LENGTH('a) - p) (- 1) = b AND push_bit (LENGTH('a) - p) (- 1)"
    by (intro bit_word_eqI) (auto simp: bit_simps)
qed

definition same_top_bits :: "nat \<Rightarrow> 'a::len word \<Rightarrow> 'a word \<Rightarrow> bool" where
  "same_top_bits p a b = (\<forall>i < LENGTH('a). LENGTH('a) - p \<le> i \<longrightarrow> bit a i = bit b i)"

lemma cidr_v4: "p \<le> 32 \<Longrightarrow> cidr_contains (V4 n) p (V4 t) \<longleftrightarrow> same_top_bits p n t"
  using masked_eq_iff [of p n t] by (auto simp: same_top_bits_def Let_def)

lemma cidr_v6: "p \<le> 128 \<Longrightarrow> cidr_contains (V6 n) p (V6 t) \<longleftrightarrow> same_top_bits p n t"
  using masked_eq_iff [of p n t] by (auto simp: same_top_bits_def Let_def)

lemma mapped_mask: "mapped a = push_bit 32 (mask 16) OR ucast a"
  by (simp add: mapped_def mask_numeral)

lemma bit_mapped: "i < 128 \<Longrightarrow> bit (mapped a) i \<longleftrightarrow> (if i < 32 then bit a i else i < 48)"
  unfolding mapped_mask by (auto simp: bit_simps dest: bit_imp_le_length)

lemma same_top_bits_mapped:
  assumes "96 \<le> p" "p \<le> 128"
  shows "same_top_bits p (mapped n) (mapped t) \<longleftrightarrow> same_top_bits (p - 96) n t"
proof -
  have "same_top_bits p (mapped n) (mapped t) \<longleftrightarrow>
      (\<forall>i < 128. 128 - p \<le> i \<longrightarrow> i < 32 \<longrightarrow> bit n i = bit t i)"
    by (auto simp: same_top_bits_def bit_mapped)
  also have "\<dots> \<longleftrightarrow> (\<forall>i < 32. 32 - (p - 96) \<le> i \<longrightarrow> bit n i = bit t i)"
    using assms by auto
  finally show ?thesis by (simp add: same_top_bits_def)
qed

fun wf_host :: "host_rule \<Rightarrow> bool" where
  "wf_host Any = True"
| "wf_host (Exact h) = (valid_hostname h \<and> to_ascii_lowercase h = h)"
| "wf_host (Suffix s) = (valid_hostname s \<and> to_ascii_lowercase s = s)"
| "wf_host (Ip a) = (normalize_ip a = a)"
| "wf_host (Cidr a p) = (normalize_ip a = a \<and> p \<le> (case a of V4 _ \<Rightarrow> 32 | V6 _ \<Rightarrow> 128))"

lemma normalize_ip_idem [simp]: "normalize_ip (normalize_ip a) = normalize_ip a"
  by (cases a) (auto split: option.split)

lemma is_alphanumeric_lower: "is_alphanumeric c \<Longrightarrow> is_alphanumeric (lower_char c)"
  by (auto simp: is_alphanumeric_def lower_char_def is_upper_def is_lower_def code_char_of)

lemma lower_char_special: "d \<in> {CHR ''-'', CHR ''.''} \<Longrightarrow> lower_char c = d \<longleftrightarrow> c = d"
proof -
  assume d: "d \<in> {CHR ''-'', CHR ''.''}"
  have "lower_char d = d" using d by (auto simp: lower_char_def is_upper_def code_def)
  moreover have "is_upper c \<Longrightarrow> lower_char c \<noteq> d"
  proof
    assume "is_upper c" "lower_char c = d"
    then have "code d = code c + 32" "65 \<le> code c"
      by (auto simp: lower_char_def is_upper_def code_char_of)
    with d show False by (auto simp: code_def)
  qed
  ultimately show ?thesis by (auto simp: lower_char_def)
qed

lemma valid_label_lower: "valid_label l \<Longrightarrow> valid_label (to_ascii_lowercase l)"
  by (auto simp: valid_label_def to_ascii_lowercase_def hd_map last_map lower_char_special
      list_all_iff is_alphanumeric_lower split: if_splits)

lemma split_on_lower:
  "split_on CHR ''.'' (to_ascii_lowercase s) = map to_ascii_lowercase (split_on CHR ''.'' s)"
proof (induction s)
  case (Cons c s)
  then show ?case
    by (cases "split_on CHR ''.'' s")
       (auto simp: to_ascii_lowercase_def lower_char_special)
qed (simp add: to_ascii_lowercase_def)

lemma valid_hostname_lower: "valid_hostname h \<Longrightarrow> valid_hostname (to_ascii_lowercase h)"
proof -
  assume h: "valid_hostname h"
  then have "\<forall>l \<in> set (split_on CHR ''.'' h). valid_label (to_ascii_lowercase l)"
    using valid_label_lower by (simp add: valid_hostname_def list_all_iff split: if_splits)
  moreover have "h \<noteq> []" "length h \<le> 253"
    using h by (simp_all add: valid_hostname_def split: if_splits)
  moreover from this have "to_ascii_lowercase h \<noteq> []" by (simp add: to_ascii_lowercase_def)
  ultimately show ?thesis by (simp add: valid_hostname_def split_on_lower list_all_iff)
qed

lemma parse_cidr_wf: "parse_cidr a p = Inr r \<Longrightarrow> wf_host r"
  unfolding parse_cidr_def
proof (simp only: result_simps, elim exE conjE)
  fix ip n
  assume "(if (case ip of V4 _ \<Rightarrow> 32 | V6 _ \<Rightarrow> 128) < n then Inl InvalidCidr
       else case ip of
           V6 v6 \<Rightarrow> (case to_ipv4_mapped v6 of
               Some v4 \<Rightarrow> if n < 96 then Inl InvalidCidr else Inr (Cidr (V4 v4) (n - 96))
             | None \<Rightarrow> Inr (Cidr ip n))
         | V4 _ \<Rightarrow> Inr (Cidr ip n)) = Inr r"
  then show "wf_host r"
    by (cases ip) (auto split: if_splits option.splits)
qed

lemma parse_host_wf: "parse_host h = Inr r \<Longrightarrow> wf_host r"
  by (auto simp: parse_host_def parse_cidr_wf valid_hostname_lower
      split: if_splits option.splits)

lemma suffix_iff:
  "matches_hostname (Suffix s) name \<longleftrightarrow>
     (\<exists>label. label \<noteq> [] \<and> to_ascii_lowercase name = label @ CHR ''.'' # s)"
proof -
  define n where "n = to_ascii_lowercase name"
  have "length s + 1 < length n \<and> ends_with s n \<and> n ! (length n - length s - 1) = CHR ''.'' \<longleftrightarrow>
      (\<exists>label. label \<noteq> [] \<and> n = label @ CHR ''.'' # s)" (is "?code \<longleftrightarrow> ?spec")
  proof
    assume c: ?code
    then obtain r where r: "n = r @ s" by (auto simp: ends_with_iff)
    with c have len: "1 < length r" by simp
    then have "r = butlast r @ [last r]" by (metis append_butlast_last_id list.size(3) not_one_less_zero)
    moreover have "last r = CHR ''.''"
      using c r len by (cases "r = []") (auto simp: nth_append last_conv_nth)
    ultimately have "n = butlast r @ CHR ''.'' # s" using r by simp
    moreover have "butlast r \<noteq> []" using len by (cases r) auto
    ultimately show ?spec by blast
  next
    assume ?spec
    then obtain l where l: "l \<noteq> []" "n = l @ CHR ''.'' # s" by blast
    have "ends_with s n" unfolding ends_with_iff using l(2) by (intro exI [of _ "l @ ''.''"]) simp
    with l show ?code by (simp add: nth_append)
  qed
  then show ?thesis by (simp add: n_def Let_def)
qed

section \<open>Properties\<close>

text \<open>
  Every rule that parses is well formed: names are valid and stored in lower case, a prefix
  never exceeds the width of its address (so no mask shift overflows), and no address is an
  IPv4-mapped IPv6 address (those are stored as IPv4, the form the notify loop looks up).
\<close>

theorem parse_host_well_formed:
  assumes "parse_host h = Inr r"
  shows "wf_host r"
  using assms by (rule parse_host_wf)

lemma parse_host_well_formed_witness: "wf_host (Suffix ''a.b'')"
  using parse_host_well_formed [of "''*.A.b''" "Suffix ''a.b''"]
  by (simp add: parse_host_def valid_hostname_def valid_label_def is_alphanumeric_def is_digit_def
      is_upper_def is_lower_def to_ascii_lowercase_def lower_char_def code_def)

text \<open>
  A CIDR rule contains an address exactly when the two agree on the first \<open>prefix\<close> bits, in
  both families, and never across families.
\<close>

theorem cidr_is_prefix_match:
  assumes "wf_host (Cidr net prefix)"
  shows "matches_ip (Cidr net prefix) ip \<longleftrightarrow>
    (case (net, ip) of
       (V4 n, V4 t) \<Rightarrow> same_top_bits prefix n t
     | (V6 n, V6 t) \<Rightarrow> same_top_bits prefix n t
     | _ \<Rightarrow> False)"
  using assms cidr_v4 cidr_v6 by (cases net; cases ip) (auto simp del: cidr_contains.simps(1,2))

lemma cidr_is_prefix_match_witness:
  "matches_ip (Cidr (V4 0x0A000000) 8) (V4 0x0A010203) \<longleftrightarrow> same_top_bits 8 (0x0A000000 :: u32) 0x0A010203"
  using cidr_is_prefix_match [of "V4 0x0A000000" 8 "V4 0x0A010203"] by simp

text \<open>
  Storing an IPv4-mapped block \<open>::ffff:n/p\<close> as the IPv4 block \<open>n/(p-96)\<close> keeps its meaning:
  it contains \<open>t\<close> exactly when the block as written contains \<open>::ffff:t\<close>.
\<close>

theorem mapped_block_keeps_meaning:
  assumes "parse_ip addr = Some (V6 (mapped n))" and "parse_uint 255 p = Some prefix"
    and "96 \<le> prefix" and "prefix \<le> 128"
  shows "parse_cidr addr p = Inr (Cidr (V4 n) (prefix - 96)) \<and>
    (matches_ip (Cidr (V4 n) (prefix - 96)) (V4 t) \<longleftrightarrow>
     cidr_contains (V6 (mapped n)) prefix (V6 (mapped t)))"
proof -
  have "parse_cidr addr p = Inr (Cidr (V4 n) (prefix - 96))"
    using assms by (simp add: parse_cidr_def to_ipv4_mapped_mapped)
  moreover have "prefix - 96 \<le> 32" using assms by simp
  ultimately show ?thesis
    using assms(3,4) cidr_v4 [of "prefix - 96" n t] cidr_v6 [of prefix "mapped n" "mapped t"]
    by (simp add: same_top_bits_mapped del: cidr_contains.simps)
qed

lemma mapped_block_keeps_meaning_witness:
  "parse_cidr ''::ffff:1.0.0.0'' ''120'' = Inr (Cidr (V4 0x1000000) (120 - 96)) \<and>
    (matches_ip (Cidr (V4 0x1000000) (120 - 96)) (V4 7) \<longleftrightarrow>
     cidr_contains (V6 (mapped 0x1000000)) 120 (V6 (mapped 7)))"
proof (rule mapped_block_keeps_meaning)
  show "parse_ip ''::ffff:1.0.0.0'' = Some (V6 (mapped 0x1000000))"
    by (simp add: parse_ip_eval text_simps mapped_def)
  show "parse_uint 255 ''120'' = Some 120"
    by (simp add: parse_uint_def is_digit_def code_def)
qed simp_all

text \<open>
  A \<open>*.suffix\<close> rule matches the strict subdomains of the suffix, case-insensitively: some
  nonempty prefix, a dot, and the suffix; neither the apex nor a name that merely ends with the
  same letters.
\<close>

theorem suffix_matches_strict_subdomains:
  "matches_hostname (Suffix s) name \<longleftrightarrow>
     (\<exists>label. label \<noteq> [] \<and> to_ascii_lowercase name = label @ CHR ''.'' # s)"
  by (rule suffix_iff)

end
