(* ===== verification/Policy_Load.thy ===== *)
theory Policy_Load imports Glob Host Rust_Path begin

text \<open>
  \<open>src/src/policy/mod.rs\<close>: loading a policy. The TOML parser (with the serde shapes it fills,
  which reject unknown keys, actions and modes) is a parameter \<open>from_str\<close> from the text to an
  error or a \<open>raw_policy\<close>; so are the file read and the SHA-256 digest. Validation, expansion
  and the total rejection at the first fault are modelled.
\<close>

section \<open>Data\<close>

definition SCHEMA_VERSION :: nat where
  "SCHEMA_VERSION = 1"

datatype action = AllowAction | DenyAction | AskAction

datatype fs_mode = ModeRead | ModeWrite | ModeCreate | ModeDelete

record fs_rule =
  fr_path :: glob
  fr_mode :: "fs_mode list"
  fr_action :: action

record net_rule =
  nr_host :: host_rule
  nr_port :: "nat option"
  nr_action :: action

record exec_rule =
  er_binary :: glob
  er_action :: action

record policy =
  p_schema_version :: nat
  p_workspace :: string
  p_fs :: "fs_rule list"
  p_net :: "net_rule list"
  p_exec :: "exec_rule list"

record loaded_policy =
  lp_policy :: policy
  lp_digest :: string

record expand_context =
  ec_workspace :: string
  ec_home :: string

datatype expand_error = MisplacedWorkspace | MisplacedTilde

datatype rule_table = FsTable | ExecTable

datatype ('io, 'toml) policy_error =
    ReadError string 'io
  | TomlError 'toml
  | SchemaVersion nat nat
  | EmptyMode nat
  | GlobError rule_table nat string glob_error
  | HostError nat string host_error
  | ZeroPort nat
  | ExpandError rule_table nat string expand_error

record raw_fs_rule =
  rf_path :: string
  rf_mode :: "fs_mode list"
  rf_action :: action

record raw_net_rule =
  rn_host :: string
  rn_port :: "u16 option"
  rn_action :: action

record raw_exec_rule =
  re_binary :: string
  re_action :: action

record raw_policy =
  raw_schema_version :: nat
  raw_fs :: "raw_fs_rule list"
  raw_net :: "raw_net_rule list"
  raw_exec :: "raw_exec_rule list"

section \<open>Operations\<close>

definition expand :: "string \<Rightarrow> expand_context \<Rightarrow> expand_error + string" where
  "expand raw ctx =
     and_then
       (if raw = ''{workspace}'' then Inr (ec_workspace ctx)
        else case strip_prefix ''{workspace}/'' raw of
          Some rest \<Rightarrow> Inr (ec_workspace ctx @ ''/'' @ rest)
        | None \<Rightarrow> if contains_str ''{workspace}'' raw then Inl MisplacedWorkspace else Inr raw)
       (\<lambda>after_ws.
          if after_ws = ''~'' then Inr (ec_home ctx)
          else case strip_prefix ''~/'' after_ws of
            Some rest \<Rightarrow> Inr (ec_home ctx @ ''/'' @ rest)
          | None \<Rightarrow> if starts_with ''~'' after_ws then Inl MisplacedTilde else Inr after_ws)"

definition compile_glob ::
  "rule_table \<Rightarrow> nat \<Rightarrow> string \<Rightarrow> expand_context \<Rightarrow> ('io, 'toml) policy_error + glob" where
  "compile_glob table index raw ctx =
     and_then (map_err (ExpandError table index raw) (expand raw ctx)) (\<lambda>expanded.
       map_err (GlobError table index raw) (compile expanded))"

definition load_fs_rule ::
  "expand_context \<Rightarrow> nat \<Rightarrow> raw_fs_rule \<Rightarrow> ('io, 'toml) policy_error + fs_rule" where
  "load_fs_rule ctx i rule =
     (let index = i + 1
      in if rf_mode rule = [] then Inl (EmptyMode index)
         else and_then (compile_glob FsTable index (rf_path rule) ctx) (\<lambda>path.
           Inr \<lparr>fr_path = path, fr_mode = rf_mode rule, fr_action = rf_action rule\<rparr>))"

definition load_net_rule :: "nat \<Rightarrow> raw_net_rule \<Rightarrow> ('io, 'toml) policy_error + net_rule" where
  "load_net_rule i rule =
     (let index = i + 1
      in if rn_port rule = Some 0 then Inl (ZeroPort index)
         else and_then (map_err (HostError index (rn_host rule)) (parse_host (rn_host rule))) (\<lambda>host.
           Inr \<lparr>nr_host = host, nr_port = map_option unat (rn_port rule),
                nr_action = rn_action rule\<rparr>))"

definition load_exec_rule ::
  "expand_context \<Rightarrow> nat \<Rightarrow> raw_exec_rule \<Rightarrow> ('io, 'toml) policy_error + exec_rule" where
  "load_exec_rule ctx i rule =
     (let index = i + 1
      in and_then (compile_glob ExecTable index (re_binary rule) ctx) (\<lambda>binary.
           Inr \<lparr>er_binary = binary, er_action = re_action rule\<rparr>))"

definition validate_policy :: "raw_policy \<Rightarrow> expand_context \<Rightarrow> ('io, 'toml) policy_error + policy" where
  "validate_policy raw ctx =
     (if raw_schema_version raw \<noteq> SCHEMA_VERSION
      then Inl (SchemaVersion (raw_schema_version raw) SCHEMA_VERSION)
      else
        and_then (enumerate_map (load_fs_rule ctx) 0 (raw_fs raw)) (\<lambda>fs.
        and_then (enumerate_map load_net_rule 0 (raw_net raw)) (\<lambda>net.
        and_then (enumerate_map (load_exec_rule ctx) 0 (raw_exec raw)) (\<lambda>exec.
          Inr \<lparr>p_schema_version = raw_schema_version raw, p_workspace = ec_workspace ctx,
               p_fs = fs, p_net = net, p_exec = exec\<rparr>))))"

definition parse_policy ::
  "(string \<Rightarrow> 'toml + raw_policy) \<Rightarrow> string \<Rightarrow> expand_context \<Rightarrow> ('io, 'toml) policy_error + policy" where
  "parse_policy from_str txt ctx =
     and_then (map_err TomlError (from_str txt)) (\<lambda>raw. validate_policy raw ctx)"

definition hex_nibble :: "nat \<Rightarrow> char" where
  "hex_nibble n = ''0123456789abcdef'' ! n"

definition hex_sha256 :: "(string \<Rightarrow> u8 list) \<Rightarrow> string \<Rightarrow> string" where
  "hex_sha256 sha256 bs =
     concat (map (\<lambda>b. [hex_nibble (unat (drop_bit 4 b)), hex_nibble (unat (b AND 0x0F))]) (sha256 bs))"

definition load_with_digest ::
  "(path \<Rightarrow> 'io + string) \<Rightarrow> (string \<Rightarrow> u8 list) \<Rightarrow> (string \<Rightarrow> 'toml + raw_policy) \<Rightarrow>
   path \<Rightarrow> expand_context \<Rightarrow> ('io, 'toml) policy_error + loaded_policy" where
  "load_with_digest read_to_string sha256 from_str p ctx =
     and_then (map_err (ReadError (to_string_lossy p)) (read_to_string p)) (\<lambda>txt.
     and_then (parse_policy from_str txt ctx) (\<lambda>policy.
       Inr \<lparr>lp_policy = policy, lp_digest = hex_sha256 sha256 txt\<rparr>))"

definition load ::
  "(path \<Rightarrow> 'io + string) \<Rightarrow> (string \<Rightarrow> u8 list) \<Rightarrow> (string \<Rightarrow> 'toml + raw_policy) \<Rightarrow>
   path \<Rightarrow> expand_context \<Rightarrow> ('io, 'toml) policy_error + policy" where
  "load read_to_string sha256 from_str p ctx =
     and_then (load_with_digest read_to_string sha256 from_str p ctx) (\<lambda>l. Inr (lp_policy l))"

section \<open>Lemmas\<close>

lemma expand_workspace_prefix:
  assumes "is_absolute (ec_workspace ctx)"
  shows "expand (''{workspace}/'' @ rest) ctx = Inr (ec_workspace ctx @ CHR ''/'' # rest)"
  using assms by (cases "ec_workspace ctx") (auto simp: expand_def starts_with_def)

lemma expand_workspace:
  assumes "is_absolute (ec_workspace ctx)"
  shows "expand ''{workspace}'' ctx = Inr (ec_workspace ctx)"
  using assms by (cases "ec_workspace ctx") (auto simp: expand_def starts_with_def)

lemma expand_absolute:
  assumes "is_absolute raw" and "\<not> contains_str ''{workspace}'' raw"
  shows "expand raw ctx = Inr raw"
  using assms by (cases raw) (auto simp: expand_def starts_with_def)

lemma expand_Inr_cases:
  assumes "expand raw ctx = Inr s" and "is_absolute (ec_workspace ctx)"
  obtains (whole_ws) "raw = ''{workspace}''" "s = ec_workspace ctx"
    | (below_ws) rest where "raw = ''{workspace}/'' @ rest" "s = ec_workspace ctx @ CHR ''/'' # rest"
    | (whole_home) "raw = ''~''" "s = ec_home ctx"
    | (below_home) rest where "raw = ''~/'' @ rest" "s = ec_home ctx @ CHR ''/'' # rest"
    | (verbatim) "s = raw" "\<not> contains_str ''{workspace}'' raw" "\<not> starts_with ''~'' raw"
proof (cases "raw = ''{workspace}''")
  case True
  with whole_ws expand_workspace [OF assms(2)] assms(1) show ?thesis by simp
next
  case no_ws: False
  show ?thesis
  proof (cases "strip_prefix ''{workspace}/'' raw")
    case (Some rest)
    then have "raw = ''{workspace}/'' @ rest" by (simp only: strip_prefix_iff)
    with below_ws expand_workspace_prefix [OF assms(2)] assms(1) show ?thesis by simp
  next
    case None
    with no_ws assms(1) have nc: "\<not> contains_str ''{workspace}'' raw"
      and e: "(if raw = ''~'' then Inr (ec_home ctx)
          else case strip_prefix ''~/'' raw of
            Some rest \<Rightarrow> Inr (ec_home ctx @ ''/'' @ rest)
          | None \<Rightarrow> if starts_with ''~'' raw then Inl MisplacedTilde else Inr raw) = Inr s"
      by (auto simp: expand_def split: if_splits)
    show ?thesis
    proof (cases "raw = ''~''")
      case True
      with e whole_home show ?thesis by simp
    next
      case False
      show ?thesis
      proof (cases "strip_prefix ''~/'' raw")
        case (Some rest)
        then have "raw = ''~/'' @ rest" by (simp only: strip_prefix_iff)
        with Some False e below_home show ?thesis by simp
      next
        case None
        with False e nc verbatim show ?thesis by (auto split: if_splits)
      qed
    qed
  qed
qed

lemma compile_glob_Inr [result_simps]:
  "compile_glob t i raw ctx = Inr g \<longleftrightarrow> (\<exists>s. expand raw ctx = Inr s \<and> compile s = Inr g)"
  by (simp add: compile_glob_def result_simps)

lemma compile_glob_Inl [result_simps]:
  "compile_glob t i raw ctx = Inl e \<longleftrightarrow>
     (\<exists>x. expand raw ctx = Inl x \<and> e = ExpandError t i raw x) \<or>
     (\<exists>s x. expand raw ctx = Inr s \<and> compile s = Inl x \<and> e = GlobError t i raw x)"
  by (auto simp: compile_glob_def result_simps)

lemma load_fs_rule_Inr:
  "load_fs_rule ctx i r = Inr r' \<longleftrightarrow> rf_mode r \<noteq> [] \<and>
     (\<exists>s g. expand (rf_path r) ctx = Inr s \<and> compile s = Inr g \<and>
        r' = \<lparr>fr_path = g, fr_mode = rf_mode r, fr_action = rf_action r\<rparr>)"
  by (auto simp: load_fs_rule_def Let_def result_simps)

lemma load_net_rule_Inr:
  "load_net_rule i r = Inr r' \<longleftrightarrow> rn_port r \<noteq> Some 0 \<and>
     (\<exists>h. parse_host (rn_host r) = Inr h \<and>
        r' = \<lparr>nr_host = h, nr_port = map_option unat (rn_port r), nr_action = rn_action r\<rparr>)"
  by (auto simp: load_net_rule_def Let_def result_simps)

lemma load_exec_rule_Inr:
  "load_exec_rule ctx i r = Inr r' \<longleftrightarrow>
     (\<exists>s g. expand (re_binary r) ctx = Inr s \<and> compile s = Inr g \<and>
        r' = \<lparr>er_binary = g, er_action = re_action r\<rparr>)"
  by (auto simp: load_exec_rule_def Let_def result_simps)

section \<open>Well-formed policies\<close>

definition wf_fs_rule :: "fs_rule \<Rightarrow> bool" where
  "wf_fs_rule r = (fr_mode r \<noteq> [] \<and> compile (glob_raw (fr_path r)) = Inr (fr_path r))"

definition wf_net_rule :: "net_rule \<Rightarrow> bool" where
  "wf_net_rule r = (wf_host (nr_host r) \<and>
     (case nr_port r of None \<Rightarrow> True | Some p \<Rightarrow> 0 < p \<and> p < 65536))"

definition wf_exec_rule :: "exec_rule \<Rightarrow> bool" where
  "wf_exec_rule r = (compile (glob_raw (er_binary r)) = Inr (er_binary r))"

definition wf_policy :: "policy \<Rightarrow> bool" where
  "wf_policy p \<longleftrightarrow> p_schema_version p = SCHEMA_VERSION \<and> list_all wf_fs_rule (p_fs p) \<and>
     list_all wf_net_rule (p_net p) \<and> list_all wf_exec_rule (p_exec p)"

lemma compile_raw: "compile s = Inr g \<Longrightarrow> compile (glob_raw g) = Inr g"
  using compile_segments [of s g] by simp

lemma load_fs_rule_wf: "load_fs_rule ctx i r = Inr r' \<Longrightarrow> wf_fs_rule r'"
  by (auto simp: load_fs_rule_Inr wf_fs_rule_def compile_raw)

lemma load_net_rule_wf: "load_net_rule i r = Inr r' \<Longrightarrow> wf_net_rule r'"
  using unsigned_less [where 'b = 16 and 'a = nat]
  by (auto simp: load_net_rule_Inr wf_net_rule_def parse_host_wf unat_gt_0 split: option.split)

lemma load_exec_rule_wf: "load_exec_rule ctx i r = Inr r' \<Longrightarrow> wf_exec_rule r'"
  by (auto simp: load_exec_rule_Inr wf_exec_rule_def compile_raw)

lemma enumerate_map_all:
  assumes "enumerate_map f i xs = Inr ys" and "\<And>j x y. f j x = Inr y \<Longrightarrow> P y"
  shows "list_all P ys"
  using assms unfolding enumerate_map_Inr list_all_length by metis

lemma validate_policy_Inr:
  "(validate_policy raw ctx :: ('io, 'toml) policy_error + policy) = Inr p \<longleftrightarrow>
     raw_schema_version raw = SCHEMA_VERSION \<and> p_schema_version p = raw_schema_version raw \<and> p_workspace p = ec_workspace ctx \<and>
     enumerate_map (load_fs_rule ctx) 0 (raw_fs raw) = (Inr (p_fs p) :: ('io, 'toml) policy_error + _) \<and>
     enumerate_map load_net_rule 0 (raw_net raw) = (Inr (p_net p) :: ('io, 'toml) policy_error + _) \<and>
     enumerate_map (load_exec_rule ctx) 0 (raw_exec raw) = (Inr (p_exec p) :: ('io, 'toml) policy_error + _)"
  by (cases p) (auto simp: validate_policy_def result_simps)


section \<open>Properties\<close>

text \<open>
  C37. A policy loads whole or not at all: loading succeeds exactly when the schema version is
  1 and every raw rule of every table is valid, and then the tables hold one rule per raw rule,
  in file order, with the modes, port and action written and the glob or host compiled.
\<close>

theorem policy_loads_whole:
  "(validate_policy raw ctx :: ('io, 'toml) policy_error + policy) = Inr p \<longleftrightarrow>
     raw_schema_version raw = SCHEMA_VERSION \<and> p_schema_version p = SCHEMA_VERSION \<and>
     p_workspace p = ec_workspace ctx \<and>
     list_all2 (\<lambda>r r'. rf_mode r \<noteq> [] \<and> (\<exists>s g. expand (rf_path r) ctx = Inr s \<and> compile s = Inr g \<and>
        r' = \<lparr>fr_path = g, fr_mode = rf_mode r, fr_action = rf_action r\<rparr>)) (raw_fs raw) (p_fs p) \<and>
     list_all2 (\<lambda>r r'. rn_port r \<noteq> Some 0 \<and> (\<exists>h. parse_host (rn_host r) = Inr h \<and>
        r' = \<lparr>nr_host = h, nr_port = map_option unat (rn_port r), nr_action = rn_action r\<rparr>))
       (raw_net raw) (p_net p) \<and>
     list_all2 (\<lambda>r r'. \<exists>s g. expand (re_binary r) ctx = Inr s \<and> compile s = Inr g \<and>
        r' = \<lparr>er_binary = g, er_action = re_action r\<rparr>) (raw_exec raw) (p_exec p)"
  unfolding validate_policy_Inr enumerate_map_Inr load_fs_rule_Inr load_net_rule_Inr
    load_exec_rule_Inr list_all2_conv_all_nth by auto

text \<open>
  C38. Every loaded policy is well formed: schema version 1, no fs rule with an empty mode set,
  every glob one the compiler accepted, every host well formed, every port a real port.
\<close>

theorem loaded_policy_well_formed:
  assumes "load_with_digest read_to_string digest from_str toml ctx = Inr l"
  shows "wf_policy (lp_policy l)"
proof -
  obtain raw where "validate_policy raw ctx = (Inr (lp_policy l) :: ('a, 'b) policy_error + policy)"
    using assms by (auto simp: load_with_digest_def parse_policy_def result_simps)
  then show ?thesis
    unfolding validate_policy_Inr wf_policy_def
    using enumerate_map_all load_fs_rule_wf load_net_rule_wf load_exec_rule_wf by metis
qed

lemma loaded_policy_well_formed_witness:
  "wf_policy (lp_policy \<lparr>lp_policy = \<lparr>p_schema_version = 1, p_workspace = ''/w'', p_fs = [],
     p_net = [\<lparr>nr_host = Any, nr_port = Some 443, nr_action = AskAction\<rparr>], p_exec = []\<rparr>,
     lp_digest = ''0f''\<rparr>)"
  by (rule loaded_policy_well_formed [where read_to_string = "\<lambda>_. Inr ''x''"
      and digest = "\<lambda>_. [0x0F]" and toml = "''p''" and ctx = "\<lparr>ec_workspace = ''/w'', ec_home = ''/h''\<rparr>"
      and from_str = "\<lambda>_. Inr \<lparr>raw_schema_version = 1, raw_fs = [],
        raw_net = [\<lparr>rn_host = ''*'', rn_port = Some 443, rn_action = AskAction\<rparr>], raw_exec = []\<rparr>"])
     (simp add: load_with_digest_def parse_policy_def validate_policy_def SCHEMA_VERSION_def
       load_net_rule_def parse_host_def hex_sha256_def hex_nibble_def)

text \<open>What a rejection says: which table and 1-based position, and what is wrong there.\<close>

fun faulty :: "raw_policy \<Rightarrow> expand_context \<Rightarrow> ('io, 'toml) policy_error \<Rightarrow> bool" where
  "faulty raw ctx (ReadError p e) = False"
| "faulty raw ctx (TomlError e) = False"
| "faulty raw ctx (SchemaVersion found supported) =
     (found = raw_schema_version raw \<and> found \<noteq> supported \<and> supported = SCHEMA_VERSION)"
| "faulty raw ctx (EmptyMode i) = (1 \<le> i \<and> i \<le> length (raw_fs raw) \<and> rf_mode (raw_fs raw ! (i - 1)) = [])"
| "faulty raw ctx (GlobError FsTable i pat e) = (1 \<le> i \<and> i \<le> length (raw_fs raw) \<and>
     pat = rf_path (raw_fs raw ! (i - 1)) \<and> (\<exists>s. expand pat ctx = Inr s \<and> compile s = Inl e))"
| "faulty raw ctx (GlobError ExecTable i pat e) = (1 \<le> i \<and> i \<le> length (raw_exec raw) \<and>
     pat = re_binary (raw_exec raw ! (i - 1)) \<and> (\<exists>s. expand pat ctx = Inr s \<and> compile s = Inl e))"
| "faulty raw ctx (HostError i h e) = (1 \<le> i \<and> i \<le> length (raw_net raw) \<and>
     h = rn_host (raw_net raw ! (i - 1)) \<and> parse_host h = Inl e)"
| "faulty raw ctx (ZeroPort i) = (1 \<le> i \<and> i \<le> length (raw_net raw) \<and> rn_port (raw_net raw ! (i - 1)) = Some 0)"
| "faulty raw ctx (ExpandError FsTable i pat e) = (1 \<le> i \<and> i \<le> length (raw_fs raw) \<and>
     pat = rf_path (raw_fs raw ! (i - 1)) \<and> expand pat ctx = Inl e)"
| "faulty raw ctx (ExpandError ExecTable i pat e) = (1 \<le> i \<and> i \<le> length (raw_exec raw) \<and>
     pat = re_binary (raw_exec raw ! (i - 1)) \<and> expand pat ctx = Inl e)"

text \<open>
  A rejection is truthful: whatever error loading returns names a fault the file has, at the
  1-based position it states, with the operator's own text.
\<close>

theorem policy_error_is_truthful:
  assumes "validate_policy raw ctx = Inl e"
  shows "faulty raw ctx e"
proof -
  consider "raw_schema_version raw \<noteq> SCHEMA_VERSION"
      "e = SchemaVersion (raw_schema_version raw) SCHEMA_VERSION"
    | k where "k < length (raw_fs raw)" "load_fs_rule ctx k (raw_fs raw ! k) = Inl e"
    | k where "k < length (raw_net raw)" "load_net_rule k (raw_net raw ! k) = Inl e"
    | k where "k < length (raw_exec raw)" "load_exec_rule ctx k (raw_exec raw ! k) = Inl e"
    using assms
    by (auto simp: validate_policy_def result_simps enumerate_map_Inl split: if_splits)
  then show ?thesis
  proof cases
    case 2
    then show ?thesis by (auto simp: load_fs_rule_def Let_def result_simps split: if_splits)
  next
    case 3
    then show ?thesis by (auto simp: load_net_rule_def Let_def result_simps split: if_splits)
  next
    case 4
    then show ?thesis by (auto simp: load_exec_rule_def Let_def result_simps)
  qed simp
qed

lemma policy_error_is_truthful_witness:
  "faulty \<lparr>raw_schema_version = 1, raw_fs = [], raw_net = [\<lparr>rn_host = ''*'', rn_port = Some 0,
     rn_action = AllowAction\<rparr>], raw_exec = []\<rparr> \<lparr>ec_workspace = ''/w'', ec_home = ''/h''\<rparr>
     (ZeroPort 1 :: (unit, unit) policy_error)"
  by (rule policy_error_is_truthful) (simp add: validate_policy_def SCHEMA_VERSION_def load_net_rule_def)

text \<open>
  \<open>{workspace}\<close> is spliced into the pattern text before compilation, so a workspace whose name
  holds a glob metacharacter widens the rule: with the workspace \<open>/w/?\<close> the rule
  \<open>{workspace}/**\<close> compiles and matches paths of the sibling directory \<open>/w/x\<close>.
\<close>

theorem workspace_metacharacter_widens_rule:
  "\<exists>g. compile_glob FsTable 1 ''{workspace}/**'' \<lparr>ec_workspace = ''/w/?'', ec_home = ''/h''\<rparr> =
         (Inr g :: (unit, unit) policy_error + glob) \<and>
       is_match g ''/w/x/secret'' \<and> \<not> path_starts_with ''/w/x/secret'' ''/w/?''"
proof (intro exI conjI)
  let ?g = "\<lparr>glob_raw = ''/w/?/**'', glob_segments = map segment_of [[], ''w'', ''?'', ''**'']\<rparr>"
  show "compile_glob FsTable 1 ''{workspace}/**'' \<lparr>ec_workspace = ''/w/?'', ec_home = ''/h''\<rparr> =
      (Inr ?g :: (unit, unit) policy_error + glob)"
    using expand_workspace_prefix [of "\<lparr>ec_workspace = ''/w/?'', ec_home = ''/h''\<rparr>" "''**''"]
    by (simp add: compile_glob_def result_simps compile_Inr stars_stand_alone_def double_at_def
        stands_alone_def chars_ascii is_ascii_def code_def All_less_Suc nth_Cons' numeral_eq_Suc)
  show "is_match ?g ''/w/x/secret''"
    by (simp add: is_match_wild segment_of_def units_match_def units.loop_wild chars_ascii
        is_ascii_def code_def)
  show "\<not> path_starts_with ''/w/x/secret'' ''/w/?''"
    by (simp add: path_starts_with_def components_def body_components_def)
qed

end
