(* ===== verification/Engine.thy ===== *)
theory Engine imports Policy_Load Recorder begin

text \<open>
  \<open>src/src/policy/engine.rs\<close>: the evaluator. The three table walks are the source's three loops;
  the locale \<open>rule_walk\<close> states what a loop that returns at the first hit does and is
  interpreted for each of them, so first-match evaluation is proved once.
\<close>

section \<open>Requests and results\<close>

datatype request =
    FsRequest string "fs_access list"
  | NetRequest ipaddr "string option" u16
  | ExecRequest string

datatype family = FsFamily | NetFamily | ExecFamily

fun show_family :: "family \<Rightarrow> string" where
  "show_family FsFamily = ''fs''"
| "show_family NetFamily = ''net''"
| "show_family ExecFamily = ''exec''"

datatype match_id = Rule family nat | WorkspaceBaseAllow | BaseEnforce | BaseRecordOnly

fun show_match_id :: "match_id \<Rightarrow> string" where
  "show_match_id (Rule f i) = show_family f @ ''.'' @ show_nat i"
| "show_match_id WorkspaceBaseAllow = ''base:workspace''"
| "show_match_id BaseEnforce = ''base:enforce''"
| "show_match_id BaseRecordOnly = ''base:record_only''"

record evaluation =
  v_decision :: decision
  v_matched :: match_id
  v_would_deny :: "bool option"

section \<open>Evaluation\<close>

fun decision_of :: "action \<Rightarrow> decision" where
  "decision_of AllowAction = Allow"
| "decision_of DenyAction = Deny"
| "decision_of AskAction = Ask"

fun covers :: "fs_mode \<Rightarrow> fs_access \<Rightarrow> bool" where
  "covers ModeRead AccRead = True"
| "covers ModeWrite AccWrite = True"
| "covers ModeCreate AccCreate = True"
| "covers ModeDelete AccDelete = True"
| "covers _ _ = False"

definition mode_intersects :: "fs_mode list \<Rightarrow> fs_access list \<Rightarrow> bool" where
  "mode_intersects modes access = list_ex (\<lambda>a. list_ex (\<lambda>m. covers m a) modes) access"

definition net_matches :: "net_rule \<Rightarrow> ipaddr \<Rightarrow> string option \<Rightarrow> u16 \<Rightarrow> bool" where
  "net_matches rule ip hostname port =
     (if (case nr_port rule of Some p \<Rightarrow> p \<noteq> unat port | None \<Rightarrow> False) then False
      else matches_ip (nr_host rule) ip \<or>
           (case hostname of Some h \<Rightarrow> matches_hostname (nr_host rule) h | None \<Rightarrow> False))"

definition path_under_workspace :: "string \<Rightarrow> string \<Rightarrow> bool" where
  "path_under_workspace workspace p =
     (p = workspace \<or>
      (length workspace < length p \<and> starts_with workspace p \<and> p ! length workspace = CHR ''/''))"

fun fs_walk :: "nat \<Rightarrow> fs_rule list \<Rightarrow> string \<times> fs_access list \<Rightarrow> (action \<times> match_id) option" where
  "fs_walk i [] q = None"
| "fs_walk i (r # rs) q =
     (if is_match (fr_path r) (fst q) \<and> mode_intersects (fr_mode r) (snd q)
      then Some (fr_action r, Rule FsFamily (i + 1)) else fs_walk (Suc i) rs q)"

fun net_walk ::
  "nat \<Rightarrow> net_rule list \<Rightarrow> ipaddr \<times> string option \<times> u16 \<Rightarrow> (action \<times> match_id) option" where
  "net_walk i [] q = None"
| "net_walk i (r # rs) q =
     (if net_matches r (fst q) (fst (snd q)) (snd (snd q))
      then Some (nr_action r, Rule NetFamily (i + 1)) else net_walk (Suc i) rs q)"

fun exec_walk :: "nat \<Rightarrow> exec_rule list \<Rightarrow> string \<Rightarrow> (action \<times> match_id) option" where
  "exec_walk i [] q = None"
| "exec_walk i (r # rs) q =
     (if is_match (er_binary r) q
      then Some (er_action r, Rule ExecFamily (i + 1)) else exec_walk (Suc i) rs q)"

fun first_match :: "policy \<Rightarrow> request \<Rightarrow> (action \<times> match_id) option" where
  "first_match p (FsRequest path access) =
     (case fs_walk 0 (p_fs p) (path, access) of
        Some r \<Rightarrow> Some r
      | None \<Rightarrow> if path_under_workspace (p_workspace p) path
                then Some (AllowAction, WorkspaceBaseAllow) else None)"
| "first_match p (NetRequest ip hostname port) = net_walk 0 (p_net p) (ip, hostname, port)"
| "first_match p (ExecRequest binary) = exec_walk 0 (p_exec p) binary"

definition evaluate :: "policy \<Rightarrow> request \<Rightarrow> mode \<Rightarrow> evaluation" where
  "evaluate p req m =
     (let (verdict, matched) =
        (case first_match p req of
           Some (action, rid) \<Rightarrow> (action, rid)
         | None \<Rightarrow> (DenyAction, case m of Enforce \<Rightarrow> BaseEnforce | RecordOnly \<Rightarrow> BaseRecordOnly))
      in case m of
           Enforce \<Rightarrow> \<lparr>v_decision = decision_of verdict, v_matched = matched, v_would_deny = None\<rparr>
         | RecordOnly \<Rightarrow> \<lparr>v_decision = Allow, v_matched = matched,
                          v_would_deny = (if verdict = DenyAction then Some True else None)\<rparr>)"

section \<open>First match\<close>

locale rule_walk =
  fixes hit :: "'r \<Rightarrow> 'q \<Rightarrow> bool"
    and act :: "'r \<Rightarrow> action"
    and fam :: family
    and walk :: "nat \<Rightarrow> 'r list \<Rightarrow> 'q \<Rightarrow> (action \<times> match_id) option"
  assumes walk_Nil: "walk i [] q = None"
    and walk_Cons: "walk i (r # rs) q =
      (if hit r q then Some (act r, Rule fam (i + 1)) else walk (Suc i) rs q)"
begin

lemma walk_None: "walk i rs q = None \<longleftrightarrow> (\<forall>r \<in> set rs. \<not> hit r q)"
  by (induction rs arbitrary: i) (auto simp: walk_Nil walk_Cons)

lemma walk_Some:
  "walk i rs q = Some (a, m) \<longleftrightarrow>
     (\<exists>pre r post. rs = pre @ r # post \<and> hit r q \<and> (\<forall>s \<in> set pre. \<not> hit s q) \<and>
        a = act r \<and> m = Rule fam (i + length pre + 1))"
proof (induction rs arbitrary: i)
  case Nil
  then show ?case by (simp add: walk_Nil)
next
  case (Cons r rs)
  show ?case
  proof (cases "hit r q")
    case True
    then show ?thesis
      by (auto simp: walk_Cons Cons_eq_append_conv intro: exI [of _ "[]"])
  next
    case False
    have "(\<exists>pre r' post. r # rs = pre @ r' # post \<and> hit r' q \<and> (\<forall>s \<in> set pre. \<not> hit s q) \<and>
        a = act r' \<and> m = Rule fam (i + length pre + 1)) \<longleftrightarrow>
      (\<exists>pre r' post. rs = pre @ r' # post \<and> hit r' q \<and> (\<forall>s \<in> set pre. \<not> hit s q) \<and>
        a = act r' \<and> m = Rule fam (Suc i + length pre + 1))" (is "?l \<longleftrightarrow> ?r")
    proof
      assume ?l
      then obtain pre r' post where *: "r # rs = pre @ r' # post" "hit r' q"
        "\<forall>s \<in> set pre. \<not> hit s q" "a = act r'" "m = Rule fam (i + length pre + 1)" by blast
      with False obtain pre' where "pre = r # pre'" by (cases pre) auto
      with * show ?r by (intro exI [of _ pre'] exI [of _ r'] exI [of _ post]) simp
    next
      assume ?r
      then obtain pre r' post where "rs = pre @ r' # post" "hit r' q"
        "\<forall>s \<in> set pre. \<not> hit s q" "a = act r'" "m = Rule fam (Suc i + length pre + 1)" by blast
      with False show ?l by (intro exI [of _ "r # pre"] exI [of _ r'] exI [of _ post]) simp
    qed
    with Cons.IH [of "Suc i"] False show ?thesis by (simp add: walk_Cons)
  qed
qed

text \<open>The walk as a search over the positions of the table.\<close>

lemma walk_find:
  "walk i rs q = (case find (\<lambda>k. hit (rs ! k) q) [0..<length rs] of
     None \<Rightarrow> None | Some k \<Rightarrow> Some (act (rs ! k), Rule fam (i + k + 1)))"
proof (cases "walk i rs q")
  case None
  then have "find (\<lambda>k. hit (rs ! k) q) [0..<length rs] = None"
    by (simp add: walk_None find_None_iff)
  with None show ?thesis by simp
next
  case (Some am)
  obtain a m where am: "am = (a, m)" by (cases am)
  with Some obtain pre r post where w: "rs = pre @ r # post" "hit r q" "\<forall>s \<in> set pre. \<not> hit s q"
    "a = act r" "m = Rule fam (i + length pre + 1)" by (auto simp: walk_Some)
  have "find (\<lambda>k. hit (rs ! k) q) [0..<length rs] = Some (length pre)"
    unfolding find_Some_iff using w(1-3)
    by (intro exI [of _ "length pre"]) (auto simp: nth_append)
  with Some am w show ?thesis by simp
qed

text \<open>Rules behind the first hit do not matter.\<close>

lemma walk_shadow: "hit r q \<Longrightarrow> walk i (pre @ r # post) q = walk i (pre @ [r]) q"
  by (induction pre arbitrary: i) (auto simp: walk_Nil walk_Cons)

end

interpretation fs: rule_walk "\<lambda>r q. is_match (fr_path r) (fst q) \<and> mode_intersects (fr_mode r) (snd q)"
    fr_action FsFamily fs_walk
  by unfold_locales simp_all

interpretation net: rule_walk "\<lambda>r q. net_matches r (fst q) (fst (snd q)) (snd (snd q))"
    nr_action NetFamily net_walk
  by unfold_locales simp_all

interpretation exec: rule_walk "\<lambda>r q. is_match (er_binary r) q" er_action ExecFamily exec_walk
  by unfold_locales simp_all

section \<open>Lemmas\<close>

lemma path_under_workspace_iff:
  "path_under_workspace ws p \<longleftrightarrow> p = ws \<or> (\<exists>r. p = ws @ CHR ''/'' # r)"
proof -
  have "length ws < length p \<and> starts_with ws p \<and> p ! length ws = CHR ''/'' \<longleftrightarrow>
      (\<exists>r. p = ws @ CHR ''/'' # r)"
  proof
    assume a: "length ws < length p \<and> starts_with ws p \<and> p ! length ws = CHR ''/''"
    then obtain r where "p = ws @ r" by (auto simp: starts_with_iff)
    with a show "\<exists>r. p = ws @ CHR ''/'' # r" by (cases r) auto
  qed (auto simp: starts_with_iff)
  then show ?thesis by (auto simp: path_under_workspace_def)
qed

lemma covers_iff: "covers m a \<longleftrightarrow>
   (m, a) \<in> {(ModeRead, AccRead), (ModeWrite, AccWrite), (ModeCreate, AccCreate), (ModeDelete, AccDelete)}"
  by (cases m; cases a) auto

lemma mode_intersects_iff: "mode_intersects ms as \<longleftrightarrow> (\<exists>a \<in> set as. \<exists>m \<in> set ms. covers m a)"
  by (auto simp: mode_intersects_def list_ex_iff)

lemma show_nat_inj: "show_nat a = show_nat b \<Longrightarrow> a = b"
  by (metis option.inject parse_digits_show)

lemma rule_id_no_colon: "CHR '':'' \<notin> set (show_match_id (Rule f i))"
  using show_nat_digits [of i] by (cases f) (auto simp: is_digit_def code_def)

section \<open>Properties\<close>

text \<open>
  C26. First match: in enforce mode a decision is that of the first rule of the request's table
  that matches, named by its 1-based position; with no match a filesystem request beneath the
  workspace gets the workspace base allow, and everything else is denied by default.
\<close>

theorem enforce_is_first_match:
  "evaluate p (FsRequest path access) Enforce =
     (case find (\<lambda>k. is_match (fr_path (p_fs p ! k)) path \<and> mode_intersects (fr_mode (p_fs p ! k)) access)
             [0..<length (p_fs p)] of
        Some k \<Rightarrow> \<lparr>v_decision = decision_of (fr_action (p_fs p ! k)), v_matched = Rule FsFamily (k + 1),
                  v_would_deny = None\<rparr>
      | None \<Rightarrow> if path_under_workspace (p_workspace p) path
          then \<lparr>v_decision = Allow, v_matched = WorkspaceBaseAllow, v_would_deny = None\<rparr>
          else \<lparr>v_decision = Deny, v_matched = BaseEnforce, v_would_deny = None\<rparr>) \<and>
   evaluate p (NetRequest ip h port) Enforce =
     (case find (\<lambda>k. net_matches (p_net p ! k) ip h port) [0..<length (p_net p)] of
        Some k \<Rightarrow> \<lparr>v_decision = decision_of (nr_action (p_net p ! k)), v_matched = Rule NetFamily (k + 1),
                  v_would_deny = None\<rparr>
      | None \<Rightarrow> \<lparr>v_decision = Deny, v_matched = BaseEnforce, v_would_deny = None\<rparr>) \<and>
   evaluate p (ExecRequest binary) Enforce =
     (case find (\<lambda>k. is_match (er_binary (p_exec p ! k)) binary) [0..<length (p_exec p)] of
        Some k \<Rightarrow> \<lparr>v_decision = decision_of (er_action (p_exec p ! k)), v_matched = Rule ExecFamily (k + 1),
                  v_would_deny = None\<rparr>
      | None \<Rightarrow> \<lparr>v_decision = Deny, v_matched = BaseEnforce, v_would_deny = None\<rparr>)"
  unfolding evaluate_def first_match.simps fs.walk_find [of 0, simplified]
    net.walk_find [of 0, simplified] exec.walk_find [of 0, simplified]
  by (auto split: option.split)

text \<open>
  Record-only enforces nothing and loses nothing: whatever the policy, the decision is allow,
  and the would-deny flag is set exactly when the same request in enforce mode is denied.
\<close>

theorem record_only_shadows_enforce:
  "v_decision (evaluate p req RecordOnly) = Allow \<and>
   v_would_deny (evaluate p req RecordOnly) =
     (if v_decision (evaluate p req Enforce) = Deny then Some True else None) \<and>
   (v_matched (evaluate p req RecordOnly) = v_matched (evaluate p req Enforce) \<or>
    v_matched (evaluate p req RecordOnly) = BaseRecordOnly \<and>
    v_matched (evaluate p req Enforce) = BaseEnforce)"
proof (cases "first_match p req")
  case (Some am)
  then show ?thesis by (cases "fst am") (auto simp: evaluate_def split: prod.split)
qed (simp add: evaluate_def)

text \<open>
  The workspace base allow stops at a component boundary: a path is under the workspace root
  exactly when it is the root or the root followed by a slash and anything.
\<close>

theorem workspace_boundary:
  "path_under_workspace ws p \<longleftrightarrow> p = ws \<or> (\<exists>rest. p = ws @ CHR ''/'' # rest)"
  by (rule path_under_workspace_iff)

text \<open>
  Matched-rule ids are unambiguous: two ids render to the same trace text only if they are
  the same id, so a rule can never be mistaken for another or for a base decision.
\<close>

theorem match_id_rendering_injective:
  "show_match_id a = show_match_id b \<longleftrightarrow> a = b"
proof
  assume eq: "show_match_id a = show_match_id b"
  have no: "show_match_id (Rule f i) \<noteq> show_match_id m" if "m \<in> {WorkspaceBaseAllow, BaseEnforce, BaseRecordOnly}"
    for f i m
  proof
    assume "show_match_id (Rule f i) = show_match_id m"
    then have "CHR '':'' \<notin> set (show_match_id m)" using rule_id_no_colon [of f i] by simp
    with that show False by auto
  qed
  show "a = b"
  proof (cases a)
    case (Rule f i)
    then obtain g j where b: "b = Rule g j"
      using eq no [of b f i] by (cases b) auto
    with eq Rule show ?thesis using show_nat_inj [of i j] by (cases f; cases g) auto
  next
    case WorkspaceBaseAllow
    with eq no [of a] show ?thesis by (cases b) (auto dest: sym)
  next
    case BaseEnforce
    with eq no [of a] show ?thesis by (cases b) (auto dest: sym)
  next
    case BaseRecordOnly
    with eq no [of a] show ?thesis by (cases b) (auto dest: sym)
  qed
qed simp

end
