(* ===== verification/Rust_Text.thy ===== *)
theory Rust_Text imports Prelude begin

text \<open>Two text operations of Rust's \<open>str\<close>: \<open>trim\<close> and \<open>lines\<close>.\<close>

section \<open>White space\<close>

definition bytes_char :: "nat list \<Rightarrow> rchar" where
  "bytes_char bs = map char_of bs"

text \<open>Unicode white space, which \<open>str::trim\<close> removes.\<close>

definition whitespace_chars :: "rchar list" where
  "whitespace_chars = map (\<lambda>c. bytes_char [c]) [9, 10, 11, 12, 13, 32] @
     map bytes_char [[0xC2, 0x85], [0xC2, 0xA0], [0xE1, 0x9A, 0x80]] @
     map (\<lambda>c. bytes_char [0xE2, 0x80, c]) ([0x80..<0x8B] @ [0xA8, 0xA9, 0xAF]) @
     map bytes_char [[0xE2, 0x81, 0x9F], [0xE3, 0x80, 0x80]]"

definition is_whitespace :: "rchar \<Rightarrow> bool" where
  "is_whitespace c = (c \<in> set whitespace_chars)"

definition trim :: "string \<Rightarrow> string" where
  "trim s = concat (rev (dropWhile is_whitespace (rev (dropWhile is_whitespace (chars s)))))"

section \<open>Lines\<close>

text \<open>\<open>str::lines\<close>: split at newlines; no empty line after the last one; a terminated line loses a
  carriage return at its end.\<close>

definition strip_cr :: "string \<Rightarrow> string" where
  "strip_cr l = (if l \<noteq> [] \<and> last l = CHR 0x0D then butlast l else l)"

definition lines :: "string \<Rightarrow> string list" where
  "lines s =
     (let ps = split_on CHR 0x0A s
      in map strip_cr (butlast ps) @ (if last ps = [] then [] else [last ps]))"

end
