(* ===== verification/Ask_Prompt.thy ===== *)
theory Ask_Prompt imports Engine Rust_Text begin

text \<open>
  \<open>src/src/supervisor/ask.rs\<close>: the attended prompt. The terminal and the clock are the
  environment: opening and writing the terminal give a result each, and every turn of the read
  loop consumes one \<open>wait_step\<close>: the nanoseconds that pass before \<open>Instant::now\<close> is read, how long
  \<open>poll\<close> takes for a given budget and what it answers, how long \<open>read\<close> takes and what it returns.
  The clock is threaded through the loop. Beside the result, the functions return what the
  properties speak of: the turns taken, each with the instant it read and the bytes it was given
  (\<open>None\<close> where it did not get that far), and the instant the loop returned at. A read loop that is
  still waiting when the steps run out is \<open>None\<close>. Times and the timeout are in nanoseconds.
\<close>

section \<open>Data\<close>

definition MAX_ANSWER :: nat where "MAX_ANSWER = 1024"

record pending_ask =
  pk_summary :: string
  pk_rule :: string

fun access_name :: "fs_access \<Rightarrow> string" where
  "access_name AccRead = ''read''"
| "access_name AccWrite = ''write''"
| "access_name AccCreate = ''create''"
| "access_name AccDelete = ''delete''"

fun ask_summary :: "request \<Rightarrow> string" where
  "ask_summary (FsRequest path access) = join_with ''+'' (map access_name access) @ '' '' @ path"
| "ask_summary (NetRequest ip hostname port) =
     (case hostname of
        Some name \<Rightarrow> ''connect '' @ name @ '' ('' @ show_ip ip @ '':'' @ show_nat (unat port) @ '')''
      | None \<Rightarrow> ''connect '' @ show_ip ip @ '':'' @ show_nat (unat port))"
| "ask_summary (ExecRequest binary) = ''exec '' @ binary"

definition pending_ask_new :: "request \<Rightarrow> string \<Rightarrow> pending_ask" where
  "pending_ask_new req rule = \<lparr>pk_summary = ask_summary req, pk_rule = rule\<rparr>"

datatype answer = Approve | DenyAnswer

datatype 'io prompt_error = Timeout | PromptIo 'io

section \<open>Answers\<close>

definition parse_answer :: "string \<Rightarrow> bool" where
  "parse_answer line = (to_ascii_lowercase (trim line) \<in> {''y'', ''yes''})"

definition as_secs :: "nat \<Rightarrow> nat" where
  "as_secs duration = duration div 1000000000"

definition format_prompt :: "pending_ask list \<Rightarrow> nat \<Rightarrow> string" where
  "format_prompt asks timeout =
     ''leash: the agent asks for:'' @ [CHR 0x0A] @
     concat (map (\<lambda>a. ''  '' @ pk_summary a @ '' (rule '' @ pk_rule a @ '')'' @ [CHR 0x0A]) asks) @
     ''allow? [y/N] (denies in '' @ show_nat (as_secs timeout) @ ''s): ''"

section \<open>Waiting for the line\<close>

datatype 'io poll_result = PollFailed bool 'io | PollTimedOut | PollReady

datatype 'io read_result = ReadFailed bool 'io | ReadBytes string

record 'io wait_step =
  ws_pause :: nat
  ws_poll :: "nat \<Rightarrow> nat \<times> 'io poll_result"
  ws_read :: "nat \<times> 'io read_result"

type_synonym turn = "nat \<times> string option"

definition I32_MAX :: nat where "I32_MAX = 2147483647"

definition poll_millis :: "nat \<Rightarrow> nat" where
  "poll_millis remaining = min (remaining div 1000000 + 1) I32_MAX"

definition ask_deadline :: "nat \<Rightarrow> nat \<Rightarrow> nat" where
  "ask_deadline now timeout = now + timeout"

definition with_turn :: "turn \<Rightarrow> ('r \<times> turn list \<times> nat) option \<Rightarrow> ('r \<times> turn list \<times> nat) option" where
  "with_turn u = map_option (\<lambda>(r, us, t). (r, u # us, t))"

text \<open>The boolean of a failed call says whether the error was an interruption (retried).\<close>

fun read_line :: "nat \<Rightarrow> nat \<Rightarrow> 'io wait_step list \<Rightarrow> string \<Rightarrow>
    (('io prompt_error + string) \<times> turn list \<times> nat) option" where
  "read_line deadline before [] buf = None"
| "read_line deadline before (w # ws) buf =
     (let now = before + ws_pause w; remaining = deadline - now
      in if remaining = 0 then Some (Inl Timeout, [(now, None)], now)
      else case ws_poll w (poll_millis remaining) of (waited, polled) \<Rightarrow>
        (let later = now + waited
         in case polled of
           PollFailed interrupted e \<Rightarrow>
             if interrupted then with_turn (now, None) (read_line deadline later ws buf)
             else Some (Inl (PromptIo e), [(now, None)], later)
         | PollTimedOut \<Rightarrow> Some (Inl Timeout, [(now, None)], later)
         | PollReady \<Rightarrow>
             (case ws_read w of (took, got) \<Rightarrow>
               (let after = later + took
                in case got of
                  ReadFailed interrupted e \<Rightarrow>
                    if interrupted then with_turn (now, None) (read_line deadline after ws buf)
                    else Some (Inl (PromptIo e), [(now, None)], after)
                | ReadBytes chunk \<Rightarrow>
                    if chunk = [] then Some (Inr (to_string_lossy buf), [(now, Some [])], after)
                    else if CHR 0x0A \<in> set chunk \<or> MAX_ANSWER \<le> length (buf @ chunk)
                    then Some (Inr (to_string_lossy (buf @ chunk)), [(now, Some chunk)], after)
                    else with_turn (now, Some chunk)
                      (read_line deadline after ws (buf @ chunk))))))"

text \<open>\<open>te_now\<close> is the instant \<open>deadline\<close> reads, once the prompt has been written.\<close>

record 'io tty_env =
  te_open :: "'io + unit"
  te_write :: "string \<Rightarrow> 'io + unit"
  te_now :: nat
  te_steps :: "'io wait_step list"

definition prompt_on_tty :: "'io tty_env \<Rightarrow> pending_ask list \<Rightarrow> nat \<Rightarrow>
    (('io prompt_error + answer) \<times> turn list \<times> nat) option" where
  "prompt_on_tty env asks timeout =
     (case te_open env of Inl e \<Rightarrow> Some (Inl (PromptIo e), [], te_now env) | Inr _ \<Rightarrow>
     (case te_write env (format_prompt asks timeout) of
        Inl e \<Rightarrow> Some (Inl (PromptIo e), [], te_now env)
      | Inr _ \<Rightarrow>
       map_option (\<lambda>(r, turns, t).
           (and_then r (\<lambda>line. Inr (if parse_answer line then Approve else DenyAnswer)), turns, t))
         (read_line (ask_deadline (te_now env) timeout) (te_now env) (te_steps env) [])))"

fun resolution_of :: "'io prompt_error + answer \<Rightarrow> ask_resolution" where
  "resolution_of (Inr Approve) = Approved"
| "resolution_of (Inr DenyAnswer) = Denied"
| "resolution_of (Inl Timeout) = TimedOut"
| "resolution_of (Inl (PromptIo _)) = Denied"

definition tty_prompt :: "'io tty_env \<Rightarrow> pending_ask list \<Rightarrow> nat \<Rightarrow>
    (ask_resolution \<times> turn list \<times> nat) option" where
  "tty_prompt env asks timeout =
     map_option (\<lambda>(r, turns, t). (resolution_of r, turns, t)) (prompt_on_tty env asks timeout)"

section \<open>What the properties speak of\<close>

text \<open>The bytes the operator typed, as far as the turns read them.\<close>

definition typed :: "turn list \<Rightarrow> string" where
  "typed turns = concat (map (\<lambda>u. case snd u of Some chunk \<Rightarrow> chunk | None \<Rightarrow> []) turns)"

text \<open>The last turn read the end of the line or the end of the file.\<close>

definition line_ended :: "turn list \<Rightarrow> bool" where
  "line_ended turns \<longleftrightarrow> turns \<noteq> [] \<and>
     (case snd (last turns) of Some chunk \<Rightarrow> chunk = [] \<or> CHR 0x0A \<in> set chunk | None \<Rightarrow> False)"

text \<open>More was typed than the buffer takes, and no line end with it.\<close>

definition overlong :: "turn list \<Rightarrow> bool" where
  "overlong turns \<longleftrightarrow> MAX_ANSWER \<le> length (typed turns) \<and> CHR 0x0A \<notin> set (typed turns)"

text \<open>
  What \<open>poll\<close> and the scheduler promise: time advances between the turns, no call is late by more
  than the slack, and \<open>poll\<close> does not report a timeout before its budget is used up.
\<close>

definition punctual :: "nat \<Rightarrow> 'io wait_step \<Rightarrow> bool" where
  "punctual slack w \<longleftrightarrow> 0 < ws_pause w \<and> ws_pause w \<le> slack \<and> fst (ws_read w) \<le> slack \<and>
     (\<forall>budget. fst (ws_poll w budget) \<le> budget * 1000000 + slack \<and>
        (snd (ws_poll w budget) = PollTimedOut \<longrightarrow> budget * 1000000 \<le> fst (ws_poll w budget)))"

section \<open>Lemmas\<close>


lemma with_turn_Some:
  "with_turn u m = Some (r, us, t) \<longleftrightarrow> (\<exists>vs. m = Some (r, vs, t) \<and> us = u # vs)"
  by (cases m) (auto simp: with_turn_def)

lemma with_turn_None [simp]: "with_turn u m = None \<longleftrightarrow> m = None"
  by (simp add: with_turn_def)

lemma typed_simps [simp]:
  "typed [] = []" "typed ((x, None) # us) = typed us" "typed ((x, Some c) # us) = c @ typed us"
  by (simp_all add: typed_def)

lemma line_ended_simps [simp]:
  "\<not> line_ended []"
  "line_ended [(x, y)] \<longleftrightarrow> (\<exists>c. y = Some c \<and> (c = [] \<or> CHR 0x0A \<in> set c))"
  "us \<noteq> [] \<Longrightarrow> line_ended (u # us) \<longleftrightarrow> line_ended us"
  by (auto simp: line_ended_def split: option.splits)

lemma poll_budget_covers:
  "remaining < I32_MAX * 1000000 \<Longrightarrow> remaining < poll_millis remaining * 1000000"
  by (auto simp: poll_millis_def I32_MAX_def min_def)

lemma poll_budget_bound: "poll_millis remaining * 1000000 \<le> remaining + 1000000"
  by (auto simp: poll_millis_def min_def)

lemma resolution_TimedOut: "resolution_of r = TimedOut \<longleftrightarrow> r = Inl Timeout"
  by (cases r rule: resolution_of.cases) auto






lemma read_line_terminates:
  "\<forall>w \<in> set ws. punctual slack w \<Longrightarrow> d - n < length ws \<Longrightarrow> read_line d n ws buf \<noteq> None"
proof (induction ws arbitrary: n buf)
  case (Cons w ws)
  then have "0 < ws_pause w" by (simp add: punctual_def)
  then have "d - m < length ws" if "n + ws_pause w < d" "n + ws_pause w \<le> m" for m
    using that Cons.prems(2) by simp
  with Cons.IH Cons.prems(1) have "read_line d m ws b \<noteq> None"
    if "n + ws_pause w < d" "n + ws_pause w \<le> m" for m b
    using that by simp
  then show ?case
    by (auto simp del: not_None_eq simp: Let_def split: prod.split poll_result.split read_result.split)
qed simp

lemma read_line_in_time:
  assumes "read_line d n ws buf = Some (r, us, t)" "\<forall>w \<in> set ws. punctual slack w"
    and "n \<le> d + 1000000 + 2 * slack" "d - n < I32_MAX * 1000000"
  shows "t \<le> d + 1000000 + 3 * slack \<and> (r = Inl Timeout \<longrightarrow> d \<le> t) \<and>
    (\<forall>(at_turn, got) \<in> set us. d \<le> at_turn \<longrightarrow> got = None \<and> r = Inl Timeout)"
  using assms
proof (induction ws arbitrary: n buf us)
  case (Cons w ws)
  define now where "now = n + ws_pause w"
  have w: "ws_pause w \<le> slack" "fst (ws_read w) \<le> slack" "n < now"
    "\<And>b. fst (ws_poll w b) \<le> b * 1000000 + slack"
    "\<And>b. snd (ws_poll w b) = PollTimedOut \<Longrightarrow> b * 1000000 \<le> fst (ws_poll w b)"
    using Cons.prems(2) by (auto simp: punctual_def now_def)
  show ?case
  proof (cases "d \<le> now")
    case True
    with Cons.prems(1,3) w(1) show ?thesis by (auto simp: now_def [symmetric]) (simp add: now_def)
  next
    case False
    let ?b = "poll_millis (d - now)"
    have b: "?b * 1000000 \<le> d - now + 1000000" "d - now < ?b * 1000000"
      using poll_budget_bound [of "d - now"] poll_budget_covers [of "d - now"] Cons.prems(4) w(3)
      by auto
    obtain waited polled where p: "ws_poll w ?b = (waited, polled)" by (metis surj_pair)
    obtain took got where g: "ws_read w = (took, got)" by (metis surj_pair)
    have later: "now + waited \<le> d + 1000000 + slack" "took \<le> slack"
      "polled = PollTimedOut \<Longrightarrow> d \<le> now + waited"
      using w(2) w(4,5) [of ?b] b p g False by auto
    have step: "?thesis" if "read_line d m ws c = Some (r, vs, t)" "us = (now, x) # vs"
      "now \<le> m" "m \<le> d + 1000000 + 2 * slack" for m c vs x
      using Cons.IH [OF that(1)] Cons.prems(2,4) that(2-4) w(3) False by auto
    from Cons.prems(1) False p g later
    have "(\<exists>m c vs x. read_line d m ws c = Some (r, vs, t) \<and> us = (now, x) # vs \<and>
          now \<le> m \<and> m \<le> d + 1000000 + 2 * slack) \<or>
        (\<exists>x. us = [(now, x)] \<and> t \<le> d + 1000000 + 3 * slack \<and> (r = Inl Timeout \<longrightarrow> d \<le> t))"
      unfolding read_line.simps Let_def now_def [symmetric]
      by (simp add: with_turn_Some split: if_splits poll_result.splits read_result.splits) force+
    then show ?thesis
    proof (elim disjE exE conjE)
      fix m c vs x
      assume "read_line d m ws c = Some (r, vs, t)" "us = (now, x) # vs" "now \<le> m"
        "m \<le> d + 1000000 + 2 * slack"
      then show ?thesis by (rule step)
    qed (use False in auto)
  qed
qed simp

lemma is_whitespace_space: "is_whitespace '' ''" "\<not> is_whitespace ''y''"
  by code_simp+

lemma trim_padded_y: "trim (CHR ''y'' # replicate n CHR '' '') = ''y''"
proof -
  have "is_ascii (CHR ''y'' # replicate n CHR '' '')"
    by (induction n) (simp_all add: is_ascii_def code_def)
  then have "chars (CHR ''y'' # replicate n CHR '' '') = ''y'' # replicate n '' ''"
    by (simp add: chars_ascii map_replicate)
  moreover have "dropWhile is_whitespace (replicate n '' '' @ [''y'']) = [''y'']"
    by (induction n) (simp_all add: is_whitespace_space)
  ultimately show ?thesis
    by (simp add: trim_def is_whitespace_space rev_replicate)
qed

section \<open>Properties\<close>






text \<open>
  C34. The timeout is one deadline for the whole prompt: while \<open>poll\<close> and the scheduler are late
  by at most the slack, the prompt returns, at the latest a millisecond and three slacks after the
  deadline, however many interruptions and partial reads come before; it does not report a timeout
  before the deadline; and a turn that starts at or after the deadline reads nothing and resolves
  the prompt to a timeout. The time is counted from the instant \<open>deadline\<close> reads, after the prompt
  is written; the timeout is below the \<open>i32::MAX\<close> milliseconds \<open>poll\<close> can wait at once. Every turn
  takes some time, so an environment that describes more turns than the timeout has nanoseconds
  describes enough of them, and the model's running out of turns cannot occur.
\<close>

theorem prompt_keeps_its_deadline:
  assumes "te_open env = Inr ()" "te_write env (format_prompt asks timeout) = Inr ()"
    and "\<forall>w \<in> set (te_steps env). punctual slack w"
    and "timeout < I32_MAX * 1000000" "timeout < length (te_steps env)"
  shows "\<exists>res turns t. tty_prompt env asks timeout = Some (res, turns, t) \<and>
    t \<le> te_now env + timeout + 1000000 + 3 * slack \<and>
    (res = TimedOut \<longrightarrow> te_now env + timeout \<le> t) \<and>
    (\<forall>(at_turn, got) \<in> set turns. te_now env + timeout \<le> at_turn \<longrightarrow> got = None \<and> res = TimedOut)"
proof -
  let ?d = "te_now env + timeout"
  obtain r us t where
    r: "read_line ?d (te_now env) (te_steps env) [] = Some (r, us, t)"
    using read_line_terminates [OF assms(3), of ?d "te_now env" "[]"] assms(5) by auto
  have res: "tty_prompt env asks timeout = Some (resolution_of (and_then r
      (\<lambda>l. Inr (if parse_answer l then Approve else DenyAnswer))), us, t)"
    using assms(1,2) by (simp add: tty_prompt_def prompt_on_tty_def ask_deadline_def r)
  show ?thesis unfolding res using read_line_in_time [OF r assms(3)] assms(4)
    by (cases r) (auto simp: resolution_TimedOut result_simps)
qed

definition slow_env :: "unit tty_env" where
  "slow_env = \<lparr>te_open = Inr (), te_write = (\<lambda>_. Inr ()), te_now = 7,
     te_steps = [\<lparr>ws_pause = 1, ws_poll = (\<lambda>_. (1, PollFailed True ())), ws_read = (1, ReadBytes [])\<rparr>,
                 \<lparr>ws_pause = 1, ws_poll = (\<lambda>_. (0, PollReady)), ws_read = (1, ReadBytes ''y'')\<rparr>,
                 \<lparr>ws_pause = 2, ws_poll = (\<lambda>_. (0, PollReady)), ws_read = (0, ReadBytes ''e'')\<rparr>]\<rparr>"

lemma prompt_keeps_its_deadline_witness:
  "\<exists>res turns t. tty_prompt slow_env [] 2 = Some (res, turns, t) \<and>
    t \<le> te_now slow_env + 2 + 1000000 + 3 * 2 \<and>
    (res = TimedOut \<longrightarrow> te_now slow_env + 2 \<le> t) \<and>
    (\<forall>(at_turn, got) \<in> set turns. te_now slow_env + 2 \<le> at_turn \<longrightarrow> got = None \<and> res = TimedOut)"
  by (rule prompt_keeps_its_deadline) (simp_all add: slow_env_def punctual_def I32_MAX_def)

text \<open>
  The prompt text does not determine what is asked: paths are printed raw, so one request
  whose path holds a line break renders to the same prompt as two other requests with their own
  rules, although the module promises that the operator sees exactly what one answer covers.
\<close>

theorem prompt_can_be_forged:
  "format_prompt [pending_ask_new (FsRequest (''/a (rule fs.1)'' @ [CHR 0x0A] @ ''  write /b'') [AccRead]) ''fs.2''] secs =
   format_prompt [pending_ask_new (FsRequest ''/a'' [AccRead]) ''fs.1'',
                  pending_ask_new (FsRequest ''/b'' [AccWrite]) ''fs.2''] secs"
  by (simp add: format_prompt_def pending_ask_new_def)

text \<open>
  An over-long line can approve: a \<open>y\<close> padded with blanks to the answer limit, with no newline
  yet read, ends the read loop and parses as a yes, although over-long lines are said to deny.
\<close>

definition padded_env :: "unit tty_env" where
  "padded_env = \<lparr>te_open = Inr (), te_write = (\<lambda>_. Inr ()), te_now = 0,
     te_steps = map (\<lambda>c. \<lparr>ws_pause = 1, ws_poll = (\<lambda>_. (0, PollReady)), ws_read = (0, ReadBytes c)\<rparr>)
       [CHR ''y'' # replicate 255 CHR '' '', replicate 256 CHR '' '', replicate 256 CHR '' '',
        replicate 256 CHR '' '']\<rparr>"

lemma no_newline_in_blanks: "CHR 0x0A \<notin> set (replicate n CHR '' '')"
  by (auto simp: in_set_replicate)

theorem overlong_line_can_approve:
  "\<exists>turns t. tty_prompt padded_env [] 30 = Some (Approved, turns, t) \<and> overlong turns"
proof -
  have ascii: "is_ascii (CHR ''y'' # replicate n CHR '' '')" for n
    by (induction n) (simp_all add: is_ascii_def code_def)
  have blanks: "replicate 255 CHR '' '' @ replicate 256 CHR '' '' @ replicate 256 CHR '' '' @
      replicate 256 CHR '' '' = replicate 1023 CHR '' ''"
    by (simp add: replicate_add [symmetric])
  have yes: "parse_answer (CHR ''y'' # replicate 1023 CHR '' '')"
    by (simp only: parse_answer_def trim_padded_y)
       (simp add: to_ascii_lowercase_def lower_char_def is_upper_def code_def)
  show ?thesis
    unfolding padded_env_def
    by (simp add: tty_prompt_def prompt_on_tty_def ask_deadline_def with_turn_def result_simps
        no_newline_in_blanks MAX_ANSWER_def lossy_ascii ascii blanks yes overlong_def Let_def)
qed

end
