(* ===== verification/Notify_World.thy ===== *)
theory Notify_World imports Effect Fact_Table Mem Ask_Prompt begin

text \<open>
  The world the supervisor's notify loop acts on. Every call that leaves the supervisor (an ioctl
  on the notify fd, a read of \<open>/proc\<close>, a message to the broker, a prompt, an append to the trace)
  is an \<open>action\<close> with its answer; the world is the log of the actions so far plus the trace's
  next sequence number. The answers come from an \<open>env\<close>, one function per call from the log so far,
  so the kernel, the child, the broker and the operator are arbitrary and may answer the same call
  differently later.

  Code that may fail is an \<open>eff\<close> of theory \<open>Effect\<close> over the world.
\<close>

section \<open>Linux numbers\<close>

definition EBADF :: int where [abi_defs]: "EBADF = 9"
definition EACCES :: int where [abi_defs]: "EACCES = 13"
definition EINVAL :: int where [abi_defs]: "EINVAL = 22"
definition ENOENT :: int where [abi_defs]: "ENOENT = 2"
definition EINTR :: int where [abi_defs]: "EINTR = 4"
definition EIO :: int where [abi_defs]: "EIO = 5"
definition E2BIG :: int where [abi_defs]: "E2BIG = 7"
definition ENOSYS :: int where [abi_defs]: "ENOSYS = 38"
definition EOPNOTSUPP :: int where [abi_defs]: "EOPNOTSUPP = 95"
definition O_NOFOLLOW :: u64 where [abi_defs]: "O_NOFOLLOW = 0x20000"
definition O_CLOEXEC :: u64 where [abi_defs]: "O_CLOEXEC = 0x80000"
definition AT_REMOVEDIR :: u32 where [abi_defs]: "AT_REMOVEDIR = 0x200"
definition AF_INET :: u16 where [abi_defs]: "AF_INET = 2"
definition AF_INET6 :: u16 where [abi_defs]: "AF_INET6 = 10"

section \<open>Kernel and broker interface\<close>

record seccomp_notif =
  sn_id :: u64
  sn_pid :: u32
  sn_nr :: u32
  sn_arch :: u32
  sn_args :: "u64 list"

record notif_resp =
  nresp_id :: u64
  nresp_val :: int
  nresp_error :: int
  nresp_flags :: u32

definition SECCOMP_USER_NOTIF_FLAG_CONTINUE :: u32 where [abi_defs]:
  "SECCOMP_USER_NOTIF_FLAG_CONTINUE = 1"

definition SECCOMP_ADDFD_FLAG_SEND :: u32 where [abi_defs]: "SECCOMP_ADDFD_FLAG_SEND = 2"

datatype dir_anchor = AnchorCwd | AnchorFd u32

datatype network_operation = ConnectOp | BindOp | SendToOp

datatype mutation_operation =
    TruncateOp int | RenameOp u32 | MkdirOp u32 | UnlinkOp u32 | LinkOp u32 | SymlinkOp path
  | ChmodOp u32 | ChownOp u32 u32 u32

datatype broker_request =
    PreparePath nat path bool bool
  | CommitOpen u64 u64 u32
  | CommitMutation u64 "u64 option" mutation_operation
  | Release u64
  | Network network_operation bytes bytes u32
  | Shutdown

datatype broker_response =
    Ready | SetupError string | Prepared u64 path bool | ResultValue int | ErrnoValue int | Released

datatype broker_error = BrokerIo io_error | BrokerProtocol | BrokerSetup string | BrokerTimeout

type_synonym trace_error = "io_error recorder_error"

section \<open>Actions, environments, worlds\<close>

datatype action =
    IdValid u64 "io_error + unit"
  | Send notif_resp "io_error + unit"
  | AddFd u64 fd u32 u32 "io_error + int"
  | OpenMem u32 "io_error + unit"
  | Pread u32 u64 nat "io_error + bytes"
  | ReadLink u32 dir_anchor "io_error + path"
  | ReadStatus u32 "io_error + string"
  | PidfdOpen u32 "io_error + fd"
  | PidfdGetfd fd int "io_error + fd"
  | CloseFd fd
  | Prompt "pending_ask list" nat ask_resolution
  | Append nat event_body "trace_error + unit"
  | Ipc broker_request "fd option" "broker_error + broker_response \<times> fd option"
  | Poll "io_error + u16"
  | Recv "io_error + seccomp_notif"
  | Kill
  | Wait "io_error + int"

record env =
  env_id_valid :: "action list \<Rightarrow> u64 \<Rightarrow> io_error + unit"
  env_send :: "action list \<Rightarrow> notif_resp \<Rightarrow> io_error + unit"
  env_addfd :: "action list \<Rightarrow> u64 \<Rightarrow> fd \<Rightarrow> u32 \<Rightarrow> u32 \<Rightarrow> io_error + int"
  env_open_mem :: "action list \<Rightarrow> u32 \<Rightarrow> io_error + unit"
  env_pread :: "action list \<Rightarrow> u32 \<Rightarrow> u64 \<Rightarrow> nat \<Rightarrow> io_error + bytes"
  env_read_link :: "action list \<Rightarrow> u32 \<Rightarrow> dir_anchor \<Rightarrow> io_error + path"
  env_read_status :: "action list \<Rightarrow> u32 \<Rightarrow> io_error + string"
  env_pidfd_open :: "action list \<Rightarrow> u32 \<Rightarrow> io_error + fd"
  env_pidfd_getfd :: "action list \<Rightarrow> fd \<Rightarrow> int \<Rightarrow> io_error + fd"
  env_prompt :: "action list \<Rightarrow> pending_ask list \<Rightarrow> nat \<Rightarrow> ask_resolution"
  env_append :: "action list \<Rightarrow> nat \<Rightarrow> event_body \<Rightarrow> trace_error + unit"
  env_ipc :: "action list \<Rightarrow> broker_request \<Rightarrow> fd option \<Rightarrow> broker_error + broker_response \<times> fd option"
  env_poll :: "action list \<Rightarrow> io_error + u16"
  env_recv :: "action list \<Rightarrow> io_error + seccomp_notif"
  env_wait :: "action list \<Rightarrow> io_error + int"
  env_now_ms :: "action list \<Rightarrow> nat"

record world =
  w_log :: "action list"
  w_next_seq :: nat

section \<open>Fallible state passing\<close>

type_synonym ('e, 'a) act = "(world, 'e, 'a) eff"

text \<open>One call: ask the environment, log the action with its answer.\<close>

definition log_action :: "action \<Rightarrow> world \<Rightarrow> world" where
  "log_action a w = w\<lparr>w_log := w_log w @ [a]\<rparr>"

definition call :: "(action list \<Rightarrow> 'r) \<Rightarrow> ('r \<Rightarrow> action) \<Rightarrow> ('e, 'r) act" where
  "call answer mk = (\<lambda>w. let r = answer (w_log w) in (Inr r, log_action (mk r) w))"

section \<open>The notify fd\<close>

definition id_valid :: "env \<Rightarrow> u64 \<Rightarrow> ('e, io_error + bool) act" where
  "id_valid E nid =
     bindE (call (\<lambda>h. env_id_valid E h nid) (IdValid nid)) (\<lambda>r.
       retE (case r of
               Inr _ \<Rightarrow> Inr True
             | Inl e \<Rightarrow> if e = Some ENOENT then Inr False else Inl e))"

definition send :: "env \<Rightarrow> notif_resp \<Rightarrow> ('e, io_error + unit) act" where
  "send E resp = call (\<lambda>h. env_send E h resp) (Send resp)"

definition send_continue :: "env \<Rightarrow> u64 \<Rightarrow> ('e, io_error + unit) act" where
  "send_continue E nid = send E \<lparr>nresp_id = nid, nresp_val = 0, nresp_error = 0,
     nresp_flags = SECCOMP_USER_NOTIF_FLAG_CONTINUE\<rparr>"

definition send_error :: "env \<Rightarrow> u64 \<Rightarrow> int \<Rightarrow> ('e, io_error + unit) act" where
  "send_error E nid errno = send E \<lparr>nresp_id = nid, nresp_val = 0, nresp_error = - \<bar>errno\<bar>,
     nresp_flags = 0\<rparr>"

definition send_success :: "env \<Rightarrow> u64 \<Rightarrow> int \<Rightarrow> ('e, io_error + unit) act" where
  "send_success E nid v = send E \<lparr>nresp_id = nid, nresp_val = v, nresp_error = 0, nresp_flags = 0\<rparr>"

definition send_addfd :: "env \<Rightarrow> u64 \<Rightarrow> fd \<Rightarrow> u32 \<Rightarrow> u32 \<Rightarrow> ('e, io_error + int) act" where
  "send_addfd E nid srcfd flags newfd_flags =
     call (\<lambda>h. env_addfd E h nid srcfd flags newfd_flags) (AddFd nid srcfd flags newfd_flags)"

section \<open>Child memory and \<open>/proc\<close>\<close>

text \<open>\<open>FileExt::read_at\<close> on an opened \<open>/proc/pid/mem\<close>, as a reader of theory \<open>Mem\<close>.\<close>

definition child_reader :: "env \<Rightarrow> u32 \<Rightarrow> (world, io_error) mem_reader" where
  "child_reader E pid w pos n =
     (let r = env_pread E (w_log w) pid pos n in (r, log_action (Pread pid pos n r) w))"

definition open_mem :: "env \<Rightarrow> u32 \<Rightarrow> (io_error mem_read_error, unit) act" where
  "open_mem E pid = bindE (call (\<lambda>h. env_open_mem E h pid) (OpenMem pid)) (liftE MemIo)"

definition k_read_path :: "env \<Rightarrow> u32 \<Rightarrow> u64 \<Rightarrow> (io_error mem_read_error, bytes) act" where
  "k_read_path E pid addr = bindE (open_mem E pid) (\<lambda>_. read_path (child_reader E pid) addr)"

definition k_read_bytes :: "env \<Rightarrow> u32 \<Rightarrow> u64 \<Rightarrow> nat \<Rightarrow> (io_error mem_read_error, bytes) act" where
  "k_read_bytes E pid addr len = bindE (open_mem E pid) (\<lambda>_. read_exact (child_reader E pid) addr len)"

text \<open>\<open>from_ne_bytes\<close> on x86-64: little endian.\<close>

definition le_word :: "bytes \<Rightarrow> 'a::len word" where
  "le_word bs = of_nat (foldr (\<lambda>b acc. unat b + 256 * acc) bs 0)"

definition be_word :: "bytes \<Rightarrow> 'a::len word" where
  "be_word bs = le_word (rev bs)"

definition k_read_u64 :: "env \<Rightarrow> u32 \<Rightarrow> u64 \<Rightarrow> (io_error mem_read_error, u64) act" where
  "k_read_u64 E pid addr =
     bindE (open_mem E pid) (\<lambda>_.
     bindE (read_exact (child_reader E pid) addr 8) (\<lambda>bs. retE (le_word bs)))"

definition dir_prefix :: "env \<Rightarrow> u32 \<Rightarrow> dir_anchor \<Rightarrow> ('e, io_error + path) act" where
  "dir_prefix E pid anchor = call (\<lambda>h. env_read_link E h pid anchor) (ReadLink pid anchor)"

definition read_status :: "env \<Rightarrow> u32 \<Rightarrow> (io_error, string) act" where
  "read_status E pid = bindE (call (\<lambda>h. env_read_status E h pid) (ReadStatus pid)) (liftE id)"

fun status_field :: "string \<Rightarrow> string list \<Rightarrow> io_error + u32" where
  "status_field key [] = Inl None"
| "status_field key (l # ls) =
     (case strip_prefix key l of
        Some v \<Rightarrow> (case parse_uint (2 ^ 32 - 1) (trim v) of
                     Some n \<Rightarrow> Inr (of_nat n) | None \<Rightarrow> Inl None)
      | None \<Rightarrow> status_field key ls)"

definition process_tgid :: "env \<Rightarrow> u32 \<Rightarrow> (io_error, u32) act" where
  "process_tgid E pid = bindE (read_status E pid) (\<lambda>s. liftE id (status_field ''Tgid:'' (lines s)))"

definition parent_pid :: "env \<Rightarrow> u32 \<Rightarrow> (io_error, u32) act" where
  "parent_pid E pid = bindE (read_status E pid) (\<lambda>s. liftE id (status_field ''PPid:'' (lines s)))"

text \<open>The walk up the process tree: at most 256 ancestors (\<open>n\<close> counts down).\<close>

fun tree_walk :: "env \<Rightarrow> u32 \<Rightarrow> nat \<Rightarrow> u32 \<Rightarrow> (io_error, bool) act" where
  "tree_walk E root 0 current = retE False"
| "tree_walk E root (Suc n) current =
     (if current = root then retE True
      else if current \<le> 1 then retE False
      else bindE (parent_pid E current) (\<lambda>p. tree_walk E root n p))"

definition process_in_tree :: "env \<Rightarrow> u32 \<Rightarrow> u32 \<Rightarrow> (io_error, bool) act" where
  "process_in_tree E root target = tree_walk E root 256 target"

definition duplicate_fd :: "env \<Rightarrow> u32 \<Rightarrow> int \<Rightarrow> (io_error, fd) act" where
  "duplicate_fd E pid target_fd =
     bindE (process_tgid E pid) (\<lambda>tgid.
     bindE (call (\<lambda>h. env_pidfd_open E h tgid) (PidfdOpen tgid)) (\<lambda>r.
     bindE (liftE id r) (\<lambda>pidfd.
     bindE (call (\<lambda>h. env_pidfd_getfd E h pidfd target_fd) (PidfdGetfd pidfd target_fd)) (\<lambda>dup.
     bindE (call (\<lambda>h. ()) (\<lambda>_. CloseFd pidfd)) (\<lambda>_.
       liftE id dup)))))"

end
