(* ===== verification/Broker_Client.thy ===== *)
theory Broker_Client imports Notify_World begin

text \<open>
  \<open>src/src/supervisor/broker.rs\<close>, the supervisor's side: the typed requests of the confined
  broker and the decoding of its answers. The packet exchange itself (send, bounded wait,
  receive) is the \<open>Ipc\<close> action, whose answer is an error or any response with an optional
  descriptor; every answer the protocol does not expect is an error of the run.
\<close>

section \<open>Data\<close>

record broker_client =
  bc_anchors :: "path list"
  bc_workspace :: path

record prepared_path =
  pp_token :: u64
  pp_identity :: path
  pp_exists :: bool

datatype broker_result = Value int | FdResult fd | Errno int

datatype result_or_path = PathR prepared_path | ResultR broker_result

section \<open>Anchors\<close>

fun last_longest :: "(nat \<times> path) list \<Rightarrow> (nat \<times> path) option \<Rightarrow> (nat \<times> path) option" where
  "last_longest [] best = best"
| "last_longest (x # xs) best =
     last_longest xs (case best of
        None \<Rightarrow> Some x
      | Some b \<Rightarrow> if length (snd b) \<le> length (snd x) then Some x else Some b)"

fun position_of :: "('a \<Rightarrow> bool) \<Rightarrow> nat \<Rightarrow> 'a list \<Rightarrow> nat option" where
  "position_of Q i [] = None"
| "position_of Q i (x # xs) = (if Q x then Some i else position_of Q (Suc i) xs)"

definition select_anchor :: "broker_client \<Rightarrow> path \<Rightarrow> (nat \<times> path) option" where
  "select_anchor b p =
     (if \<not> is_absolute p then None
      else
        let selected =
          (if path_starts_with p (bc_workspace b)
           then position_of (\<lambda>root. path_eq root (bc_workspace b)) 0 (bc_anchors b)
           else map_option fst (last_longest
                  (filter (\<lambda>(_, root). path_starts_with p root) (enumerate 0 (bc_anchors b))) None))
        in case selected of
             None \<Rightarrow> None
           | Some i \<Rightarrow> (case path_strip_prefix p (bc_anchors b ! i) of
                         None \<Rightarrow> None | Some rel \<Rightarrow> Some (i, rel)))"

section \<open>Requests\<close>

definition ipc :: "env \<Rightarrow> broker_request \<Rightarrow> fd option \<Rightarrow>
    (broker_error, broker_response \<times> fd option) act" where
  "ipc E req passed = bindE (call (\<lambda>h. env_ipc E h req passed) (Ipc req passed)) (liftE id)"

definition prepare_path :: "env \<Rightarrow> broker_client \<Rightarrow> path \<Rightarrow> bool \<Rightarrow> bool \<Rightarrow> (broker_error, result_or_path) act" where
  "prepare_path E b p follow_final_symlink allow_missing =
     (case select_anchor b p of
        None \<Rightarrow> retE (ResultR (Errno EACCES))
      | Some (anchor, relative) \<Rightarrow>
          bindE (ipc E (PreparePath anchor relative follow_final_symlink allow_missing) None) (\<lambda>r.
            case r of
              (Prepared token identity ex, None) \<Rightarrow>
                retE (PathR \<lparr>pp_token = token, pp_identity = identity, pp_exists = ex\<rparr>)
            | (ErrnoValue e, None) \<Rightarrow> retE (ResultR (Errno e))
            | _ \<Rightarrow> failE BrokerProtocol))"

definition decode_result :: "broker_response \<times> fd option \<Rightarrow> (broker_error, broker_result) act" where
  "decode_result r =
     (case r of
        (ResultValue v, None) \<Rightarrow> retE (Value v)
      | (ResultValue _, Some f) \<Rightarrow> retE (FdResult f)
      | (ErrnoValue e, None) \<Rightarrow> retE (Errno e)
      | _ \<Rightarrow> failE BrokerProtocol)"

definition commit_open :: "env \<Rightarrow> prepared_path \<Rightarrow> u64 \<Rightarrow> u32 \<Rightarrow> (broker_error, broker_result) act" where
  "commit_open E p flags m = bindE (ipc E (CommitOpen (pp_token p) flags m) None) decode_result"

definition commit_mutation ::
  "env \<Rightarrow> prepared_path \<Rightarrow> prepared_path option \<Rightarrow> mutation_operation \<Rightarrow> (broker_error, broker_result) act" where
  "commit_mutation E p q op =
     bindE (ipc E (CommitMutation (pp_token p) (map_option pp_token q) op) None) decode_result"

definition release :: "env \<Rightarrow> prepared_path \<Rightarrow> (broker_error, unit) act" where
  "release E p =
     bindE (ipc E (Release (pp_token p)) None) (\<lambda>r.
       case r of (Released, None) \<Rightarrow> retE () | _ \<Rightarrow> failE BrokerProtocol)"

definition network ::
  "env \<Rightarrow> network_operation \<Rightarrow> fd \<Rightarrow> bytes \<Rightarrow> bytes \<Rightarrow> u32 \<Rightarrow> (broker_error, broker_result) act" where
  "network E op socket address payload flags =
     bindE (ipc E (Network op address payload flags) (Some socket)) decode_result"

section \<open>What the selected anchor names\<close>

lemma last_longest_mem: "last_longest xs best = Some x \<Longrightarrow> x \<in> set xs \<or> best = Some x"
  by (induction xs best rule: last_longest.induct) (auto split: option.splits if_splits)

lemma last_longest_max:
  "last_longest xs best = Some x \<Longrightarrow>
   (\<forall>y \<in> set xs. length (snd y) \<le> length (snd x)) \<and>
   (\<forall>b. best = Some b \<longrightarrow> length (snd b) \<le> length (snd x))"
proof (induction xs arbitrary: best)
  case (Cons y ys)
  show ?case
  proof (cases best)
    case None
    with Cons.prems have "last_longest ys (Some y) = Some x" by simp
    from Cons.IH [OF this] None show ?thesis by simp
  next
    case (Some b)
    with Cons.prems have "last_longest ys (Some (if length (snd b) \<le> length (snd y) then y else b)) = Some x"
      by (simp split: if_splits)
    from Cons.IH [OF this] Some show ?thesis by (simp split: if_splits)
  qed
qed simp

lemma position_of_Some:
  "position_of Q i xs = Some k \<Longrightarrow> i \<le> k \<and> k < i + length xs \<and> Q (xs ! (k - i))"
  by (induction Q i xs rule: position_of.induct) (auto simp: nth_Cons' split: if_splits)

lemma body_components_trivial: "list_all trivial_piece ps \<Longrightarrow> body_components ps = []"
  by (induction ps) (auto simp: body_components_def)

lemma body_components_Cons:
  "body_components (p # ps) = body_component p @ body_components ps"
  by (simp add: body_components_def)

lemma body_component_length: "length (body_component p) = (if trivial_piece p then 0 else 1)"
  by simp

lemma body_components_dropWhile: "body_components (dropWhile trivial_piece ps) = body_components ps"
  by (induction ps) (auto simp: body_components_Cons)

lemma body_components_rev: "body_components (rev ps) = rev (body_components ps)"
proof (induction ps)
  case (Cons p ps)
  have "rev (body_component p) = body_component p" by simp
  with Cons show ?case by (simp add: body_components_Cons) (simp add: body_components_def)
qed (simp add: body_components_def)

lemma body_components_trim_end:
  "body_components (rev (dropWhile trivial_piece (rev ps))) = body_components ps"
  by (simp only: body_components_rev body_components_dropWhile rev_rev_ident)

lemma body_components_drop: "body_components (drop_components n ps) = drop n (body_components ps)"
proof (induction n ps rule: drop_components.induct)
  case (3 n p ps)
  then show ?case by (auto simp: body_components_Cons)
qed (simp_all add: body_components_def)

lemma split_join:
  "ps \<noteq> [] \<Longrightarrow> \<forall>p \<in> set ps. d \<notin> set p \<Longrightarrow> split_on d (join_with [d] ps) = ps"
proof (induction ps rule: list_nonempty_induct)
  case (cons x xs)
  then obtain y ys where "xs = y # ys" by (cases xs) auto
  with cons show ?case using split_on_append_sep [of d x] by (simp add: split_on_no_sep)
qed (simp add: split_on_no_sep)

lemma body_components_join:
  "\<forall>p \<in> set ps. CHR ''/'' \<notin> set p \<Longrightarrow>
   body_components (split_on CHR ''/'' (join_with ''/'' ps)) = body_components ps"
  using split_join [of ps "CHR ''/''"] by (cases ps) (auto simp: body_components_def)

lemma drop_components_subset: "set (drop_components n ps) \<subseteq> set ps"
  by (induction n ps rule: drop_components.induct) auto

text \<open>Stripping an anchor and walking the rest below it reaches the same components.\<close>

lemma strip_prefix_components:
  assumes "path_strip_prefix p root = Some rel"
  shows "components p = components root @ body_components (split_on CHR ''/'' rel)"
proof -
  from assms have abs: "is_absolute p" "is_absolute root" "path_starts_with p root"
    by (auto simp: path_strip_prefix_def split: if_splits)
  then obtain p' r' where p: "p = CHR ''/'' # p'" and r: "root = CHR ''/'' # r'"
    by (cases p; cases root) auto
  let ?ps = "split_on CHR ''/'' p'" and ?n = "length (components root) - 1"
  let ?t = "rev (dropWhile trivial_piece (rev (dropWhile trivial_piece (drop_components ?n ?ps))))"
  have rel: "rel = join_with ''/'' ?t"
    using assms abs p by (simp add: path_strip_prefix_def)
  have "set ?t \<subseteq> set ?ps"
    using drop_components_subset [of ?n ?ps] by (auto dest!: set_dropWhileD)
  then have "\<forall>q \<in> set ?t. CHR ''/'' \<notin> set q" using split_on_pieces by blast
  then have "body_components (split_on CHR ''/'' rel) = drop ?n (body_components ?ps)"
    unfolding rel
    by (simp only: body_components_join body_components_trim_end body_components_dropWhile
        body_components_drop)
  moreover obtain cs where "components p = components root @ cs"
    using abs(3) by (auto simp: path_starts_with_iff)
  ultimately show ?thesis
    using p r by (auto simp: components_absolute)
qed

section \<open>Properties\<close>

text \<open>
  The broker is asked about the path the decision is about: the request's anchor is one of the
  granted roots, the anchor's components followed by the relative part's are the components of the
  path; a path under the workspace is only ever reached through the workspace anchor, any other
  through the longest granted root it lies under.
\<close>

theorem select_anchor_names_path:
  assumes "select_anchor b p = Some (i, rel)"
  shows "i < length (bc_anchors b) \<and> is_absolute p \<and>
    components p = components (bc_anchors b ! i) @ body_components (split_on CHR ''/'' rel) \<and>
    (if path_starts_with p (bc_workspace b) then path_eq (bc_anchors b ! i) (bc_workspace b)
     else \<forall>root \<in> set (bc_anchors b). path_starts_with p root \<longrightarrow> length root \<le> length (bc_anchors b ! i))"
proof -
  let ?roots = "filter (\<lambda>(_, root). path_starts_with p root) (enumerate 0 (bc_anchors b))"
  have abs: "is_absolute p" and strip: "path_strip_prefix p (bc_anchors b ! i) = Some rel"
    and sel: "(if path_starts_with p (bc_workspace b)
           then position_of (\<lambda>root. path_eq root (bc_workspace b)) 0 (bc_anchors b)
           else map_option fst (last_longest ?roots None)) = Some i"
    using assms by (auto simp: select_anchor_def Let_def split: if_splits option.splits)
  have "i < length (bc_anchors b) \<and>
    (if path_starts_with p (bc_workspace b) then path_eq (bc_anchors b ! i) (bc_workspace b)
     else \<forall>root \<in> set (bc_anchors b). path_starts_with p root \<longrightarrow> length root \<le> length (bc_anchors b ! i))"
  proof (cases "path_starts_with p (bc_workspace b)")
    case True
    with sel show ?thesis using position_of_Some by fastforce
  next
    case False
    with sel obtain root where l: "last_longest ?roots None = Some (i, root)" by auto
    have "(i, root) \<in> set ?roots" using last_longest_mem [OF l] by simp
    then have i: "i < length (bc_anchors b)" "bc_anchors b ! i = root"
      by (auto simp: in_set_enumerate_eq)
    have "length r \<le> length root" if r: "r \<in> set (bc_anchors b)" and under: "path_starts_with p r" for r
    proof -
      obtain k where "k < length (bc_anchors b)" "bc_anchors b ! k = r"
        using r by (metis in_set_conv_nth)
      then have "(k, r) \<in> set ?roots" using under by (auto simp: in_set_enumerate_eq)
      then show ?thesis using last_longest_max [OF l] by fastforce
    qed
    with i False show ?thesis by simp
  qed
  with abs strip_prefix_components [OF strip] show ?thesis by blast
qed

lemma select_anchor_names_path_witness:
  "1 < length (bc_anchors \<lparr>bc_anchors = [''/'', ''/usr''], bc_workspace = ''/w''\<rparr>) \<and>
   is_absolute ''/usr/bin'' \<and>
   components ''/usr/bin'' = components (bc_anchors \<lparr>bc_anchors = [''/'', ''/usr''], bc_workspace = ''/w''\<rparr> ! 1) @
     body_components (split_on CHR ''/'' ''bin'') \<and>
   (if path_starts_with ''/usr/bin'' (bc_workspace \<lparr>bc_anchors = [''/'', ''/usr''], bc_workspace = ''/w''\<rparr>)
    then path_eq (bc_anchors \<lparr>bc_anchors = [''/'', ''/usr''], bc_workspace = ''/w''\<rparr> ! 1) ''/w''
    else \<forall>root \<in> set (bc_anchors \<lparr>bc_anchors = [''/'', ''/usr''], bc_workspace = ''/w''\<rparr>).
      path_starts_with ''/usr/bin'' root \<longrightarrow> length root \<le> length
        (bc_anchors \<lparr>bc_anchors = [''/'', ''/usr''], bc_workspace = ''/w''\<rparr> ! 1))"
  using select_anchor_names_path [of "\<lparr>bc_anchors = [''/'', ''/usr''], bc_workspace = ''/w''\<rparr>" "''/usr/bin''" 1 "''bin''"]
  by (simp add: select_anchor_def path_starts_with_def components_def body_components_def
      path_strip_prefix_def)

end
