(* ===== verification/Notify_Loop.thy ===== *)
theory Notify_Loop imports Broker_Client begin

text \<open>
  \<open>src/src/supervisor/run.rs\<close>: the per-notification state machine (every handler, whole) and the
  loop that drives it. The kernel seam is the production one (\<open>ProcNotifier\<close>): its operations are
  those of theory \<open>Notify_World\<close>, the broker's those of \<open>Broker_Client\<close>.
\<close>

section \<open>Data\<close>

definition AT_SYMLINK_FOLLOW :: u32 where [abi_defs]: "AT_SYMLINK_FOLLOW = 0x400"
definition CLONE_ARGS_MIN_SIZE :: u64 where [abi_defs]: "CLONE_ARGS_MIN_SIZE = 8"
definition CLONE_ARGS_MAX_SIZE :: u64 where [abi_defs]: "CLONE_ARGS_MAX_SIZE = 88"
definition OPEN_HOW_SIZE :: nat where [abi_defs]: "OPEN_HOW_SIZE = 24"

datatype mutation_invocation =
    Truncate int | Rename u32 | Mkdir u32 | Unlink u32 | Link u32 | Symlink path
  | Chmod u32 | Chown u32 u32 u32

datatype fs_invocation = OpenInv u64 u32 "int option" | Mutation mutation_invocation

text \<open>Matched-rule ids of decisions that no policy rule made.\<close>

definition rule_RECORD_ONLY :: string where "rule_RECORD_ONLY = ''base:record_only''"
definition rule_IO_URING :: string where "rule_IO_URING = ''sr4:io_uring''"
definition rule_FOREIGN_ABI :: string where "rule_FOREIGN_ABI = ''sr3:foreign_abi''"
definition rule_MEMORY_READ :: string where "rule_MEMORY_READ = ''failsafe:memory_read''"
definition rule_PROCESS_CREATION :: string where "rule_PROCESS_CREATION = ''base:process_creation''"
definition rule_PROCESS_TREE :: string where "rule_PROCESS_TREE = ''base:process_tree''"
definition rule_PROCESS_TREE_DENY :: string where "rule_PROCESS_TREE_DENY = ''failsafe:process_tree''"
definition rule_PIDFD_GETFD :: string where "rule_PIDFD_GETFD = ''sr4:pidfd_getfd''"
definition rule_REALIZATION :: string where "rule_REALIZATION = ''failsafe:realization''"

datatype run_error =
    RecorderFailed trace_error | NotifyFailed io_error | MissingBroker | EnforceWithoutPolicy
  | BrokerFailed broker_error

record run_config =
  rc_mode :: mode
  rc_policy :: "policy option"
  rc_attendance :: attendance
  rc_ask_timeout :: nat
  rc_root_pid :: u32
  rc_broker :: "broker_client option"
  rc_resolved_hosts :: "(string \<Rightarrow> ipaddr list option) option"

definition DEFAULT_ASK_TIMEOUT :: nat where "DEFAULT_ASK_TIMEOUT = 60"

definition config_record_only :: "u32 \<Rightarrow> attendance \<Rightarrow> run_config" where
  "config_record_only root att = \<lparr>rc_mode = RecordOnly, rc_policy = None, rc_attendance = att,
     rc_ask_timeout = DEFAULT_ASK_TIMEOUT, rc_root_pid = root, rc_broker = None,
     rc_resolved_hosts = None\<rparr>"

definition config_enforce :: "u32 \<Rightarrow> attendance \<Rightarrow> policy \<Rightarrow> run_config" where
  "config_enforce root att p = \<lparr>rc_mode = Enforce, rc_policy = Some p, rc_attendance = att,
     rc_ask_timeout = DEFAULT_ASK_TIMEOUT, rc_root_pid = root, rc_broker = None,
     rc_resolved_hosts = None\<rparr>"

definition config_enforce_with_broker ::
  "u32 \<Rightarrow> attendance \<Rightarrow> policy \<Rightarrow> broker_client \<Rightarrow> (string \<Rightarrow> ipaddr list option) \<Rightarrow> run_config" where
  "config_enforce_with_broker root att p b hosts = \<lparr>rc_mode = Enforce, rc_policy = Some p,
     rc_attendance = att, rc_ask_timeout = DEFAULT_ASK_TIMEOUT, rc_root_pid = root,
     rc_broker = Some b, rc_resolved_hosts = Some hosts\<rparr>"

definition with_ask_timeout :: "run_config \<Rightarrow> nat \<Rightarrow> run_config" where
  "with_ask_timeout c secs = c\<lparr>rc_ask_timeout := secs\<rparr>"

definition validate_config :: "run_config \<Rightarrow> run_error + run_config" where
  "validate_config c =
     (if rc_mode c = Enforce \<and> rc_policy c = None then Inl EnforceWithoutPolicy
      else if rc_mode c = Enforce \<and> rc_broker c = None then Inl MissingBroker
      else Inr c)"

datatype handled = Responded | Dropped

record resolved_decision =
  rd_event :: decision
  rd_response :: decision
  rd_ask_resolution :: "ask_resolution option"
  rd_matched_rule :: string
  rd_would_deny :: "bool option"

record resolved_operand =
  ro_effective :: resolved_decision
  ro_evidence :: "fs_operand_decision list"

definition fixed_decision :: "decision \<Rightarrow> string \<Rightarrow> resolved_decision" where
  "fixed_decision d rule = \<lparr>rd_event = d, rd_response = d, rd_ask_resolution = None,
     rd_matched_rule = rule, rd_would_deny = None\<rparr>"

section \<open>Decisions\<close>

definition tracked_evaluation :: "run_config \<Rightarrow> request \<Rightarrow> evaluation" where
  "tracked_evaluation c req =
     (case rc_policy c of
        Some p \<Rightarrow> evaluate p req (rc_mode c)
      | None \<Rightarrow> \<lparr>v_decision = Allow, v_matched = BaseRecordOnly, v_would_deny = None\<rparr>)"

text \<open>\<open>evaluate_tracked\<close>: the evaluation and what it adds to the syscall's list of asks.\<close>

definition evaluate_tracked :: "run_config \<Rightarrow> request \<Rightarrow> pending_ask list \<Rightarrow> evaluation \<times> pending_ask list" where
  "evaluate_tracked c req asks =
     (let eval = tracked_evaluation c req
      in (eval, if v_decision eval = Ask
                then asks @ [pending_ask_new req (show_match_id (v_matched eval))] else asks))"

definition settle_asks :: "env \<Rightarrow> run_config \<Rightarrow> pending_ask list \<Rightarrow> ('e, ask_resolution option) act" where
  "settle_asks E c asks =
     (if asks = [] then retE None
      else case rc_attendance c of
        Unattended \<Rightarrow> retE (Some NoOperator)
      | Attended \<Rightarrow>
          bindE (call (\<lambda>h. env_prompt E h asks (rc_ask_timeout c)) (Prompt asks (rc_ask_timeout c)))
            (\<lambda>r. retE (Some r)))"

definition finalize_decision :: "evaluation \<Rightarrow> ask_resolution option \<Rightarrow> resolved_decision" where
  "finalize_decision eval resolution =
     (if v_decision eval \<noteq> Ask then
        \<lparr>rd_event = v_decision eval, rd_response = v_decision eval, rd_ask_resolution = None,
         rd_matched_rule = show_match_id (v_matched eval), rd_would_deny = v_would_deny eval\<rparr>
      else
        let r = (case resolution of Some r \<Rightarrow> r | None \<Rightarrow> Denied)
        in \<lparr>rd_event = Ask, rd_response = (if r = Approved then Allow else Deny),
            rd_ask_resolution = Some r, rd_matched_rule = show_match_id (v_matched eval),
            rd_would_deny = v_would_deny eval\<rparr>)"

definition resolve_decision :: "env \<Rightarrow> run_config \<Rightarrow> request \<Rightarrow> ('e, resolved_decision) act" where
  "resolve_decision E c req =
     (let (eval, asks) = evaluate_tracked c req []
      in bindE (settle_asks E c asks) (\<lambda>r. retE (finalize_decision eval r)))"

section \<open>Recording and answering\<close>

definition record_with_operands ::
  "env \<Rightarrow> nat \<Rightarrow> seccomp_notif \<Rightarrow> string \<Rightarrow> fact \<Rightarrow> resolved_decision \<Rightarrow>
   fs_operand_decision list option \<Rightarrow> (run_error, unit) act" where
  "record_with_operands E ts n name f d ops =
     (let body = SyscallBody \<lparr>ev_pid = sn_pid n, ev_syscall = name, ev_fact = f,
            ev_decision = rd_event d, ev_ask_resolution = rd_ask_resolution d,
            ev_matched_rule = rd_matched_rule d, ev_would_deny = rd_would_deny d,
            ev_operand_decisions = ops\<rparr>
      in bindE (call (\<lambda>h. env_append E h ts body) (Append ts body)) (\<lambda>r.
         bindE (liftE RecorderFailed r) (\<lambda>_.
           \<lambda>w. (Inr (), w\<lparr>w_next_seq := w_next_seq w + 1\<rparr>))))"

definition record_event ::
  "env \<Rightarrow> nat \<Rightarrow> seccomp_notif \<Rightarrow> string \<Rightarrow> fact \<Rightarrow> resolved_decision \<Rightarrow> (run_error, unit) act" where
  "record_event E ts n name f d = record_with_operands E ts n name f d None"

definition tolerate_dead :: "io_error + unit \<Rightarrow> (run_error, unit) act" where
  "tolerate_dead r =
     (case r of
        Inr _ \<Rightarrow> retE ()
      | Inl e \<Rightarrow> if e = Some ENOENT then retE () else failE (NotifyFailed e))"

definition answer_continue :: "env \<Rightarrow> u64 \<Rightarrow> (run_error, unit) act" where
  "answer_continue E nid = bindE (send_continue E nid) tolerate_dead"

definition answer_error :: "env \<Rightarrow> u64 \<Rightarrow> int \<Rightarrow> (run_error, unit) act" where
  "answer_error E nid errno = bindE (send_error E nid errno) tolerate_dead"

definition respond_continue_or_deny :: "env \<Rightarrow> u64 \<Rightarrow> resolved_decision \<Rightarrow> (run_error, unit) act" where
  "respond_continue_or_deny E nid d =
     (case rd_response d of
        Allow \<Rightarrow> answer_continue E nid
      | Deny \<Rightarrow> answer_error E nid EACCES
      | Ask \<Rightarrow> answer_error E nid EACCES)"

definition respond_broker_result :: "env \<Rightarrow> u64 \<Rightarrow> broker_result \<Rightarrow> u32 \<Rightarrow> (run_error, unit) act" where
  "respond_broker_result E nid r newfd_flags =
     (case r of
        Value v \<Rightarrow> bindE (send_success E nid v) tolerate_dead
      | FdResult f \<Rightarrow>
          bindE (send_addfd E nid f SECCOMP_ADDFD_FLAG_SEND newfd_flags) (\<lambda>res.
            case res of
              Inr _ \<Rightarrow> retE ()
            | Inl e \<Rightarrow> if e = Some ENOENT then retE () else failE (NotifyFailed e))
      | Errno e \<Rightarrow> answer_error E nid e)"

text \<open>\<open>kernel.id_valid(id).map_err(RunError::Notify)?\<close>\<close>

definition still_valid :: "env \<Rightarrow> u64 \<Rightarrow> (run_error, bool) act" where
  "still_valid E nid = bindE (id_valid E nid) (liftE NotifyFailed)"

definition broker_call :: "(broker_error, 'a) act \<Rightarrow> (run_error, 'a) act" where
  "broker_call m = bindE (tryE m) (liftE BrokerFailed)"

section \<open>Facts from child memory\<close>

definition bytes_to_path :: "bytes \<Rightarrow> path" where
  "bytes_to_path bs = map (\<lambda>b. char_of (unat b)) bs"

definition read_anchored :: "env \<Rightarrow> seccomp_notif \<Rightarrow> path_arg \<Rightarrow> (io_error mem_read_error, path) act" where
  "read_anchored E n arg =
     bindE (k_read_path E (sn_pid n) (sn_args n ! pa_path_arg arg)) (\<lambda>bs.
       let p = bytes_to_path bs
       in if is_absolute p \<or> \<not> pa_anchor arg then retE p
          else
            let anchor = (case pa_dirfd_arg arg of
                  Some i \<Rightarrow>
                    if ucast (ucast (sn_args n ! i) :: u32) \<noteq> AT_FDCWD
                    then AnchorFd (ucast (sn_args n ! i)) else AnchorCwd
                | None \<Rightarrow> AnchorCwd)
            in bindE (dir_prefix E (sn_pid n) anchor) (\<lambda>r.
                 case r of Inr base \<Rightarrow> retE (path_join base p) | Inl _ \<Rightarrow> retE p))"

definition open_mode :: "u32 \<Rightarrow> seccomp_notif \<Rightarrow> u32" where
  "open_mode nr n =
     (if nr = NR_OPEN then ucast (sn_args n ! 2)
      else if nr = NR_CREAT then ucast (sn_args n ! 1)
      else if nr = NR_OPENAT then ucast (sn_args n ! 3) else 0)"

definition mutation_invocation :: "u32 \<Rightarrow> seccomp_notif \<Rightarrow> path \<Rightarrow> io_error mem_read_error + mutation_invocation" where
  "mutation_invocation nr n p =
     (let arg = (\<lambda>i. ucast (sn_args n ! i) :: u32)
      in if nr = NR_TRUNCATE then Inr (Truncate (sint (sn_args n ! 1)))
         else if nr = NR_RENAME \<or> nr = NR_RENAMEAT then Inr (Rename 0)
         else if nr = NR_RENAMEAT2 then Inr (Rename (arg 4))
         else if nr = NR_MKDIR then Inr (Mkdir (arg 1))
         else if nr = NR_MKDIRAT then Inr (Mkdir (arg 2))
         else if nr = NR_RMDIR then Inr (Unlink AT_REMOVEDIR)
         else if nr = NR_UNLINK then Inr (Unlink 0)
         else if nr = NR_UNLINKAT then Inr (Unlink (arg 2))
         else if nr = NR_LINK then Inr (Link 0)
         else if nr = NR_LINKAT then Inr (Link (arg 4))
         else if nr = NR_SYMLINK \<or> nr = NR_SYMLINKAT then Inr (Symlink p)
         else if nr = NR_CHMOD then Inr (Chmod (arg 1))
         else if nr = NR_FCHMODAT then Inr (Chmod (arg 2))
         else if nr = NR_CHOWN then Inr (Chown (arg 1) (arg 2) 0)
         else if nr = NR_FCHOWNAT then Inr (Chown (arg 2) (arg 3) (arg 4))
         else Inl (MemIo (Some ENOSYS)))"

text \<open>The closure of \<open>handle_fs\<close> that gathers the paths, the access and the invocation.\<close>

definition open_how_invocation :: "nat \<Rightarrow> bytes \<Rightarrow> fs_access list \<times> fs_invocation" where
  "open_how_invocation sz bs =
     (let flags = le_word (take 8 bs) :: u64;
          mode = le_word (take 8 (drop 8 bs)) :: u64;
          resolve = le_word (take 8 (drop 16 bs)) :: u64;
          unsupported =
            (if ABSOLUTE_READ_CAP < sz \<or> list_ex (\<lambda>b. b \<noteq> 0) (drop OPEN_HOW_SIZE bs) then Some E2BIG
             else if resolve \<noteq> 0 then Some EOPNOTSUPP else None)
      in (open_flags_access flags,
          OpenInv flags (if unat mode < 2 ^ 32 then ucast mode else - 1) unsupported))"

definition gather_access ::
  "env \<Rightarrow> run_config \<Rightarrow> seccomp_notif \<Rightarrow> fs_shape_rec \<Rightarrow> path \<Rightarrow>
   (io_error mem_read_error, fs_access list \<times> fs_invocation) act" where
  "gather_access E c n sh p =
     (case fs_access_spec sh of
        Fixed as \<Rightarrow>
          bindE (liftE id (mutation_invocation (sn_nr n) n p)) (\<lambda>invo. retE (as, Mutation invo))
      | OpenFlags i \<Rightarrow>
          (let flags = sn_args n ! i
           in retE (open_flags_access flags, OpenInv flags (open_mode (sn_nr n) n) None))
      | OpenHow i \<Rightarrow>
          (let sz = unat (sn_args n ! 3)
           in if sz < OPEN_HOW_SIZE then failE (Short OPEN_HOW_SIZE sz)
              else bindE (k_read_bytes E (sn_pid n) (sn_args n ! i)
                     (if rc_mode c = Enforce then min sz ABSOLUTE_READ_CAP else OPEN_HOW_SIZE))
                   (\<lambda>bs. retE (open_how_invocation sz bs))))"

definition gather_fs ::
  "env \<Rightarrow> run_config \<Rightarrow> seccomp_notif \<Rightarrow> fs_shape_rec \<Rightarrow>
   (io_error mem_read_error, path \<times> path option \<times> fs_access list \<times> fs_invocation) act" where
  "gather_fs E c n sh =
     bindE (read_anchored E n (fs_path sh)) (\<lambda>p.
     bindE (case fs_dest sh of
              None \<Rightarrow> retE None
            | Some arg \<Rightarrow> bindE (read_anchored E n arg) (\<lambda>d. retE (Some d))) (\<lambda>dest.
     bindE (gather_access E c n sh p) (\<lambda>(access, invo).
       retE (p, dest, access, invo))))"

section \<open>Filesystem calls in enforce mode\<close>

text \<open>(follow primary, primary may be missing, follow secondary, secondary may be missing)\<close>

fun path_prepare_modes :: "fs_invocation \<Rightarrow> bool \<times> bool \<times> bool \<times> bool" where
  "path_prepare_modes (OpenInv flags _ _) =
     (flags AND O_NOFOLLOW = 0, flags AND O_CREAT \<noteq> 0, False, False)"
| "path_prepare_modes (Mutation (Truncate _)) = (True, False, False, False)"
| "path_prepare_modes (Mutation (Chmod _)) = (True, False, False, False)"
| "path_prepare_modes (Mutation (Chown _ _ flags)) = (flags = 0, False, False, False)"
| "path_prepare_modes (Mutation (Rename _)) = (False, False, False, True)"
| "path_prepare_modes (Mutation (Mkdir _)) = (False, True, False, False)"
| "path_prepare_modes (Mutation (Unlink _)) = (False, False, False, False)"
| "path_prepare_modes (Mutation (Link flags)) = (flags AND AT_SYMLINK_FOLLOW \<noteq> 0, False, False, True)"
| "path_prepare_modes (Mutation (Symlink _)) = (False, True, False, False)"

fun primary_access :: "fs_invocation \<Rightarrow> fs_access list \<Rightarrow> fs_access list" where
  "primary_access (OpenInv _ _ _) open_access = open_access"
| "primary_access (Mutation (Rename flags)) _ =
     (if flags AND 2 \<noteq> 0 then [AccDelete, AccCreate] else [AccDelete])"
| "primary_access (Mutation (Link _)) _ = [AccRead]"
| "primary_access (Mutation (Mkdir _)) _ = [AccCreate]"
| "primary_access (Mutation (Symlink _)) _ = [AccCreate]"
| "primary_access (Mutation (Unlink _)) _ = [AccDelete]"
| "primary_access (Mutation (Truncate _)) _ = [AccWrite]"
| "primary_access (Mutation (Chmod _)) _ = [AccWrite]"
| "primary_access (Mutation (Chown _ _ _)) _ = [AccWrite]"

fun secondary_access :: "fs_invocation \<Rightarrow> bool \<Rightarrow> fs_access list" where
  "secondary_access (Mutation (Rename flags)) destination_exists =
     (if flags AND 2 \<noteq> 0 then [AccDelete, AccCreate]
      else if destination_exists then [AccCreate, AccDelete] else [AccCreate])"
| "secondary_access (Mutation (Link _)) _ = [AccCreate]"
| "secondary_access _ _ = []"

text \<open>Evaluate each required access alone, threading the asks through.\<close>

fun evaluate_required_fs ::
  "run_config \<Rightarrow> path \<Rightarrow> fs_access list \<Rightarrow> pending_ask list \<Rightarrow>
   (fs_access \<times> evaluation) list \<times> pending_ask list" where
  "evaluate_required_fs c p [] asks = ([], asks)"
| "evaluate_required_fs c p (a # as) asks =
     (let (eval, asks1) = evaluate_tracked c (FsRequest (to_string_lossy p) [a]) asks;
          (evals, asks2) = evaluate_required_fs c p as asks1
      in ((a, eval) # evals, asks2))"

fun operand_loop ::
  "fs_operand \<Rightarrow> ask_resolution option \<Rightarrow> (fs_access \<times> evaluation) list \<Rightarrow>
   resolved_decision option \<Rightarrow> resolved_decision option \<Rightarrow> fs_operand_decision list \<Rightarrow>
   resolved_decision option \<times> resolved_decision option \<times> fs_operand_decision list" where
  "operand_loop opd r [] first_allow first_deny evidence = (first_allow, first_deny, evidence)"
| "operand_loop opd r ((a, eval) # evals) first_allow first_deny evidence =
     (let d = finalize_decision eval r
      in operand_loop opd r evals
           (if first_allow = None then Some d else first_allow)
           (if rd_response d \<noteq> Allow \<and> first_deny = None then Some d else first_deny)
           (evidence @ [\<lparr>od_operand = opd, od_access = a, od_decision = rd_event d,
              od_ask_resolution = rd_ask_resolution d, od_matched_rule = rd_matched_rule d\<rparr>]))"

definition finalize_operand ::
  "fs_operand \<Rightarrow> (fs_access \<times> evaluation) list \<Rightarrow> ask_resolution option \<Rightarrow> resolved_operand" where
  "finalize_operand opd evals r =
     (let (first_allow, first_deny, evidence) = operand_loop opd r evals None None []
      in \<lparr>ro_effective = (case first_deny of Some d \<Rightarrow> d
            | None \<Rightarrow> (case first_allow of Some d \<Rightarrow> d
              | None \<Rightarrow> fixed_decision Deny rule_REALIZATION)),
          ro_evidence = evidence\<rparr>)"

fun broker_mutation :: "mutation_invocation \<Rightarrow> mutation_operation" where
  "broker_mutation (Truncate l) = TruncateOp l"
| "broker_mutation (Rename f) = RenameOp f"
| "broker_mutation (Mkdir m) = MkdirOp m"
| "broker_mutation (Unlink f) = UnlinkOp f"
| "broker_mutation (Link f) = LinkOp f"
| "broker_mutation (Symlink s) = SymlinkOp s"
| "broker_mutation (Chmod m) = ChmodOp m"
| "broker_mutation (Chown u g f) = ChownOp u g f"

definition is_symlink :: "fs_invocation \<Rightarrow> bool" where
  "is_symlink invo = (case invo of Mutation (Symlink _) \<Rightarrow> True | _ \<Rightarrow> False)"

definition record_realization_deny ::
  "env \<Rightarrow> seccomp_notif \<Rightarrow> nat \<Rightarrow> string \<Rightarrow> path \<Rightarrow> path option \<Rightarrow> fs_access list \<Rightarrow> int \<Rightarrow>
   (run_error, handled) act" where
  "record_realization_deny E n ts name p dest access errno =
     bindE (record_event E ts n name (FsFact p access dest) (fixed_decision Deny rule_REALIZATION)) (\<lambda>_.
     bindE (answer_error E (sn_id n) errno) (\<lambda>_.
       retE Responded))"

text \<open>
  The two prepare calls. The continuation \<open>k\<close> gets the pinned operands; a refusal is recorded and
  answered with the broker's errno after the first operand has been released.
\<close>

definition prepare_operands ::
  "env \<Rightarrow> seccomp_notif \<Rightarrow> nat \<Rightarrow> fs_shape_rec \<Rightarrow> broker_client \<Rightarrow> path \<Rightarrow> path option \<Rightarrow>
   fs_access list \<Rightarrow> fs_invocation \<Rightarrow>
   (prepared_path \<Rightarrow> prepared_path option \<Rightarrow> (run_error, handled) act) \<Rightarrow> (run_error, handled) act" where
  "prepare_operands E n ts sh b lexical_path lexical_dest access invo k =
     (let (primary_follow, primary_missing, secondary_follow, secondary_missing) = path_prepare_modes invo
      in bindE (if is_symlink invo
                then (case lexical_dest of
                        None \<Rightarrow> failE (NotifyFailed (Some EINVAL))
                      | Some d \<Rightarrow> retE (d, None))
                else retE (lexical_path, lexical_dest)) (\<lambda>(primary_input, secondary_input).
         bindE (broker_call (prepare_path E b primary_input primary_follow primary_missing)) (\<lambda>r1.
         case r1 of
           ResultR (Errno e) \<Rightarrow>
             record_realization_deny E n ts (fs_name sh) lexical_path lexical_dest access e
         | ResultR _ \<Rightarrow> failE (NotifyFailed None)
         | PathR primary \<Rightarrow>
             (case secondary_input of
                None \<Rightarrow> k primary None
              | Some input \<Rightarrow>
                  bindE (broker_call (prepare_path E b input secondary_follow secondary_missing)) (\<lambda>r2.
                  case r2 of
                    PathR secondary \<Rightarrow> k primary (Some secondary)
                  | ResultR (Errno e) \<Rightarrow>
                      bindE (broker_call (release E primary)) (\<lambda>_.
                        record_realization_deny E n ts (fs_name sh) lexical_path lexical_dest access e)
                  | ResultR _ \<Rightarrow>
                      bindE (broker_call (release E primary)) (\<lambda>_. failE (NotifyFailed None)))))))"

definition release_all :: "env \<Rightarrow> prepared_path \<Rightarrow> prepared_path option \<Rightarrow> (run_error, unit) act" where
  "release_all E primary secondary =
     bindE (broker_call (release E primary)) (\<lambda>_.
       case secondary of None \<Rightarrow> retE () | Some s \<Rightarrow> broker_call (release E s))"

text \<open>The decision over the pinned operands: evidence per operand and the effective decision.\<close>

definition decide_operands ::
  "env \<Rightarrow> run_config \<Rightarrow> fs_access list \<Rightarrow> fs_invocation \<Rightarrow> prepared_path \<Rightarrow> prepared_path option \<Rightarrow>
   (run_error, resolved_decision \<times> fs_operand_decision list option) act" where
  "decide_operands E c access invo primary secondary =
     (let (evals1, asks1) = evaluate_required_fs c (pp_identity primary) (primary_access invo access) [];
          (evals2, asks2) = (case secondary of
             None \<Rightarrow> (None, asks1)
           | Some s \<Rightarrow>
               (let (ev, as) = evaluate_required_fs c (pp_identity s) (secondary_access invo (pp_exists s)) asks1
                in (Some ev, as)))
      in bindE (settle_asks E c asks2) (\<lambda>r.
         let d1 = finalize_operand (if is_symlink invo then DestOperand else PathOperand) evals1 r;
             d2 = map_option (\<lambda>ev. finalize_operand DestOperand ev r) evals2;
             ops = (if is_symlink invo then Some (ro_evidence d1)
                    else map_option (\<lambda>d. ro_evidence d1 @ ro_evidence d) d2);
             decision = (if rd_response (ro_effective d1) \<noteq> Allow then ro_effective d1
                         else case d2 of
                           Some d \<Rightarrow> if rd_response (ro_effective d) \<noteq> Allow then ro_effective d
                                     else ro_effective d1
                         | None \<Rightarrow> ro_effective d1)
         in retE (decision, ops)))"

definition commit_operands ::
  "env \<Rightarrow> fs_invocation \<Rightarrow> prepared_path \<Rightarrow> prepared_path option \<Rightarrow> (run_error, broker_result) act" where
  "commit_operands E invo primary secondary =
     (case invo of
        OpenInv flags m unsupported \<Rightarrow>
          (case unsupported of
             Some e \<Rightarrow> bindE (broker_call (release E primary)) (\<lambda>_. retE (Errno e))
           | None \<Rightarrow> broker_call (commit_open E primary flags m))
      | Mutation op \<Rightarrow> broker_call (commit_mutation E primary secondary (broker_mutation op)))"

definition close_on_exec :: "fs_invocation \<Rightarrow> u32" where
  "close_on_exec invo = (case invo of
     OpenInv flags _ _ \<Rightarrow> if flags AND O_CLOEXEC \<noteq> 0 then ucast O_CLOEXEC else 0
   | Mutation _ \<Rightarrow> 0)"

definition handle_fs_enforce ::
  "env \<Rightarrow> seccomp_notif \<Rightarrow> run_config \<Rightarrow> nat \<Rightarrow> fs_shape_rec \<Rightarrow> path \<Rightarrow> path option \<Rightarrow>
   fs_access list \<Rightarrow> fs_invocation \<Rightarrow> (run_error, handled) act" where
  "handle_fs_enforce E n c ts sh lexical_path lexical_dest access invo =
     (case rc_broker c of
        None \<Rightarrow> failE MissingBroker
      | Some b \<Rightarrow>
          prepare_operands E n ts sh b lexical_path lexical_dest access invo (\<lambda>primary secondary.
            bindE (decide_operands E c access invo primary secondary) (\<lambda>(d, ops).
            bindE (record_with_operands E ts n (fs_name sh)
                     (if is_symlink invo then FsFact lexical_path access (Some (pp_identity primary))
                      else FsFact (pp_identity primary) access (map_option pp_identity secondary))
                     d ops) (\<lambda>_.
            if rd_response d \<noteq> Allow then
              bindE (release_all E primary secondary) (\<lambda>_.
              bindE (answer_error E (sn_id n) EACCES) (\<lambda>_.
                retE Responded))
            else
              bindE (still_valid E (sn_id n)) (\<lambda>alive.
              if \<not> alive then bindE (release_all E primary secondary) (\<lambda>_. retE Dropped)
              else
                bindE (commit_operands E invo primary secondary) (\<lambda>res.
                bindE (respond_broker_result E (sn_id n) res (close_on_exec invo)) (\<lambda>_.
                  retE Responded)))))))"

section \<open>The handlers\<close>

text \<open>A fact that could not be trusted is recorded as a raw deny and refused (case C).\<close>

definition deny_unreadable :: "env \<Rightarrow> seccomp_notif \<Rightarrow> nat \<Rightarrow> string \<Rightarrow> (run_error, handled) act" where
  "deny_unreadable E n ts name =
     bindE (record_event E ts n name RawFact (fixed_decision Deny rule_MEMORY_READ)) (\<lambda>_.
     bindE (answer_error E (sn_id n) EACCES) (\<lambda>_.
       retE Responded))"

definition handle_fs ::
  "env \<Rightarrow> seccomp_notif \<Rightarrow> run_config \<Rightarrow> nat \<Rightarrow> fs_shape_rec \<Rightarrow> (run_error, handled) act" where
  "handle_fs E n c ts sh =
     bindE (still_valid E (sn_id n)) (\<lambda>alive.
     if \<not> alive then retE Dropped else
     bindE (tryE (gather_fs E c n sh)) (\<lambda>gathered.
     bindE (still_valid E (sn_id n)) (\<lambda>alive.
     if \<not> alive then retE Dropped else
     case gathered of
       Inr (p, dest, access, invo) \<Rightarrow>
         if rc_mode c = Enforce then handle_fs_enforce E n c ts sh p dest access invo
         else
           bindE (resolve_decision E c (FsRequest (to_string_lossy p) access)) (\<lambda>d.
           bindE (record_event E ts n (fs_name sh) (FsFact p access dest) d) (\<lambda>_.
           bindE (respond_continue_or_deny E (sn_id n) d) (\<lambda>_.
             retE Responded)))
     | Inl _ \<Rightarrow> deny_unreadable E n ts (fs_name sh))))"

definition handle_exec ::
  "env \<Rightarrow> seccomp_notif \<Rightarrow> run_config \<Rightarrow> nat \<Rightarrow> (run_error, handled) act" where
  "handle_exec E n c ts =
     (let (name, arg) = (if sn_nr n = NR_EXECVE
            then (''execve'', \<lparr>pa_path_arg = 0, pa_dirfd_arg = None, pa_anchor = True\<rparr>)
            else (''execveat'', \<lparr>pa_path_arg = 1, pa_dirfd_arg = Some 0, pa_anchor = True\<rparr>))
      in bindE (still_valid E (sn_id n)) (\<lambda>alive.
         if \<not> alive then retE Dropped else
         bindE (tryE (read_anchored E n arg)) (\<lambda>gathered.
         bindE (still_valid E (sn_id n)) (\<lambda>alive.
         if \<not> alive then retE Dropped else
         case gathered of
           Inr binary \<Rightarrow>
             bindE (resolve_decision E c (ExecRequest (to_string_lossy binary))) (\<lambda>d.
             bindE (record_event E ts n name (ExecFact binary) d) (\<lambda>_.
             bindE (respond_continue_or_deny E (sn_id n) d) (\<lambda>_.
               retE Responded)))
         | Inl _ \<Rightarrow> deny_unreadable E n ts name))))"


definition named :: "u32 \<Rightarrow> string" where
  "named nr = (case syscall_name nr of Some s \<Rightarrow> s | None \<Rightarrow> ''unknown'')"

text \<open>The flags of a process creation: \<open>Inl\<close> a finished handling, \<open>Inr\<close> the flags to record.\<close>

definition process_flags ::
  "env \<Rightarrow> seccomp_notif \<Rightarrow> nat \<Rightarrow> string \<Rightarrow> (run_error, handled + u64 option) act" where
  "process_flags E n ts name =
     (if sn_nr n = NR_CLONE then retE (Inr (Some (sn_args n ! 0)))
      else if sn_nr n = NR_CLONE3 then
        (let sz = sn_args n ! 1
         in if \<not> (CLONE_ARGS_MIN_SIZE \<le> sz \<and> sz \<le> CLONE_ARGS_MAX_SIZE)
            then bindE (deny_unreadable E n ts name) (\<lambda>h. retE (Inl h))
            else
              bindE (still_valid E (sn_id n)) (\<lambda>alive.
              if \<not> alive then retE (Inl Dropped) else
              bindE (tryE (k_read_u64 E (sn_pid n) (sn_args n ! 0))) (\<lambda>r.
              bindE (still_valid E (sn_id n)) (\<lambda>alive.
              if \<not> alive then retE (Inl Dropped) else
              case r of
                Inr flags \<Rightarrow> retE (Inr (Some flags))
              | Inl _ \<Rightarrow> bindE (deny_unreadable E n ts name) (\<lambda>h. retE (Inl h))))))
      else retE (Inr None))"

definition handle_process :: "env \<Rightarrow> seccomp_notif \<Rightarrow> run_config \<Rightarrow> nat \<Rightarrow> (run_error, handled) act" where
  "handle_process E n c ts =
     (let name = named (sn_nr n)
      in bindE (process_flags E n ts name) (\<lambda>r.
         case r of
           Inl h \<Rightarrow> retE h
         | Inr flags \<Rightarrow>
             bindE (record_event E ts n name (ProcessFact flags)
               (fixed_decision Allow
                  (if rc_mode c = RecordOnly then rule_RECORD_ONLY else rule_PROCESS_CREATION))) (\<lambda>_.
             bindE (answer_continue E (sn_id n)) (\<lambda>_.
               retE Responded))))"

definition target_pid :: "seccomp_notif \<Rightarrow> u32" where
  "target_pid n =
     (if sn_nr n = NR_PTRACE then ucast (sn_args n ! 1)
      else if sn_nr n = NR_PROCESS_VM_READV \<or> sn_nr n = NR_PROCESS_VM_WRITEV then ucast (sn_args n ! 0)
      else 0)"

definition target_in_tree :: "env \<Rightarrow> seccomp_notif \<Rightarrow> run_config \<Rightarrow> (run_error, bool) act" where
  "target_in_tree E n c =
     (if target_pid n = 0 \<or> target_pid n = sn_pid n then retE True
      else bindE (tryE (process_in_tree E (rc_root_pid c) (target_pid n))) (\<lambda>r.
             retE (case r of Inr b \<Rightarrow> b | Inl _ \<Rightarrow> False)))"

definition handle_cross_process ::
  "env \<Rightarrow> seccomp_notif \<Rightarrow> run_config \<Rightarrow> nat \<Rightarrow> (run_error, handled) act" where
  "handle_cross_process E n c ts =
     bindE (target_in_tree E n c) (\<lambda>in_tree.
       let d = (if rc_mode c = RecordOnly then fixed_decision Allow rule_RECORD_ONLY
                else if in_tree then fixed_decision Allow rule_PROCESS_TREE
                else fixed_decision Deny rule_PROCESS_TREE_DENY)
       in bindE (record_event E ts n (named (sn_nr n)) (CrossProcessFact (target_pid n)) d) (\<lambda>_.
          bindE (respond_continue_or_deny E (sn_id n) d) (\<lambda>_.
            retE Responded)))"

definition record_network_read_failure ::
  "env \<Rightarrow> seccomp_notif \<Rightarrow> run_config \<Rightarrow> nat \<Rightarrow> string \<Rightarrow> (run_error, handled) act" where
  "record_network_read_failure E n c ts name =
     (let d = (if rc_mode c = RecordOnly then fixed_decision Allow rule_RECORD_ONLY
               else fixed_decision Deny rule_MEMORY_READ)
      in bindE (record_event E ts n name RawFact d) (\<lambda>_.
         bindE (respond_continue_or_deny E (sn_id n) d) (\<lambda>_.
           retE Responded)))"

definition parse_sockaddr :: "bytes \<Rightarrow> io_error mem_read_error + ipaddr \<times> u16" where
  "parse_sockaddr bs =
     (if length bs < 2 then Inl (Short 2 (length bs))
      else
        let family = le_word (take 2 bs) :: u16;
            port = be_word (take 2 (drop 2 bs)) :: u16
        in if family = AF_INET then
             (if length bs < 8 then Inl (Short 8 (length bs))
              else Inr (V4 (be_word (take 4 (drop 4 bs))), port))
           else if family = AF_INET6 then
             (if length bs < 28 then Inl (Short 28 (length bs))
              else
                let ip = be_word (take 16 (drop 8 bs)) :: u128
                in Inr (case to_ipv4_mapped ip of Some v4 \<Rightarrow> V4 v4 | None \<Rightarrow> V6 ip, port))
           else Inl (MemIo None))"

fun find_resolved :: "(string \<Rightarrow> ipaddr list option) \<Rightarrow> ipaddr \<Rightarrow> net_rule list \<Rightarrow> string option" where
  "find_resolved cache ip [] = None"
| "find_resolved cache ip (r # rs) =
     (case nr_host r of
        Exact host \<Rightarrow>
          (case cache host of
             Some addresses \<Rightarrow> if ip \<in> set addresses then Some host else find_resolved cache ip rs
           | None \<Rightarrow> find_resolved cache ip rs)
      | _ \<Rightarrow> find_resolved cache ip rs)"

definition resolved_hostname :: "run_config \<Rightarrow> ipaddr \<Rightarrow> string option" where
  "resolved_hostname c ip =
     (case (rc_policy c, rc_resolved_hosts c) of
        (Some p, Some cache) \<Rightarrow> find_resolved cache ip (p_net p)
      | _ \<Rightarrow> None)"

definition network_operation :: "u32 \<Rightarrow> network_operation" where
  "network_operation nr =
     (if nr = NR_CONNECT then ConnectOp else if nr = NR_BIND then BindOp else SendToOp)"

text \<open>The realization half, after an allow has been recorded in enforce mode.\<close>

definition realize_network ::
  "env \<Rightarrow> seccomp_notif \<Rightarrow> run_config \<Rightarrow> bytes \<Rightarrow> bytes \<Rightarrow> (run_error, handled) act" where
  "realize_network E n c sockaddr payload =
     bindE (still_valid E (sn_id n)) (\<lambda>alive.
     if \<not> alive then retE Dropped
     else if \<not> unat (sn_args n ! 0) < 2 ^ 31 then failE (NotifyFailed (Some EBADF))
     else
       bindE (tryE (duplicate_fd E (sn_pid n) (int (unat (sn_args n ! 0))))) (\<lambda>sock.
       case sock of
         Inl e \<Rightarrow>
           bindE (answer_error E (sn_id n) (case e of Some errno \<Rightarrow> errno | None \<Rightarrow> EBADF)) (\<lambda>_.
             retE Responded)
       | Inr socket \<Rightarrow>
           (case rc_broker c of
              None \<Rightarrow> failE MissingBroker
            | Some b \<Rightarrow>
                bindE (broker_call (network E (network_operation (sn_nr n)) socket sockaddr payload
                         (if sn_nr n = NR_SENDTO then ucast (sn_args n ! 3) else 0))) (\<lambda>res.
                bindE (respond_broker_result E (sn_id n) res 0) (\<lambda>_.
                  retE Responded)))))"

definition network_args :: "u32 \<Rightarrow> nat \<times> nat" where
  "network_args nr = (if nr = NR_CONNECT \<or> nr = NR_BIND then (1, 2) else (4, 5))"

text \<open>What follows the bracketed reads: decide, record, answer.\<close>

definition settle_network ::
  "env \<Rightarrow> seccomp_notif \<Rightarrow> run_config \<Rightarrow> nat \<Rightarrow> string \<Rightarrow> io_error mem_read_error + bytes \<Rightarrow>
   io_error mem_read_error + bytes \<Rightarrow> (run_error, handled) act" where
  "settle_network E n c ts name sockaddr payload =
     (case (sockaddr, payload) of
        (Inr sa, Inr pl) \<Rightarrow>
          (case parse_sockaddr sa of
             Inl _ \<Rightarrow> record_network_read_failure E n c ts name
           | Inr (ip, port) \<Rightarrow>
               bindE (resolve_decision E c (NetRequest ip (resolved_hostname c ip) port)) (\<lambda>d.
               bindE (record_event E ts n name (NetFact (show_ip ip) port) d) (\<lambda>_.
               if rc_mode c = RecordOnly then
                 bindE (respond_continue_or_deny E (sn_id n) d) (\<lambda>_. retE Responded)
               else if rd_response d \<noteq> Allow then
                 bindE (answer_error E (sn_id n) EACCES) (\<lambda>_. retE Responded)
               else realize_network E n c sa pl)))
      | _ \<Rightarrow> record_network_read_failure E n c ts name)"

definition read_payload ::
  "env \<Rightarrow> seccomp_notif \<Rightarrow> run_config \<Rightarrow> (run_error, io_error mem_read_error + bytes) act" where
  "read_payload E n c =
     (if sn_nr n = NR_SENDTO \<and> rc_mode c = Enforce
      then (if unat (sn_args n ! 2) \<le> NETWORK_PAYLOAD_CAP
            then tryE (k_read_bytes E (sn_pid n) (sn_args n ! 1) (unat (sn_args n ! 2)))
            else retE (Inl (NoNulWithinCap NETWORK_PAYLOAD_CAP)))
      else retE (Inr []))"

definition handle_network :: "env \<Rightarrow> seccomp_notif \<Rightarrow> run_config \<Rightarrow> nat \<Rightarrow> (run_error, handled) act" where
  "handle_network E n c ts =
     (let name = named (sn_nr n); (addr_arg, len_arg) = network_args (sn_nr n)
      in if sn_nr n = NR_SENDTO \<and> sn_args n ! 4 = 0
         then bindE (answer_continue E (sn_id n)) (\<lambda>_. retE Responded)
         else
           let len = unat (sn_args n ! len_arg)
           in if \<not> len \<le> 128 then record_network_read_failure E n c ts name
              else
                bindE (still_valid E (sn_id n)) (\<lambda>alive.
                if \<not> alive then retE Dropped else
                bindE (tryE (k_read_bytes E (sn_pid n) (sn_args n ! addr_arg) len)) (\<lambda>sockaddr.
                bindE (read_payload E n c) (\<lambda>payload.
                bindE (still_valid E (sn_id n)) (\<lambda>alive.
                if \<not> alive then retE Dropped else
                settle_network E n c ts name sockaddr payload)))))"

section \<open>Dispatch\<close>

definition is_process_creation :: "u32 \<Rightarrow> bool" where
  "is_process_creation nr = (nr \<in> {NR_CLONE, NR_FORK, NR_VFORK, NR_CLONE3})"

definition is_network :: "u32 \<Rightarrow> bool" where
  "is_network nr = (nr \<in> {NR_CONNECT, NR_SENDTO, NR_BIND})"

definition is_cross_process :: "u32 \<Rightarrow> bool" where
  "is_cross_process nr = (nr \<in> {NR_PTRACE, NR_PROCESS_VM_READV, NR_PROCESS_VM_WRITEV})"

definition foreign_abi :: "seccomp_notif \<Rightarrow> bool" where
  "foreign_abi n = (sn_arch n \<noteq> AUDIT_ARCH_X86_64 \<or> sn_nr n AND X32_SYSCALL_BIT \<noteq> 0)"

definition deny_unsupported :: "env \<Rightarrow> seccomp_notif \<Rightarrow> nat \<Rightarrow> string \<Rightarrow> string \<Rightarrow> (run_error, handled) act" where
  "deny_unsupported E n ts name rule =
     bindE (record_event E ts n name RawFact (fixed_decision Deny rule)) (\<lambda>_.
     bindE (answer_error E (sn_id n) ENOSYS) (\<lambda>_.
       retE Responded))"

definition handle_notification ::
  "env \<Rightarrow> run_config \<Rightarrow> seccomp_notif \<Rightarrow> nat \<Rightarrow> (run_error, handled) act" where
  "handle_notification E c n ts =
     (if foreign_abi n then deny_unsupported E n ts ''foreign_abi'' rule_FOREIGN_ABI
      else if sn_nr n \<in> set DENIED_RECORDED then
        deny_unsupported E n ts (named (sn_nr n))
          (if sn_nr n = NR_PIDFD_GETFD then rule_PIDFD_GETFD else rule_IO_URING)
      else case fs_shape (sn_nr n) of
        Some sh \<Rightarrow> handle_fs E n c ts sh
      | None \<Rightarrow>
          if sn_nr n = NR_EXECVE \<or> sn_nr n = NR_EXECVEAT then handle_exec E n c ts
          else if is_process_creation (sn_nr n) then handle_process E n c ts
          else if is_network (sn_nr n) then handle_network E n c ts
          else if is_cross_process (sn_nr n) then handle_cross_process E n c ts
          else bindE (answer_continue E (sn_id n)) (\<lambda>_. retE Responded))"

section \<open>The loop\<close>

definition POLLIN :: u16 where [abi_defs]: "POLLIN = 0x1"
definition POLLERR :: u16 where [abi_defs]: "POLLERR = 0x8"
definition POLLHUP :: u16 where [abi_defs]: "POLLHUP = 0x10"
definition POLLNVAL :: u16 where [abi_defs]: "POLLNVAL = 0x20"

definition abort_run :: "env \<Rightarrow> ('e, unit) act" where
  "abort_run E =
     bindE (call (\<lambda>_. ()) (\<lambda>_. Kill)) (\<lambda>_.
     bindE (call (\<lambda>h. env_wait E h) Wait) (\<lambda>_. retE ()))"

text \<open>One turn: \<open>None\<close> to go on, \<open>Some\<close> to leave the loop.\<close>

definition loop_turn :: "env \<Rightarrow> run_config \<Rightarrow> (run_error, unit option) act" where
  "loop_turn E c =
     bindE (call (\<lambda>h. env_poll E h) Poll) (\<lambda>r.
     case r of
       Inl e \<Rightarrow>
         if e = Some EINTR then retE None
         else bindE (abort_run E) (\<lambda>_. failE (NotifyFailed e))
     | Inr revents \<Rightarrow>
         if revents AND POLLIN \<noteq> 0 then
           bindE (call (\<lambda>h. env_recv E h) Recv) (\<lambda>got.
           case got of
             Inl e \<Rightarrow>
               if e = Some EINTR \<or> e = Some ENOENT then retE None
               else bindE (abort_run E) (\<lambda>_. failE (NotifyFailed e))
           | Inr n \<Rightarrow>
               (\<lambda>w. bindE (tryE (handle_notification E c n (env_now_ms E (w_log w)))) (\<lambda>h.
                    case h of
                      Inr _ \<Rightarrow> retE None
                    | Inl e \<Rightarrow>
                        bindE (send_error E (sn_id n) EIO) (\<lambda>_.
                        bindE (abort_run E) (\<lambda>_. failE e))) w))
         else if revents AND (POLLHUP OR POLLERR OR POLLNVAL) \<noteq> 0 then retE (Some ())
         else retE None)"

text \<open>The loop itself, with fuel for the number of turns; \<open>None\<close> is still running.\<close>

fun serve :: "nat \<Rightarrow> env \<Rightarrow> run_config \<Rightarrow> world \<Rightarrow> ((run_error + unit) \<times> world) option" where
  "serve 0 E c w = None"
| "serve (Suc k) E c w =
     (case loop_turn E c w of
        (Inl e, w') \<Rightarrow> Some (Inl e, w')
      | (Inr (Some _), w') \<Rightarrow> Some (Inr (), w')
      | (Inr None, w') \<Rightarrow> serve k E c w')"

definition run_loop :: "nat \<Rightarrow> env \<Rightarrow> run_config \<Rightarrow> world \<Rightarrow> ((run_error + int) \<times> world) option" where
  "run_loop fuel E c w =
     (case validate_config c of
        Inl e \<Rightarrow> Some ((bindE (abort_run E) (\<lambda>_. failE e)) w)
      | Inr c' \<Rightarrow>
          (case serve fuel E c' w of
             None \<Rightarrow> None
           | Some (Inl e, w') \<Rightarrow> Some (Inl e, w')
           | Some (Inr _, w') \<Rightarrow>
               Some ((bindE (call (\<lambda>h. env_wait E h) Wait) (liftE NotifyFailed)) w')))"

end
