(* ===== verification/Notify_Spec.thy ===== *)
theory Notify_Spec imports Notify_Loop begin

text \<open>
  What the notify loop promises, as an automaton over the log of its actions, and the rules that
  show that an operation's log is accepted.

  The automaton of one notification (\<open>notify_step\<close>) says in which order the supervisor may touch
  the child, the operator, the trace, the broker and the pending call: facts are read only between
  two successful liveness checks, an event is appended only from checked facts, nothing is answered
  or performed before the append has succeeded, an effect needs a recorded allow and a fresh
  liveness check, the child gets the broker's answer and nothing else, every pinned operand is
  consumed before the answer, and there is one answer. \<open>run_step\<close> is the automaton of a whole run.
\<close>

section \<open>The automaton of one notification\<close>

datatype phase =
    Gathering
  | Recorded bool
  | AppendFailed
  | Performed "broker_response \<times> fd option"
  | Answered

text \<open>Phase; the id was valid at the last look; every child read is covered by a later valid look; pinned operands.\<close>

datatype notify_state = St phase bool bool "u64 list"

definition start_state :: notify_state where
  "start_state = St Gathering False True []"

definition event_allows :: "decision \<Rightarrow> ask_resolution option \<Rightarrow> bool" where
  "event_allows d r = (d = Allow \<or> d = Ask \<and> r = Some Approved)"

definition tabled :: "u32 \<Rightarrow> bool" where
  "tabled nr = (nr \<in> set DENIED_RECORDED \<or> fs_shape nr \<noteq> None \<or> nr \<in> {NR_EXECVE, NR_EXECVEAT} \<or>
     is_process_creation nr \<or> is_network nr \<or> is_cross_process nr)"

text \<open>The only calls that are continued without an event: a send on a connected socket, and numbers
  outside the tables, which the filter does not route here.\<close>

definition silent :: "seccomp_notif \<Rightarrow> bool" where
  "silent n = (\<not> foreign_abi n \<and>
     (\<not> tabled (sn_nr n) \<or> sn_nr n = NR_SENDTO \<and> sn_args n ! 4 = 0))"

fun consume :: "u64 list \<Rightarrow> u64 list \<Rightarrow> u64 list option" where
  "consume [] ts = Some ts"
| "consume (t # us) ts = (if t \<in> set ts then consume us (remove1 t ts) else None)"

definition is_continue :: "notif_resp \<Rightarrow> bool" where
  "is_continue r = (nresp_flags r = SECCOMP_USER_NOTIF_FLAG_CONTINUE \<and> nresp_error r = 0 \<and> nresp_val r = 0)"

definition is_error :: "notif_resp \<Rightarrow> bool" where
  "is_error r = (nresp_flags r = 0 \<and> nresp_error r < 0 \<and> nresp_val r = 0)"

definition is_success :: "notif_resp \<Rightarrow> int \<Rightarrow> bool" where
  "is_success r v = (nresp_flags r = 0 \<and> nresp_error r = 0 \<and> nresp_val r = v)"

text \<open>May this answer be given in this phase?\<close>

fun may_send :: "seccomp_notif \<Rightarrow> phase \<Rightarrow> notif_resp \<Rightarrow> bool" where
  "may_send n Gathering r = (silent n \<and> is_continue r)"
| "may_send n (Recorded allowed) r = (is_error r \<or> allowed \<and> is_continue r)"
| "may_send n (Performed (ResultValue v, None)) r = is_success r v"
| "may_send n (Performed (ErrnoValue e, None)) r = (is_error r \<and> nresp_error r = - \<bar>e\<bar>)"
| "may_send n _ r = False"

fun commit_tokens :: "broker_request \<Rightarrow> u64 list option" where
  "commit_tokens (CommitOpen t _ _) = Some [t]"
| "commit_tokens (CommitMutation t u _) = Some (t # (case u of None \<Rightarrow> [] | Some u \<Rightarrow> [u]))"
| "commit_tokens (Network _ _ _ _) = Some []"
| "commit_tokens _ = None"

fun ipc_step :: "notify_state \<Rightarrow> broker_request \<Rightarrow> broker_error + broker_response \<times> fd option \<Rightarrow>
    notify_state option" where
  "ipc_step (St p live clean ts) (PreparePath _ _ _ _) res =
     (if p = Gathering \<and> live \<and> clean
      then Some (St p live clean (case res of Inr (Prepared t _ _, None) \<Rightarrow> t # ts | _ \<Rightarrow> ts))
      else None)"
| "ipc_step (St p live clean ts) (Release t) res = map_option (St p live clean) (consume [t] ts)"
| "ipc_step (St p live clean ts) req res =
     (case commit_tokens req of
        None \<Rightarrow> None
      | Some us \<Rightarrow>
          if p = Recorded True \<and> live
          then map_option (St (case res of Inr a \<Rightarrow> Performed a | Inl _ \<Rightarrow> p) False clean) (consume us ts)
          else None)"

fun notify_step :: "seccomp_notif \<Rightarrow> notify_state \<Rightarrow> action \<Rightarrow> notify_state option" where
  "notify_step n (St p live clean ts) (IdValid i r) =
     (if i = sn_id n \<and> p \<noteq> Answered then Some (St p (r = Inr ()) (clean \<or> r = Inr ()) ts) else None)"
| "notify_step n (St p live clean ts) (OpenMem pid _) =
     (if p = Gathering \<and> live \<and> pid = sn_pid n then Some (St p live False ts) else None)"
| "notify_step n (St p live clean ts) (Pread pid _ _ _) =
     (if p = Gathering \<and> live \<and> pid = sn_pid n then Some (St p live False ts) else None)"
| "notify_step n (St p live clean ts) (ReadLink pid _ _) =
     (if p = Gathering \<and> live \<and> pid = sn_pid n then Some (St p live False ts) else None)"
| "notify_step n (St p live clean ts) (ReadStatus _ _) =
     (if p = Gathering \<or> p = Recorded True \<and> live then Some (St p live clean ts) else None)"
| "notify_step n (St p live clean ts) (Prompt asks _ _) =
     (if p = Gathering \<and> clean \<and> asks \<noteq> [] then Some (St p live clean ts) else None)"
| "notify_step n (St p live clean ts) (Append _ (SyscallBody ev) r) =
     (if p = Gathering \<and> clean \<and> ev_pid ev = sn_pid n
      then Some (St (case r of Inr _ \<Rightarrow> Recorded (event_allows (ev_decision ev) (ev_ask_resolution ev))
                     | Inl _ \<Rightarrow> AppendFailed) False clean ts)
      else None)"
| "notify_step n q (Ipc req _ r) = ipc_step q req r"
| "notify_step n (St p live clean ts) (PidfdOpen _ _) =
     (if p = Recorded True \<and> live then Some (St p live clean ts) else None)"
| "notify_step n (St p live clean ts) (PidfdGetfd _ _ _) =
     (if p = Recorded True \<and> live then Some (St p live clean ts) else None)"
| "notify_step n q (CloseFd _) = Some q"
| "notify_step n (St p live clean ts) (Send r _) =
     (if nresp_id r = sn_id n \<and> ts = [] \<and> may_send n p r then Some (St Answered False clean []) else None)"
| "notify_step n (St p live clean ts) (AddFd i f flags _ _) =
     (if i = sn_id n \<and> ts = [] \<and> flags = SECCOMP_ADDFD_FLAG_SEND \<and> (\<exists>v. p = Performed (ResultValue v, Some f))
      then Some (St Answered False clean []) else None)"
| "notify_step n _ _ = None"

text \<open>A handling that returned is answered, or the child was seen dead; no operand is left pinned.\<close>

fun finished :: "notify_state \<Rightarrow> handled \<Rightarrow> bool" where
  "finished (St p live clean ts) Responded = (p = Answered \<and> ts = [])"
| "finished (St p live clean ts) Dropped = ((p = Gathering \<or> p = Recorded True) \<and> \<not> live \<and> ts = [])"

section \<open>The automaton of a run\<close>

datatype run_state = Idle | Handling seccomp_notif notify_state | Failing | Killed | Reaped

definition after_poll :: "io_error + u16 \<Rightarrow> run_state" where
  "after_poll r = (case r of Inl e \<Rightarrow> if e = Some EINTR then Idle else Failing | Inr _ \<Rightarrow> Idle)"

text \<open>A handler that failed is followed by the fail-safe answer, which is outside the automaton of
  the notification, and the run ends.\<close>

definition failsafe_answer :: "seccomp_notif \<Rightarrow> action \<Rightarrow> bool" where
  "failsafe_answer n a = (case a of
     Send r _ \<Rightarrow> nresp_id r = sn_id n \<and> is_error r \<and> nresp_error r = - EIO | _ \<Rightarrow> False)"

fun handling_step :: "seccomp_notif \<Rightarrow> notify_state \<Rightarrow> action \<Rightarrow> run_state option" where
  "handling_step n q (Poll r) =
     (if finished q Responded \<or> finished q Dropped then Some (after_poll r) else None)"
| "handling_step n q (Wait _) =
     (if finished q Responded \<or> finished q Dropped then Some Reaped else None)"
| "handling_step n q Kill = (if finished q Responded then Some Killed else None)"
| "handling_step n q a =
     (case notify_step n q a of
        Some q' \<Rightarrow> Some (Handling n q')
      | None \<Rightarrow> if failsafe_answer n a then Some Failing else None)"

fun run_step :: "run_state \<Rightarrow> action \<Rightarrow> run_state option" where
  "run_step Idle (Poll r) = Some (after_poll r)"
| "run_step Idle (Recv r) =
     Some (case r of
        Inl e \<Rightarrow> if e = Some EINTR \<or> e = Some ENOENT then Idle else Failing
      | Inr n \<Rightarrow> Handling n start_state)"
| "run_step Idle (Wait _) = Some Reaped"
| "run_step Idle Kill = Some Killed"
| "run_step (Handling n q) a = handling_step n q a"
| "run_step Failing Kill = Some Killed"
| "run_step Killed (Wait _) = Some Reaped"
| "run_step _ _ = None"

text \<open>Acceptance of a log.\<close>

fun steps :: "('q \<Rightarrow> action \<Rightarrow> 'q option) \<Rightarrow> action list \<Rightarrow> 'q \<Rightarrow> 'q option" where
  "steps \<delta> [] q = Some q"
| "steps \<delta> (a # as) q = (case \<delta> q a of None \<Rightarrow> None | Some q' \<Rightarrow> steps \<delta> as q')"

lemma steps_append:
  "steps \<delta> (as @ bs) q = (case steps \<delta> as q of None \<Rightarrow> None | Some q' \<Rightarrow> steps \<delta> bs q')"
  by (induction as arbitrary: q) (auto split: option.splits)

end
