(* ===== verification/Notify_Logic.thy ===== *)
theory Notify_Logic imports Notify_Spec begin

text \<open>
  Weakest preconditions over an automaton on the log: \<open>wp \<delta> m Q q\<close> says that from automaton state
  \<open>q\<close>, whatever the world and whatever the environment answers, the actions \<open>m\<close> logs are accepted by
  \<open>\<delta>\<close> and \<open>m\<close>'s outcome and the reached state satisfy \<open>Q\<close>. One rule per combinator and per kernel
  operation; the reads of child memory and of process status are proved once, as locales, for
  every state of every automaton in which reading changes nothing.
\<close>

named_theorems wp_rules \<open>weakest precondition rules of combinators and operations\<close>

definition wp :: "('q \<Rightarrow> action \<Rightarrow> 'q option) \<Rightarrow> ('e, 'a) act \<Rightarrow> ('e + 'a \<Rightarrow> 'q \<Rightarrow> bool) \<Rightarrow> 'q \<Rightarrow> bool" where
  "wp \<delta> m Q q = (\<forall>w r w'. m w = (r, w') \<longrightarrow>
     (\<exists>as q'. w_log w' = w_log w @ as \<and> steps \<delta> as q = Some q' \<and> Q r q'))"

lemma wpI:
  "(\<And>w r w'. m w = (r, w') \<Longrightarrow> \<exists>as q'. w_log w' = w_log w @ as \<and> steps \<delta> as q = Some q' \<and> Q r q') \<Longrightarrow>
   wp \<delta> m Q q"
  by (simp add: wp_def)

lemma wpD:
  "wp \<delta> m Q q \<Longrightarrow> m w = (r, w') \<Longrightarrow>
   \<exists>as q'. w_log w' = w_log w @ as \<and> steps \<delta> as q = Some q' \<and> Q r q'"
  by (simp add: wp_def)

section \<open>Combinators\<close>

lemma wp_mono: "wp \<delta> m R q \<Longrightarrow> (\<And>r q'. R r q' \<Longrightarrow> Q r q') \<Longrightarrow> wp \<delta> m Q q"
  unfolding wp_def by meson

lemma wp_retE [wp_rules]: "Q (Inr x) q \<Longrightarrow> wp \<delta> (retE x) Q q"
  by (auto simp: wp_def retE_def intro: exI [of _ "[]"])

lemma wp_failE [wp_rules]: "Q (Inl e) q \<Longrightarrow> wp \<delta> (failE e) Q q"
  by (auto simp: wp_def failE_def intro: exI [of _ "[]"])

definition bind_post ::
  "('q \<Rightarrow> action \<Rightarrow> 'q option) \<Rightarrow> ('a \<Rightarrow> ('e, 'b) act) \<Rightarrow> ('e + 'b \<Rightarrow> 'q \<Rightarrow> bool) \<Rightarrow> 'e + 'a \<Rightarrow> 'q \<Rightarrow> bool" where
  "bind_post \<delta> f Q r q = (case r of Inl e \<Rightarrow> Q (Inl e) q | Inr x \<Rightarrow> wp \<delta> (f x) Q q)"

lemma bind_post_simps [simp]:
  "bind_post \<delta> f Q (Inl e) q = Q (Inl e) q"
  "bind_post \<delta> f Q (Inr x) q = wp \<delta> (f x) Q q"
  by (simp_all add: bind_post_def)

lemma bind_postI [wp_rules]:
  "(\<And>x. r = Inr x \<Longrightarrow> wp \<delta> (f x) Q q) \<Longrightarrow> (\<And>e. r = Inl e \<Longrightarrow> Q (Inl e) q) \<Longrightarrow>
   bind_post \<delta> f Q r q"
  by (cases r) simp_all

lemma wp_bindE [wp_rules]: "wp \<delta> m (bind_post \<delta> f Q) q \<Longrightarrow> wp \<delta> (bindE m f) Q q"
proof (rule wpI)
  fix w r w'
  assume m: "wp \<delta> m (bind_post \<delta> f Q) q" and run: "bindE m f w = (r, w')"
  obtain r1 w1 where r1: "m w = (r1, w1)" by (cases "m w")
  obtain as q1 where as: "w_log w1 = w_log w @ as" "steps \<delta> as q = Some q1" "bind_post \<delta> f Q r1 q1"
    using wpD [OF m r1] by blast
  show "\<exists>as q'. w_log w' = w_log w @ as \<and> steps \<delta> as q = Some q' \<and> Q r q'"
  proof (cases r1)
    case (Inl e)
    with run r1 as show ?thesis by (auto simp: bindE_def)
  next
    case (Inr x)
    with run r1 as have "wp \<delta> (f x) Q q1" "f x w1 = (r, w')" by (simp_all add: bindE_def)
    from wpD [OF this] obtain bs q' where
      "w_log w' = w_log w1 @ bs" "steps \<delta> bs q1 = Some q'" "Q r q'" by blast
    with as show ?thesis by (intro exI [of _ "as @ bs"]) (simp add: steps_append)
  qed
qed

lemma wp_tryE [wp_rules]: "wp \<delta> m (\<lambda>r. Q (Inr r)) q \<Longrightarrow> wp \<delta> (tryE m) Q q"
  unfolding wp_def tryE_def by (auto split: prod.splits)

lemma wp_liftE [wp_rules]:
  "(\<And>x. r = Inr x \<Longrightarrow> Q (Inr x) q) \<Longrightarrow> (\<And>e. r = Inl e \<Longrightarrow> Q (Inl (g e)) q) \<Longrightarrow>
   wp \<delta> (liftE g r) Q q"
  by (auto simp: liftE_def split: sum.splits intro: wp_retE wp_failE)

lemma wp_call [wp_rules]:
  fixes Q :: "'e + 'a \<Rightarrow> 'q \<Rightarrow> bool"
  shows "(\<And>h. \<exists>q'. \<delta> q (mk (answer h)) = Some q' \<and> Q (Inr (answer h)) q') \<Longrightarrow> wp \<delta> (call answer mk) Q q"
proof (rule wpI)
  fix w w' and r :: "'e + 'a"
  assume step: "\<And>h. \<exists>q'. \<delta> q (mk (answer h)) = Some q' \<and> Q (Inr (answer h)) q'"
    and run: "call answer mk w = (r, w')"
  from step [of "w_log w"] obtain q' where
    "\<delta> q (mk (answer (w_log w))) = Some q'" "Q (Inr (answer (w_log w))) q'" by blast
  with run show "\<exists>as q'. w_log w' = w_log w @ as \<and> steps \<delta> as q = Some q' \<and> Q r q'"
    by (intro exI [of _ "[mk (answer (w_log w))]"] exI [of _ q'])
      (auto simp: call_def log_action_def Let_def)
qed

lemma wp_if [wp_rules]:
  "(b \<Longrightarrow> wp \<delta> m Q q) \<Longrightarrow> (\<not> b \<Longrightarrow> wp \<delta> m' Q q) \<Longrightarrow> wp \<delta> (if b then m else m') Q q"
  by simp

lemma wp_case_sum [wp_rules]:
  "(\<And>e. r = Inl e \<Longrightarrow> wp \<delta> (f e) Q q) \<Longrightarrow> (\<And>x. r = Inr x \<Longrightarrow> wp \<delta> (g x) Q q) \<Longrightarrow>
   wp \<delta> (case r of Inl e \<Rightarrow> f e | Inr x \<Rightarrow> g x) Q q"
  by (cases r) simp_all

lemma wp_case_option [wp_rules]:
  "(x = None \<Longrightarrow> wp \<delta> m Q q) \<Longrightarrow> (\<And>y. x = Some y \<Longrightarrow> wp \<delta> (g y) Q q) \<Longrightarrow>
   wp \<delta> (case x of None \<Rightarrow> m | Some y \<Rightarrow> g y) Q q"
  by (cases x) simp_all

lemma wp_case_prod [wp_rules]:
  "(\<And>a b. x = (a, b) \<Longrightarrow> wp \<delta> (f a b) Q q) \<Longrightarrow> wp \<delta> (case x of (a, b) \<Rightarrow> f a b) Q q"
  by (cases x) simp

text \<open>A step that only changes the trace's next sequence number.\<close>

lemma wp_no_log [wp_rules]:
  "(\<And>w. w_log (g w) = w_log w) \<Longrightarrow> Q (Inr x) q \<Longrightarrow> wp \<delta> (\<lambda>w. (Inr x, g w)) Q q"
  by (auto simp: wp_def intro: exI [of _ "[]"])

section \<open>Reads of child memory\<close>

text \<open>The interface: in state \<open>q\<close>, opening the memory of \<open>pid\<close>, reading it, and resolving its
  directory anchors move the automaton to \<open>q'\<close>, where they may go on.\<close>

locale child_reads =
  fixes delta :: "'q \<Rightarrow> action \<Rightarrow> 'q option" and q q' :: 'q and pid :: u32
  assumes open_first: "delta q (OpenMem pid r) = Some q'"
    and open_more: "delta q' (OpenMem pid r) = Some q'"
    and pread_more: "delta q' (Pread pid pos len bs) = Some q'"
    and link_more: "delta q' (ReadLink pid anchor p) = Some q'"
begin

definition quiet :: "world \<Rightarrow> world \<Rightarrow> bool" where
  "quiet w w' = (\<exists>as. w_log w' = w_log w @ as \<and> steps delta as q' = Some q')"

lemma quiet_refl: "quiet w w"
  by (auto simp: quiet_def intro: exI [of _ "[]"])

lemma quiet_trans: "quiet w1 w2 \<Longrightarrow> quiet w2 w3 \<Longrightarrow> quiet w1 w3"
  unfolding quiet_def by (metis append_assoc steps_append option.simps(5))

lemma quiet_reader: "child_reader E pid w pos len = (r, w') \<Longrightarrow> quiet w w'"
  unfolding quiet_def
  by (rule exI [of _ "[Pread pid pos len r]"])
    (auto simp: child_reader_def log_action_def Let_def pread_more)

lemma quiet_fill: "fill (child_reader E pid) pos want buf w = (r, w') \<Longrightarrow> quiet w w'"
proof (induction "child_reader E pid" pos want buf w arbitrary: r w' rule: fill.induct)
  case (1 pos want buf w)
  obtain res w1 where r1: "child_reader E pid w (pos + of_nat (length buf)) (want - length buf) = (res, w1)"
    by (metis surj_pair)
  note q1 = quiet_reader [OF r1]
  show ?case
  proof (cases "length buf < want")
    case True
    show ?thesis
    proof (cases res)
      case (Inl e)
      with 1(2) True r1 q1 show ?thesis by (simp add: fill.simps [of _ pos])
    next
      case (Inr bs)
      show ?thesis
      proof (cases "bs = []")
        case True
        with 1(2) \<open>length buf < want\<close> r1 q1 Inr show ?thesis by (simp add: fill.simps [of _ pos])
      next
        case False
        with 1(2) \<open>length buf < want\<close> r1 Inr
        have "fill (child_reader E pid) pos want (buf @ take (want - length buf) bs) w1 = (r, w')"
          by (simp add: fill.simps [of _ pos want buf])
        with 1(1) [OF \<open>length buf < want\<close> r1 [symmetric] Inr False] q1 show ?thesis
          by (blast intro: quiet_trans)
      qed
    qed
  next
    case False
    with 1(2) show ?thesis by (simp add: fill.simps [of _ pos] quiet_refl)
  qed
qed

lemma quiet_cstr: "cstr_loop (child_reader E pid) addr cap out w = (r, w') \<Longrightarrow> quiet w w'"
proof (induction "child_reader E pid" addr cap out w arbitrary: r w' rule: cstr_loop.induct)
  case (1 addr cap out w)
  let ?pos = "addr + of_nat (length out)"
  let ?want = "want_at ?pos (cap - length out)"
  obtain err buf w1 where f: "fill (child_reader E pid) ?pos ?want [] w = ((err, buf), w1)"
    by (metis surj_pair)
  note q1 = quiet_fill [OF f]
  show ?case
  proof (cases "length out < cap \<and> nul_position buf = None \<and> err = None \<and> \<not> length buf < ?want")
    case True
    with 1(2) f have "cstr_loop (child_reader E pid) addr cap (out @ buf) w1 = (r, w')"
      by (simp add: cstr_loop.simps [of _ addr cap out] Let_def)
    with 1(1) [of ?pos ?want _ _ w1 err buf] True f q1 show ?thesis
      by (simp add: quiet_trans)
  next
    case False
    with 1(2) f q1 show ?thesis
      by (auto simp: cstr_loop.simps [of _ addr cap out] Let_def quiet_refl split: if_splits option.splits)
  qed
qed

lemma quiet_exact: "exact_loop (child_reader E pid) addr len buf w = (r, w') \<Longrightarrow> quiet w w'"
proof (induction "child_reader E pid" addr len buf w arbitrary: r w' rule: exact_loop.induct)
  case (1 addr len buf w)
  obtain res w1 where r1: "child_reader E pid w (addr + of_nat (length buf)) (len - length buf) = (res, w1)"
    by (metis surj_pair)
  note q1 = quiet_reader [OF r1]
  show ?case
  proof (cases "length buf < len \<and> (\<exists>bs. res = Inr bs \<and> bs \<noteq> [])")
    case True
    then obtain bs where bs: "res = Inr bs" "bs \<noteq> []" "length buf < len" by blast
    with 1(2) r1 have "exact_loop (child_reader E pid) addr len (buf @ take (len - length buf) bs) w1 = (r, w')"
      by (simp add: exact_loop.simps [of _ addr len buf])
    with 1(1) [OF bs(3) r1 [symmetric] bs(1,2)] q1 show ?thesis by (blast intro: quiet_trans)
  next
    case False
    with 1(2) r1 q1 show ?thesis
      by (auto simp: exact_loop.simps [of _ addr len buf] quiet_refl split: if_splits sum.splits)
  qed
qed

lemma wp_quiet:
  "(\<And>w r w'. m w = (r, w') \<Longrightarrow> quiet w w') \<Longrightarrow> (\<And>r. Q r q') \<Longrightarrow> wp delta m Q q'"
  unfolding wp_def quiet_def by blast

lemma wp_read_path: "(\<And>r. Q r q') \<Longrightarrow> wp delta (read_path (child_reader E pid) addr) Q q'"
  by (rule wp_quiet) (auto simp: read_path_def read_cstr_capped_def dest: quiet_cstr)

lemma wp_read_exact: "(\<And>r. Q r q') \<Longrightarrow> wp delta (read_exact (child_reader E pid) addr len) Q q'"
  by (rule wp_quiet) (auto simp: read_exact_def read_exact_capped_def dest: quiet_exact)

lemma wp_open_mem:
  assumes "s = q \<or> s = q'" and "\<And>r. Q r q'"
  shows "wp delta (open_mem E pid) Q s"
  unfolding open_mem_def using assms by (auto intro!: wp_rules simp: open_first open_more)

lemma wp_k_read_path: "s = q \<or> s = q' \<Longrightarrow> (\<And>r. Q r q') \<Longrightarrow> wp delta (k_read_path E pid addr) Q s"
  unfolding k_read_path_def
  by (rule wp_bindE, rule wp_open_mem) (auto simp: bind_post_def intro!: wp_read_path split: sum.split)

lemma wp_k_read_bytes: "s = q \<or> s = q' \<Longrightarrow> (\<And>r. Q r q') \<Longrightarrow> wp delta (k_read_bytes E pid addr len) Q s"
  unfolding k_read_bytes_def
  by (rule wp_bindE, rule wp_open_mem) (auto simp: bind_post_def intro!: wp_read_exact split: sum.split)

lemma wp_k_read_u64: "s = q \<or> s = q' \<Longrightarrow> (\<And>r. Q r q') \<Longrightarrow> wp delta (k_read_u64 E pid addr) Q s"
  unfolding k_read_u64_def
  by (rule wp_bindE, rule wp_open_mem)
    (auto simp: bind_post_def intro!: wp_bindE wp_retE wp_read_exact split: sum.split)

lemma wp_read_anchored:
  assumes "pid = sn_pid n" and "s = q \<or> s = q'" and "\<And>r. Q r q'"
  shows "wp delta (read_anchored E n arg) Q s"
  unfolding read_anchored_def dir_prefix_def assms(1) [symmetric]
  by (rule wp_bindE, rule wp_k_read_path [OF assms(2)])
    (auto simp: bind_post_def Let_def link_more assms(3) intro!: wp_rules split: sum.split)

lemma wp_gather_access:
  assumes "pid = sn_pid n" and "\<And>r. Q r q'"
  shows "wp delta (gather_access E c n sh p) Q q'"
  unfolding gather_access_def assms(1) [symmetric]
  by (cases "fs_access_spec sh")
    (auto simp: Let_def assms(2) intro!: wp_rules wp_k_read_bytes split: sum.split)

lemma wp_gather_fs:
  assumes "pid = sn_pid n" and "\<And>r. Q r q'"
  shows "wp delta (gather_fs E c n sh) Q q"
  unfolding gather_fs_def using assms
  by (auto simp: bind_post_def intro!: wp_bindE wp_retE wp_read_anchored wp_gather_access
      split: sum.split option.split)

end

section \<open>Reads of process status\<close>

text \<open>The interface: reading a process's status does not move the automaton from state \<open>q\<close>.\<close>

locale status_reads =
  fixes delta :: "'q \<Rightarrow> action \<Rightarrow> 'q option" and q :: 'q
  assumes status_stays: "delta q (ReadStatus pid r) = Some q"
begin

lemma wp_read_status: "(\<And>r. Q r q) \<Longrightarrow> wp delta (read_status E pid) Q q"
  unfolding read_status_def by (auto intro!: wp_rules simp: status_stays)

lemma wp_parent_pid: "(\<And>r. Q r q) \<Longrightarrow> wp delta (parent_pid E pid) Q q"
  unfolding parent_pid_def by (rule wp_bindE, rule wp_read_status) (auto simp: bind_post_def intro!: wp_rules split: sum.split)

lemma wp_process_tgid: "(\<And>r. Q r q) \<Longrightarrow> wp delta (process_tgid E pid) Q q"
  unfolding process_tgid_def by (rule wp_bindE, rule wp_read_status) (auto simp: bind_post_def intro!: wp_rules split: sum.split)

lemma wp_tree_walk: "(\<And>r. Q r q) \<Longrightarrow> wp delta (tree_walk E root k current) Q q"
proof (induction k arbitrary: current)
  case (Suc k)
  then show ?case
    by (auto intro!: wp_rules wp_parent_pid simp: bind_post_def split: sum.split)
qed (auto intro!: wp_rules)

lemma wp_process_in_tree: "(\<And>r. Q r q) \<Longrightarrow> wp delta (process_in_tree E root target) Q q"
  unfolding process_in_tree_def by (rule wp_tree_walk)

end

end
