(* ===== verification/Notify_Proofs.thy ===== *)
theory Notify_Proofs imports Notify_Logic begin

text \<open>
  Every handler of the notify loop keeps to the automaton of theory \<open>Notify_Spec\<close>: one rule per
  operation over the automaton's concrete states, then the handlers, the dispatcher and the loop.
  \<open>sane_errors\<close> is what the code relies on of the kernel and of the broker process: an error
  number is not zero (a zero would turn the refusal into a success of the call).
\<close>

definition sane_errors :: "env \<Rightarrow> bool" where
  "sane_errors E = ((\<forall>h req p e f. env_ipc E h req p = Inr (ErrnoValue e, f) \<longrightarrow> e \<noteq> 0) \<and>
     (\<forall>h pid. env_read_status E h pid \<noteq> Inl (Some 0)) \<and>
     (\<forall>h pid. env_pidfd_open E h pid \<noteq> Inl (Some 0)) \<and>
     (\<forall>h pidfd t. env_pidfd_getfd E h pidfd t \<noteq> Inl (Some 0)))"

lemma sane_ipc: "sane_errors E \<Longrightarrow> env_ipc E h req p = Inr (ErrnoValue e, f) \<Longrightarrow> e \<noteq> 0"
  unfolding sane_errors_def by blast

definition coherent :: "resolved_decision \<Rightarrow> bool" where
  "coherent d = (event_allows (rd_event d) (rd_ask_resolution d) = (rd_response d = Allow))"

lemma coherent_fixed [simp]: "d \<noteq> Ask \<Longrightarrow> coherent (fixed_decision d rule)"
  by (simp add: coherent_def fixed_decision_def event_allows_def)

lemma fixed_decision_response [simp]: "rd_response (fixed_decision d rule) = d"
  by (simp add: fixed_decision_def)

lemma coherent_finalize [simp]: "coherent (finalize_decision eval r)"
  by (auto simp: coherent_def finalize_decision_def event_allows_def Let_def split: option.splits)

section \<open>Interfaces\<close>

interpretation rd: child_reads "notify_step n" "St Gathering True True []" "St Gathering True False []" "sn_pid n" for n
  by unfold_locales simp_all

interpretation gathering: status_reads "notify_step n" "St Gathering lv cl ts" for n lv cl ts
  by unfold_locales simp_all

interpretation realizing: status_reads "notify_step n" "St (Recorded True) True cl ts" for n cl ts
  by unfold_locales simp_all

section \<open>Operations\<close>

lemma wp_still_valid [wp_rules]:
  assumes "nid = sn_id n" "p \<noteq> Answered" "Q (Inr True) (St p True True ts)"
    "Q (Inr False) (St p False cl ts)" "\<And>e. Q (Inl e) (St p False cl ts)"
  shows "wp (notify_step n) (still_valid E nid) Q (St p lv cl ts)"
  unfolding still_valid_def id_valid_def using assms
  by (auto intro!: wp_rules split: sum.splits if_splits)

lemma wp_record_operands [wp_rules]:
  assumes "coherent d" "Q (Inr ()) (St (Recorded (rd_response d = Allow)) False True ts)"
    "\<And>e. Q (Inl e) (St AppendFailed False True ts)"
  shows "wp (notify_step n) (record_with_operands E t n name f d ops) Q (St Gathering lv True ts)"
  unfolding record_with_operands_def Let_def using assms
  by (auto intro!: wp_rules simp: coherent_def split: sum.splits)

lemma wp_record [wp_rules]:
  assumes "coherent d" "Q (Inr ()) (St (Recorded (rd_response d = Allow)) False True ts)"
    "\<And>e. Q (Inl e) (St AppendFailed False True ts)"
  shows "wp (notify_step n) (record_event E t n name f d) Q (St Gathering lv True ts)"
  unfolding record_event_def using assms by (rule wp_record_operands)

lemma wp_tolerate_dead [wp_rules]:
  "Q (Inr ()) q \<Longrightarrow> (\<And>e. Q (Inl e) q) \<Longrightarrow> wp \<delta> (tolerate_dead r) Q q"
  unfolding tolerate_dead_def by (auto intro!: wp_rules split: sum.split)

lemma wp_send:
  assumes "nresp_id r = sn_id n" "may_send n p r" "\<And>x. Q (Inr x) (St Answered False cl [])"
  shows "wp (notify_step n) (send E r) Q (St p lv cl [])"
  unfolding send_def using assms by (auto intro!: wp_rules)

lemma wp_answer_continue [wp_rules]:
  assumes "nid = sn_id n" "p = Recorded True \<or> p = Gathering \<and> silent n"
    "\<And>x. Q x (St Answered False cl [])"
  shows "wp (notify_step n) (answer_continue E nid) Q (St p lv cl [])"
  unfolding answer_continue_def send_continue_def using assms
  by (auto intro!: wp_bindE wp_send wp_tolerate_dead simp: is_continue_def)

lemma wp_answer_error [wp_rules]:
  assumes "nid = sn_id n" "e \<noteq> 0" "(\<exists>b. p = Recorded b) \<or> p = Performed (ErrnoValue e, None)"
    "\<And>x. Q x (St Answered False cl [])"
  shows "wp (notify_step n) (answer_error E nid e) Q (St p lv cl [])"
  unfolding answer_error_def send_error_def using assms
  by (auto intro!: wp_bindE wp_send wp_tolerate_dead simp: is_error_def)

lemma wp_respond_continue_or_deny [wp_rules]:
  assumes "nid = sn_id n" "b = (rd_response d = Allow)" "\<And>x. Q x (St Answered False cl [])"
  shows "wp (notify_step n) (respond_continue_or_deny E nid d) Q (St (Recorded b) lv cl [])"
  unfolding respond_continue_or_deny_def using assms
  by (auto intro!: wp_rules simp: EACCES_def split: decision.split)

lemma wp_settle_asks [wp_rules]:
  assumes "\<And>r. Q (Inr r) (St Gathering lv True ts)"
  shows "wp (notify_step n) (settle_asks E c asks) Q (St Gathering lv True ts)"
  unfolding settle_asks_def using assms by (auto intro!: wp_rules split: attendance.split)

lemma wp_resolve_decision [wp_rules]:
  assumes "\<And>d. coherent d \<Longrightarrow> Q (Inr d) (St Gathering lv True ts)"
  shows "wp (notify_step n) (resolve_decision E c req) Q (St Gathering lv True ts)"
  unfolding resolve_decision_def using assms by (auto intro!: wp_rules split: prod.split)

lemma wp_broker_call [wp_rules]:
  "wp \<delta> m (\<lambda>r q. Q (case r of Inl e \<Rightarrow> Inl (BrokerFailed e) | Inr x \<Rightarrow> Inr x) q) q \<Longrightarrow>
   wp \<delta> (broker_call m) Q q"
  unfolding broker_call_def
  by (rule wp_bindE, rule wp_tryE, erule wp_mono) (auto intro!: wp_liftE split: sum.splits)

lemma wp_ipc:
  assumes "\<And>h. \<exists>q'. ipc_step q req (env_ipc E h req passed) = Some q' \<and> Q (env_ipc E h req passed) q'"
  shows "wp (notify_step n) (ipc E req passed) Q q"
  unfolding ipc_def
proof (rule wp_bindE, rule wp_call)
  fix h
  from assms [of h] obtain q' where q: "ipc_step q req (env_ipc E h req passed) = Some q'"
    "Q (env_ipc E h req passed) q'" by blast
  have "wp (notify_step n) (liftE id (env_ipc E h req passed)) Q q'"
    using q(2) by (intro wp_liftE) simp_all
  with q(1) show "\<exists>q'. notify_step n q (Ipc req passed (env_ipc E h req passed)) = Some q' \<and>
      bind_post (notify_step n) (liftE id) Q (Inr (env_ipc E h req passed)) q'"
    by simp
qed

lemma wp_prepare_path [wp_rules]:
  assumes sane: "sane_errors E"
    and path: "\<And>pp. Q (Inr (PathR pp)) (St Gathering True True (pp_token pp # ts))"
    and refused: "\<And>e. e \<noteq> 0 \<Longrightarrow> Q (Inr (ResultR (Errno e))) (St Gathering True True ts)"
    and failed: "\<And>e ts. Q (Inl e) (St Gathering True True ts)"
  shows "wp (notify_step n) (prepare_path E b p follow missing) Q (St Gathering True True ts)"
proof (cases "select_anchor b p")
  case None
  with refused show ?thesis unfolding prepare_path_def by (auto intro!: wp_rules simp: EACCES_def)
next
  case (Some a)
  obtain anchor relative where a: "a = (anchor, relative)" by (cases a)
  let ?req = "PreparePath anchor relative follow missing"
  show ?thesis
    unfolding prepare_path_def Some a option.case prod.case
  proof (rule wp_bindE, rule wp_ipc)
    fix h
    have nz: "env_ipc E h ?req None = Inr (ErrnoValue e, f) \<Longrightarrow> e \<noteq> 0" for e f
      by (rule sane_ipc [OF sane])
    show "\<exists>q'. ipc_step (St Gathering True True ts) ?req (env_ipc E h ?req None) = Some q' \<and>
      bind_post (notify_step n) (\<lambda>r. case r of
          (Prepared token identity ex, None) \<Rightarrow>
            retE (PathR \<lparr>pp_token = token, pp_identity = identity, pp_exists = ex\<rparr>)
        | (ErrnoValue e, None) \<Rightarrow> retE (ResultR (Errno e))
        | _ \<Rightarrow> failE BrokerProtocol) Q (env_ipc E h ?req None) q'"
      using nz path [of "\<lparr>pp_token = _, pp_identity = _, pp_exists = _\<rparr>"] refused failed
      by (auto intro!: wp_rules split: sum.splits prod.splits broker_response.splits option.splits)
  qed
qed

lemma wp_release [wp_rules]:
  assumes "pp_token pp \<in> set ts"
    and "Q (Inr ()) (St p lv cl (remove1 (pp_token pp) ts))"
    and "\<And>e. Q (Inl e) (St p lv cl (remove1 (pp_token pp) ts))"
  shows "wp (notify_step n) (release E pp) Q (St p lv cl ts)"
  unfolding release_def using assms
  by (auto intro!: wp_bindE wp_ipc wp_failE wp_retE simp: bind_post_def
      split: sum.splits prod.splits broker_response.splits option.splits)

text \<open>What the handler is told by the broker is the answer the automaton remembers.\<close>

fun result_of :: "broker_response \<times> fd option \<Rightarrow> broker_result option" where
  "result_of (ResultValue v, None) = Some (Value v)"
| "result_of (ResultValue v, Some f) = Some (FdResult f)"
| "result_of (ErrnoValue e, None) = Some (Errno e)"
| "result_of _ = None"

lemma decode_result_eq:
  "decode_result a = (case result_of a of Some r \<Rightarrow> retE r | None \<Rightarrow> failE BrokerProtocol)"
  by (cases a rule: result_of.cases) (simp_all add: decode_result_def)

lemma wp_effect:
  assumes sane: "sane_errors E"
    and step: "\<And>r. ipc_step q req r = Some (St (case r of Inr a \<Rightarrow> Performed a | Inl _ \<Rightarrow> Recorded True) False cl [])"
    and ok: "\<And>a r. result_of a = Some r \<Longrightarrow> r \<noteq> Errno 0 \<Longrightarrow> Q (Inr r) (St (Performed a) False cl [])"
    and failed: "\<And>e s. Q (Inl e) s"
  shows "wp (notify_step n) (bindE (ipc E req passed) decode_result) Q q"
proof (rule wp_bindE, rule wp_ipc)
  fix h
  have nz: "env_ipc E h req passed = Inr (ErrnoValue e, f) \<Longrightarrow> e \<noteq> 0" for e f
    by (rule sane_ipc [OF sane])
  show "\<exists>q'. ipc_step q req (env_ipc E h req passed) = Some q' \<and>
      bind_post (notify_step n) decode_result Q (env_ipc E h req passed) q'"
  proof (cases "env_ipc E h req passed")
    case (Inl e)
    with step failed show ?thesis by simp
  next
    case (Inr a)
    have nonzero: "r \<noteq> Errno 0" if "result_of a = Some r" for r
      using that nz Inr by (cases a rule: result_of.cases) auto
    from step failed Inr show ?thesis
      by (simp add: decode_result_eq) (auto intro!: wp_case_option wp_failE wp_retE ok nonzero)
  qed
qed

lemma wp_respond_broker_result [wp_rules]:
  assumes "nid = sn_id n" "result_of a = Some r" "r \<noteq> Errno 0" "\<And>x. Q x (St Answered False cl [])"
  shows "wp (notify_step n) (respond_broker_result E nid r flags) Q (St (Performed a) lv cl [])"
  using assms(1-3)
  by (cases a rule: result_of.cases)
    (auto simp: respond_broker_result_def send_success_def send_addfd_def is_success_def assms(4)
      intro!: wp_bindE wp_send wp_tolerate_dead wp_answer_error wp_call wp_retE wp_failE split: sum.splits)

section \<open>The handlers\<close>

text \<open>What a handler is shown to reach, whatever it returns.\<close>

fun handled_post :: "run_error + handled \<Rightarrow> notify_state \<Rightarrow> bool" where
  "handled_post (Inl e) s = True"
| "handled_post (Inr h) s = finished s h"

abbreviation handles :: "seccomp_notif \<Rightarrow> (run_error, handled) act \<Rightarrow> notify_state \<Rightarrow> bool" where
  "handles n m q \<equiv> wp (notify_step n) m handled_post q"

lemma handles_deny_unreadable [wp_rules]:
  "handles n (deny_unreadable E n t name) (St Gathering lv True [])"
  unfolding deny_unreadable_def by (auto intro!: wp_rules simp: EACCES_def)

lemma handles_deny_unsupported [wp_rules]:
  "handles n (deny_unsupported E n t name rule) (St Gathering lv True [])"
  unfolding deny_unsupported_def by (auto intro!: wp_rules simp: ENOSYS_def)

lemma handles_realization_deny [wp_rules]:
  "e \<noteq> 0 \<Longrightarrow> handles n (record_realization_deny E n t name p dest access e) (St Gathering lv True [])"
  unfolding record_realization_deny_def by (auto intro!: wp_rules)

lemma handles_network_read_failure [wp_rules]:
  "handles n (record_network_read_failure E n c t name) (St Gathering lv True [])"
  unfolding record_network_read_failure_def Let_def by (auto intro!: wp_rules)

lemma handles_exec: "handles n (handle_exec E n c t) start_state"
  unfolding handle_exec_def start_state_def Let_def
  by (auto intro!: wp_rules rd.wp_read_anchored split: prod.split sum.split)

lemma handles_cross_process: "handles n (handle_cross_process E n c t) start_state"
  unfolding handle_cross_process_def target_in_tree_def start_state_def Let_def
  by (auto intro!: wp_rules gathering.wp_process_in_tree split: prod.split sum.split)

lemma wp_process_flags [wp_rules]:
  assumes "\<And>flags lv. Q (Inr (Inr flags)) (St Gathering lv True [])"
    and "\<And>h q. finished q h \<Longrightarrow> Q (Inr (Inl h)) q" and "\<And>e q. Q (Inl e) q"
  shows "wp (notify_step n) (process_flags E n t name) Q (St Gathering False True [])"
proof -
  have unreadable: "wp (notify_step n) (deny_unreadable E n t name)
      (bind_post (notify_step n) (\<lambda>h. retE (Inl h)) Q) (St Gathering lv True [])" for lv
    by (rule wp_mono [OF handles_deny_unreadable]) (auto intro!: bind_postI wp_retE assms)
  show ?thesis
    unfolding process_flags_def Let_def
    by (auto intro!: wp_rules rd.wp_k_read_u64 unreadable assms)
qed

lemma handles_process: "handles n (handle_process E n c t) start_state"
  unfolding handle_process_def start_state_def Let_def
  by (auto intro!: wp_rules)

lemma wp_network:
  assumes "sane_errors E"
    and "\<And>a r. result_of a = Some r \<Longrightarrow> r \<noteq> Errno 0 \<Longrightarrow> Q (Inr r) (St (Performed a) False cl [])"
    and "\<And>e s. Q (Inl e) s"
  shows "wp (notify_step n) (network E op socket address payload flags) Q (St (Recorded True) True cl [])"
  unfolding network_def by (rule wp_effect [where cl = cl, OF assms(1)]) (simp_all add: assms(2,3))

lemma wp_commit_open:
  assumes "sane_errors E"
    and "\<And>a r. result_of a = Some r \<Longrightarrow> r \<noteq> Errno 0 \<Longrightarrow> Q (Inr r) (St (Performed a) False cl [])"
    and "\<And>e s. Q (Inl e) s"
  shows "wp (notify_step n) (commit_open E pp flags m) Q (St (Recorded True) True cl [pp_token pp])"
  unfolding commit_open_def by (rule wp_effect [where cl = cl, OF assms(1)]) (simp_all add: assms(2,3))

text \<open>The operands as the automaton counts them, the last prepared first.\<close>

definition operands :: "prepared_path \<Rightarrow> prepared_path option \<Rightarrow> u64 list" where
  "operands primary secondary =
     (case secondary of None \<Rightarrow> [] | Some s \<Rightarrow> [pp_token s]) @ [pp_token primary]"

lemma wp_commit_mutation:
  assumes "sane_errors E"
    and "\<And>a r. result_of a = Some r \<Longrightarrow> r \<noteq> Errno 0 \<Longrightarrow> Q (Inr r) (St (Performed a) False cl [])"
    and "\<And>e s. Q (Inl e) s"
  shows "wp (notify_step n) (commit_mutation E primary secondary op) Q
    (St (Recorded True) True cl (operands primary secondary))"
  unfolding commit_mutation_def
  by (rule wp_effect [where cl = cl, OF assms(1)])
    (simp_all add: assms(2,3) operands_def split: option.split)

lemma wp_duplicate_fd:
  assumes sane: "sane_errors E" and ok: "\<And>f. Q (Inr f) (St (Recorded True) True cl [])"
    and failed: "\<And>e. e \<noteq> Some 0 \<Longrightarrow> Q (Inl e) (St (Recorded True) True cl [])"
  shows "wp (notify_step n) (duplicate_fd E pid fdnum) Q (St (Recorded True) True cl [])"
proof -
  have tgid: "wp (notify_step n) (process_tgid E pid) R (St (Recorded True) True cl [])"
    if "\<And>x. R (Inr x) (St (Recorded True) True cl [])"
      "\<And>e. e \<noteq> Some 0 \<Longrightarrow> R (Inl e) (St (Recorded True) True cl [])" for R
  proof -
    have field: "e \<noteq> Some 0" if "status_field key ls = Inl e" for key ls e
      using that by (induction ls) (auto split: option.splits)
    have "env_read_status E h p \<noteq> Inl (Some 0)" for h p
      using sane by (simp add: sane_errors_def)
    with that field show ?thesis
      unfolding process_tgid_def read_status_def by (auto intro!: wp_rules) metis+
  qed
  have "env_pidfd_open E h p \<noteq> Inl (Some 0)" "env_pidfd_getfd E h p' t \<noteq> Inl (Some 0)" for h p p' t
    using sane by (simp_all add: sane_errors_def)
  with ok failed show ?thesis
    unfolding duplicate_fd_def by (auto intro!: wp_rules tgid) metis+
qed

lemma handles_realize_network:
  assumes "sane_errors E"
  shows "handles n (realize_network E n c sa pl) (St (Recorded True) False True [])"
  unfolding realize_network_def
  by (auto intro!: wp_rules wp_duplicate_fd wp_network assms simp: EBADF_def split: option.splits)

lemma handles_settle_network:
  assumes "sane_errors E"
  shows "handles n (settle_network E n c t name sockaddr payload) (St Gathering lv True [])"
  unfolding settle_network_def
  by (auto intro!: wp_rules handles_realize_network assms simp: EACCES_def)

lemma wp_read_payload:
  assumes "\<And>r cl. Q (Inr r) (St Gathering True cl [])"
  shows "wp (notify_step n) (read_payload E n c) Q (St Gathering True False [])"
  unfolding read_payload_def using assms by (auto intro!: wp_rules rd.wp_k_read_bytes)

lemma handles_network:
  assumes "sane_errors E" and "\<not> foreign_abi n"
  shows "handles n (handle_network E n c t) start_state"
proof -
  have silent: "sn_nr n = NR_SENDTO \<Longrightarrow> sn_args n ! 4 = 0 \<Longrightarrow> silent n"
    using assms(2) by (simp add: silent_def)
  show ?thesis
    unfolding handle_network_def start_state_def Let_def
    by (auto intro!: wp_rules rd.wp_k_read_bytes wp_read_payload handles_settle_network assms(1) silent)
qed

lemma wp_release_all [wp_rules]:
  assumes "\<And>r. Q r (St p lv cl [])" "\<And>e q. Q (Inl e) q"
  shows "wp (notify_step n) (release_all E primary secondary) Q (St p lv cl (operands primary secondary))"
  unfolding release_all_def
  by (auto intro!: wp_rules assms simp: operands_def split: option.split)

section \<open>Filesystem calls\<close>

text \<open>What the gathered facts always satisfy: an open has one operand, and its errno is not zero.\<close>

definition well_gathered :: "path option \<Rightarrow> fs_invocation \<Rightarrow> bool" where
  "well_gathered dest invo = (case invo of OpenInv _ _ u \<Rightarrow> dest = None \<and> u \<noteq> Some 0 | Mutation _ \<Rightarrow> True)"

lemma wp_result:
  assumes "\<And>w v w'. m w = (Inr v, w') \<Longrightarrow> V v"
    and "wp \<delta> m (\<lambda>r q. (\<forall>v. r = Inr v \<longrightarrow> V v) \<longrightarrow> Q r q) q"
  shows "wp \<delta> m Q q"
  using assms unfolding wp_def by (metis (no_types, lifting))

lemma fs_shape_dest_fixed:
  "fs_shape nr = Some sh \<Longrightarrow> fs_dest sh \<noteq> None \<Longrightarrow> \<exists>as. fs_access_spec sh = Fixed as"
  unfolding fs_shape_def shape_def by (auto simp del: One_nat_def split: if_splits)

lemma bindE_Inr:
  "bindE m f w = (Inr y, w'') \<longleftrightarrow> (\<exists>x w'. m w = (Inr x, w') \<and> f x w' = (Inr y, w''))"
  by (auto simp: bindE_def split: prod.splits sum.splits)

lemma liftE_Inr: "liftE g r w = (Inr y, w') \<longleftrightarrow> r = Inr y \<and> w' = w"
  by (auto simp: liftE_def retE_def failE_def split: sum.splits)

lemma gather_access_result:
  "gather_access E c n sh p w = (Inr (access, invo), w') \<Longrightarrow>
   (case fs_access_spec sh of Fixed _ \<Rightarrow> \<exists>m. invo = Mutation m
    | _ \<Rightarrow> \<exists>f m u. invo = OpenInv f m u \<and> u \<noteq> Some 0)"
  by (auto simp: gather_access_def bindE_Inr liftE_Inr retE_def failE_def open_how_invocation_def Let_def
      E2BIG_def EOPNOTSUPP_def split: access_spec.splits if_splits)

lemma gather_fs_result:
  assumes sh: "fs_shape nr = Some sh" and run: "gather_fs E c n sh w = (Inr (p, dest, access, invo), w')"
  shows "well_gathered dest invo"
proof -
  from run obtain w1 w2 where g: "gather_access E c n sh p w1 = (Inr (access, invo), w2)"
    and d: "fs_dest sh = None \<Longrightarrow> dest = None"
    by (auto simp: gather_fs_def bindE_Inr retE_def split: option.splits prod.splits)
  show ?thesis
    using gather_access_result [OF g] fs_shape_dest_fixed [OF sh] d
    by (cases "fs_access_spec sh") (auto simp: well_gathered_def split: fs_invocation.split)
qed

lemma wp_commit_operands:
  assumes sane: "sane_errors E" and wg: "well_gathered dest invo" "secondary \<noteq> None \<Longrightarrow> dest \<noteq> None"
    and performed: "\<And>a r. result_of a = Some r \<Longrightarrow> r \<noteq> Errno 0 \<Longrightarrow> Q (Inr r) (St (Performed a) False True [])"
    and unsup: "\<And>e. e \<noteq> 0 \<Longrightarrow> Q (Inr (Errno e)) (St (Recorded True) True True [])"
    and failed: "\<And>e s. Q (Inl e) s"
  shows "wp (notify_step n) (commit_operands E invo primary secondary) Q
    (St (Recorded True) True True (operands primary secondary))"
proof (cases invo)
  case (OpenInv flags m u)
  with wg have one: "operands primary secondary = [pp_token primary]" "u \<noteq> Some 0"
    by (cases secondary; auto simp: well_gathered_def operands_def)+
  show ?thesis
    unfolding commit_operands_def OpenInv fs_invocation.case one(1)
    using one(2) by (auto intro!: wp_rules wp_commit_open [OF sane] performed unsup failed)
next
  case (Mutation op)
  then show ?thesis
    unfolding commit_operands_def
    by (auto intro!: wp_rules wp_commit_mutation [OF sane] performed failed)
qed

lemma handles_commit:
  assumes "sane_errors E" "well_gathered dest invo" "secondary \<noteq> None \<Longrightarrow> dest \<noteq> None"
  shows "wp (notify_step n) (commit_operands E invo primary secondary)
    (bind_post (notify_step n)
      (\<lambda>res. bindE (respond_broker_result E (sn_id n) res flags) (\<lambda>_. retE Responded)) handled_post)
    (St (Recorded True) True True (operands primary secondary))"
proof -
  have errno: "wp (notify_step n) (respond_broker_result E (sn_id n) (Errno e) flags) Q
      (St (Recorded True) True True [])"
    if "e \<noteq> 0" "\<And>x. Q x (St Answered False True [])" for e Q
    unfolding respond_broker_result_def using that by (auto intro!: wp_answer_error)
  show ?thesis
    by (auto intro!: wp_bindE wp_commit_operands [OF assms] wp_respond_broker_result wp_retE errno
        bind_postI)
qed

lemma handles_prepare_operands:
  assumes sane: "sane_errors E"
    and k: "\<And>primary secondary. (secondary \<noteq> None \<Longrightarrow> dest \<noteq> None) \<Longrightarrow>
      handles n (k primary secondary) (St Gathering True True (operands primary secondary))"
  shows "handles n (prepare_operands E n t sh b p dest access invo k) (St Gathering True True [])"
proof -
  have one: "handles n (k primary None) (St Gathering True True [pp_token primary])" for primary
    using k [of None primary] by (simp add: operands_def)
  have two: "handles n (k primary (Some s)) (St Gathering True True [pp_token s, pp_token primary])"
    if "dest \<noteq> None" for primary s
    using k [of "Some s" primary] that by (simp add: operands_def)
  have second: "handles n (case input of
        None \<Rightarrow> k primary None
      | Some i \<Rightarrow>
          bindE (broker_call (prepare_path E b i sf sm)) (\<lambda>r2.
          case r2 of
            PathR s \<Rightarrow> k primary (Some s)
          | ResultR (Errno e) \<Rightarrow>
              bindE (broker_call (release E primary)) (\<lambda>_.
                record_realization_deny E n t (fs_name sh) p dest access e)
          | ResultR _ \<Rightarrow>
              bindE (broker_call (release E primary)) (\<lambda>_. failE (NotifyFailed None))))
      (St Gathering True True [pp_token primary])"
    if "input \<noteq> None \<Longrightarrow> dest \<noteq> None" for input primary sf sm
    using that by (auto intro!: wp_rules one two sane)
  show ?thesis
    unfolding prepare_operands_def
    by (auto intro!: wp_rules one second sane)
qed

lemma operand_loop_coherent:
  assumes "pred_option coherent fa" "pred_option coherent fd"
    and "operand_loop opd r evals fa fd ev = (fa', fd', ev')"
  shows "pred_option coherent fa' \<and> pred_option coherent fd'"
  using assms
proof (induction evals arbitrary: fa fd ev)
  case (Cons x xs)
  obtain a eval where x: "x = (a, eval)" by (cases x)
  let ?d = "finalize_decision eval r"
  show ?case
    by (rule Cons.IH [OF _ _ Cons.prems(3) [unfolded x operand_loop.simps Let_def]])
      (simp_all add: Cons.prems)
qed simp

lemma coherent_operand: "coherent (ro_effective (finalize_operand opd evals r))"
proof -
  obtain fa fd ev where l: "operand_loop opd r evals None None [] = (fa, fd, ev)"
    by (metis prod_cases3)
  from operand_loop_coherent [OF _ _ l] show ?thesis
    by (auto simp: finalize_operand_def l split: option.split)
qed

lemma wp_decide_operands:
  assumes "\<And>d ops. coherent d \<Longrightarrow> Q (Inr (d, ops)) (St Gathering lv True ts)"
  shows "wp (notify_step n) (decide_operands E c access invo primary secondary) Q (St Gathering lv True ts)"
  unfolding decide_operands_def Let_def
  by (auto intro!: wp_rules assms simp: coherent_operand split: option.split)

lemma handles_fs_enforce:
  assumes sane: "sane_errors E" and wg: "well_gathered dest invo"
  shows "handles n (handle_fs_enforce E n c t sh p dest access invo) (St Gathering True True [])"
  unfolding handle_fs_enforce_def
  by (auto intro!: wp_rules handles_prepare_operands [OF sane] wp_decide_operands
      handles_commit [OF sane wg] simp: EACCES_def)

lemma handles_fs:
  assumes sane: "sane_errors E" and sh: "fs_shape nr = Some sh"
  shows "handles n (handle_fs E n c t sh) start_state"
proof -
  have gathered: "wp (notify_step n) (tryE (gather_fs E c n sh)) Q (St Gathering True True [])"
    if "\<And>r. (\<And>p dest access invo. r = Inr (p, dest, access, invo) \<Longrightarrow> well_gathered dest invo) \<Longrightarrow>
      Q (Inr r) (St Gathering True False [])" for Q :: "run_error + _ \<Rightarrow> notify_state \<Rightarrow> bool"
  proof (rule wp_tryE)
    let ?V = "\<lambda>(p, dest, access, invo). well_gathered dest invo"
    show "wp (notify_step n) (gather_fs E c n sh) (\<lambda>r. Q (Inr r)) (St Gathering True True [])"
    proof (rule wp_result [where V = ?V])
      show "?V v" if "gather_fs E c n sh w = (Inr v, w')" for w v w'
        using gather_fs_result [OF sh] that by (cases v) auto
      show "wp (notify_step n) (gather_fs E c n sh)
          (\<lambda>r q. (\<forall>v. r = Inr v \<longrightarrow> ?V v) \<longrightarrow> Q (Inr r) q) (St Gathering True True [])"
        using that by (intro rd.wp_gather_fs) auto
    qed
  qed
  show ?thesis
    unfolding handle_fs_def start_state_def
    by (auto intro!: wp_rules gathered handles_fs_enforce [OF sane])
qed

lemma handles_notification:
  assumes sane: "sane_errors E"
  shows "handles n (handle_notification E c n t) start_state"
proof -
  have rest: "handles n (bindE (answer_continue E (sn_id n)) (\<lambda>_. retE Responded)) start_state"
    if "\<not> foreign_abi n" "\<not> tabled (sn_nr n)"
    using that unfolding start_state_def by (auto intro!: wp_rules simp: silent_def)
  have unsupported: "handles n (deny_unsupported E n t name rule) start_state" for name rule
    unfolding start_state_def by (rule handles_deny_unsupported)
  show ?thesis
    unfolding handle_notification_def
    by (intro wp_if wp_case_option unsupported handles_fs [OF sane] handles_exec handles_process
        handles_network [OF sane] handles_cross_process rest)
      (simp_all only: tabled_def insert_iff empty_iff simp_thms not_False_eq_True option.distinct)
qed

section \<open>The loop\<close>

lemma handling_step:
  "notify_step n q a = Some q' \<Longrightarrow> run_step (Handling n q) a = Some (Handling n q')"
  by (cases a; cases q) simp_all

lemma steps_handling:
  "steps (notify_step n) as q = Some q' \<Longrightarrow> steps run_step as (Handling n q) = Some (Handling n q')"
proof (induction as arbitrary: q)
  case (Cons a as)
  then obtain q1 where q1: "notify_step n q a = Some q1" "steps (notify_step n) as q1 = Some q'"
    by (auto split: option.splits)
  from Cons.IH [OF q1(2)] handling_step [OF q1(1)] show ?case by simp
qed simp

lemma wp_handling:
  assumes "wp (notify_step n) m P q" and "\<And>r q'. P r q' \<Longrightarrow> Q r (Handling n q')"
  shows "wp run_step m Q (Handling n q)"
  using assms unfolding wp_def by (meson steps_handling)

text \<open>Between two notifications.\<close>

definition ready :: "run_state \<Rightarrow> bool" where
  "ready s = (case s of
     Idle \<Rightarrow> True
   | Handling n q \<Rightarrow> finished q Responded \<or> finished q Dropped
   | _ \<Rightarrow> False)"

definition may_kill :: "run_state \<Rightarrow> bool" where
  "may_kill s = (case s of
     Idle \<Rightarrow> True | Failing \<Rightarrow> True | Handling n q \<Rightarrow> finished q Responded | _ \<Rightarrow> False)"

lemma wp_abort_run:
  assumes "may_kill s" and "\<And>r. Q (Inr r) Reaped"
  shows "wp run_step (abort_run E) Q s"
  using assms unfolding abort_run_def may_kill_def
  by (cases s) (auto intro!: wp_rules)

lemma wp_failsafe:
  assumes "\<And>s r. may_kill s \<Longrightarrow> Q (Inr r) s"
  shows "wp run_step (send_error E (sn_id n) EIO) Q (Handling n q)"
  unfolding send_error_def send_def
proof (rule wp_call)
  fix h
  let ?resp = "\<lparr>nresp_id = sn_id n, nresp_val = 0, nresp_error = - \<bar>EIO\<bar>, nresp_flags = 0\<rparr>"
  let ?r = "env_send E h ?resp"
  have fs: "failsafe_answer n (Send ?resp ?r)"
    by (simp add: failsafe_answer_def is_error_def EIO_def)
  show "\<exists>s. run_step (Handling n q) (Send ?resp ?r) = Some s \<and> Q (Inr ?r) s"
  proof (cases "notify_step n q (Send ?resp ?r)")
    case None
    with fs assms [of Failing ?r] show ?thesis by (simp add: may_kill_def)
  next
    case (Some q')
    then have "finished q' Responded" by (cases q) (auto split: if_splits)
    with Some assms [of "Handling n q'" ?r] show ?thesis by (simp add: may_kill_def)
  qed
qed

fun turn_post :: "run_error + unit option \<Rightarrow> run_state \<Rightarrow> bool" where
  "turn_post (Inl e) s = (s = Reaped)"
| "turn_post (Inr x) s = ready s"

lemma wp_poll:
  assumes "ready s"
    and "\<And>r. Q (Inr r) (after_poll r)"
  shows "wp run_step (call (\<lambda>h. env_poll E h) Poll) Q s"
proof (rule wp_call)
  fix h
  have "run_step s (Poll r) = Some (after_poll r)" for r
    using assms(1) by (cases s) (simp_all add: ready_def)
  with assms(2) show "\<exists>s'. run_step s (Poll (env_poll E h)) = Some s' \<and> Q (Inr (env_poll E h)) s'"
    by blast
qed

lemma finished_one: "finished q h \<Longrightarrow> finished q Responded \<or> finished q Dropped"
  by (cases h) simp_all

lemma loop_turn_ok:
  assumes sane: "sane_errors E" and s: "ready s"
  shows "wp run_step (loop_turn E c) turn_post s"
proof -
  have handled: "wp run_step (\<lambda>w. bindE (tryE (handle_notification E c n (env_now_ms E (w_log w)))) (\<lambda>h.
        case h of
          Inr _ \<Rightarrow> retE None
        | Inl e \<Rightarrow>
            bindE (send_error E (sn_id n) EIO) (\<lambda>_.
            bindE (abort_run E) (\<lambda>_. failE e))) w) turn_post (Handling n start_state)" for n
  proof -
    have "wp run_step (bindE (tryE (handle_notification E c n t)) (\<lambda>h.
        case h of
          Inr _ \<Rightarrow> retE None
        | Inl e \<Rightarrow>
            bindE (send_error E (sn_id n) EIO) (\<lambda>_.
            bindE (abort_run E) (\<lambda>_. failE e)))) turn_post (Handling n start_state)" for t
      by (intro wp_bindE wp_tryE wp_handling [OF handles_notification [OF sane]])
        (auto intro!: wp_rules wp_failsafe wp_abort_run simp: ready_def dest: finished_one)
    then show ?thesis unfolding wp_def by blast
  qed
  show ?thesis
    unfolding loop_turn_def
    by (intro wp_bindE wp_poll [OF s])
      (auto intro!: wp_rules handled wp_abort_run simp: after_poll_def may_kill_def ready_def)
qed

fun serve_post :: "run_error + unit \<Rightarrow> run_state \<Rightarrow> bool" where
  "serve_post (Inl e) s = (s = Reaped)"
| "serve_post (Inr x) s = ready s"

lemma serve_ok:
  assumes sane: "sane_errors E"
  shows "ready s \<Longrightarrow> serve k E c w = Some (r, w') \<Longrightarrow>
    \<exists>as s'. w_log w' = w_log w @ as \<and> steps run_step as s = Some s' \<and> serve_post r s'"
proof (induction k arbitrary: w s)
  case (Suc k)
  obtain t w1 where t: "loop_turn E c w = (t, w1)" by (cases "loop_turn E c w")
  from wpD [OF loop_turn_ok [OF sane Suc.prems(1)] t] obtain as s1 where
    as: "w_log w1 = w_log w @ as" "steps run_step as s = Some s1" "turn_post t s1" by blast
  show ?case
  proof (cases "t = Inr None")
    case True
    with Suc.prems t have "serve k E c w1 = Some (r, w')" "ready s1" using as by simp_all
    from Suc.IH [OF this(2,1)] obtain bs s' where
      "w_log w' = w_log w1 @ bs" "steps run_step bs s1 = Some s'" "serve_post r s'" by blast
    with as show ?thesis by (intro exI [of _ "as @ bs"]) (simp add: steps_append)
  next
    case False
    with Suc.prems t as show ?thesis
      by (auto split: sum.splits option.splits)
  qed
qed simp

lemma ready_wait: "ready s \<Longrightarrow> run_step s (Wait r) = Some Reaped"
  by (cases s) (simp_all add: ready_def)

section \<open>Properties\<close>

text \<open>
  C1. One notification, every handler, every environment: the log of its handling is accepted by
  the notification automaton. So facts are read only while the id is valid and used only after a
  second valid look; an event is appended before any answer and any effect; a call is continued or
  performed only under a recorded allow, an effect only after a fresh liveness check; the child gets
  exactly the broker's answer; every pinned operand has been consumed at the answer; and a handling
  that returns has answered exactly once or has seen the child dead.
\<close>

theorem notification_handling_is_accepted:
  assumes "sane_errors E" and "handle_notification E c n ts w = (r, w')"
  shows "\<exists>as s. w_log w' = w_log w @ as \<and> steps (notify_step n) as start_state = Some s \<and>
    (case r of Inl _ \<Rightarrow> True | Inr h \<Rightarrow> finished s h)"
  using wpD [OF handles_notification [OF assms(1)] assms(2)]
  by (cases r) (auto; blast)+

text \<open>
  C2. A whole run, for any number of turns: its log is accepted by the run automaton and it ends
  with the child waited for. A handler's failure (a failed append included) is followed by one EIO
  answer, the kill and the wait, and by nothing else.
\<close>

theorem run_is_accepted_and_reaped:
  assumes sane: "sane_errors E" and run: "run_loop fuel E c w = Some (r, w')"
  shows "\<exists>as. w_log w' = w_log w @ as \<and> steps run_step as Idle = Some Reaped"
proof (cases "validate_config c")
  case (Inl e)
  have "wp run_step (bindE (abort_run E) (\<lambda>_. failE e)) (\<lambda>r s. s = Reaped) Idle"
    by (auto intro!: wp_rules wp_abort_run simp: may_kill_def)
  from wpD [OF this] run Inl show ?thesis by (auto simp: run_loop_def)
next
  case (Inr c')
  with run obtain t w1 where t: "serve fuel E c' w = Some (t, w1)"
    by (auto simp: run_loop_def split: option.splits)
  from serve_ok [OF sane _ t, of Idle] obtain as s where
    as: "w_log w1 = w_log w @ as" "steps run_step as Idle = Some s" "serve_post t s"
    by (auto simp: ready_def)
  show ?thesis
  proof (cases t)
    case (Inl e)
    with run Inr t as show ?thesis by (auto simp: run_loop_def)
  next
    case (Inr u)
    let ?m = "bindE (call (\<lambda>h. env_wait E h) Wait) (liftE NotifyFailed) :: (run_error, int) act"
    have waits: "wp run_step ?m (\<lambda>r s. s = Reaped) s"
    proof (intro wp_bindE wp_call exI conjI)
      show "run_step s (Wait (env_wait E h)) = Some Reaped" for h
        using as(3) Inr by (simp add: ready_wait)
    qed (simp add: wp_liftE)
    have "?m w1 = (r, w')"
      using run \<open>validate_config c = Inr c'\<close> t Inr by (simp add: run_loop_def)
    from wpD [OF waits this] obtain bs where
      "w_log w' = w_log w1 @ bs" "steps run_step bs s = Some Reaped" by blast
    with as show ?thesis by (intro exI [of _ "as @ bs"]) (simp add: steps_append)
  qed
qed

end
