(* ===== verification/Notify_Claims.thy ===== *)
theory Notify_Claims imports Notify_Proofs begin

text \<open>
  What acceptance by the automaton means for a log, in terms of the actions alone, and the
  properties of single operations of the loop: the refused calls, the required accesses of an
  enforced call, the loop's end.
\<close>

section \<open>Accepted logs\<close>

fun is_answer :: "action \<Rightarrow> bool" where
  "is_answer (Send _ _) = True"
| "is_answer (AddFd _ _ _ _ _) = True"
| "is_answer _ = False"

fun is_effect :: "action \<Rightarrow> bool" where
  "is_effect (Ipc req _ _) = (commit_tokens req \<noteq> None)"
| "is_effect (PidfdOpen _ _) = True"
| "is_effect (PidfdGetfd _ _ _) = True"
| "is_effect _ = False"

fun appended :: "action \<Rightarrow> bool" where
  "appended (Append _ (SyscallBody _) (Inr _)) = True"
| "appended _ = False"

fun appended_allow :: "action \<Rightarrow> bool" where
  "appended_allow (Append _ (SyscallBody ev) (Inr _)) = event_allows (ev_decision ev) (ev_ask_resolution ev)"
| "appended_allow _ = False"

fun append_failed :: "action \<Rightarrow> bool" where
  "append_failed (Append _ _ (Inl _)) = True"
| "append_failed _ = False"

definition touches_child :: "action \<Rightarrow> bool" where
  "touches_child a = (is_answer a \<or> is_effect a)"

text \<open>What the log so far must contain for the automaton to be in a state.\<close>

fun history :: "action list \<Rightarrow> notify_state \<Rightarrow> bool" where
  "history as (St p live clean ts) =
     ((case p of
         Gathering \<Rightarrow> list_all (\<lambda>a. \<not> touches_child a \<and> \<not> appended a \<and> \<not> append_failed a) as
       | Recorded allowed \<Rightarrow> list_ex appended as \<and> (allowed \<longrightarrow> list_ex appended_allow as) \<and>
           list_all (\<lambda>a. \<not> is_answer a \<and> \<not> append_failed a) as
       | AppendFailed \<Rightarrow> list_all (\<lambda>a. \<not> touches_child a) as
       | Performed _ \<Rightarrow> list_ex appended_allow as \<and> list_all (\<lambda>a. \<not> is_answer a \<and> \<not> append_failed a) as
       | Answered \<Rightarrow> length (filter is_answer as) = 1 \<and> list_all (\<lambda>a. \<not> append_failed a) as))"

lemma appended_allow_appended: "appended_allow a \<Longrightarrow> appended a"
  by (cases a rule: appended_allow.cases) auto

lemma history_step:
  assumes "history as q" and "notify_step n q a = Some q'"
  shows "history (as @ [a]) q'"
proof (cases q)
  case (St p live clean ts)
  show ?thesis
  proof (cases a)
    case (Ipc req f r)
    with assms St show ?thesis
      by (cases req)
        (auto simp: touches_child_def list_all_iff split: if_splits phase.splits sum.splits option.splits)
  next
    case (Append t body r)
    with assms St show ?thesis
      by (cases body) (auto simp: touches_child_def list_all_iff split: if_splits sum.splits)
  next
    case (Send r x)
    with assms St show ?thesis
      by (cases p) (auto simp: touches_child_def list_all_iff filter_empty_conv split: if_splits)
  qed (use assms St in \<open>auto simp: touches_child_def list_all_iff filter_empty_conv split: if_splits phase.splits\<close>)
qed

lemma history_steps:
  "steps (notify_step n) as start_state = Some q \<Longrightarrow> history as q"
proof (induction as arbitrary: q rule: rev_induct)
  case Nil
  then have "q = start_state" by simp
  then show ?case by (simp add: start_state_def)
next
  case (snoc a as)
  then obtain q1 where "steps (notify_step n) as start_state = Some q1" "notify_step n q1 a = Some q"
    by (auto simp: steps_append split: option.splits)
  with snoc.IH show ?case by (blast intro: history_step)
qed

text \<open>A recorded allow followed by a valid liveness look.\<close>

definition allowed_and_live :: "u64 \<Rightarrow> action list \<Rightarrow> bool" where
  "allowed_and_live i as = (\<exists>p1 x p2 p3. as = p1 @ x # p2 @ IdValid i (Inr ()) # p3 \<and> appended_allow x)"

lemma allowed_and_live_mono: "allowed_and_live i as \<Longrightarrow> allowed_and_live i (as @ bs)"
  unfolding allowed_and_live_def by force

lemma allowed_then_live: "list_ex appended_allow as \<Longrightarrow> allowed_and_live i (as @ [IdValid i (Inr ())])"
  unfolding allowed_and_live_def list_ex_iff by (metis append.assoc append_Cons split_list)

lemma live_steps:
  "steps (notify_step n) as start_state = Some (St p True cl ts) \<Longrightarrow> p = Recorded True \<Longrightarrow>
   allowed_and_live (sn_id n) as"
proof (induction as arbitrary: p cl ts rule: rev_induct)
  case Nil
  then show ?case by (simp add: start_state_def)
next
  case (snoc a as)
  from snoc.prems obtain p1 lv1 cl1 ts1 where
    q1: "steps (notify_step n) as start_state = Some (St p1 lv1 cl1 ts1)" and
    step: "notify_step n (St p1 lv1 cl1 ts1) a = Some (St p True cl ts)"
    by (auto simp: steps_append split: option.splits) (metis notify_state.exhaust)
  show ?case
  proof (cases "p1 = Recorded True \<and> lv1")
    case True
    with q1 have "allowed_and_live (sn_id n) as" by (intro snoc.IH) auto
    then show ?thesis by (rule allowed_and_live_mono)
  next
    case False
    have "a = IdValid (sn_id n) (Inr ()) \<and> p1 = Recorded True"
    proof (cases a)
      case (Ipc req f r)
      with step snoc.prems(2) False show ?thesis by (cases req) (auto split: if_splits option.splits)
    next
      case (Append t body r)
      with step show ?thesis by (cases body) (auto split: if_splits)
    qed (use step snoc.prems(2) False in \<open>auto split: if_splits\<close>)
    with history_steps [OF q1] show ?thesis by (auto intro: allowed_then_live)
  qed
qed

text \<open>No read of the child since the last valid look.\<close>

fun reads_child :: "action \<Rightarrow> bool" where
  "reads_child (OpenMem _ _) = True"
| "reads_child (Pread _ _ _ _) = True"
| "reads_child (ReadLink _ _ _) = True"
| "reads_child _ = False"

definition checked :: "u64 \<Rightarrow> action list \<Rightarrow> bool" where
  "checked i as = (list_all (\<lambda>a. \<not> reads_child a) as \<or>
     (\<exists>p1 p2. as = p1 @ IdValid i (Inr ()) # p2 \<and> list_all (\<lambda>a. \<not> reads_child a) p2))"

lemma checked_snoc: "checked i as \<Longrightarrow> \<not> reads_child a \<Longrightarrow> checked i (as @ [a])"
  unfolding checked_def by force

lemma checked_IdValid: "checked i (as @ [IdValid i (Inr ())])"
  unfolding checked_def by force

lemma clean_steps:
  "steps (notify_step n) as start_state = Some (St p lv True ts) \<Longrightarrow> checked (sn_id n) as"
proof (induction as arbitrary: p lv ts rule: rev_induct)
  case Nil
  then show ?case by (simp add: checked_def)
next
  case (snoc a as)
  from snoc.prems obtain p1 lv1 cl1 ts1 where
    q1: "steps (notify_step n) as start_state = Some (St p1 lv1 cl1 ts1)" and
    step: "notify_step n (St p1 lv1 cl1 ts1) a = Some (St p lv True ts)"
    by (auto simp: steps_append split: option.splits) (metis notify_state.exhaust)
  show ?case
  proof (cases "a = IdValid (sn_id n) (Inr ())")
    case True
    then show ?thesis by (simp add: checked_IdValid)
  next
    case False
    have "cl1 \<and> \<not> reads_child a"
    proof (cases a)
      case (Ipc req f r)
      with step show ?thesis by (cases req) (auto split: if_splits option.splits)
    next
      case (Append t body r)
      with step show ?thesis by (cases body) (auto split: if_splits)
    qed (use step False in \<open>auto split: if_splits\<close>)
    with snoc.IH q1 show ?thesis by (auto intro: checked_snoc)
  qed
qed

section \<open>A sample run for the witnesses\<close>

definition sample_env :: env where
  "sample_env = \<lparr>
     env_id_valid = (\<lambda>_ _. Inr ()), env_send = (\<lambda>_ _. Inr ()), env_addfd = (\<lambda>_ _ _ _ _. Inr 0),
     env_open_mem = (\<lambda>_ _. Inr ()), env_pread = (\<lambda>_ _ _ n. Inr (replicate n 0)),
     env_read_link = (\<lambda>_ _ _. Inr ''/w''), env_read_status = (\<lambda>_ _. Inr ''Tgid: 7''),
     env_pidfd_open = (\<lambda>_ _. Inr 4), env_pidfd_getfd = (\<lambda>_ _ _. Inr 5),
     env_prompt = (\<lambda>_ _ _. Denied), env_append = (\<lambda>_ _ _. Inr ()),
     env_ipc = (\<lambda>_ req _. case req of
         PreparePath _ _ _ _ \<Rightarrow> Inr (Prepared 1 ''/w/x'' False, None)
       | Release _ \<Rightarrow> Inr (Released, None)
       | _ \<Rightarrow> Inr (ResultValue 0, None)),
     env_poll = (\<lambda>_. Inr 0x10), env_recv = (\<lambda>_. Inl (Some ENOENT)), env_wait = (\<lambda>_. Inr 0),
     env_now_ms = (\<lambda>_. 1)\<rparr>"

lemma sample_env_answers [simp]:
  "env_id_valid sample_env h i = Inr ()" "env_send sample_env h r = Inr ()"
  "env_open_mem sample_env h p = Inr ()" "env_pread sample_env h p a n = Inr (replicate n 0)"
  "env_read_link sample_env h p d = Inr ''/w''" "env_append sample_env h ts b = Inr ()"
  "env_ipc sample_env h (PreparePath k rel fol mis) f = Inr (Prepared 1 ''/w/x'' False, None)"
  "env_ipc sample_env h (CommitMutation t u op) f = Inr (ResultValue 0, None)"
  "env_poll sample_env h = Inr 0x10" "env_wait sample_env h = Inr 0"
  by (simp_all add: sample_env_def)

definition sample_notif :: "u32 \<Rightarrow> u64 list \<Rightarrow> seccomp_notif" where
  "sample_notif nr args = \<lparr>sn_id = 9, sn_pid = 7, sn_nr = nr, sn_arch = AUDIT_ARCH_X86_64, sn_args = args\<rparr>"

definition empty_world :: world where
  "empty_world = \<lparr>w_log = [], w_next_seq = 0\<rparr>"

definition sample_policy :: policy where
  "sample_policy = \<lparr>p_schema_version = 1, p_workspace = ''/w'', p_fs = [], p_net = [], p_exec = []\<rparr>"

definition sample_config :: run_config where
  "sample_config = config_enforce_with_broker 7 Unattended sample_policy
     \<lparr>bc_anchors = [''/w''], bc_workspace = ''/w''\<rparr> (\<lambda>_. None)"

lemma sane_sample [simp]: "sane_errors sample_env"
  by (simp add: sane_errors_def sample_env_def split: broker_request.split)

lemma sample_read_path:
  "read_path (child_reader sample_env 7) 4095 w = (Inr [], log_action (Pread 7 4095 1 (Inr [0])) w)"
  by (simp add: read_path_def read_cstr_capped_def PATH_READ_CAP_def ABSOLUTE_READ_CAP_def
      NETWORK_PAYLOAD_CAP_def cstr_loop.simps [of _ 4095] fill.simps want_at_def PAGE_def
      child_reader_def Let_def nul_position_def)

lemmas act_simps = bindE_def call_def liftE_def retE_def failE_def tryE_def Let_def log_action_def

lemma sample_read_anchored:
  "read_anchored sample_env (sample_notif nr [4095,0,0,0,0,0]) (pa_cwd 0) w =
     (Inr ''/w/'', w\<lparr>w_log := w_log w @ [OpenMem 7 (Inr ()), Pread 7 4095 1 (Inr [0]),
        ReadLink 7 AnchorCwd (Inr ''/w'')]\<rparr>)"
  by (simp add: read_anchored_def k_read_path_def sample_notif_def open_mem_def sample_read_path
      act_simps bytes_to_path_def dir_prefix_def pa_cwd_def path_join_def)

definition sample_event :: syscall_event where
  "sample_event = \<lparr>ev_pid = 7, ev_syscall = ''mkdir'', ev_fact = FsFact ''/w/x'' [AccCreate] None,
     ev_decision = Allow, ev_ask_resolution = None, ev_matched_rule = ''base:workspace'',
     ev_would_deny = None, ev_operand_decisions = None\<rparr>"

definition sample_log :: "action list" where
  "sample_log = [IdValid 9 (Inr ()), OpenMem 7 (Inr ()), Pread 7 4095 1 (Inr [0]),
     ReadLink 7 AnchorCwd (Inr ''/w''), IdValid 9 (Inr ()),
     Ipc (PreparePath 0 [] False True) None (Inr (Prepared 1 ''/w/x'' False, None)),
     Append 2 (SyscallBody sample_event) (Inr ()),
     IdValid 9 (Inr ()),
     Ipc (CommitMutation 1 None (MkdirOp 0)) None (Inr (ResultValue 0, None)),
     Send \<lparr>nresp_id = 9, nresp_val = 0, nresp_error = 0, nresp_flags = 0\<rparr> (Inr ())]"

lemma sample_valid:
  "still_valid sample_env i w = (Inr True, log_action (IdValid i (Inr ())) w)"
  by (simp add: still_valid_def id_valid_def act_simps)

lemma sample_gather:
  "gather_fs sample_env c (sample_notif NR_MKDIR [4095,0,0,0,0,0])
     (shape ''mkdir'' (pa_cwd 0) None (Fixed [AccCreate])) w =
   (Inr (''/w/'', None, [AccCreate], Mutation (Mkdir 0)), w\<lparr>w_log := w_log w @
      [OpenMem 7 (Inr ()), Pread 7 4095 1 (Inr [0]), ReadLink 7 AnchorCwd (Inr ''/w'')]\<rparr>)"
proof -
  let ?n = "sample_notif NR_MKDIR [4095,0,0,0,0,0]"
  have "mutation_invocation (sn_nr ?n) ?n p = Inr (Mkdir 0)" for p
    by (simp add: mutation_invocation_def sample_notif_def abi_defs)
  then show ?thesis
    by (simp add: gather_fs_def shape_def sample_read_anchored gather_access_def bindE_def liftE_def
        retE_def)
qed

abbreviation sample_broker :: broker_client where
  "sample_broker \<equiv> \<lparr>bc_anchors = [''/w''], bc_workspace = ''/w''\<rparr>"

lemma sample_prepare:
  "prepare_path sample_env sample_broker ''/w/'' False True w =
     (Inr (PathR \<lparr>pp_token = 1, pp_identity = ''/w/x'', pp_exists = False\<rparr>),
      log_action (Ipc (PreparePath 0 [] False True) None (Inr (Prepared 1 ''/w/x'' False, None))) w)"
proof -
  have anchor: "select_anchor sample_broker ''/w/'' = Some (0, [])"
    by (simp add: select_anchor_def path_starts_with_def components_def body_components_def
      path_strip_prefix_def path_eq_def)
  show ?thesis
    by (simp add: prepare_path_def anchor ipc_def bindE_def call_def liftE_def retE_def Let_def)
qed

lemma sample_decision:
  "decide_operands sample_env sample_config [AccCreate] (Mutation (Mkdir 0))
     \<lparr>pp_token = 1, pp_identity = ''/w/x'', pp_exists = False\<rparr> None w =
   (Inr (\<lparr>rd_event = Allow, rd_response = Allow, rd_ask_resolution = None,
      rd_matched_rule = ''base:workspace'', rd_would_deny = None\<rparr>, None), w)"
proof -
  have "tracked_evaluation sample_config (FsRequest (to_string_lossy ''/w/x'') [AccCreate]) =
      \<lparr>v_decision = Allow, v_matched = WorkspaceBaseAllow, v_would_deny = None\<rparr>"
    by code_simp
  then show ?thesis
    by (simp add: decide_operands_def evaluate_tracked_def is_symlink_def settle_asks_def
        finalize_operand_def finalize_decision_def bindE_def retE_def Let_def)
qed

lemma sample_record:
  "record_with_operands sample_env ts n name f d ops w =
     (Inr (), w\<lparr>w_log := w_log w @ [Append ts (SyscallBody \<lparr>ev_pid = sn_pid n, ev_syscall = name,
        ev_fact = f, ev_decision = rd_event d, ev_ask_resolution = rd_ask_resolution d,
        ev_matched_rule = rd_matched_rule d, ev_would_deny = rd_would_deny d,
        ev_operand_decisions = ops\<rparr>) (Inr ())], w_next_seq := w_next_seq w + 1\<rparr>)"
  by (simp add: record_with_operands_def act_simps)

lemma sample_commit:
  "broker_call (commit_mutation sample_env p None op) w =
     (Inr (Value 0), log_action (Ipc (CommitMutation (pp_token p) None op) None (Inr (ResultValue 0, None))) w)"
  by (simp add: broker_call_def commit_mutation_def ipc_def decode_result_def bindE_def call_def
      tryE_def liftE_def retE_def Let_def)

lemma sample_handling:
  "handle_notification sample_env sample_config (sample_notif NR_MKDIR [4095,0,0,0,0,0]) 2 empty_world =
     (Inr Responded, \<lparr>w_log = sample_log, w_next_seq = 1\<rparr>)"
proof -
  let ?n = "sample_notif NR_MKDIR [4095,0,0,0,0,0]"
  let ?sh = "shape ''mkdir'' (pa_cwd 0) None (Fixed [AccCreate])"
  have shape: "fs_shape NR_MKDIR = Some ?sh"
    by (simp add: fs_shape_def abi_defs)
  have native: "\<not> foreign_abi ?n" "NR_MKDIR \<notin> set DENIED_RECORDED"
    by (simp_all add: foreign_abi_def sample_notif_def abi_defs DENIED_RECORDED_def)
  have config: "rc_mode sample_config = Enforce" "rc_broker sample_config = Some sample_broker"
    by (simp_all add: sample_config_def config_enforce_with_broker_def)
  have notif: "sn_id ?n = 9" "sn_pid ?n = 7" "sn_nr ?n = NR_MKDIR" by (simp_all add: sample_notif_def)
  have prepared: "broker_call (prepare_path sample_env sample_broker ''/w/'' False True) w =
     (Inr (PathR \<lparr>pp_token = 1, pp_identity = ''/w/x'', pp_exists = False\<rparr>),
      log_action (Ipc (PreparePath 0 [] False True) None (Inr (Prepared 1 ''/w/x'' False, None))) w)" for w
    by (simp add: broker_call_def sample_prepare bindE_def tryE_def liftE_def retE_def)
  have enforce: "handle_fs_enforce sample_env ?n sample_config 2 ?sh ''/w/'' None [AccCreate] (Mutation (Mkdir 0)) w =
      (Inr Responded, w\<lparr>w_log := w_log w @ drop 5 sample_log, w_next_seq := w_next_seq w + 1\<rparr>)" for w
    by (simp add: handle_fs_enforce_def config prepare_operands_def prepared is_symlink_def bindE_def
        sample_decision sample_record sample_valid commit_operands_def sample_commit
        respond_broker_result_def send_success_def send_def call_def tolerate_dead_def retE_def
        close_on_exec_def log_action_def Let_def notif sample_log_def sample_event_def shape_def)
  show ?thesis
    by (simp add: handle_notification_def native shape notif handle_fs_def bindE_def sample_valid
        tryE_def sample_gather config enforce log_action_def empty_world_def)
      (simp add: sample_log_def)
qed

section \<open>Properties of one notification\<close>

text \<open>The accepted log of a handling, cut at one of its actions.\<close>

lemma handling_cut:
  assumes "sane_errors E" and "handle_notification E c n ts w = (r, w')"
    and "w_log w' = w_log w @ pre @ a # post"
  obtains q1 q2 s where "steps (notify_step n) pre start_state = Some q1"
    "notify_step n q1 a = Some q2" "steps (notify_step n) (pre @ a # post) start_state = Some s"
    "history pre q1" "history (pre @ a # post) s"
proof -
  from wpD [OF handles_notification [OF assms(1)] assms(2)] assms(3) obtain s where
    s: "steps (notify_step n) (pre @ a # post) start_state = Some s" by auto
  then obtain q1 q2 where "steps (notify_step n) pre start_state = Some q1" "notify_step n q1 a = Some q2"
    by (auto simp: steps_append split: option.splits)
  with s that history_steps show thesis by blast
qed

text \<open>
  C6. An answer follows its record: in the log of any handling there is at most one answer to the
  trapped call; unless the call is one of the silent ones, an event has been appended before it;
  and the call is continued only after an event that records an allow or an approved ask.
\<close>

theorem answer_follows_record:
  assumes "sane_errors E" and "handle_notification E c n ts w = (r, w')"
    and "w_log w' = w_log w @ pre @ a # post" and "is_answer a"
  shows "filter is_answer (pre @ post) = [] \<and> (silent n \<or> list_ex appended pre) \<and>
    (case a of Send resp _ \<Rightarrow> is_continue resp \<longrightarrow> silent n \<or> list_ex appended_allow pre | _ \<Rightarrow> True)"
proof -
  from handling_cut [OF assms(1-3)] obtain q1 q2 s where
    q: "notify_step n q1 a = Some q2" "history pre q1" "history (pre @ a # post) s" by metis
  obtain p lv cl ts where St: "q1 = St p lv cl ts" by (cases q1)
  obtain p' lv' cl' ts' where St': "s = St p' lv' cl' ts'" by (cases s)
  have "length (filter is_answer (pre @ a # post)) = 1"
    using q(3) assms(4) St' by (cases p') (auto simp: touches_child_def)
  then have one: "filter is_answer (pre @ post) = []" using assms(4) by simp
  have allow: "list_ex appended pre" if "list_ex appended_allow pre"
    using that by (auto simp: list_ex_iff dest: appended_allow_appended)
  have "(silent n \<or> list_ex appended pre) \<and>
    (case a of Send resp _ \<Rightarrow> is_continue resp \<longrightarrow> silent n \<or> list_ex appended_allow pre | _ \<Rightarrow> True)"
  proof (cases a)
    case (Send resp x)
    with q(1,2) St allow show ?thesis
      by (cases p) (auto simp: is_continue_def is_error_def SECCOMP_USER_NOTIF_FLAG_CONTINUE_def
          split: if_splits)
  next
    case (AddFd i f fl nf x)
    with q(1,2) St allow show ?thesis by (auto split: if_splits)
  qed (use assms(4) in auto)
  with one show ?thesis by blast
qed

text \<open>
  C5. An effect needs a recorded allow and a living caller: whenever a handling asks the broker to
  open, mutate or use a socket, or duplicates the caller's descriptor, an event recording an allow
  (or an approved ask) has been appended before, and after that append the notification id has been
  found valid.
\<close>

theorem effect_needs_recorded_allow:
  assumes "sane_errors E" and "handle_notification E c n ts w = (r, w')"
    and "w_log w' = w_log w @ pre @ a # post" and "is_effect a"
  shows "allowed_and_live (sn_id n) pre"
proof -
  from handling_cut [OF assms(1-3)] obtain q1 q2 where
    q: "steps (notify_step n) pre start_state = Some q1" "notify_step n q1 a = Some q2" by metis
  obtain p lv cl ts where St: "q1 = St p lv cl ts" by (cases q1)
  have "p = Recorded True \<and> lv"
  proof (cases a)
    case (Ipc req f x)
    with q(2) St assms(4) show ?thesis by (cases req) (auto split: if_splits option.splits)
  qed (use q(2) St assms(4) in \<open>auto split: if_splits\<close>)
  with live_steps [of n pre p cl ts] q(1) St show ?thesis by simp
qed

text \<open>
  C7. A fact is recorded only if the caller was alive after it was read: before any append, every
  read of child memory or of the child's directory links is followed by a valid look at the id.
\<close>

theorem recorded_facts_are_checked:
  assumes "sane_errors E" and "handle_notification E c n ts w = (r, w')"
    and "w_log w' = w_log w @ pre @ Append t body x # post"
  shows "checked (sn_id n) pre"
proof -
  from handling_cut [OF assms(1-3)] obtain q1 q2 where
    q: "steps (notify_step n) pre start_state = Some q1" "notify_step n q1 (Append t body x) = Some q2" by metis
  obtain p lv cl ts where St: "q1 = St p lv cl ts" by (cases q1)
  have cl using q(2) St by (cases body) (auto split: if_splits)
  with clean_steps [of n pre p lv ts] q(1) St show ?thesis by simp
qed

text \<open>
  C8. A call whose event could not be recorded has no effect and no answer from its handler: when an
  append fails, the handling's log contains neither an answer nor an effect, and the handler fails.
\<close>

theorem unrecordable_call_is_not_served:
  assumes "sane_errors E" and "handle_notification E c n ts w = (r, w')"
    and "w_log w' = w_log w @ as" and "list_ex append_failed as"
  shows "list_all (\<lambda>a. \<not> touches_child a) as \<and> (\<exists>e. r = Inl e)"
proof -
  from wpD [OF handles_notification [OF assms(1)] assms(2)] assms(3) obtain s where
    s: "steps (notify_step n) as start_state = Some s" "handled_post r s" by auto
  obtain p lv cl ts where St: "s = St p lv cl ts" by (cases s)
  have failed: "p = AppendFailed"
    using history_steps [OF s(1)] assms(4) St
    by (cases p) (auto simp: list_all_iff list_ex_iff)
  with s(2) St have "\<exists>e. r = Inl e"
    by (cases r) (auto elim: finished.elims)
  with history_steps [OF s(1)] failed St show ?thesis by simp
qed

section \<open>Witnesses\<close>

abbreviation sample_call :: seccomp_notif where
  "sample_call \<equiv> sample_notif NR_MKDIR [4095,0,0,0,0,0]"

lemma answer_follows_record_witness:
  "filter is_answer (butlast sample_log @ []) = [] \<and>
   (silent sample_call \<or> list_ex appended (butlast sample_log)) \<and>
   (case last sample_log of Send resp _ \<Rightarrow> is_continue resp \<longrightarrow> silent sample_call \<or>
      list_ex appended_allow (butlast sample_log) | _ \<Rightarrow> True)"
  by (rule answer_follows_record [OF sane_sample sample_handling]) (simp_all add: sample_log_def empty_world_def)

lemma effect_needs_recorded_allow_witness: "allowed_and_live 9 (take 8 sample_log)"
  using effect_needs_recorded_allow [OF sane_sample sample_handling,
      of "take 8 sample_log" "sample_log ! 8" "drop 9 sample_log"]
  by (simp add: sample_log_def empty_world_def sample_notif_def)

lemma recorded_facts_are_checked_witness: "checked 9 (take 6 sample_log)"
  using recorded_facts_are_checked [OF sane_sample sample_handling,
      of "take 6 sample_log" 2 "SyscallBody sample_event" "Inr ()" "drop 7 sample_log"]
  by (simp add: sample_log_def empty_world_def sample_notif_def)

definition full_disk_env :: env where
  "full_disk_env = sample_env\<lparr>env_append := \<lambda>_ _ _. Inl (WriteFailed (Some 28))\<rparr>"

definition raw_deny_event :: "string \<Rightarrow> string \<Rightarrow> syscall_event" where
  "raw_deny_event name rule = \<lparr>ev_pid = 7, ev_syscall = name, ev_fact = RawFact, ev_decision = Deny,
     ev_ask_resolution = None, ev_matched_rule = rule, ev_would_deny = None, ev_operand_decisions = None\<rparr>"

lemma full_disk_handling:
  "handle_notification full_disk_env sample_config (sample_call\<lparr>sn_arch := 0\<rparr>) 2 empty_world =
     (Inl (RecorderFailed (WriteFailed (Some 28))),
      \<lparr>w_log = [Append 2 (SyscallBody (raw_deny_event ''foreign_abi'' rule_FOREIGN_ABI))
         (Inl (WriteFailed (Some 28)))], w_next_seq = 0\<rparr>)"
  by (simp add: handle_notification_def foreign_abi_def AUDIT_ARCH_X86_64_def deny_unsupported_def
      record_event_def record_with_operands_def act_simps full_disk_env_def raw_deny_event_def
      fixed_decision_def sample_notif_def empty_world_def)

lemma sane_full_disk: "sane_errors full_disk_env"
  using sane_sample by (simp add: sane_errors_def full_disk_env_def)

lemma unrecordable_call_is_not_served_witness:
  "list_all (\<lambda>a. \<not> touches_child a) [Append 2 (SyscallBody (raw_deny_event ''foreign_abi'' rule_FOREIGN_ABI))
     (Inl (WriteFailed (Some 28)))] \<and>
   (\<exists>e. (Inl (RecorderFailed (WriteFailed (Some 28))) :: run_error + handled) = Inl e)"
  by (rule unrecordable_call_is_not_served [OF sane_full_disk full_disk_handling])
    (simp_all add: empty_world_def)

lemma notification_handling_is_accepted_witness:
  "\<exists>as s. sample_log = [] @ as \<and> steps (notify_step sample_call) as start_state = Some s \<and>
    (case Inr Responded :: run_error + handled of Inl _ \<Rightarrow> True | Inr h \<Rightarrow> finished s h)"
  using notification_handling_is_accepted [OF sane_sample sample_handling]
  by (simp add: empty_world_def)

lemma sample_run:
  "run_loop (Suc 0) sample_env sample_config empty_world =
     Some (Inr 0, \<lparr>w_log = [Poll (Inr 16), Wait (Inr 0)], w_next_seq = 0\<rparr>)"
  by (simp add: run_loop_def validate_config_def sample_config_def config_enforce_with_broker_def
      loop_turn_def act_simps abi_defs empty_world_def)

lemma run_is_accepted_and_reaped_witness:
  "\<exists>as. [Poll (Inr 16), Wait (Inr 0)] = [] @ as \<and> steps run_step as Idle = Some Reaped"
  using run_is_accepted_and_reaped [OF sane_sample sample_run] by (simp add: empty_world_def)

end
