(* ===== verification/Notify_Ops.thy ===== *)
theory Notify_Ops imports Notify_Claims begin

text \<open>
  Properties of single operations of the notify loop: the calls that are always refused, the gate
  over the operands of an enforced call, the record-only mode, the walk up the process tree, the
  end of the loop, and two behaviours the code does not mean to have.
\<close>

section \<open>Outcomes of a composition\<close>

lemma call_eq: "call answer mk w = (Inr (answer (w_log w)), log_action (mk (answer (w_log w))) w)"
  by (simp add: call_def Let_def)

lemma answer_error_Inr:
  "answer_error E nid e w = (Inr u, w') \<Longrightarrow>
   \<exists>x. w' = log_action (Send \<lparr>nresp_id = nid, nresp_val = 0, nresp_error = - \<bar>e\<bar>, nresp_flags = 0\<rparr> x) w"
  by (auto simp: answer_error_def send_error_def send_def bindE_Inr call_eq tolerate_dead_def retE_def
      failE_def split: sum.splits if_splits)

lemma record_event_Inr:
  "record_event E ts n name f d w = (Inr u, w') \<Longrightarrow>
   w_log w' = w_log w @ [Append ts (SyscallBody \<lparr>ev_pid = sn_pid n, ev_syscall = name, ev_fact = f,
     ev_decision = rd_event d, ev_ask_resolution = rd_ask_resolution d, ev_matched_rule = rd_matched_rule d,
     ev_would_deny = rd_would_deny d, ev_operand_decisions = None\<rparr>) (Inr ())]"
  by (auto simp: record_event_def record_with_operands_def bindE_Inr call_eq liftE_Inr log_action_def Let_def)

text \<open>The event of a fact that could not be trusted, or of a call of the denied set.\<close>

definition raw_deny :: "seccomp_notif \<Rightarrow> string \<Rightarrow> string \<Rightarrow> event_body" where
  "raw_deny n name rule = SyscallBody \<lparr>ev_pid = sn_pid n, ev_syscall = name, ev_fact = RawFact,
     ev_decision = Deny, ev_ask_resolution = None, ev_matched_rule = rule, ev_would_deny = None,
     ev_operand_decisions = None\<rparr>"

definition refused_with :: "seccomp_notif \<Rightarrow> int \<Rightarrow> notif_resp" where
  "refused_with n e = \<lparr>nresp_id = sn_id n, nresp_val = 0, nresp_error = - e, nresp_flags = 0\<rparr>"

lemma record_raw_then_refuse:
  assumes "bindE (record_event E ts n name RawFact (fixed_decision Deny rule)) (\<lambda>_.
      bindE (answer_error E (sn_id n) e) (\<lambda>_. retE h)) w = (Inr h', w')" and "0 < e"
  shows "h' = h \<and> (\<exists>x. w_log w' = w_log w @ [Append ts (raw_deny n name rule) (Inr ()), Send (refused_with n e) x])"
proof -
  from assms(1) obtain u1 w1 u2 w2 where
    r: "record_event E ts n name RawFact (fixed_decision Deny rule) w = (Inr u1, w1)"
    "answer_error E (sn_id n) e w1 = (Inr u2, w2)" "h' = h" "w' = w2"
    by (auto simp: bindE_Inr retE_def)
  from record_event_Inr [OF r(1)] answer_error_Inr [OF r(2)] r(3,4) assms(2) show ?thesis
    by (auto simp: raw_deny_def refused_with_def fixed_decision_def log_action_def)
qed

section \<open>Properties\<close>

text \<open>
  The denied set in both modes: a call of a foreign ABI, an io_uring call and pidfd_getfd are
  never read, prompted for, forwarded or continued; a handling that returns has appended exactly one
  raw deny event and then answered ENOSYS.
\<close>

theorem denied_set_is_recorded_and_refused:
  assumes "foreign_abi n \<or> sn_nr n \<in> set DENIED_RECORDED"
    and "handle_notification E c n ts w = (Inr h, w')"
  shows "h = Responded \<and> (\<exists>name rule x. w_log w' = w_log w @
    [Append ts (raw_deny n name rule) (Inr ()), Send (refused_with n ENOSYS) x])"
proof -
  from assms obtain name rule where "deny_unsupported E n ts name rule w = (Inr h, w')"
    by (auto simp: handle_notification_def split: if_splits)
  then show ?thesis
    unfolding deny_unsupported_def using record_raw_then_refuse by (fastforce simp: ENOSYS_def)
qed

lemma denied_set_is_recorded_and_refused_witness:
  "\<exists>name rule x. w_log (snd (handle_notification sample_env sample_config (sample_call\<lparr>sn_arch := 0\<rparr>) 2 empty_world)) =
     [] @ [Append 2 (raw_deny (sample_call\<lparr>sn_arch := 0\<rparr>) name rule) (Inr ()),
      Send (refused_with (sample_call\<lparr>sn_arch := 0\<rparr>) ENOSYS) x]"
proof -
  let ?n = "sample_call\<lparr>sn_arch := 0\<rparr>"
  have foreign: "foreign_abi ?n" by (simp add: foreign_abi_def AUDIT_ARCH_X86_64_def)
  have "fst (handle_notification sample_env sample_config ?n 2 empty_world) = Inr Responded"
    by (simp add: handle_notification_def foreign deny_unsupported_def record_event_def
        record_with_operands_def answer_error_def send_error_def send_def tolerate_dead_def act_simps)
  then obtain w' where "handle_notification sample_env sample_config ?n 2 empty_world = (Inr Responded, w')"
    by (metis prod.collapse)
  with denied_set_is_recorded_and_refused [OF disjI1 [OF foreign] this] show ?thesis
    by (simp add: empty_world_def)
qed

section \<open>The gate over the operands\<close>

text \<open>An evaluation lets its access through: an allow, or an ask the operator approved.\<close>

definition lets_through :: "ask_resolution option \<Rightarrow> evaluation \<Rightarrow> bool" where
  "lets_through r eval = (v_decision eval = Allow \<or> v_decision eval = Ask \<and> r = Some Approved)"

lemma finalize_response: "rd_response (finalize_decision eval r) = Allow \<longleftrightarrow> lets_through r eval"
  by (auto simp: finalize_decision_def lets_through_def Let_def split: option.splits)

lemma operand_loop_allow:
  "fst (operand_loop opd r evals fa fd ev) =
     (case fa of Some d \<Rightarrow> Some d | None \<Rightarrow>
       (case evals of [] \<Rightarrow> None | x # xs \<Rightarrow> Some (finalize_decision (snd x) r)))"
proof (induction evals arbitrary: fa fd ev)
  case (Cons x xs)
  obtain a eval where x: "x = (a, eval)" by (cases x)
  show ?case by (simp add: x Let_def Cons.IH split: option.split)
qed (simp split: option.split)

lemma operand_loop_deny:
  "fst (snd (operand_loop opd r evals fa fd ev)) =
     (case fd of Some d \<Rightarrow> Some d | None \<Rightarrow>
       find (\<lambda>d. rd_response d \<noteq> Allow) (map (\<lambda>x. finalize_decision (snd x) r) evals))"
proof (induction evals arbitrary: fa fd ev)
  case (Cons x xs)
  obtain a eval where x: "x = (a, eval)" by (cases x)
  show ?case by (simp add: x Let_def Cons.IH split: option.split)
qed (simp split: option.split)

lemma operand_allows:
  "rd_response (ro_effective (finalize_operand opd evals r)) = Allow \<longleftrightarrow>
   evals \<noteq> [] \<and> list_all (\<lambda>x. lets_through r (snd x)) evals"
proof -
  let ?ds = "map (\<lambda>x. finalize_decision (snd x) r) evals"
  have eff: "ro_effective (finalize_operand opd evals r) =
      (case find (\<lambda>d. rd_response d \<noteq> Allow) ?ds of Some d \<Rightarrow> d
       | None \<Rightarrow> (case ?ds of [] \<Rightarrow> fixed_decision Deny rule_REALIZATION | d # _ \<Rightarrow> d))"
    using operand_loop_allow [of opd r evals None None "[]"] operand_loop_deny [of opd r evals None None "[]"]
    by (cases "operand_loop opd r evals None None []")
      (simp add: finalize_operand_def split: list.split option.split)
  show ?thesis
  proof (cases "find (\<lambda>d. rd_response d \<noteq> Allow) ?ds")
    case None
    then have "\<forall>x \<in> set evals. lets_through r (snd x)"
      by (simp add: find_None_iff finalize_response)
    with None show ?thesis
      unfolding eff by (cases evals) (simp_all add: list_all_iff finalize_response)
  next
    case (Some d)
    then have d: "rd_response d \<noteq> Allow" "d \<in> set ?ds" by (auto simp: find_Some_iff)
    then obtain x where "x \<in> set evals" "\<not> lets_through r (snd x)"
      by (auto simp: finalize_response)
    with Some d(1) show ?thesis by (auto simp: eff list_all_iff)
  qed
qed

lemma evaluate_required:
  "fst (evaluate_required_fs c p accs asks) =
     map (\<lambda>a. (a, tracked_evaluation c (FsRequest (to_string_lossy p) [a]))) accs"
  by (induction accs arbitrary: asks) (simp_all add: evaluate_tracked_def Let_def case_prod_beta)

text \<open>Every required access of an operand, evaluated alone, is let through; and there is one.\<close>

definition all_let_through ::
  "run_config \<Rightarrow> ask_resolution option \<Rightarrow> path \<Rightarrow> fs_access list \<Rightarrow> bool" where
  "all_let_through c r p accs = (accs \<noteq> [] \<and>
     list_all (\<lambda>a. lets_through r (tracked_evaluation c (FsRequest (to_string_lossy p) [a]))) accs)"

lemma operand_allows_required:
  "rd_response (ro_effective (finalize_operand opd (fst (evaluate_required_fs c p accs asks)) r)) = Allow \<longleftrightarrow>
   all_let_through c r p accs"
  by (simp add: operand_allows evaluate_required all_let_through_def list.pred_map comp_def)

text \<open>
  C11. An enforced call is allowed only as a whole: the decision over the pinned operands is an allow
  exactly if every access the call requires of every operand, evaluated alone against the path the
  broker has pinned, is an allow, or an ask under the one answer that was given for the whole call.
\<close>

theorem enforced_call_needs_every_access:
  "\<exists>r. case decide_operands E c access invo primary secondary w of
     (Inl _, _) \<Rightarrow> False
   | (Inr (d, ops), w') \<Rightarrow>
       (\<exists>asks. settle_asks E c asks w = (Inr r :: run_error + ask_resolution option, w')) \<and>
       (rd_response d = Allow) =
         (all_let_through c r (pp_identity primary) (primary_access invo access) \<and>
          (case secondary of None \<Rightarrow> True
           | Some s \<Rightarrow> all_let_through c r (pp_identity s) (secondary_access invo (pp_exists s))))"
proof -
  obtain ev1 asks1 where e1: "evaluate_required_fs c (pp_identity primary) (primary_access invo access) [] = (ev1, asks1)"
    by (cases "evaluate_required_fs c (pp_identity primary) (primary_access invo access) []")
  have gate1: "rd_response (ro_effective (finalize_operand opd ev1 r)) = Allow \<longleftrightarrow>
      all_let_through c r (pp_identity primary) (primary_access invo access)" for opd r
    using operand_allows_required [of opd c "pp_identity primary" "primary_access invo access" "[]" r]
    by (simp add: e1)
  have settle: "\<exists>r w'. settle_asks E c asks w = (Inr r :: run_error + ask_resolution option, w')" for asks
    by (auto simp: settle_asks_def retE_def bindE_def call_eq split: attendance.split)
  show ?thesis
  proof (cases secondary)
    case None
    from settle [of asks1] obtain r w' where
      s: "settle_asks E c asks1 w = (Inr r :: run_error + ask_resolution option, w')" by blast
    show ?thesis
      by (rule exI [of _ r], insert s)
        (auto simp: decide_operands_def e1 None bindE_def retE_def Let_def gate1)
  next
    case (Some t)
    obtain ev2 asks2 where e2: "evaluate_required_fs c (pp_identity t) (secondary_access invo (pp_exists t)) asks1 = (ev2, asks2)"
      by (cases "evaluate_required_fs c (pp_identity t) (secondary_access invo (pp_exists t)) asks1")
    have gate2: "rd_response (ro_effective (finalize_operand opd ev2 r)) = Allow \<longleftrightarrow>
        all_let_through c r (pp_identity t) (secondary_access invo (pp_exists t))" for opd r
      using operand_allows_required [of opd c "pp_identity t" "secondary_access invo (pp_exists t)" asks1 r]
      by (simp add: e2)
    from settle [of asks2] obtain r w' where
      s: "settle_asks E c asks2 w = (Inr r :: run_error + ask_resolution option, w')" by blast
    show ?thesis
      by (rule exI [of _ r], insert s)
        (auto simp: decide_operands_def e1 e2 Some bindE_def retE_def Let_def gate1 gate2)
  qed
qed

section \<open>Record-only runs\<close>

lemma record_only_evaluates_to_allow:
  "rc_mode c = RecordOnly \<Longrightarrow> v_decision (tracked_evaluation c req) = Allow"
  by (simp add: tracked_evaluation_def evaluate_def Let_def split: option.split prod.split)

text \<open>
  A record-only run decides nothing: every request is allowed at once, without asking anybody,
  whatever the policy says.
\<close>

theorem record_only_allows_silently:
  assumes "rc_mode c = RecordOnly"
  shows "\<exists>d. resolve_decision E c req w = (Inr d, w) \<and> rd_event d = Allow \<and> rd_response d = Allow"
  using record_only_evaluates_to_allow [OF assms, of req]
  by (simp add: resolve_decision_def evaluate_tracked_def settle_asks_def finalize_decision_def
      bindE_def retE_def Let_def)

lemma record_only_allows_silently_witness:
  "\<exists>d. resolve_decision sample_env (config_record_only 7 Attended) (ExecRequest ''/bin/sh'') empty_world =
     (Inr d :: run_error + resolved_decision, empty_world) \<and> rd_event d = Allow \<and> rd_response d = Allow"
  by (rule record_only_allows_silently) (simp add: config_record_only_def)

section \<open>The process tree\<close>

lemma read_status_log:
  "read_status E pid w = (r, w') \<Longrightarrow> \<exists>x. w_log w' = w_log w @ [ReadStatus pid x]"
  by (auto simp: read_status_def bindE_def call_eq liftE_def retE_def failE_def log_action_def
      split: sum.splits)

lemma parent_pid_log:
  assumes "parent_pid E pid w = (r, w')"
  shows "\<exists>x. w_log w' = w_log w @ [ReadStatus pid x]"
proof -
  obtain s w1 where s: "read_status E pid w = (s, w1)" by (cases "read_status E pid w")
  from assms s have "w' = w1"
    by (auto simp: parent_pid_def bindE_def liftE_def retE_def failE_def split: sum.splits)
  with read_status_log [OF s] show ?thesis by simp
qed

text \<open>
  The walk up the process tree ends: whatever the status files say, it reads at most 256 of them
  and does nothing else, so a cycle or a deeper tree is not taken for a member.
\<close>

theorem tree_walk_is_bounded:
  "\<exists>as. w_log (snd (process_in_tree E root target w)) = w_log w @ as \<and> length as \<le> 256 \<and>
     filter (\<lambda>a. case a of ReadStatus _ _ \<Rightarrow> False | _ \<Rightarrow> True) as = []"
proof -
  have "\<exists>as. w_log (snd (tree_walk E root k current w)) = w_log w @ as \<and> length as \<le> k \<and>
      filter (\<lambda>a. case a of ReadStatus _ _ \<Rightarrow> False | _ \<Rightarrow> True) as = []" for k current w
  proof (induction k arbitrary: current w)
    case (Suc k)
    obtain r w1 where r: "parent_pid E current w = (r, w1)" by (cases "parent_pid E current w")
    from parent_pid_log [OF r] obtain x where w1: "w_log w1 = w_log w @ [ReadStatus current x]" by blast
    show ?case
    proof (cases "current = root \<or> current \<le> 1")
      case True
      then show ?thesis by (auto simp: retE_def)
    next
      case False
      show ?thesis
      proof (cases r)
        case (Inl e)
        with False r w1 show ?thesis by (auto simp: bindE_def)
      next
        case (Inr p)
        from Suc.IH [of p w1] obtain as where
          "w_log (snd (tree_walk E root k p w1)) = w_log w1 @ as" "length as \<le> k"
          "filter (\<lambda>a. case a of ReadStatus _ _ \<Rightarrow> False | _ \<Rightarrow> True) as = []" by blast
        with False r w1 Inr show ?thesis
          by (intro exI [of _ "ReadStatus current x # as"]) (simp add: bindE_def)
      qed
    qed
  qed (simp add: retE_def)
  then show ?thesis unfolding process_in_tree_def .
qed

section \<open>Socket addresses\<close>

text \<open>
  A destination is decided under its IPv4 meaning: the address read from the caller is never an
  IPv4-mapped IPv6 address, so no IPv4 rule can be avoided by writing the address as IPv6.
\<close>

theorem parsed_address_is_normal:
  assumes "parse_sockaddr bs = Inr (ip, port)"
  shows "normalize_ip ip = ip \<and> 8 \<le> length bs"
  using assms by (auto simp: parse_sockaddr_def Let_def split: if_splits option.splits)

lemma parsed_address_is_normal_witness:
  "normalize_ip (V4 0x7F000001) = V4 0x7F000001 \<and> 8 \<le> length ([2,0,0,80,127,0,0,1] :: bytes)"
proof (rule parsed_address_is_normal)
  show "parse_sockaddr [2,0,0,80,127,0,0,1] = Inr (V4 0x7F000001, 80)"
    by (simp add: parse_sockaddr_def le_word_def be_word_def AF_INET_def)
qed

section \<open>The end of the loop\<close>

named_theorems extends_rules \<open>operations only add to the log\<close>

definition extends :: "('e, 'a) act \<Rightarrow> bool" where
  "extends m = (\<forall>w. \<exists>as. w_log (snd (m w)) = w_log w @ as)"

lemma extends_retE [extends_rules]: "extends (retE x)"
  by (simp add: extends_def retE_def)

lemma extends_failE [extends_rules]: "extends (failE e)"
  by (simp add: extends_def failE_def)

lemma extends_call [extends_rules]: "extends (call answer mk)"
  by (simp add: extends_def call_eq log_action_def)

lemma extends_tryE [extends_rules]: "extends m \<Longrightarrow> extends (tryE m)"
  by (simp add: extends_def tryE_def split: prod.split) (metis snd_conv)

lemma extends_bindE [extends_rules]:
  assumes "extends m" and "\<And>x. extends (f x)"
  shows "extends (bindE m f)"
proof (unfold extends_def, rule allI)
  fix w
  obtain r w1 where m: "m w = (r, w1)" by (cases "m w")
  from assms(1) m obtain as where as: "w_log w1 = w_log w @ as" unfolding extends_def by (metis snd_conv)
  show "\<exists>as. w_log (snd (bindE m f w)) = w_log w @ as"
  proof (cases r)
    case (Inl e)
    with m as show ?thesis by (simp add: bindE_def)
  next
    case (Inr x)
    from assms(2) [of x] obtain bs where "w_log (snd (f x w1)) = w_log w1 @ bs"
      unfolding extends_def by blast
    with m as Inr show ?thesis by (simp add: bindE_def)
  qed
qed

lemma extends_if [extends_rules]: "extends m \<Longrightarrow> extends m' \<Longrightarrow> extends (if b then m else m')"
  by simp

lemma extends_sum [extends_rules]:
  "(\<And>e. extends (f e)) \<Longrightarrow> (\<And>x. extends (g x)) \<Longrightarrow>
   extends (case r of Inl e \<Rightarrow> f e | Inr x \<Rightarrow> g x)"
  by (cases r) simp_all

lemma extends_handling:
  assumes "sane_errors E"
  shows "extends (handle_notification E c n t)"
  unfolding extends_def using wpD [OF handles_notification [OF assms]] by (metis prod.collapse)

lemma extends_at_time:
  assumes "\<And>t. extends (m t)" and "\<And>x. extends (k x)"
  shows "extends (\<lambda>w. bindE (m (g w)) k w)"
proof -
  have "extends (bindE (m t) k)" for t by (intro extends_bindE assms)
  then show ?thesis unfolding extends_def by blast
qed

lemma extends_abort_run [extends_rules]: "extends (abort_run E)"
  unfolding abort_run_def by (intro extends_rules)

lemma extends_send_error [extends_rules]: "extends (send_error E nid e)"
  unfolding send_error_def send_def by (intro extends_rules)

lemma loop_turn_grows:
  assumes "sane_errors E" and "loop_turn E c w = (r, w')"
  shows "length (w_log w) < length (w_log w')"
proof -
  let ?p = "env_poll E (w_log w)"
  let ?w1 = "log_action (Poll ?p) w"
  obtain f where f: "loop_turn E c = bindE (call (\<lambda>h. env_poll E h) Poll) f" and ext: "\<And>x. extends (f x)"
  proof
    show "loop_turn E c = bindE (call (\<lambda>h. env_poll E h) Poll) (\<lambda>r. case r of
       Inl e \<Rightarrow>
         if e = Some EINTR then retE None
         else bindE (abort_run E) (\<lambda>_. failE (NotifyFailed e))
     | Inr revents \<Rightarrow>
         if revents AND POLLIN \<noteq> 0 then
           bindE (call (\<lambda>h. env_recv E h) Recv) (\<lambda>got.
           case got of
             Inl e \<Rightarrow>
               if e = Some EINTR \<or> e = Some ENOENT then retE None
               else bindE (abort_run E) (\<lambda>_. failE (NotifyFailed e))
           | Inr n \<Rightarrow>
               (\<lambda>w. bindE (tryE (handle_notification E c n (env_now_ms E (w_log w)))) (\<lambda>h.
                    case h of
                      Inr _ \<Rightarrow> retE None
                    | Inl e \<Rightarrow>
                        bindE (send_error E (sn_id n) EIO) (\<lambda>_.
                        bindE (abort_run E) (\<lambda>_. failE e))) w))
         else if revents AND (POLLHUP OR POLLERR OR POLLNVAL) \<noteq> 0 then retE (Some ())
         else retE None)"
      by (rule loop_turn_def)
  qed (intro extends_rules extends_at_time extends_handling assms(1))
  from assms(2) f have "f ?p ?w1 = (r, w')"
    by (simp add: bindE_def call_eq)
  with ext [of ?p] obtain as where "w_log w' = w_log ?w1 @ as" unfolding extends_def by (metis snd_conv)
  then show ?thesis by (simp add: log_action_def)
qed

lemma hangup_turn:
  assumes "env_poll E (w_log w) = Inr POLLHUP"
  shows "fst (loop_turn E c w) = Inr (Some ())"
  using assms by (simp add: loop_turn_def bindE_def call_eq retE_def abi_defs)

text \<open>
  C27. The loop ends when the filter's last user is gone: if the notify fd reports a hangup from some
  point of the log on, the run returns (with a status or an error) within one turn more than the
  log has to grow; a turn cannot go by without a poll, so the loop never spins.
\<close>

theorem run_ends_on_hangup:
  assumes sane: "sane_errors E" and hup: "\<And>h. N \<le> length h \<Longrightarrow> env_poll E h = Inr POLLHUP"
  shows "run_loop (Suc N) E c w \<noteq> None"
proof -
  have "serve (Suc j) E c' w \<noteq> None" if "N \<le> length (w_log w) + j" for j c' w
    using that
  proof (induction j arbitrary: w)
    case 0
    then have "fst (loop_turn E c' w) = Inr (Some ())" by (intro hangup_turn hup) simp
    then show ?case by (cases "loop_turn E c' w") simp
  next
    case (Suc j)
    obtain r w1 where t: "loop_turn E c' w = (r, w1)" by (cases "loop_turn E c' w")
    from loop_turn_grows [OF sane t] Suc.prems have "N \<le> length (w_log w1) + j" by simp
    from Suc.IH [OF this] show ?case
      unfolding serve.simps(2) [of "Suc j"] t
      by (auto simp del: serve.simps split: sum.split option.split)
  qed
  then have served: "serve (Suc N) E c' w \<noteq> None" for c' by simp
  show ?thesis
  proof (cases "validate_config c")
    case (Inr c')
    with served [of c'] show ?thesis
      by (auto simp: run_loop_def simp del: serve.simps split: sum.split)
  qed (simp add: run_loop_def)
qed

lemma run_ends_on_hangup_witness: "run_loop (Suc 0) sample_env sample_config empty_world \<noteq> None"
  by (rule run_ends_on_hangup) (simp_all add: POLLHUP_def)

section \<open>Behaviours the code does not mean to have\<close>

text \<open>
  The legacy \<open>creat\<close> call is never served. Its table entry has a fixed access, so the handler
  looks for a mutation of that number, finds none, and takes the failure for an untrusted read: in
  both modes, and under any policy, a handling that returns with the caller alive has appended a raw
  deny and answered EACCES.
\<close>

theorem creat_is_always_refused:
  assumes "sn_nr n = NR_CREAT" and "\<not> foreign_abi n"
    and "handle_notification E c n ts w = (Inr Responded, w')"
  shows "\<exists>pre x. w_log w' = w_log w @ pre @
     [Append ts (raw_deny n ''creat'' rule_MEMORY_READ) (Inr ()), Send (refused_with n EACCES) x]"
proof -
  let ?sh = "shape ''creat'' (pa_cwd 0) None (Fixed [AccWrite, AccCreate])"
  have table: "fs_shape NR_CREAT = Some ?sh" "NR_CREAT \<notin> set DENIED_RECORDED"
    by (simp_all add: fs_shape_def abi_defs DENIED_RECORDED_def)
  have no_invocation: "mutation_invocation NR_CREAT n p = Inl (MemIo (Some ENOSYS))" for p
    by (simp add: mutation_invocation_def abi_defs)
  have ungathered: "fst (gather_fs E c n ?sh w1) \<noteq> Inr v" for w1 v
    by (auto simp: gather_fs_def bindE_def shape_def gather_access_def assms(1) no_invocation liftE_def
        failE_def retE_def split: prod.splits sum.splits)
  from assms(3) have run: "handle_fs E n c ts ?sh w = (Inr Responded, w')"
    by (simp add: handle_notification_def assms(1,2) table)
  have valid: "extends (still_valid E (sn_id n))"
    unfolding still_valid_def id_valid_def liftE_def by (intro extends_rules)
  have gathering: "extends (gather_fs E c n ?sh)"
    using rd.wp_gather_fs [of n n "\<lambda>_ _. True" E c ?sh] unfolding wp_def extends_def
    by (metis prod.collapse)
  obtain ra wa where a: "still_valid E (sn_id n) w = (ra, wa)" by (metis surj_pair)
  obtain g wb where b: "gather_fs E c n ?sh wa = (g, wb)" by (metis surj_pair)
  obtain rc wc where c: "still_valid E (sn_id n) wb = (rc, wc)" by (metis surj_pair)
  have name: "fs_name ?sh = ''creat''" by (simp add: shape_def)
  from ungathered [of wa] b obtain e where e: "g = Inl e" by (cases g) auto
  have "ra = Inr True \<and> rc = Inr True \<and> deny_unreadable E n ts ''creat'' wc = (Inr Responded, w')"
    using run a b c e by (simp add: handle_fs_def bindE_def tryE_def retE_def name split: sum.splits if_splits)
  then have d: "deny_unreadable E n ts ''creat'' wc = (Inr Responded, w')" by simp
  from valid gathering a b c obtain as where "w_log wc = w_log w @ as"
    unfolding extends_def by (metis append.assoc snd_conv)
  moreover obtain x where "w_log w' = w_log wc @
      [Append ts (raw_deny n ''creat'' rule_MEMORY_READ) (Inr ()), Send (refused_with n EACCES) x]"
    using record_raw_then_refuse [OF d [unfolded deny_unreadable_def]] by (auto simp: EACCES_def)
  ultimately show ?thesis by simp
qed

lemma sample_creat:
  "fst (handle_notification sample_env sample_config (sample_notif NR_CREAT [4095,0,0,0,0,0]) 2 empty_world) =
     Inr Responded"
proof -
  let ?n = "sample_notif NR_CREAT [4095,0,0,0,0,0]"
  let ?sh = "shape ''creat'' (pa_cwd 0) None (Fixed [AccWrite, AccCreate])"
  have table: "fs_shape NR_CREAT = Some ?sh" "NR_CREAT \<notin> set DENIED_RECORDED" "\<not> foreign_abi ?n"
    by (simp_all add: fs_shape_def abi_defs DENIED_RECORDED_def foreign_abi_def sample_notif_def)
  have "mutation_invocation (sn_nr ?n) ?n p = Inl (MemIo (Some ENOSYS))" for p
    by (simp add: mutation_invocation_def sample_notif_def abi_defs)
  then have gather: "\<exists>w'. gather_fs sample_env c ?n ?sh w = (Inl (MemIo (Some ENOSYS)), w')" for c w
    by (simp add: gather_fs_def shape_def sample_read_anchored gather_access_def bindE_def liftE_def
        retE_def failE_def)
  have nr: "sn_nr ?n = NR_CREAT" by (simp add: sample_notif_def)
  obtain w' where g: "gather_fs sample_env sample_config ?n ?sh (log_action (IdValid (sn_id ?n) (Inr ())) empty_world) =
      (Inl (MemIo (Some ENOSYS)), w')" using gather by blast
  show ?thesis
    by (simp add: handle_notification_def nr table handle_fs_def bindE_def sample_valid tryE_def g
        deny_unreadable_def record_event_def sample_record answer_error_def send_error_def send_def
        call_eq tolerate_dead_def retE_def)
qed

lemma creat_is_always_refused_witness:
  "\<exists>pre x. w_log (snd (handle_notification sample_env sample_config
       (sample_notif NR_CREAT [4095,0,0,0,0,0]) 2 empty_world)) = [] @ pre @
     [Append 2 (raw_deny (sample_notif NR_CREAT [4095,0,0,0,0,0]) ''creat'' rule_MEMORY_READ) (Inr ()),
      Send (refused_with (sample_notif NR_CREAT [4095,0,0,0,0,0]) EACCES) x]"
proof -
  let ?n = "sample_notif NR_CREAT [4095,0,0,0,0,0]"
  obtain w' where "handle_notification sample_env sample_config ?n 2 empty_world = (Inr Responded, w')"
    using sample_creat by (metis prod.collapse)
  from creat_is_always_refused [OF _ _ this] this show ?thesis
    by (simp add: foreign_abi_def sample_notif_def abi_defs empty_world_def)
qed

text \<open>
  One bad descriptor ends the run. When an allowed \<open>connect\<close>, \<open>bind\<close> or \<open>sendto\<close> names a
  descriptor outside the range of an \<open>i32\<close> (\<open>-1\<close> in a 32-bit or in a 64-bit register), the handler
  fails instead of answering EBADF as it does for any other bad descriptor; the loop then kills the
  child.
\<close>

theorem bad_descriptor_aborts_run:
  assumes "2 ^ 31 \<le> unat (sn_args n ! 0)" and "env_id_valid E (w_log w) (sn_id n) = Inr ()"
  shows "fst (realize_network E n c sa pl w) = Inl (NotifyFailed (Some EBADF))"
  using assms by (simp add: realize_network_def still_valid_def id_valid_def bindE_def call_eq liftE_def
      retE_def failE_def)

lemma bad_descriptor_aborts_run_witness:
  "fst (realize_network sample_env (sample_notif NR_CONNECT [0xFFFFFFFF,0,16,0,0,0]) sample_config [] [] empty_world) =
     Inl (NotifyFailed (Some EBADF))"
proof (rule bad_descriptor_aborts_run)
  show "2 ^ 31 \<le> unat (sn_args (sample_notif NR_CONNECT [0xFFFFFFFF,0,16,0,0,0]) ! 0)"
    by (simp add: sample_notif_def)
qed simp

end
