(* ===== verification/Landlock.thy ===== *)
theory Landlock imports Effect Engine "HOL-Library.List_Lexorder" begin

text \<open>
  \<open>src/src/sandbox/landlock.rs\<close>: the Landlock hull derived from a policy, and the ruleset built
  from it. The hull is the kernel's backstop: whatever the policy may allow lies inside it. The
  kernel calls of the second half (and the two file system queries of the anchor search) are
  answered by an environment and logged.
\<close>

section \<open>Rights\<close>

definition ACCESS_FS_EXECUTE :: u64 where [abi_defs]: "ACCESS_FS_EXECUTE = 0x1"
definition ACCESS_FS_WRITE_FILE :: u64 where [abi_defs]: "ACCESS_FS_WRITE_FILE = 0x2"
definition ACCESS_FS_READ_FILE :: u64 where [abi_defs]: "ACCESS_FS_READ_FILE = 0x4"
definition ACCESS_FS_READ_DIR :: u64 where [abi_defs]: "ACCESS_FS_READ_DIR = 0x8"
definition ACCESS_FS_REMOVE_DIR :: u64 where [abi_defs]: "ACCESS_FS_REMOVE_DIR = 0x10"
definition ACCESS_FS_REMOVE_FILE :: u64 where [abi_defs]: "ACCESS_FS_REMOVE_FILE = 0x20"
definition ACCESS_FS_MAKE_CHAR :: u64 where [abi_defs]: "ACCESS_FS_MAKE_CHAR = 0x40"
definition ACCESS_FS_MAKE_DIR :: u64 where [abi_defs]: "ACCESS_FS_MAKE_DIR = 0x80"
definition ACCESS_FS_MAKE_REG :: u64 where [abi_defs]: "ACCESS_FS_MAKE_REG = 0x100"
definition ACCESS_FS_MAKE_SOCK :: u64 where [abi_defs]: "ACCESS_FS_MAKE_SOCK = 0x200"
definition ACCESS_FS_MAKE_FIFO :: u64 where [abi_defs]: "ACCESS_FS_MAKE_FIFO = 0x400"
definition ACCESS_FS_MAKE_BLOCK :: u64 where [abi_defs]: "ACCESS_FS_MAKE_BLOCK = 0x800"
definition ACCESS_FS_MAKE_SYM :: u64 where [abi_defs]: "ACCESS_FS_MAKE_SYM = 0x1000"
definition ACCESS_FS_REFER :: u64 where [abi_defs]: "ACCESS_FS_REFER = 0x2000"
definition ACCESS_FS_TRUNCATE :: u64 where [abi_defs]: "ACCESS_FS_TRUNCATE = 0x4000"
definition ACCESS_NET_BIND_TCP :: u64 where [abi_defs]: "ACCESS_NET_BIND_TCP = 0x1"
definition ACCESS_NET_CONNECT_TCP :: u64 where [abi_defs]: "ACCESS_NET_CONNECT_TCP = 0x2"

definition ABI_TRUNCATE :: nat where "ABI_TRUNCATE = 3"
definition ABI_NET :: nat where "ABI_NET = 4"

definition FS_READ_RIGHTS :: u64 where
  "FS_READ_RIGHTS = ACCESS_FS_READ_FILE OR ACCESS_FS_READ_DIR"

definition FS_WRITE_RIGHTS :: u64 where
  "FS_WRITE_RIGHTS = ACCESS_FS_WRITE_FILE OR ACCESS_FS_TRUNCATE"

definition FS_CREATE_RIGHTS :: u64 where
  "FS_CREATE_RIGHTS = ACCESS_FS_MAKE_CHAR OR ACCESS_FS_MAKE_DIR OR ACCESS_FS_MAKE_REG OR
     ACCESS_FS_MAKE_SOCK OR ACCESS_FS_MAKE_FIFO OR ACCESS_FS_MAKE_BLOCK OR ACCESS_FS_MAKE_SYM OR
     ACCESS_FS_REFER"

definition FS_DELETE_RIGHTS :: u64 where
  "FS_DELETE_RIGHTS = ACCESS_FS_REMOVE_DIR OR ACCESS_FS_REMOVE_FILE OR ACCESS_FS_REFER OR
     ACCESS_FS_TRUNCATE"

definition FS_DIRECTORY_ONLY_RIGHTS :: u64 where
  "FS_DIRECTORY_ONLY_RIGHTS = ACCESS_FS_READ_DIR OR ACCESS_FS_REMOVE_DIR OR ACCESS_FS_MAKE_CHAR OR
     ACCESS_FS_MAKE_DIR OR ACCESS_FS_MAKE_REG OR ACCESS_FS_MAKE_SOCK OR ACCESS_FS_MAKE_FIFO OR
     ACCESS_FS_MAKE_BLOCK OR ACCESS_FS_MAKE_SYM OR ACCESS_FS_REFER"

definition anchor_rights :: "u64 \<Rightarrow> bool \<Rightarrow> u64" where
  "anchor_rights rights is_directory =
     (if is_directory then rights else rights AND NOT FS_DIRECTORY_ONLY_RIGHTS)"

lemmas rights_defs = FS_READ_RIGHTS_def FS_WRITE_RIGHTS_def FS_CREATE_RIGHTS_def
  FS_DELETE_RIGHTS_def FS_DIRECTORY_ONLY_RIGHTS_def

section \<open>The order of paths\<close>

text \<open>\<open>Ord\<close> of Rust's \<open>Component\<close>: by kind, normal components by their bytes; \<open>Path\<close> compares
  component lists lexicographically. \<open>BTreeMap\<close> keeps its keys in this order.\<close>

fun component_key :: "path_component \<Rightarrow> nat list" where
  "component_key RootDir = [1]"
| "component_key CurDir = [2]"
| "component_key ParentDir = [3]"
| "component_key (Normal s) = 4 # map code s"

lemma code_inj: "code a = code b \<Longrightarrow> a = b"
  by (simp add: code_def)

lemma component_key_inj: "component_key a = component_key b \<Longrightarrow> a = b"
proof -
  have "map code s = map code t \<Longrightarrow> s = t" for s t
    using code_inj by (simp add: inj_map_eq_map injI)
  then show "component_key a = component_key b \<Longrightarrow> a = b"
    by (cases a; cases b) auto
qed

instantiation path_component :: linorder
begin

definition less_eq_path_component :: "path_component \<Rightarrow> path_component \<Rightarrow> bool" where
  "less_eq_path_component a b = (component_key a \<le> component_key b)"

definition less_path_component :: "path_component \<Rightarrow> path_component \<Rightarrow> bool" where
  "less_path_component a b = (component_key a < component_key b)"

instance
  by standard (auto simp: less_eq_path_component_def less_path_component_def intro: component_key_inj)

end

section \<open>The hull\<close>

record fs_grant =
  fg_root :: path
  fg_allowed_access :: u64

datatype net_grant = NetNone | NetAll | NetPorts "nat list"

record landlock_hull =
  lh_fs :: "fs_grant list"
  lh_net :: net_grant
  lh_handled_access_fs :: u64
  lh_handled_access_net :: u64
  lh_residuals :: "string list"

definition RESIDUAL_TCP_HOST :: string where
  "RESIDUAL_TCP_HOST = ''landlock:tcp_host''"

definition RESIDUAL_FS_TRUNCATE :: string where
  "RESIDUAL_FS_TRUNCATE = ''landlock:fs_truncate_abi_lt_3''"

definition RESIDUAL_TCP_PORT :: string where
  "RESIDUAL_TCP_PORT = ''landlock:tcp_port_abi_lt_4''"

definition handled_fs_rights :: "nat \<Rightarrow> u64" where
  "handled_fs_rights abi =
     (let rights = ACCESS_FS_EXECUTE OR ACCESS_FS_WRITE_FILE OR ACCESS_FS_READ_FILE OR
            ACCESS_FS_READ_DIR OR ACCESS_FS_REMOVE_DIR OR ACCESS_FS_REMOVE_FILE OR
            ACCESS_FS_MAKE_CHAR OR ACCESS_FS_MAKE_DIR OR ACCESS_FS_MAKE_REG OR
            ACCESS_FS_MAKE_SOCK OR ACCESS_FS_MAKE_FIFO OR ACCESS_FS_MAKE_BLOCK OR
            ACCESS_FS_MAKE_SYM OR ACCESS_FS_REFER
      in if abi \<ge> ABI_TRUNCATE then rights OR ACCESS_FS_TRUNCATE else rights)"

fun mode_rights :: "fs_mode \<Rightarrow> u64" where
  "mode_rights ModeRead = FS_READ_RIGHTS"
| "mode_rights ModeWrite = FS_WRITE_RIGHTS"
| "mode_rights ModeCreate = FS_CREATE_RIGHTS"
| "mode_rights ModeDelete = FS_DELETE_RIGHTS"

definition fs_modes_to_rights :: "fs_mode list \<Rightarrow> nat \<Rightarrow> u64" where
  "fs_modes_to_rights modes abi =
     fold (\<lambda>m rights. rights OR mode_rights m) modes 0 AND handled_fs_rights abi"

text \<open>\<open>entry(root).and_modify(|e| *e |= rights).or_insert(rights)\<close> on the ordered map; an equal key
  keeps its first text.\<close>

fun add_fs_grant :: "fs_grant list \<Rightarrow> path \<Rightarrow> u64 \<Rightarrow> fs_grant list" where
  "add_fs_grant [] root rights = [\<lparr>fg_root = root, fg_allowed_access = rights\<rparr>]"
| "add_fs_grant (g # gs) root rights =
     (if components root = components (fg_root g)
      then g\<lparr>fg_allowed_access := fg_allowed_access g OR rights\<rparr> # gs
      else if components root < components (fg_root g)
      then \<lparr>fg_root = root, fg_allowed_access = rights\<rparr> # g # gs
      else g # add_fs_grant gs root rights)"

definition is_meta :: "char \<Rightarrow> bool" where
  "is_meta c = (c = CHR ''*'' \<or> c = CHR ''?'')"

text \<open>\<open>rfind('/')\<close>.\<close>

fun rfind_slash :: "nat \<Rightarrow> string \<Rightarrow> nat option \<Rightarrow> nat option" where
  "rfind_slash i [] found = found"
| "rfind_slash i (c # cs) found = rfind_slash (Suc i) cs (if c = CHR ''/'' then Some i else found)"

definition trim_end_slashes :: "string \<Rightarrow> string" where
  "trim_end_slashes s = rev (dropWhile (\<lambda>c. c = CHR ''/'') (rev s))"

definition hierarchy_root_from_glob :: "string \<Rightarrow> path" where
  "hierarchy_root_from_glob pattern =
     (let literal = takeWhile (\<lambda>c. \<not> is_meta c) pattern
      in if length literal = length pattern then literal
         else if ends_with ''/'' literal
         then (let root = trim_end_slashes literal in if root = [] then ''/'' else root)
         else if literal = [] then ''/''
         else (case rfind_slash 0 literal None of
                 Some i \<Rightarrow> if i = 0 then ''/'' else take i literal
               | None \<Rightarrow> ''.''))"

fun permits :: "action \<Rightarrow> bool" where
  "permits AllowAction = True"
| "permits AskAction = True"
| "permits DenyAction = False"

text \<open>\<open>BTreeSet\<close> of ports: ascending, no duplicates. A rule without a port returns at once.\<close>

fun derive_ports :: "net_rule list \<Rightarrow> nat list \<Rightarrow> net_grant" where
  "derive_ports [] ports = (if ports = [] then NetNone else NetPorts ports)"
| "derive_ports (r # rs) ports =
     (if \<not> permits (nr_action r) then derive_ports rs ports
      else (case nr_port r of
              None \<Rightarrow> NetAll
            | Some port \<Rightarrow> derive_ports rs (insort_insert port ports)))"

definition derive_net_grant :: "policy \<Rightarrow> net_grant" where
  "derive_net_grant p = derive_ports (p_net p) []"

definition policy_uses_truncate :: "policy \<Rightarrow> bool" where
  "policy_uses_truncate p = list_ex (\<lambda>r. List.member (fr_mode r) ModeWrite) (p_fs p)"

definition add_fs_rule :: "nat \<Rightarrow> fs_grant list \<Rightarrow> fs_rule \<Rightarrow> fs_grant list" where
  "add_fs_rule abi gs r =
     (if permits (fr_action r)
      then add_fs_grant gs (hierarchy_root_from_glob (as_str (fr_path r))) (fs_modes_to_rights (fr_mode r) abi)
      else gs)"

definition add_exec_rule :: "fs_grant list \<Rightarrow> exec_rule \<Rightarrow> fs_grant list" where
  "add_exec_rule gs r =
     (if permits (er_action r)
      then add_fs_grant gs (hierarchy_root_from_glob (as_str (er_binary r))) ACCESS_FS_EXECUTE
      else gs)"

definition derive_hull :: "policy \<Rightarrow> nat \<Rightarrow> landlock_hull" where
  "derive_hull p abi =
     (let workspace = add_fs_grant [] (p_workspace p)
            (fs_modes_to_rights [ModeRead, ModeWrite, ModeCreate, ModeDelete] abi);
          fs = foldl add_exec_rule (foldl (add_fs_rule abi) workspace (p_fs p)) (p_exec p)
      in \<lparr>lh_fs = fs,
          lh_net = derive_net_grant p,
          lh_handled_access_fs = handled_fs_rights abi,
          lh_handled_access_net =
            (if abi \<ge> ABI_NET then ACCESS_NET_BIND_TCP OR ACCESS_NET_CONNECT_TCP else 0),
          lh_residuals = [RESIDUAL_TCP_HOST] @
            (if policy_uses_truncate p \<and> abi < ABI_TRUNCATE then [RESIDUAL_FS_TRUNCATE] else []) @
            (if p_net p \<noteq> [] \<and> abi < ABI_NET then [RESIDUAL_TCP_PORT] else [])\<rparr>)"

section \<open>Building the ruleset\<close>

record root_anchor =
  ra_root :: path
  ra_allowed_access :: u64
  ra_fd :: fd

record prepared_ruleset =
  pr_ruleset :: fd
  pr_anchors :: "root_anchor list"

datatype landlock_error =
    PathNul path
  | OpenHierarchy path io_error
  | CreateFailed io_error
  | AddRule string io_error

datatype landlock_call =
    PathExists path bool
  | Canonicalize path "io_error + path"
  | OpenPath path "io_error + fd"
  | FstatMode fd "io_error + u32"
  | CreateRuleset u64 u64 nat "io_error + fd"
  | AddPathRule fd u64 fd "io_error + unit"
  | AddNetRule fd u64 u64 "io_error + unit"
  | CloseLandlockFd fd

record landlock_kernel =
  lk_exists :: "landlock_call list \<Rightarrow> path \<Rightarrow> bool"
  lk_canonicalize :: "landlock_call list \<Rightarrow> path \<Rightarrow> io_error + path"
  lk_open :: "landlock_call list \<Rightarrow> path \<Rightarrow> io_error + fd"
  lk_fstat :: "landlock_call list \<Rightarrow> fd \<Rightarrow> io_error + u32"
  lk_create :: "landlock_call list \<Rightarrow> u64 \<Rightarrow> u64 \<Rightarrow> nat \<Rightarrow> io_error + fd"
  lk_add_path :: "landlock_call list \<Rightarrow> fd \<Rightarrow> u64 \<Rightarrow> fd \<Rightarrow> io_error + unit"
  lk_add_net :: "landlock_call list \<Rightarrow> fd \<Rightarrow> u64 \<Rightarrow> u64 \<Rightarrow> io_error + unit"

type_synonym 'a landlock_act = "(landlock_call list, landlock_error, 'a) eff"

definition S_IFMT :: u32 where [abi_defs]: "S_IFMT = 0xF000"
definition S_IFDIR :: u32 where [abi_defs]: "S_IFDIR = 0x4000"

definition close_landlock_fd :: "fd \<Rightarrow> landlock_call list \<Rightarrow> landlock_call list" where
  "close_landlock_fd f h = h @ [CloseLandlockFd f]"

fun climb :: "landlock_kernel \<Rightarrow> path \<Rightarrow> path list \<Rightarrow> (landlock_call list, io_error, path) eff" where
  "climb K existing [] = retE existing"
| "climb K existing (parent # ps) =
     bindE (ask (\<lambda>h. lk_exists K h parent) (PathExists parent)) (\<lambda>b.
       if b then retE parent else climb K parent ps)"

definition canonicalize :: "landlock_kernel \<Rightarrow> path \<Rightarrow> (landlock_call list, io_error, path) eff" where
  "canonicalize K p = bindE (ask (\<lambda>h. lk_canonicalize K h p) (Canonicalize p)) (liftE id)"

definition deepest_existing_ancestor ::
  "landlock_kernel \<Rightarrow> path \<Rightarrow> (landlock_call list, io_error, path) eff" where
  "deepest_existing_ancestor K p =
     bindE (ask (\<lambda>h. lk_exists K h p) (PathExists p)) (\<lambda>b.
       if b then canonicalize K p
       else bindE (climb K p (ancestors p)) (canonicalize K))"

definition open_anchor :: "landlock_kernel \<Rightarrow> fs_grant \<Rightarrow> root_anchor landlock_act" where
  "open_anchor K g =
     bindE (tryE (deepest_existing_ancestor K (fg_root g))) (\<lambda>r.
     bindE (liftE (OpenHierarchy (fg_root g)) r) (\<lambda>resolved.
       if CHR 0x00 \<in> set resolved then failE (PathNul resolved)
       else
         bindE (ask (\<lambda>h. lk_open K h resolved) (OpenPath resolved)) (\<lambda>opened.
         bindE (liftE (OpenHierarchy resolved) opened) (\<lambda>f.
         bindE (ask (\<lambda>h. lk_fstat K h f) (FstatMode f)) (\<lambda>st.
           case st of
             Inl e \<Rightarrow> finallyE (failE (OpenHierarchy resolved e)) (close_landlock_fd f)
           | Inr mode \<Rightarrow> retE \<lparr>ra_root = resolved,
               ra_allowed_access = anchor_rights (fg_allowed_access g) (mode AND S_IFMT = S_IFDIR),
               ra_fd = f\<rparr>)))))"

definition close_anchors :: "root_anchor list \<Rightarrow> landlock_call list \<Rightarrow> landlock_call list" where
  "close_anchors anchors h = h @ map (CloseLandlockFd \<circ> ra_fd) anchors"

text \<open>\<open>collect\<close> into a \<open>Result\<close>: the anchors opened before a failure are dropped.\<close>

fun open_anchors :: "landlock_kernel \<Rightarrow> fs_grant list \<Rightarrow> root_anchor list \<Rightarrow> root_anchor list landlock_act" where
  "open_anchors K [] opened = retE opened"
| "open_anchors K (g # gs) opened =
     bindE (tryE (open_anchor K g)) (\<lambda>r.
       case r of
         Inl e \<Rightarrow> finallyE (failE e) (close_anchors opened)
       | Inr a \<Rightarrow> open_anchors K gs (opened @ [a]))"

definition add_path_rule :: "landlock_kernel \<Rightarrow> fd \<Rightarrow> root_anchor \<Rightarrow> unit landlock_act" where
  "add_path_rule K ruleset a =
     bindE (ask (\<lambda>h. lk_add_path K h ruleset (ra_allowed_access a) (ra_fd a))
                (AddPathRule ruleset (ra_allowed_access a) (ra_fd a)))
       (liftE (AddRule (ra_root a)))"

definition add_net_rule :: "landlock_kernel \<Rightarrow> fd \<Rightarrow> nat \<Rightarrow> unit landlock_act" where
  "add_net_rule K ruleset port =
     bindE (ask (\<lambda>h. lk_add_net K h ruleset (ACCESS_NET_BIND_TCP OR ACCESS_NET_CONNECT_TCP) (of_nat port))
                (AddNetRule ruleset (ACCESS_NET_BIND_TCP OR ACCESS_NET_CONNECT_TCP) (of_nat port)))
       (liftE (AddRule (''tcp:'' @ show_nat port)))"

fun net_ports :: "net_grant \<Rightarrow> nat list" where
  "net_ports NetNone = []"
| "net_ports NetAll = [1..<65536]"
| "net_ports (NetPorts ports) = ports"

definition add_net_rules :: "landlock_kernel \<Rightarrow> fd \<Rightarrow> net_grant \<Rightarrow> unit landlock_act" where
  "add_net_rules K ruleset net = eachE (add_net_rule K ruleset) (net_ports net)"

definition add_path_rules :: "landlock_kernel \<Rightarrow> fd \<Rightarrow> root_anchor list \<Rightarrow> unit landlock_act" where
  "add_path_rules K ruleset =
     eachE (\<lambda>a. if ra_allowed_access a \<noteq> 0 then add_path_rule K ruleset a else retE ())"

definition prepare_ruleset :: "landlock_kernel \<Rightarrow> landlock_hull \<Rightarrow> prepared_ruleset landlock_act" where
  "prepare_ruleset K hull =
     bindE (open_anchors K (lh_fs hull) []) (\<lambda>anchors.
       let attr_size = (if lh_handled_access_net hull = 0 then 8 else 16)
       in bindE (ask (\<lambda>h. lk_create K h (lh_handled_access_fs hull) (lh_handled_access_net hull) attr_size)
                     (CreateRuleset (lh_handled_access_fs hull) (lh_handled_access_net hull) attr_size)) (\<lambda>r.
          case r of
            Inl e \<Rightarrow> finallyE (failE (CreateFailed e)) (close_anchors anchors)
          | Inr ruleset \<Rightarrow>
              bindE (tryE (bindE (add_path_rules K ruleset anchors) (\<lambda>_.
                      if lh_handled_access_net hull \<noteq> 0 then add_net_rules K ruleset (lh_net hull)
                      else retE ()))) (\<lambda>done_rules.
              case done_rules of
                Inl e \<Rightarrow> finallyE (failE e) (\<lambda>h. close_anchors anchors (close_landlock_fd ruleset h))
              | Inr _ \<Rightarrow> retE \<lparr>pr_ruleset = ruleset, pr_anchors = anchors\<rparr>)))"

end
