(* ===== verification/Landlock_Hull.thy ===== *)
theory Landlock_Hull imports Landlock "HOL-Library.Multiset" begin

text \<open>
  What the hull of \<open>Landlock\<close> guarantees: it contains everything the evaluator of theory \<open>Engine\<close>
  may answer \<open>Allow\<close> or \<open>Ask\<close> to, with the rights the access needs; and where the ruleset built
  from it falls short of the policy.
\<close>

section \<open>Grants\<close>

definition within :: "u64 \<Rightarrow> u64 \<Rightarrow> bool" where
  "within a b = (a AND b = a)"

lemma within_bits: "within a b \<longleftrightarrow> (\<forall>n. bit a n \<longrightarrow> bit b n)"
proof
  assume "within a b"
  then have ab: "a AND b = a" by (simp add: within_def)
  show "\<forall>n. bit a n \<longrightarrow> bit b n"
  proof (intro allI impI)
    fix n
    assume "bit a n"
    then have "bit (a AND b) n" by (simp only: ab)
    then show "bit b n" by (simp add: bit_and_iff)
  qed
next
  assume "\<forall>n. bit a n \<longrightarrow> bit b n"
  then show "within a b" unfolding within_def by (intro bit_word_eqI) (auto simp: bit_and_iff)
qed

lemma within_refl [simp]: "within a a"
  by (simp add: within_bits)

lemma within_or1: "within a b \<Longrightarrow> within a (b OR c)"
  by (simp add: within_bits bit_or_iff)

lemma within_or2: "within a (c OR a)"
  by (simp add: within_bits bit_or_iff)

lemma within_trans: "within a b \<Longrightarrow> within b c \<Longrightarrow> within a c"
  by (simp add: within_bits)

definition granted :: "fs_grant list \<Rightarrow> path \<Rightarrow> u64 \<Rightarrow> bool" where
  "granted gs root r = (\<exists>g \<in> set gs. components (fg_root g) = components root \<and> within r (fg_allowed_access g))"

lemma granted_add: "granted (add_fs_grant gs root r) root r"
  by (induction gs root r rule: add_fs_grant.induct) (auto simp: granted_def within_or2)

lemma granted_add_mono: "granted gs root r \<Longrightarrow> granted (add_fs_grant gs root' r') root r"
  by (induction gs root' r' rule: add_fs_grant.induct) (auto simp: granted_def within_or1)

lemma granted_fs_mono: "granted gs root r \<Longrightarrow> granted (foldl (add_fs_rule abi) gs rs) root r"
  by (induction rs arbitrary: gs) (auto simp: add_fs_rule_def granted_add_mono)

lemma granted_exec_mono: "granted gs root r \<Longrightarrow> granted (foldl add_exec_rule gs rs) root r"
  by (induction rs arbitrary: gs) (auto simp: add_exec_rule_def granted_add_mono)

lemma granted_fs_rule:
  "rule \<in> set rs \<Longrightarrow> permits (fr_action rule) \<Longrightarrow>
   granted (foldl (add_fs_rule abi) gs rs) (hierarchy_root_from_glob (as_str (fr_path rule)))
     (fs_modes_to_rights (fr_mode rule) abi)"
  by (induction rs arbitrary: gs) (auto simp: add_fs_rule_def granted_add granted_fs_mono)

lemma granted_exec_rule:
  "rule \<in> set rs \<Longrightarrow> permits (er_action rule) \<Longrightarrow>
   granted (foldl add_exec_rule gs rs) (hierarchy_root_from_glob (as_str (er_binary rule))) ACCESS_FS_EXECUTE"
  by (induction rs arbitrary: gs) (auto simp: add_exec_rule_def granted_add granted_exec_mono)

lemma fold_or_within:
  "within a r \<Longrightarrow> within a (fold (\<lambda>m rights. rights OR f m) ms r)"
  "m \<in> set ms \<Longrightarrow> within (f m) (fold (\<lambda>m rights. rights OR f m) ms r)"
proof -
  show a: "within a r \<Longrightarrow> within a (fold (\<lambda>m rights. rights OR f m) ms r)" for a r ms
    by (induction ms arbitrary: r) (auto simp: within_or1)
  show "m \<in> set ms \<Longrightarrow> within (f m) (fold (\<lambda>m rights. rights OR f m) ms r)"
    by (induction ms arbitrary: r) (auto intro: a within_or2)
qed

lemma modes_rights_within:
  "m \<in> set modes \<Longrightarrow> within (mode_rights m AND handled_fs_rights abi) (fs_modes_to_rights modes abi)"
  using fold_or_within(2) [of m modes mode_rights 0]
  by (simp add: fs_modes_to_rights_def within_bits bit_and_iff)

section \<open>Roots\<close>

lemma rfind_slash_Some:
  "rfind_slash i s found = Some k \<Longrightarrow>
   found = Some k \<or> (\<exists>a b. s = a @ CHR ''/'' # b \<and> k = i + length a)"
proof (induction i s found rule: rfind_slash.induct)
  case (2 i c cs found)
  show ?case
  proof (cases "c = CHR ''/'' \<and> k = i")
    case True
    then show ?thesis by (intro disjI2 exI [of _ "[]"] exI [of _ cs]) simp
  next
    case False
    with 2 have "found = Some k \<or> (\<exists>a b. cs = a @ CHR ''/'' # b \<and> k = Suc i + length a)"
      by (auto split: if_splits)
    then show ?thesis
    proof
      assume "\<exists>a b. cs = a @ CHR ''/'' # b \<and> k = Suc i + length a"
      then obtain a b where "cs = a @ CHR ''/'' # b" "k = Suc i + length a" by blast
      then have "c # cs = (c # a) @ CHR ''/'' # b" "k = i + length (c # a)" by simp_all
      then show ?thesis by blast
    qed simp
  qed
qed simp

lemma rfind_slash_None: "rfind_slash i s found = None \<Longrightarrow> CHR ''/'' \<notin> set s"
proof -
  have found: "rfind_slash i s (Some k) \<noteq> None" for i s k
    by (induction s arbitrary: i k) auto
  show "rfind_slash i s found = None \<Longrightarrow> CHR ''/'' \<notin> set s"
  proof (induction i s found rule: rfind_slash.induct)
    case (2 i c cs f)
    with found [of "Suc i" cs i] show ?case by (cases "c = CHR ''/''") auto
  qed simp
qed

text \<open>A pattern below a literal directory matches nothing outside it.\<close>

lemma match_below_literal:
  assumes g: "compile (base @ CHR ''/'' # rest) = Inr g" and base: "plain base" and m: "is_match g path"
  shows "path = base \<or> (\<exists>r. path = base @ CHR ''/'' # r)"
proof -
  have "glob_segments g = map segment_of (split_on CHR ''/'' base) @ map segment_of (split_on CHR ''/'' rest)"
    using compile_segments [OF g] by (simp add: split_on_append_sep)
  with m obtain rest' where "split_on CHR ''/'' path = split_on CHR ''/'' base @ rest'"
    using plain_split [OF base] by (auto simp: is_match_wild wild_plain_segments)
  then show ?thesis using split_on_prefix by blast
qed

lemma components_root: "components ''/'' = [RootDir]"
  by (simp add: components_def body_components_def)

lemma absolute_below_root: "is_absolute p \<Longrightarrow> path_starts_with p ''/''"
proof -
  assume "is_absolute p"
  then obtain cs where "components p = RootDir # cs" by (auto simp: components_def)
  then show ?thesis by (simp add: path_starts_with_def components_root)
qed

lemma below_text:
  assumes "is_absolute path" and "path = base \<or> (\<exists>r. path = base @ CHR ''/'' # r)"
  shows "if base = [] then path_starts_with path ''/'' else path_starts_with path base"
proof (cases base)
  case Nil
  with assms show ?thesis by (simp add: absolute_below_root)
next
  case (Cons c b)
  with assms have "base = CHR ''/'' # b" by auto
  with assms show ?thesis
    by (auto simp: path_starts_with_iff components_absolute body_components_split_sep)
qed

lemma components_trim_end: "is_absolute s \<Longrightarrow> trim_end_slashes s \<noteq> [] \<Longrightarrow> components (trim_end_slashes s) = components s"
proof (induction s rule: rev_induct)
  case (snoc c s)
  show ?case
  proof (cases "c = CHR ''/''")
    case True
    with snoc.prems have s: "trim_end_slashes (s @ [c]) = trim_end_slashes s" "trim_end_slashes s \<noteq> []"
      by (simp_all add: trim_end_slashes_def)
    then have "s \<noteq> []" by (auto simp: trim_end_slashes_def)
    with snoc.prems have "is_absolute s" by (cases s) auto
    with snoc.IH s True show ?thesis
      using body_components_split_sep [of "tl s" "[]"]
      by (cases s) (auto simp: components_absolute body_components_def)
  qed (simp add: trim_end_slashes_def)
qed (simp add: trim_end_slashes_def)

lemma trim_end_empty: "trim_end_slashes s = [] \<Longrightarrow> set s \<subseteq> {CHR ''/''}"
  by (auto simp: trim_end_slashes_def)

lemma relative_pattern_never_matches:
  assumes g: "compile (c # raw) = Inr g" and c: "c \<noteq> CHR ''/''" "c \<noteq> CHR ''*''" and p: "is_absolute path"
  shows "\<not> is_match g path"
proof -
  obtain q qs where q: "split_on CHR ''/'' raw = q # qs" by (meson neq_Nil_conv split_on_not_Nil)
  then have segs: "glob_segments g = segment_of (c # q) # map segment_of qs"
    using compile_segments [OF g] c by simp
  have not_double: "segment_of (c # q) \<noteq> DoubleStar" using c by (auto simp: segment_of_def)
  obtain p' where p': "path = CHR ''/'' # p'" using p by (cases path) auto
  have "\<not> segment_takes (segment_of (c # q)) []"
  proof -
    obtain d ds where d: "chars (c # q) = d # ds"
      using concat_chars [of "c # q"] by (cases "chars (c # q)") auto
    have "d \<noteq> ''*''" using concat_chars [of "c # q"] d c by auto
    with not_double d show ?thesis
      by (auto simp: segment_of_def units_match_def units.loop_wild chars_def)
  qed
  with not_double show ?thesis by (simp add: is_match_wild segs p')
qed

lemma root_covers_match:
  assumes g: "compile raw = Inr g" and m: "is_match g path" and p: "is_absolute path"
  shows "path_starts_with path (hierarchy_root_from_glob raw)"
proof -
  define l where "l = takeWhile (\<lambda>c. \<not> is_meta c) raw"
  have plain: "plain s" if "set s \<subseteq> set l" for s
  proof -
    have "\<not> is_meta c" if "c \<in> set l" for c using set_takeWhileD that l_def by metis
    with that show ?thesis by (auto simp: plain_def is_meta_def)
  qed
  obtain r where r: "raw = l @ r" unfolding l_def by (metis takeWhile_dropWhile_id)
  have root: "hierarchy_root_from_glob raw = (if length l = length raw then l
      else if ends_with ''/'' l then (if trim_end_slashes l = [] then ''/'' else trim_end_slashes l)
      else if l = [] then ''/''
      else (case rfind_slash 0 l None of
              Some i \<Rightarrow> if i = 0 then ''/'' else take i l
            | None \<Rightarrow> ''.''))"
    unfolding hierarchy_root_from_glob_def Let_def l_def by simp
  consider (literal) "length l = length raw" | (dir) "length l \<noteq> length raw" "ends_with ''/'' l"
    | (meta) "length l \<noteq> length raw" "l = []"
    | (inside) i where "length l \<noteq> length raw" "\<not> ends_with ''/'' l" "l \<noteq> []" "rfind_slash 0 l None = Some i"
    | (bare) "length l \<noteq> length raw" "l \<noteq> []" "rfind_slash 0 l None = None"
    by (cases "rfind_slash 0 l None") auto
  then show ?thesis
  proof cases
    case literal
    then have l: "l = raw" using r by (metis append_Nil2 append_eq_conv_conj take_all_iff order_refl)
    then have "path = raw" using glob_literal [OF g plain] m by simp
    then show ?thesis using l by (simp add: root)
  next
    case dir
    then obtain base where base: "l = base @ ''/''" by (auto simp: ends_with_iff)
    then have below: "path = base \<or> (\<exists>r. path = base @ CHR ''/'' # r)"
      using g r m plain [of base] by (intro match_below_literal [where base = base and rest = r and g = g]) auto
    show ?thesis
    proof (cases "trim_end_slashes l = []")
      case True
      with root dir p show ?thesis by (simp add: absolute_below_root)
    next
      case False
      have "base \<noteq> []" using False base by (auto simp: trim_end_slashes_def)
      with below_text [OF p below] have b: "path_starts_with path base" by simp
      have "is_absolute base" using below p \<open>base \<noteq> []\<close> by (cases base) auto
      then have "components l = components base" and "is_absolute l"
        using body_components_split_sep [of "tl base" "[]"]
        by (cases base; simp add: base components_absolute body_components_def)+
      with b root dir False components_trim_end [of l] show ?thesis
        by (simp add: path_starts_with_def)
    qed
  next
    case meta
    then show ?thesis
      using p by (simp add: root absolute_below_root ends_with_def)
  next
    case (inside i)
    from rfind_slash_Some [OF inside(4)] obtain a b where ab: "l = a @ CHR ''/'' # b" "i = length a" by auto
    have below: "path = a \<or> (\<exists>r. path = a @ CHR ''/'' # r)"
      using g r m ab plain [of a] by (intro match_below_literal [where base = a and rest = "b @ r" and g = g]) auto
    have "hierarchy_root_from_glob raw = (if a = [] then ''/'' else a)"
      using inside ab by (simp add: root)
    with below_text [OF p below] show ?thesis by (simp split: if_splits)
  next
    case bare
    obtain c cs where cl: "l = c # cs" using bare(2) by (cases l) auto
    have "c \<noteq> CHR ''/''" using rfind_slash_None [OF bare(3)] cl by auto
    moreover have "c \<noteq> CHR ''*''" using plain [of l] cl by (auto simp: plain_def)
    ultimately show ?thesis
      using relative_pattern_never_matches [of c "cs @ r" g path] g m p r cl by (metis append_Cons)
  qed
qed

section \<open>The hull covers the policy\<close>

fun mode_of :: "fs_access \<Rightarrow> fs_mode" where
  "mode_of AccRead = ModeRead"
| "mode_of AccWrite = ModeWrite"
| "mode_of AccCreate = ModeCreate"
| "mode_of AccDelete = ModeDelete"

lemma covers_mode_of: "covers m a \<longleftrightarrow> m = mode_of a"
  by (cases m; cases a) simp_all

lemma decision_permits: "decision_of a \<noteq> Deny \<longleftrightarrow> permits a"
  by (cases a) simp_all

lemma derive_ports_keeps:
  "q \<in> set ports \<Longrightarrow> derive_ports rs ports = NetAll \<or>
     (\<exists>ps. derive_ports rs ports = NetPorts ps \<and> q \<in> set ps)"
  by (induction rs ports rule: derive_ports.induct) (auto simp: set_insort_insert split: option.splits)

lemma derive_ports_covers:
  "rule \<in> set rs \<Longrightarrow> permits (nr_action rule) \<Longrightarrow> derive_ports rs ports = NetAll \<or>
     (\<exists>ps q. derive_ports rs ports = NetPorts ps \<and> nr_port rule = Some q \<and> q \<in> set ps)"
proof (induction rs ports rule: derive_ports.induct)
  case (2 r rs ports)
  show ?case
  proof (cases "permits (nr_action r) \<and> nr_port r \<noteq> None")
    case True
    then obtain q where q: "permits (nr_action r)" "nr_port r = Some q" by auto
    show ?thesis
    proof (cases "rule = r")
      case True
      with q derive_ports_keeps [of q "insort_insert q ports" rs] show ?thesis
        by (auto simp: set_insort_insert)
    next
      case False
      with 2 q show ?thesis by auto
    qed
  next
    case False
    with 2 show ?thesis by auto
  qed
qed simp

lemma hull_fs:
  "granted (lh_fs (derive_hull p abi)) (p_workspace p)
     (fs_modes_to_rights [ModeRead, ModeWrite, ModeCreate, ModeDelete] abi)"
  "rule \<in> set (p_fs p) \<Longrightarrow> permits (fr_action rule) \<Longrightarrow>
   granted (lh_fs (derive_hull p abi)) (hierarchy_root_from_glob (as_str (fr_path rule)))
     (fs_modes_to_rights (fr_mode rule) abi)"
  "erule \<in> set (p_exec p) \<Longrightarrow> permits (er_action erule) \<Longrightarrow>
   granted (lh_fs (derive_hull p abi)) (hierarchy_root_from_glob (as_str (er_binary erule))) ACCESS_FS_EXECUTE"
  by (simp_all add: derive_hull_def Let_def granted_exec_mono granted_fs_mono
      granted_add [of "[]", simplified] granted_fs_rule granted_exec_rule)

lemma enforce_decision:
  "v_decision (evaluate p req Enforce) \<noteq> Deny \<longleftrightarrow> (\<exists>a m. first_match p req = Some (a, m) \<and> permits a)"
  by (cases "first_match p req") (auto simp: evaluate_def decision_permits split: prod.split)

lemma granted_path:
  assumes "granted gs root r" and "path_starts_with path root" and "within q r"
  shows "\<exists>g \<in> set gs. path_starts_with path (fg_root g) \<and> within q (fg_allowed_access g)"
proof -
  obtain g where "g \<in> set gs" "components (fg_root g) = components root" "within r (fg_allowed_access g)"
    using assms(1) by (auto simp: granted_def)
  with assms(2,3) show ?thesis
    by (intro bexI [of _ g]) (auto simp: path_starts_with_def intro: within_trans)
qed

lemma hull_covers_fs:
  assumes wf: "wf_policy p" and path: "is_absolute path"
    and allowed: "v_decision (evaluate p (FsRequest path [a]) Enforce) \<noteq> Deny"
  shows "\<exists>g \<in> set (lh_fs (derive_hull p abi)). path_starts_with path (fg_root g) \<and>
    within (mode_rights (mode_of a) AND handled_fs_rights abi) (fg_allowed_access g)"
proof -
  obtain act m where fm: "first_match p (FsRequest path [a]) = Some (act, m)" "permits act"
    using allowed by (auto simp: enforce_decision)
  show ?thesis
  proof (cases "fs_walk 0 (p_fs p) (path, [a])")
    case None
    with fm have "path_under_workspace (p_workspace p) path" by (auto split: if_splits)
    then have "if p_workspace p = [] then path_starts_with path ''/'' else path_starts_with path (p_workspace p)"
      using below_text [OF path] by (auto simp: path_under_workspace_iff)
    moreover have "path_starts_with path []" by (simp add: path_starts_with_def components_def body_components_def)
    ultimately have "path_starts_with path (p_workspace p)" by (auto split: if_splits)
    then show ?thesis by (rule granted_path [OF hull_fs(1)]) (rule modes_rights_within, cases a, simp_all)
  next
    case (Some am)
    then obtain pre rule post where "p_fs p = pre @ rule # post" and rule': "is_match (fr_path rule) path"
      "mode_of a \<in> set (fr_mode rule)" "permits (fr_action rule)"
      using fm by (auto simp: fs.walk_Some mode_intersects_iff covers_mode_of)
    then have rule: "rule \<in> set (p_fs p)" by simp
    then have "compile (as_str (fr_path rule)) = Inr (fr_path rule)"
      using wf by (auto simp: wf_policy_def wf_fs_rule_def list_all_iff as_str_def)
    from root_covers_match [OF this rule'(1) path]
    show ?thesis by (rule granted_path [OF hull_fs(2) [OF rule rule'(3)]]) (rule modes_rights_within [OF rule'(2)])
  qed
qed

lemma hull_covers_exec:
  assumes wf: "wf_policy p" and path: "is_absolute path"
    and allowed: "v_decision (evaluate p (ExecRequest path) Enforce) \<noteq> Deny"
  shows "\<exists>g \<in> set (lh_fs (derive_hull p abi)). path_starts_with path (fg_root g) \<and>
    within ACCESS_FS_EXECUTE (fg_allowed_access g)"
proof -
  obtain pre rule post where "p_exec p = pre @ rule # post" and
    rule': "is_match (er_binary rule) path" "permits (er_action rule)"
    using allowed by (auto simp: enforce_decision exec.walk_Some)
  then have rule: "rule \<in> set (p_exec p)" by simp
  then have "compile (as_str (er_binary rule)) = Inr (er_binary rule)"
    using wf by (auto simp: wf_policy_def wf_exec_rule_def list_all_iff as_str_def)
  from granted_path [OF hull_fs(3) [OF rule rule'(2)] root_covers_match [OF this rule'(1) path] within_refl]
  show ?thesis .
qed

lemma hull_covers_net:
  assumes "v_decision (evaluate p (NetRequest ip host port) Enforce) \<noteq> Deny"
  shows "lh_net (derive_hull p abi) = NetAll \<or>
    (\<exists>ports. lh_net (derive_hull p abi) = NetPorts ports \<and> unat port \<in> set ports)"
proof -
  obtain pre rule post where "p_net p = pre @ rule # post" and
    rule': "net_matches rule ip host port" "permits (nr_action rule)"
    using assms by (auto simp: enforce_decision net.walk_Some)
  then have rule: "rule \<in> set (p_net p)" by simp
  have "nr_port rule = Some q \<Longrightarrow> q = unat port" for q using rule' by (auto simp: net_matches_def split: if_splits)
  with derive_ports_covers [OF rule rule'(2), of "[]"] show ?thesis
    by (auto simp: derive_hull_def Let_def derive_net_grant_def)
qed

section \<open>The ruleset\<close>

text \<open>Descriptors a log opened and closed, and the rules it added.\<close>

fun opened :: "landlock_call \<Rightarrow> fd multiset" where
  "opened (OpenPath p (Inr f)) = {#f#}"
| "opened (CreateRuleset a b n (Inr f)) = {#f#}"
| "opened _ = {#}"

fun closed :: "landlock_call \<Rightarrow> fd multiset" where
  "closed (CloseLandlockFd f) = {#f#}"
| "closed _ = {#}"

definition opened_fds :: "landlock_call list \<Rightarrow> fd multiset" where
  "opened_fds cs = sum_list (map opened cs)"

definition closed_fds :: "landlock_call list \<Rightarrow> fd multiset" where
  "closed_fds cs = sum_list (map closed cs)"

lemma fds_simps [simp]:
  "opened_fds [] = {#}" "opened_fds (c # cs) = opened c + opened_fds cs" "opened_fds (cs @ ds) = opened_fds cs + opened_fds ds"
  "closed_fds [] = {#}" "closed_fds (c # cs) = closed c + closed_fds cs" "closed_fds (cs @ ds) = closed_fds cs + closed_fds ds"
  by (simp_all add: opened_fds_def closed_fds_def)

fun is_rule :: "landlock_call \<Rightarrow> bool" where
  "is_rule (AddPathRule _ _ _ _) = True"
| "is_rule (AddNetRule _ _ _ _) = True"
| "is_rule _ = False"

lemma closes [simp]:
  "opened_fds (map (CloseLandlockFd \<circ> ra_fd) as) = {#}"
  "closed_fds (map (CloseLandlockFd \<circ> ra_fd) as) = mset (map ra_fd as)"
  by (induction as) simp_all

text \<open>\<open>quiet cs\<close>: calls that open, close and add nothing.\<close>

definition quiet_calls :: "landlock_call list \<Rightarrow> bool" where
  "quiet_calls cs \<longleftrightarrow> opened_fds cs = {#} \<and> closed_fds cs = {#} \<and> filter is_rule cs = []"

lemma quiet_append [simp]: "quiet_calls (cs @ ds) \<longleftrightarrow> quiet_calls cs \<and> quiet_calls ds"
  by (auto simp: quiet_calls_def)

lemma quiet_queries [simp]:
  "quiet_calls []" "quiet_calls (PathExists p b # cs) = quiet_calls cs"
  "quiet_calls (Canonicalize p r # cs) = quiet_calls cs" "quiet_calls (FstatMode f m # cs) = quiet_calls cs"
  by (auto simp: quiet_calls_def)

lemma climb_quiet: "climb K p ps h = (r, h') \<Longrightarrow> \<exists>cs. h' = h @ cs \<and> quiet_calls cs"
  by (induction K p ps arbitrary: h rule: climb.induct)
     (fastforce simp: eff_defs Let_def split: if_splits)+

lemma ancestor_quiet:
  assumes "deepest_existing_ancestor K p h = (r, h')"
  shows "\<exists>cs. h' = h @ cs \<and> quiet_calls cs \<and>
    ((\<forall>h. lk_exists K h p) \<longrightarrow> (\<exists>h1. r = lk_canonicalize K h1 p))"
proof (cases "lk_exists K h p")
  case True
  with assms show ?thesis
    by (auto simp: deepest_existing_ancestor_def canonicalize_def eff_defs Let_def split: sum.splits)
next
  case False
  obtain r1 h1 where c: "climb K p (ancestors p) (h @ [PathExists p False]) = (r1, h1)" by (metis surj_pair)
  with assms climb_quiet [OF c] False show ?thesis
    by (auto simp: deepest_existing_ancestor_def canonicalize_def eff_defs Let_def split: sum.splits)
qed

text \<open>The kernel answers behind an anchor; which path it lies at is \<open>anchor_calls\<close> below.\<close>

definition anchor_answered :: "landlock_kernel \<Rightarrow> fs_grant \<Rightarrow> root_anchor \<Rightarrow> bool" where
  "anchor_answered K g a \<longleftrightarrow> (\<exists>h h' m. lk_open K h (ra_root a) = Inr (ra_fd a) \<and> lk_fstat K h' (ra_fd a) = Inr m \<and>
     ra_allowed_access a = anchor_rights (fg_allowed_access g) (m AND S_IFMT = S_IFDIR) \<and>
     ((\<forall>h. lk_exists K h (fg_root g)) \<longrightarrow> (\<exists>h. lk_canonicalize K h (fg_root g) = Inr (ra_root a))))"

lemma open_anchor_outcome:
  assumes "open_anchor K g h = (r, h')"
  shows "\<exists>cs. h' = h @ cs \<and> filter is_rule cs = [] \<and>
    opened_fds cs = closed_fds cs + (case r of Inl _ \<Rightarrow> {#} | Inr a \<Rightarrow> {#ra_fd a#}) \<and>
    (case r of Inl _ \<Rightarrow> True | Inr a \<Rightarrow> anchor_answered K g a)"
proof -
  obtain r1 h1 where d: "deepest_existing_ancestor K (fg_root g) h = (r1, h1)" by (metis surj_pair)
  from ancestor_quiet [OF d] obtain cs where cs: "h1 = h @ cs" "quiet_calls cs"
    "(\<forall>h. lk_exists K h (fg_root g)) \<longrightarrow> (\<exists>h2. r1 = lk_canonicalize K h2 (fg_root g))" by blast
  show ?thesis
  proof (cases r1)
    case (Inl e)
    with assms d cs show ?thesis
      by (auto simp: open_anchor_def eff_defs quiet_calls_def)
  next
    case (Inr q)
    show ?thesis
    proof (cases "CHR 0x00 \<in> set q")
      case True
      with Inr assms d cs show ?thesis by (auto simp: open_anchor_def eff_defs quiet_calls_def)
    next
      case False
      note step = assms [unfolded open_anchor_def eff_defs Let_def]
      show ?thesis
      proof (cases "lk_open K h1 q")
        case (Inl e)
        with False Inr d cs step show ?thesis by (auto simp: quiet_calls_def)
      next
        case (Inr f)
        show ?thesis
        proof (cases "lk_fstat K (h1 @ [OpenPath q (Inr f)]) f")
          case (Inl e)
          with Inr \<open>r1 = Inr q\<close> False d cs step show ?thesis
            by (auto simp: quiet_calls_def close_landlock_fd_def)
        next
          case (Inr m)
          with \<open>lk_open K h1 q = Inr f\<close> \<open>r1 = Inr q\<close> False d step
          have r: "r = Inr \<lparr>ra_root = q, ra_allowed_access = anchor_rights (fg_allowed_access g) (m AND S_IFMT = S_IFDIR), ra_fd = f\<rparr>"
            and h': "h' = h @ cs @ [OpenPath q (Inr f), FstatMode f (Inr m)]"
            using cs(1) by auto
          have "anchor_answered K g (projr r)"
            unfolding anchor_answered_def r using \<open>lk_open K h1 q = Inr f\<close> Inr cs(3) \<open>r1 = Inr q\<close>
            by simp metis
          with r h' cs(2) show ?thesis by (auto simp: quiet_calls_def)
        qed
      qed
    qed
  qed
qed

lemma open_anchors_outcome:
  assumes "open_anchors K gs as h = (r, h')"
  shows "\<exists>cs. h' = h @ cs \<and> filter is_rule cs = [] \<and>
    opened_fds cs + mset (map ra_fd as) =
      closed_fds cs + (case r of Inl _ \<Rightarrow> {#} | Inr bs \<Rightarrow> mset (map ra_fd bs)) \<and>
    (case r of Inl _ \<Rightarrow> True | Inr bs \<Rightarrow> \<exists>new. bs = as @ new \<and> list_all2 (anchor_answered K) gs new)"
  using assms
proof (induction K gs as arbitrary: h rule: open_anchors.induct)
  case (1 K as)
  then show ?case by (auto simp: retE_def)
next
  case (2 K g gs as)
  obtain r1 h1 where o: "open_anchor K g h = (r1, h1)" by (metis surj_pair)
  from open_anchor_outcome [OF o] obtain cs where cs: "h1 = h @ cs" "filter is_rule cs = []"
    "opened_fds cs = closed_fds cs + (case r1 of Inl _ \<Rightarrow> {#} | Inr a \<Rightarrow> {#ra_fd a#})"
    "case r1 of Inl _ \<Rightarrow> True | Inr a \<Rightarrow> anchor_answered K g a" by blast
  show ?case
  proof (cases r1)
    case (Inl e)
    with 2 o have "r = Inl e" "h' = h1 @ map (CloseLandlockFd \<circ> ra_fd) as"
      by (auto simp: eff_defs close_anchors_def)
    with cs Inl show ?thesis by (auto simp: filter_empty_conv)
  next
    case (Inr a)
    with 2 o have "open_anchors K gs (as @ [a]) h1 = (r, h')" by (simp add: bindE_def tryE_def)
    from 2(1) [OF this] obtain ds where ds: "h' = h1 @ ds" "filter is_rule ds = []"
      "opened_fds ds + mset (map ra_fd (as @ [a])) =
        closed_fds ds + (case r of Inl _ \<Rightarrow> {#} | Inr bs \<Rightarrow> mset (map ra_fd bs))"
      "case r of Inl _ \<Rightarrow> True | Inr bs \<Rightarrow> \<exists>new. bs = (as @ [a]) @ new \<and> list_all2 (anchor_answered K) gs new"
      by blast
    from cs ds Inr show ?thesis
      by (intro exI [of _ "cs @ ds"]) (auto simp: ac_simps split: sum.splits intro: exI [of _ "a # _"])
  qed
qed

lemma add_path_rules_outcome:
  "add_path_rules K rs as h = (r, h') \<Longrightarrow> \<exists>cs. h' = h @ cs \<and> opened_fds cs = {#} \<and> closed_fds cs = {#} \<and>
     (r = Inr () \<longrightarrow> cs = map (\<lambda>a. AddPathRule rs (ra_allowed_access a) (ra_fd a) (Inr ()))
                             (filter (\<lambda>a. ra_allowed_access a \<noteq> 0) as))"
proof (induction as arbitrary: h)
  case Nil
  then show ?case by (simp add: add_path_rules_def retE_def)
next
  case (Cons a as)
  show ?case
  proof (cases "ra_allowed_access a = 0")
    case True
    with Cons.prems have "add_path_rules K rs as h = (r, h')"
      by (simp add: add_path_rules_def bindE_def retE_def)
    from Cons.IH [OF this] True show ?thesis by simp
  next
    case False
    let ?c = "lk_add_path K h rs (ra_allowed_access a) (ra_fd a)"
    show ?thesis
    proof (cases ?c)
      case (Inl e)
      with Cons.prems False show ?thesis
        by (auto simp: add_path_rules_def add_path_rule_def eff_defs Let_def)
    next
      case (Inr u)
      with Cons.prems False
      have "add_path_rules K rs as (h @ [AddPathRule rs (ra_allowed_access a) (ra_fd a) (Inr ())]) = (r, h')"
        by (simp add: add_path_rules_def add_path_rule_def eff_defs Let_def)
      from Cons.IH [OF this] False show ?thesis by auto
    qed
  qed
qed

definition net_call :: "fd \<Rightarrow> nat \<Rightarrow> io_error + unit \<Rightarrow> landlock_call" where
  "net_call rs port = AddNetRule rs (ACCESS_NET_BIND_TCP OR ACCESS_NET_CONNECT_TCP) (of_nat port)"

lemma add_net_rule_step:
  "add_net_rule K rs port h =
     (case lk_add_net K h rs (ACCESS_NET_BIND_TCP OR ACCESS_NET_CONNECT_TCP) (of_nat port) of
        Inl e \<Rightarrow> (Inl (AddRule (''tcp:'' @ show_nat port) e), h @ [net_call rs port (Inl e)])
      | Inr _ \<Rightarrow> (Inr (), h @ [net_call rs port (Inr ())]))"
  by (auto simp: add_net_rule_def net_call_def eff_defs Let_def split: sum.splits)

lemma add_net_rules_outcome:
  "eachE (add_net_rule K rs) ports h = (r, h') \<Longrightarrow> \<exists>cs. h' = h @ cs \<and> opened_fds cs = {#} \<and> closed_fds cs = {#} \<and>
     (r = Inr () \<longrightarrow> cs = map (\<lambda>p. net_call rs p (Inr ())) ports)"
proof (induction ports arbitrary: h)
  case Nil
  then show ?case by (simp add: retE_def)
next
  case (Cons port ports)
  let ?c = "lk_add_net K h rs (ACCESS_NET_BIND_TCP OR ACCESS_NET_CONNECT_TCP) (of_nat port)"
  show ?case
  proof (cases ?c)
    case (Inl e)
    with Cons.prems show ?thesis by (auto simp: add_net_rule_step [of K rs port h] bindE_def net_call_def)
  next
    case (Inr u)
    with Cons.prems have "eachE (add_net_rule K rs) ports (h @ [net_call rs port (Inr ())]) = (r, h')"
      by (simp add: add_net_rule_step [of K rs port h] bindE_def)
    from Cons.IH [OF this] show ?thesis by (auto simp: net_call_def)
  qed
qed

text \<open>The rules a prepared ruleset holds: one per anchor with rights left, then one per port.\<close>

definition expected_rules :: "landlock_hull \<Rightarrow> prepared_ruleset \<Rightarrow> landlock_call list" where
  "expected_rules hull p =
     map (\<lambda>a. AddPathRule (pr_ruleset p) (ra_allowed_access a) (ra_fd a) (Inr ()))
       (filter (\<lambda>a. ra_allowed_access a \<noteq> 0) (pr_anchors p)) @
     (if lh_handled_access_net hull = 0 then []
      else map (\<lambda>port. net_call (pr_ruleset p) port (Inr ())) (net_ports (lh_net hull)))"

definition kept_fds :: "landlock_error + prepared_ruleset \<Rightarrow> fd multiset" where
  "kept_fds r = (case r of Inl _ \<Rightarrow> {#} | Inr p \<Rightarrow> {#pr_ruleset p#} + mset (map ra_fd (pr_anchors p)))"

lemma prepare_ruleset_outcome:
  assumes "prepare_ruleset K hull h = (r, h')"
  shows "\<exists>cs. h' = h @ cs \<and> opened_fds cs = closed_fds cs + kept_fds r \<and>
    (case r of Inl _ \<Rightarrow> True | Inr p \<Rightarrow> list_all2 (anchor_answered K) (lh_fs hull) (pr_anchors p) \<and>
       filter is_rule cs = expected_rules hull p)"
proof -
  obtain r1 h1 where o: "open_anchors K (lh_fs hull) [] h = (r1, h1)" by (metis surj_pair)
  from open_anchors_outcome [OF o] obtain cs where cs: "h1 = h @ cs" "filter is_rule cs = []"
    "opened_fds cs = closed_fds cs + (case r1 of Inl _ \<Rightarrow> {#} | Inr bs \<Rightarrow> mset (map ra_fd bs))"
    "case r1 of Inl _ \<Rightarrow> True | Inr bs \<Rightarrow> list_all2 (anchor_answered K) (lh_fs hull) bs"
    by (auto split: sum.splits)
  show ?thesis
  proof (cases r1)
    case (Inl e)
    with assms o cs show ?thesis by (auto simp: prepare_ruleset_def bindE_def kept_fds_def)
  next
    case (Inr as)
    define sz :: nat where "sz = (if lh_handled_access_net hull = 0 then 8 else 16)"
    define mk where "mk = CreateRuleset (lh_handled_access_fs hull) (lh_handled_access_net hull) sz"
    note step = assms [unfolded prepare_ruleset_def Let_def, folded sz_def, folded mk_def]
    show ?thesis
    proof (cases "lk_create K h1 (lh_handled_access_fs hull) (lh_handled_access_net hull) sz")
      case (Inl e)
      with step o Inr have "r = Inl (CreateFailed e)" "h' = (h1 @ [mk (Inl e)]) @ map (CloseLandlockFd \<circ> ra_fd) as"
        by (auto simp: bindE_def ask_def Let_def finallyE_def failE_def close_anchors_def)
      with cs Inr show ?thesis by (auto simp: kept_fds_def mk_def)
    next
      case (Inr rs)
      define body where "body = bindE (add_path_rules K rs as) (\<lambda>_.
        if lh_handled_access_net hull \<noteq> 0 then add_net_rules K rs (lh_net hull) else retE ())"
      obtain r2 h2 where b: "body (h1 @ [mk (Inr rs)]) = (r2, h2)" by (metis surj_pair)
      obtain r3 h3 where a: "add_path_rules K rs as (h1 @ [mk (Inr rs)]) = (r3, h3)" by (metis surj_pair)
      from add_path_rules_outcome [OF a] obtain ds where ds: "h3 = (h1 @ [mk (Inr rs)]) @ ds"
        "opened_fds ds = {#}" "closed_fds ds = {#}"
        "r3 = Inr () \<longrightarrow> ds = map (\<lambda>a. AddPathRule rs (ra_allowed_access a) (ra_fd a) (Inr ()))
           (filter (\<lambda>a. ra_allowed_access a \<noteq> 0) as)" by blast
      have "\<exists>es. h2 = (h1 @ [mk (Inr rs)]) @ es \<and> opened_fds es = {#} \<and> closed_fds es = {#} \<and>
         (r2 = Inr () \<longrightarrow> es = expected_rules hull \<lparr>pr_ruleset = rs, pr_anchors = as\<rparr>)"
      proof (cases "r3 = Inr () \<and> lh_handled_access_net hull \<noteq> 0")
        case True
        with a b have "add_net_rules K rs (lh_net hull) h3 = (r2, h2)" by (simp add: body_def bindE_def)
        from add_net_rules_outcome [OF this [unfolded add_net_rules_def]] obtain es where
          "h2 = h3 @ es" "opened_fds es = {#}" "closed_fds es = {#}"
          "r2 = Inr () \<longrightarrow> es = map (\<lambda>p. net_call rs p (Inr ())) (net_ports (lh_net hull))" by blast
        with True ds show ?thesis by (intro exI [of _ "ds @ es"]) (auto simp: expected_rules_def)
      next
        case False
        with a b ds show ?thesis
          by (intro exI [of _ ds]) (auto simp: body_def bindE_def retE_def expected_rules_def split: sum.splits)
      qed
      then obtain es where es: "h2 = (h1 @ [mk (Inr rs)]) @ es" "opened_fds es = {#}" "closed_fds es = {#}"
         "r2 = Inr () \<longrightarrow> es = expected_rules hull \<lparr>pr_ruleset = rs, pr_anchors = as\<rparr>" by blast
      have rules: "filter is_rule (expected_rules hull p) = expected_rules hull p" for p
        by (auto simp: expected_rules_def net_call_def filter_map comp_def)
      from step o \<open>r1 = Inr as\<close> Inr b [unfolded body_def]
      have "(r, h') = (case r2 of Inl e \<Rightarrow> (Inl e, close_anchors as (close_landlock_fd rs h2))
               | Inr _ \<Rightarrow> (Inr \<lparr>pr_ruleset = rs, pr_anchors = as\<rparr>, h2))"
        by (auto simp: bindE_def ask_def Let_def tryE_def finallyE_def failE_def retE_def split: sum.splits)
      with es cs \<open>r1 = Inr as\<close> rules show ?thesis
        by (cases r2) (auto simp: kept_fds_def close_anchors_def close_landlock_fd_def mk_def)
    qed
  qed
qed

text \<open>The calls that open the anchor of a grant.\<close>

definition anchor_calls :: "fs_grant \<Rightarrow> root_anchor \<Rightarrow> landlock_call list \<Rightarrow> bool" where
  "anchor_calls g a cs \<longleftrightarrow> (\<exists>missing e found above m.
     fg_root g # ancestors (fg_root g) = missing @ e # above \<and> (found \<or> above = []) \<and>
     cs = map (\<lambda>p. PathExists p False) missing @
       [PathExists e found, Canonicalize e (Inr (ra_root a)), OpenPath (ra_root a) (Inr (ra_fd a)),
        FstatMode (ra_fd a) (Inr m)] \<and>
     ra_allowed_access a = anchor_rights (fg_allowed_access g) (m AND S_IFMT = S_IFDIR))"

lemma climb_calls:
  "climb K p ps h = (Inr q, h') \<Longrightarrow>
   (ps = [] \<and> q = p \<and> h' = h) \<or>
   (\<exists>missing above found. ps = missing @ q # above \<and> (found \<or> above = []) \<and>
      h' = h @ map (\<lambda>p. PathExists p False) missing @ [PathExists q found])"
proof (induction K p ps arbitrary: h rule: climb.induct)
  case (1 K p)
  then show ?case by (simp add: retE_def)
next
  case (2 K p parent ps)
  show ?case
  proof (cases "lk_exists K h parent")
    case True
    with 2 have "q = parent" "h' = h @ [PathExists parent True]"
      by (auto simp: bindE_def ask_def retE_def Let_def)
    then show ?thesis by (intro disjI2 exI [of _ "[]"] exI [of _ ps] exI [of _ True]) simp
  next
    case False
    with 2(2) have "climb K parent ps (h @ [PathExists parent False]) = (Inr q, h')"
      by (simp add: bindE_def ask_def Let_def)
    from 2(1) [OF _ this] False consider "ps = []" "q = parent" "h' = h @ [PathExists parent False]"
      | missing above found where "ps = missing @ q # above" "found \<or> above = []"
          "h' = (h @ [PathExists parent False]) @ map (\<lambda>p. PathExists p False) missing @ [PathExists q found]"
      by blast
    then show ?thesis
    proof cases
      case 1
      then show ?thesis by (intro disjI2 exI [of _ "[]"] exI [of _ ps] exI [of _ False]) simp
    next
      case 2
      then show ?thesis
        by (intro disjI2 exI [of _ "parent # missing"] exI [of _ above] exI [of _ found]) simp
    qed
  qed
qed

lemma ancestor_calls:
  assumes "deepest_existing_ancestor K p h = (Inr q, h')"
  shows "\<exists>missing e found above. p # ancestors p = missing @ e # above \<and> (found \<or> above = []) \<and>
    h' = h @ map (\<lambda>p. PathExists p False) missing @ [PathExists e found, Canonicalize e (Inr q)]"
proof (cases "lk_exists K h p")
  case True
  with assms have "h' = h @ [PathExists p True, Canonicalize p (Inr q)]"
    by (auto simp: deepest_existing_ancestor_def canonicalize_def eff_defs Let_def split: sum.splits)
  then show ?thesis by (intro exI [of _ "[]"] exI [of _ p] exI [of _ True] exI [of _ "ancestors p"]) simp
next
  case False
  obtain e h1 where e: "climb K p (ancestors p) (h @ [PathExists p False]) = (Inr e, h1)"
    "h' = h1 @ [Canonicalize e (Inr q)]"
    using assms False
    by (auto simp: deepest_existing_ancestor_def canonicalize_def eff_defs Let_def split: sum.splits prod.splits)
  from climb_calls [OF e(1)]
  consider "ancestors p = []" "e = p" "h1 = h @ [PathExists p False]"
    | missing above found where "ancestors p = missing @ e # above" "found \<or> above = []"
      "h1 = (h @ [PathExists p False]) @ map (\<lambda>p. PathExists p False) missing @ [PathExists e found]"
    by blast
  then show ?thesis
  proof cases
    case 1
    with e(2) show ?thesis by (intro exI [of _ "[]"] exI [of _ p] exI [of _ False] exI [of _ "[]"]) simp
  next
    case 2
    with e(2) show ?thesis
      by (intro exI [of _ "p # missing"] exI [of _ e] exI [of _ found] exI [of _ above]) simp
  qed
qed

lemma open_anchor_calls:
  assumes "open_anchor K g h = (Inr a, h')"
  shows "\<exists>cs. h' = h @ cs \<and> anchor_calls g a cs"
proof -
  obtain q h1 where d: "deepest_existing_ancestor K (fg_root g) h = (Inr q, h1)"
    using assms by (auto simp: open_anchor_def eff_defs split: prod.splits sum.splits)
  then obtain f m where f: "a = \<lparr>ra_root = q, ra_allowed_access = anchor_rights (fg_allowed_access g)
      (m AND S_IFMT = S_IFDIR), ra_fd = f\<rparr>" "h' = h1 @ [OpenPath q (Inr f), FstatMode f (Inr m)]"
    using assms by (auto simp: open_anchor_def eff_defs Let_def split: sum.splits if_splits)
  from ancestor_calls [OF d] f show ?thesis unfolding anchor_calls_def by fastforce
qed

lemma open_anchors_calls:
  assumes "open_anchors K gs as h = (Inr bs, h')"
  shows "\<exists>anchored. bs = as @ map fst anchored \<and> h' = h @ concat (map snd anchored) \<and>
    list_all2 (\<lambda>g (a, calls). anchor_calls g a calls) gs anchored"
  using assms
proof (induction K gs as arbitrary: h rule: open_anchors.induct)
  case (1 K as)
  then show ?case by (auto simp: retE_def)
next
  case (2 K g gs as)
  obtain r1 h1 where o: "open_anchor K g h = (r1, h1)" by (metis surj_pair)
  with 2(2) obtain a where a: "r1 = Inr a" by (cases r1) (auto simp: eff_defs)
  with 2(2) o have "open_anchors K gs (as @ [a]) h1 = (Inr bs, h')" by (simp add: bindE_def tryE_def)
  from 2(1) [OF this] obtain rest where rest: "bs = (as @ [a]) @ map fst rest" "h' = h1 @ concat (map snd rest)"
    "list_all2 (\<lambda>g (a, calls). anchor_calls g a calls) gs rest" by blast
  from open_anchor_calls [OF o [unfolded a]] obtain cs where "h1 = h @ cs" "anchor_calls g a cs" by blast
  with rest show ?case by (intro exI [of _ "(a, cs) # rest"]) simp
qed

lemma prepare_ruleset_calls:
  assumes "prepare_ruleset K hull h = (Inr p, h')"
  shows "\<exists>anchored. pr_anchors p = map fst anchored \<and>
    list_all2 (\<lambda>g (a, calls). anchor_calls g a calls) (lh_fs hull) anchored \<and>
    h' = h @ concat (map snd anchored) @
      CreateRuleset (lh_handled_access_fs hull) (lh_handled_access_net hull)
        (if lh_handled_access_net hull = 0 then 8 else 16) (Inr (pr_ruleset p)) # expected_rules hull p"
proof -
  define mk where "mk = CreateRuleset (lh_handled_access_fs hull) (lh_handled_access_net hull)
    (if lh_handled_access_net hull = 0 then 8 else 16)"
  note step = assms [unfolded prepare_ruleset_def Let_def, folded mk_def]
  obtain as h1 where o: "open_anchors K (lh_fs hull) [] h = (Inr as, h1)"
    using step by (auto simp: bindE_def split: prod.splits sum.splits)
  define body where "body rs = bindE (add_path_rules K rs as) (\<lambda>_.
    if lh_handled_access_net hull \<noteq> 0 then add_net_rules K rs (lh_net hull) else retE ())" for rs
  have run: "body (pr_ruleset p) (h1 @ [mk (Inr (pr_ruleset p))]) = (Inr (), h') \<and> pr_anchors p = as"
  proof (cases "lk_create K h1 (lh_handled_access_fs hull) (lh_handled_access_net hull)
      (if lh_handled_access_net hull = 0 then 8 else 16)")
    case (Inl e)
    with step o show ?thesis by (simp add: bindE_def ask_def finallyE_def failE_def Let_def)
  next
    case (Inr rs)
    obtain r3 h3 where b: "body rs (h1 @ [mk (Inr rs)]) = (r3, h3)" by (metis surj_pair)
    with step o Inr have "(case r3 of Inl e \<Rightarrow> (Inl e, close_anchors as (close_landlock_fd rs h3))
        | Inr _ \<Rightarrow> (Inr \<lparr>pr_ruleset = rs, pr_anchors = as\<rparr>, h3)) = (Inr p, h')"
      unfolding body_def
      by (auto simp: bindE_def ask_def Let_def tryE_def finallyE_def failE_def retE_def split: sum.splits)
    with b show ?thesis by (cases r3) auto
  qed
  obtain u h2 where "add_path_rules K (pr_ruleset p) as (h1 @ [mk (Inr (pr_ruleset p))]) = (Inr u, h2)"
    using run by (auto simp: body_def bindE_def split: prod.splits sum.splits)
  then have paths: "add_path_rules K (pr_ruleset p) as (h1 @ [mk (Inr (pr_ruleset p))]) = (Inr (), h2)" by simp
  have nets: "(if lh_handled_access_net hull \<noteq> 0 then add_net_rules K (pr_ruleset p) (lh_net hull) else retE ()) h2 = (Inr (), h')"
    using run paths by (simp add: body_def bindE_def)
  have h2: "h2 = (h1 @ [mk (Inr (pr_ruleset p))]) @
      map (\<lambda>a. AddPathRule (pr_ruleset p) (ra_allowed_access a) (ra_fd a) (Inr ())) (filter (\<lambda>a. ra_allowed_access a \<noteq> 0) as)"
    using add_path_rules_outcome [OF paths] by auto
  have "h' = h2 @ (if lh_handled_access_net hull = 0 then []
      else map (\<lambda>port. net_call (pr_ruleset p) port (Inr ())) (net_ports (lh_net hull)))"
    using nets add_net_rules_outcome [of K "pr_ruleset p" "net_ports (lh_net hull)" h2 "Inr ()" h']
    by (auto simp: add_net_rules_def retE_def split: if_splits)
  then have "h' = h1 @ mk (Inr (pr_ruleset p)) # expected_rules hull p"
    by (simp add: h2 expected_rules_def run)
  with open_anchors_calls [OF o] run show ?thesis unfolding mk_def by auto
qed

section \<open>Properties\<close>

text \<open>
  C14. Landlock never contradicts the policy from below: whatever an enforce run may permit (allow, or
  ask, which may become allow) lies in the derived hull. A permitted access to an absolute path has
  a grant whose root is a component prefix of the path and whose rights include those of the access
  the kernel handles; a permitted program has one with the execute right; a permitted destination
  has its port.
\<close>

theorem hull_covers_policy:
  assumes "wf_policy p"
  shows "(is_absolute path \<and> v_decision (evaluate p (FsRequest path [a]) Enforce) \<noteq> Deny \<longrightarrow>
      (\<exists>g \<in> set (lh_fs (derive_hull p abi)). path_starts_with path (fg_root g) \<and>
        within (mode_rights (mode_of a) AND handled_fs_rights abi) (fg_allowed_access g))) \<and>
    (is_absolute binary \<and> v_decision (evaluate p (ExecRequest binary) Enforce) \<noteq> Deny \<longrightarrow>
      (\<exists>g \<in> set (lh_fs (derive_hull p abi)). path_starts_with binary (fg_root g) \<and>
        within ACCESS_FS_EXECUTE (fg_allowed_access g))) \<and>
    (v_decision (evaluate p (NetRequest ip host port) Enforce) \<noteq> Deny \<longrightarrow>
      lh_net (derive_hull p abi) = NetAll \<or>
      (\<exists>ports. lh_net (derive_hull p abi) = NetPorts ports \<and> unat port \<in> set ports))"
  using hull_covers_fs [OF assms] hull_covers_exec [OF assms] hull_covers_net by blast

definition sample_policy :: policy where
  "sample_policy = \<lparr>p_schema_version = 1, p_workspace = ''/w'', p_fs = [],
     p_net = [\<lparr>nr_host = Any, nr_port = None, nr_action = AskAction\<rparr>], p_exec = []\<rparr>"

lemma sample_policy_wf: "wf_policy sample_policy"
  by (simp add: sample_policy_def wf_policy_def SCHEMA_VERSION_def wf_net_rule_def)

lemma sample_decisions:
  "v_decision (evaluate sample_policy (FsRequest ''/w/a'' [AccDelete]) Enforce) = Allow"
  "v_decision (evaluate sample_policy (NetRequest ip host port) Enforce) = Ask"
  by (simp_all add: sample_policy_def evaluate_def path_under_workspace_def starts_with_def net_matches_def)

lemma hull_covers_policy_witness:
  "(\<exists>g \<in> set (lh_fs (derive_hull sample_policy 4)). path_starts_with ''/w/a'' (fg_root g) \<and>
      within (mode_rights ModeDelete AND handled_fs_rights 4) (fg_allowed_access g)) \<and>
   (lh_net (derive_hull sample_policy 4) = NetAll \<or>
      (\<exists>ports. lh_net (derive_hull sample_policy 4) = NetPorts ports \<and> unat (443 :: u16) \<in> set ports))"
  using hull_covers_policy [OF sample_policy_wf, of "''/w/a''" AccDelete 4 "''/b''" "IpV4 0" None 443]
  by (simp only: sample_decisions decision.distinct simp_thms is_absolute_Cons mode_of.simps)

text \<open>
  C25. What is prepared is exactly this, call for call. Every grant of the hull gets one anchor, in order:
  the existence of its root and then of its ancestors is asked one by one until the first that exists,
  and that one, or \<open>/\<close> when none does, is canonicalised and opened (for a root that does not exist yet
  the anchor is therefore above the grant, the nearest directory there is, and no further up); its
  rights are the grant's, masked by the type of what was opened. Then one ruleset is created for the
  rights the hull handles, with one path rule per anchor that has rights left and, when network rights
  are handled, one rule per port of the grant, which for a grant of all ports are 1 to 65535; nothing
  else is called. If anything fails, every descriptor opened on the way is closed; otherwise exactly
  the ruleset and the anchors stay open.
\<close>

theorem ruleset_preparation_is_exact:
  "case prepare_ruleset K hull h of (r, h') \<Rightarrow>
     \<exists>cs. h' = h @ cs \<and> opened_fds cs = closed_fds cs + kept_fds r \<and>
     (case r of
        Inl _ \<Rightarrow> True
      | Inr p \<Rightarrow> \<exists>anchored. pr_anchors p = map fst anchored \<and>
          list_all2 (\<lambda>g (a, calls). anchor_calls g a calls) (lh_fs hull) anchored \<and>
          cs = concat (map snd anchored) @
            CreateRuleset (lh_handled_access_fs hull) (lh_handled_access_net hull)
              (if lh_handled_access_net hull = 0 then 8 else 16) (Inr (pr_ruleset p)) #
            expected_rules hull p)"
proof -
  obtain r h' where run: "prepare_ruleset K hull h = (r, h')" by (metis surj_pair)
  from prepare_ruleset_outcome [OF run] obtain cs where
    cs: "h' = h @ cs" "opened_fds cs = closed_fds cs + kept_fds r" by blast
  show ?thesis
  proof (cases r)
    case (Inl e)
    with run cs show ?thesis by simp
  next
    case (Inr p)
    with run prepare_ruleset_calls [of K hull h p h'] cs show ?thesis by simp
  qed
qed

text \<open>What the kernel takes for a rule on something that is no directory.\<close>

definition FILE_RIGHTS :: u64 where
  "FILE_RIGHTS = ACCESS_FS_EXECUTE OR ACCESS_FS_WRITE_FILE OR ACCESS_FS_READ_FILE OR ACCESS_FS_TRUNCATE"

definition kernel_checks_file_rights :: "landlock_kernel \<Rightarrow> bool" where
  "kernel_checks_file_rights K \<longleftrightarrow> (\<forall>h h' rs rights f m.
     lk_fstat K h f = Inr m \<and> m AND S_IFMT \<noteq> S_IFDIR \<and> \<not> within rights FILE_RIGHTS \<longrightarrow>
     lk_add_path K h' rs rights f = Inl (Some 22))"

lemma add_path_rules_Cons:
  "add_path_rules K rs (a # as) h =
     (if ra_allowed_access a = 0 then add_path_rules K rs as h
      else case lk_add_path K h rs (ra_allowed_access a) (ra_fd a) of
        Inl e \<Rightarrow> (Inl (AddRule (ra_root a) e), h @ [AddPathRule rs (ra_allowed_access a) (ra_fd a) (Inl e)])
      | Inr u \<Rightarrow> add_path_rules K rs as (h @ [AddPathRule rs (ra_allowed_access a) (ra_fd a) (Inr u)]))"
  by (simp add: add_path_rules_def add_path_rule_def eff_defs Let_def split: sum.split)

lemma add_path_rules_answered:
  "add_path_rules K rs as h = (Inr (), h') \<Longrightarrow> a \<in> set as \<Longrightarrow> ra_allowed_access a \<noteq> 0 \<Longrightarrow>
   \<exists>h0. lk_add_path K h0 rs (ra_allowed_access a) (ra_fd a) = Inr ()"
proof (induction as arbitrary: h)
  case (Cons b as)
  show ?case
  proof (cases "a = b")
    case True
    with Cons.prems show ?thesis by (auto simp: add_path_rules_Cons split: sum.splits)
  next
    case False
    with Cons.prems have "\<exists>h. add_path_rules K rs as h = (Inr (), h')"
      by (auto simp: add_path_rules_Cons split: sum.splits if_splits)
    with Cons.IH Cons.prems False show ?thesis by auto
  qed
qed simp

lemma prepare_ruleset_rules:
  assumes "prepare_ruleset K hull h = (Inr p, h')"
  shows "\<exists>h0 h1. add_path_rules K (pr_ruleset p) (pr_anchors p) h0 = (Inr (), h1)"
  using assms
  by (auto simp: prepare_ruleset_def Let_def bindE_def tryE_def finallyE_def failE_def retE_def ask_def
      split: prod.splits sum.splits if_splits) blast+

lemma file_keeps_remove_right:
  assumes "within ACCESS_FS_REMOVE_FILE r"
  shows "anchor_rights r False \<noteq> 0" and "\<not> within (anchor_rights r False) FILE_RIGHTS"
proof -
  have 5: "bit r 5" using assms by (simp add: within_bits ACCESS_FS_REMOVE_FILE_def)
  have no: "\<not> bit FS_DIRECTORY_ONLY_RIGHTS 5" "\<not> bit FILE_RIGHTS 5"
    by (simp_all add: rights_defs FILE_RIGHTS_def abi_defs)
  have b: "bit (anchor_rights r False) 5"
    using 5 no by (simp add: anchor_rights_def bit_and_iff bit_not_iff)
  then show "anchor_rights r False \<noteq> 0" by auto
  show "\<not> within (anchor_rights r False) FILE_RIGHTS" using b no by (auto simp: within_bits)
qed

text \<open>
  The mask of directory-only rights leaves out the right to remove files, which the kernel takes on
  directories only. So a permitted delete rule rooted at an existing regular file makes every
  enforce run fail at the ruleset: with the kernel's documented check of rights against the file's
  type, preparing a hull with such a grant never succeeds.
\<close>

theorem delete_rule_on_file_refuses_run:
  assumes "kernel_checks_file_rights K"
    and "g \<in> set (lh_fs hull)" and "within ACCESS_FS_REMOVE_FILE (fg_allowed_access g)"
    and "\<And>h. lk_exists K h (fg_root g)"
    and "\<And>h h' h'' q f m. lk_canonicalize K h (fg_root g) = Inr q \<Longrightarrow> lk_open K h' q = Inr f \<Longrightarrow>
           lk_fstat K h'' f = Inr m \<Longrightarrow> m AND S_IFMT \<noteq> S_IFDIR"
  shows "\<exists>e. fst (prepare_ruleset K hull h) = Inl e"
proof (rule ccontr)
  assume "\<nexists>e. fst (prepare_ruleset K hull h) = Inl e"
  then obtain p h' where p: "prepare_ruleset K hull h = (Inr p, h')"
    by (metis prod.collapse sum.exhaust)
  from prepare_ruleset_outcome [OF p] have "list_all2 (anchor_answered K) (lh_fs hull) (pr_anchors p)" by auto
  then obtain a where a: "a \<in> set (pr_anchors p)" "anchor_answered K g a"
    using assms(2) unfolding list_all2_conv_all_nth by (metis in_set_conv_nth)
  then obtain h0 h1 m where a': "lk_open K h0 (ra_root a) = Inr (ra_fd a)" "lk_fstat K h1 (ra_fd a) = Inr m"
    "ra_allowed_access a = anchor_rights (fg_allowed_access g) (m AND S_IFMT = S_IFDIR)"
    "(\<forall>h. lk_exists K h (fg_root g)) \<longrightarrow> (\<exists>h. lk_canonicalize K h (fg_root g) = Inr (ra_root a))"
    unfolding anchor_answered_def by blast
  with assms(4) obtain h2 where "lk_canonicalize K h2 (fg_root g) = Inr (ra_root a)" by blast
  from assms(5) [OF this a'(1,2)] have m: "lk_fstat K h1 (ra_fd a) = Inr m" "m AND S_IFMT \<noteq> S_IFDIR"
    and rights: "ra_allowed_access a = anchor_rights (fg_allowed_access g) False"
    using a' by simp_all
  obtain h2 h3 where "add_path_rules K (pr_ruleset p) (pr_anchors p) h2 = (Inr (), h3)"
    using prepare_ruleset_rules [OF p] by blast
  from add_path_rules_answered [OF this a(1)] obtain h0 where
    "lk_add_path K h0 (pr_ruleset p) (ra_allowed_access a) (ra_fd a) = Inr ()"
    using file_keeps_remove_right(1) [OF assms(3)] rights by auto
  moreover have "lk_add_path K h0 (pr_ruleset p) (ra_allowed_access a) (ra_fd a) = Inl (Some 22)"
    using assms(1) m file_keeps_remove_right(2) [OF assms(3)] rights
    unfolding kernel_checks_file_rights_def by metis
  ultimately show False by simp
qed

text \<open>A host with one regular file, \<open>/f\<close>, and a policy that permits deleting it.\<close>

definition file_host :: landlock_kernel where
  "file_host = \<lparr>lk_exists = \<lambda>h p. True, lk_canonicalize = \<lambda>h p. Inr p,
     lk_open = \<lambda>h p. Inr (if p = ''/f'' then 3 else 4),
     lk_fstat = \<lambda>h f. Inr (if f = 3 then 0x8000 else 0x4000),
     lk_create = \<lambda>h a b n. Inr 5,
     lk_add_path = \<lambda>h rs rights f. if f = 3 \<and> \<not> within rights FILE_RIGHTS then Inl (Some 22) else Inr (),
     lk_add_net = \<lambda>h rs a b. Inr ()\<rparr>"

definition delete_file_policy :: policy where
  "delete_file_policy = \<lparr>p_schema_version = 1, p_workspace = ''/w'',
     p_fs = [\<lparr>fr_path = \<lparr>glob_raw = ''/f'', glob_segments = map segment_of [[], ''f'']\<rparr>,
              fr_mode = [ModeDelete], fr_action = AllowAction\<rparr>],
     p_net = [], p_exec = []\<rparr>"

lemma delete_file_grant:
  "\<exists>r. \<lparr>fg_root = ''/f'', fg_allowed_access = r\<rparr> \<in> set (lh_fs (derive_hull delete_file_policy 4)) \<and>
     within ACCESS_FS_REMOVE_FILE r"
proof -
  have root: "hierarchy_root_from_glob ''/f'' = ''/f''"
    by (simp add: hierarchy_root_from_glob_def is_meta_def)
  have cs: "components ''/f'' = [RootDir, Normal ''f'']" "components ''/w'' = [RootDir, Normal ''w'']"
    by (simp_all add: components_def body_components_def)
  have "component_key (Normal ''f'') < component_key (Normal ''w'')" by (simp add: code_def)
  then have "components ''/f'' < components ''/w''" "components ''/f'' \<noteq> components ''/w''"
    by (simp_all add: cs less_path_component_def)
  then have "lh_fs (derive_hull delete_file_policy 4) =
      [\<lparr>fg_root = ''/f'', fg_allowed_access = fs_modes_to_rights [ModeDelete] 4\<rparr>,
       \<lparr>fg_root = ''/w'', fg_allowed_access = fs_modes_to_rights [ModeRead, ModeWrite, ModeCreate, ModeDelete] 4\<rparr>]"
    by (simp add: derive_hull_def delete_file_policy_def add_fs_rule_def as_str_def root Let_def del: component_key.simps)
  moreover have "within ACCESS_FS_REMOVE_FILE (fs_modes_to_rights [ModeDelete] 4)"
    by (simp add: within_def fs_modes_to_rights_def handled_fs_rights_def rights_defs abi_defs ABI_TRUNCATE_def)
  ultimately show ?thesis by auto
qed

lemma delete_rule_on_file_refuses_run_witness:
  "\<exists>e. fst (prepare_ruleset file_host (derive_hull delete_file_policy 4) []) = Inl e"
proof -
  obtain r where r: "\<lparr>fg_root = ''/f'', fg_allowed_access = r\<rparr> \<in> set (lh_fs (derive_hull delete_file_policy 4))"
    "within ACCESS_FS_REMOVE_FILE r" using delete_file_grant by blast
  show ?thesis
    by (rule delete_rule_on_file_refuses_run [OF _ r(1)])
       (use r(2) in \<open>auto simp: kernel_checks_file_rights_def file_host_def abi_defs split: if_splits\<close>)
qed

lemma all_ports_nonzero: "port \<in> set (net_ports NetAll) \<Longrightarrow> (of_nat port :: u64) \<noteq> 0"
proof -
  assume "port \<in> set (net_ports NetAll)"
  then have p: "1 \<le> port" "port < 65536" by (simp_all only: net_ports.simps set_upt atLeastLessThan_iff)
  then have "unat (of_nat port :: u64) = port" by (simp add: unat_of_nat take_bit_nat_eq_self)
  with p(1) show ?thesis by (metis not_one_le_zero unat_0)
qed

text \<open>
  The grant of every port leaves out port 0: under a rule without a port the policy permits a bind
  to port 0 (an ephemeral port), yet no rule of the prepared ruleset names that port, so Landlock
  refuses what the policy allows.
\<close>

theorem port_zero_is_not_granted:
  "v_decision (evaluate sample_policy (NetRequest ip host 0) Enforce) = Ask \<and>
   lh_net (derive_hull sample_policy abi) = NetAll \<and>
   (\<forall>p. filter (\<lambda>c. case c of AddNetRule _ _ port _ \<Rightarrow> port = 0 | _ \<Rightarrow> False)
      (expected_rules (derive_hull sample_policy abi) p) = [])"
proof (intro conjI allI)
  show net: "lh_net (derive_hull sample_policy abi) = NetAll"
    by (simp add: derive_hull_def derive_net_grant_def sample_policy_def Let_def)
  show "v_decision (evaluate sample_policy (NetRequest ip host 0) Enforce) = Ask"
    by (rule sample_decisions)
  show "filter (\<lambda>c. case c of AddNetRule _ _ port _ \<Rightarrow> port = 0 | _ \<Rightarrow> False)
      (expected_rules (derive_hull sample_policy abi) p) = []" for p
    using all_ports_nonzero
    by (auto simp: expected_rules_def net_call_def net filter_empty_conv simp del: net_ports.simps)
qed

end
