(* ===== verification/Broker_Packet.thy ===== *)
theory Broker_Packet imports Effect begin

text \<open>
  The messages of the Unix sockets between supervisor, broker and child: one packet with at most one
  descriptor in an \<open>SCM_RIGHTS\<close> control message. \<open>src/src/supervisor/broker.rs\<close> builds them in
  \<open>send_packet\<close> and takes them apart in \<open>recv_packet\<close>; the parts between the system calls are the
  functions here, shared by the handle (\<open>Broker_Ipc\<close>), the confined process (\<open>Broker_Server\<close>) and the
  handover of the notify descriptor (\<open>Notify_Handover\<close>). \<open>transfer\<close> is what the kernel makes of a
  message on its way.
\<close>

section \<open>Numbers\<close>

definition MAX_PACKET :: nat where "MAX_PACKET = 1048576"

definition SOL_SOCKET :: int where "SOL_SOCKET = 1"
definition SCM_RIGHTS :: int where "SCM_RIGHTS = 1"
definition MSG_CTRUNC :: u32 where "MSG_CTRUNC = 0x08"
definition MSG_TRUNC :: u32 where "MSG_TRUNC = 0x20"

text \<open>\<open>struct cmsghdr\<close> is 16 bytes, control messages are aligned to 8, a descriptor takes 4.\<close>

definition CMSG_HEADER :: nat where "CMSG_HEADER = 16"
definition FD_SIZE :: nat where "FD_SIZE = 4"

definition CMSG_LEN :: "nat \<Rightarrow> nat" where
  "CMSG_LEN n = CMSG_HEADER + n"

definition CMSG_SPACE :: "nat \<Rightarrow> nat" where
  "CMSG_SPACE n = CMSG_HEADER + (n + 7) div 8 * 8"

text \<open>\<open>[0usize; 8]\<close>.\<close>

definition CONTROL_SIZE :: nat where "CONTROL_SIZE = 64"

section \<open>Messages\<close>

record control_message =
  cm_level :: int
  cm_type :: int
  cm_len :: nat
  cm_fd :: fd

text \<open>What \<open>sendmsg\<close> is given, and what \<open>recvmsg\<close> has written: the bytes, the first control message.\<close>

record sent_message =
  sm_bytes :: string
  sm_control :: "control_message option"
  sm_controllen :: nat

record received =
  rm_bytes :: string
  rm_flags :: u32
  rm_control :: "control_message option"

text \<open>\<open>CMSG_FIRSTHDR\<close> is null when the control buffer does not hold a header.\<close>

definition no_first_header :: "nat \<Rightarrow> bool" where
  "no_first_header controllen \<longleftrightarrow> controllen < CMSG_HEADER"

definition rights_header :: "fd \<Rightarrow> control_message" where
  "rights_header f = \<lparr>cm_level = SOL_SOCKET, cm_type = SCM_RIGHTS, cm_len = CMSG_LEN FD_SIZE, cm_fd = f\<rparr>"

section \<open>Sending\<close>

text \<open>\<open>send_packet\<close> up to \<open>sendmsg\<close>. An error made by the program has no OS error number.\<close>

definition packet_message :: "('v \<Rightarrow> string + string) \<Rightarrow> 'v \<Rightarrow> fd option \<Rightarrow> io_error + sent_message" where
  "packet_message encode v passed =
     (case encode v of
        Inl e \<Rightarrow> Inl None
      | Inr bytes \<Rightarrow>
          if length bytes > MAX_PACKET then Inl None
          else (case passed of
                  None \<Rightarrow> Inr \<lparr>sm_bytes = bytes, sm_control = None, sm_controllen = 0\<rparr>
                | Some f \<Rightarrow>
                    if no_first_header CONTROL_SIZE then Inl None
                    else Inr \<lparr>sm_bytes = bytes, sm_control = Some (rights_header f),
                              sm_controllen = CMSG_SPACE FD_SIZE\<rparr>))"

section \<open>Receiving\<close>

definition carries_rights :: "control_message \<Rightarrow> bool" where
  "carries_rights c \<longleftrightarrow> cm_level c = SOL_SOCKET \<and> cm_type c = SCM_RIGHTS \<and> CMSG_LEN FD_SIZE \<le> cm_len c"

text \<open>\<open>recv_packet\<close> after \<open>recvmsg\<close>. The descriptor is taken into an owner in the last branch only.\<close>

definition take_packet :: "(string \<Rightarrow> string + 'v) \<Rightarrow> received \<Rightarrow> io_error + 'v \<times> fd option" where
  "take_packet decode m =
     (if rm_bytes m = [] then Inl None
      else if rm_flags m AND (MSG_TRUNC OR MSG_CTRUNC) \<noteq> 0 then Inl None
      else case decode (rm_bytes m) of
             Inl e \<Rightarrow> Inl None
           | Inr v \<Rightarrow>
               (case rm_control m of
                  None \<Rightarrow> Inr (v, None)
                | Some c \<Rightarrow> if carries_rights c then Inr (v, Some (cm_fd c)) else Inl None))"

section \<open>The kernel\<close>

text \<open>The descriptor \<open>recvmsg\<close> has installed in the receiver: whoever refuses the packet still has it.\<close>

definition installed :: "received \<Rightarrow> fd list" where
  "installed m = (case rm_control m of Some c \<Rightarrow> if carries_rights c then [cm_fd c] else [] | None \<Rightarrow> [])"

text \<open>
  The way of a message into a buffer of \<open>cap\<close> bytes. A control message passes a descriptor only if it is
  an \<open>SCM_RIGHTS\<close> message of the length of one descriptor that lies within the control buffer; the
  receiver gets a number of its own for it.
\<close>

definition passes_fd :: "sent_message \<Rightarrow> control_message \<Rightarrow> bool" where
  "passes_fd msg c \<longleftrightarrow> cm_level c = SOL_SOCKET \<and> cm_type c = SCM_RIGHTS \<and> cm_len c = CMSG_LEN FD_SIZE \<and>
     cm_len c \<le> sm_controllen msg"

definition transfer :: "nat \<Rightarrow> (fd \<Rightarrow> fd) \<Rightarrow> sent_message \<Rightarrow> received" where
  "transfer cap install msg =
     \<lparr>rm_bytes = take cap (sm_bytes msg), rm_flags = (if cap < length (sm_bytes msg) then MSG_TRUNC else 0),
      rm_control = (case sm_control msg of
          Some c \<Rightarrow> if passes_fd msg c then Some (rights_header (install (cm_fd c))) else None
        | None \<Rightarrow> None)\<rparr>"

section \<open>Lemmas\<close>

lemma packet_message_ok:
  assumes "packet_message encode v passed = Inr msg"
  shows "encode v = Inr (sm_bytes msg) \<and> length (sm_bytes msg) \<le> MAX_PACKET \<and>
    sm_control msg = map_option rights_header passed \<and> (\<forall>c. sm_control msg = Some c \<longrightarrow> passes_fd msg c)"
  using assms
  by (auto simp: packet_message_def passes_fd_def rights_header_def CMSG_SPACE_def CMSG_LEN_def FD_SIZE_def
      CMSG_HEADER_def split: sum.splits if_splits option.splits)

lemma take_packet_ok:
  assumes "take_packet decode m = Inr (v, f)"
  shows "rm_bytes m \<noteq> [] \<and> decode (rm_bytes m) = Inr v \<and> rm_flags m AND (MSG_TRUNC OR MSG_CTRUNC) = 0 \<and>
    f = map_option cm_fd (rm_control m) \<and> installed m = (case f of None \<Rightarrow> [] | Some d \<Rightarrow> [d])"
  using assms
  by (auto simp: take_packet_def installed_def split: sum.splits if_splits option.splits)

text \<open>A message built by \<open>send_packet\<close> is taken apart into what was sent.\<close>

lemma take_transferred:
  assumes "packet_message encode v passed = Inr msg"
    and "\<forall>bytes. encode v = Inr bytes \<longrightarrow> decode bytes = Inr v \<and> bytes \<noteq> []"
  shows "take_packet decode (transfer MAX_PACKET install msg) = Inr (v, map_option install passed)"
proof -
  from packet_message_ok [OF assms(1)] have msg: "encode v = Inr (sm_bytes msg)" "length (sm_bytes msg) \<le> MAX_PACKET"
    "sm_control msg = map_option rights_header passed" "\<forall>c. sm_control msg = Some c \<longrightarrow> passes_fd msg c" by auto
  with assms(2) have "decode (sm_bytes msg) = Inr v" "sm_bytes msg \<noteq> []" by auto
  with msg show ?thesis
    by (cases passed) (auto simp: take_packet_def transfer_def carries_rights_def rights_header_def)
qed

end
