(* ===== verification/Broker_Server.thy ===== *)
theory Broker_Server imports Notify_World Landlock Broker_Packet begin

text \<open>
  \<open>src/src/supervisor/broker.rs\<close>, the confined process: the table of pinned paths, the handlers of
  the requests, and the loop that serves them. Every kernel call is answered by an environment and
  logged; a descriptor's drop is logged too, so that what the process owns can be read off the log.
\<close>

section \<open>Linux numbers\<close>

definition EEXIST :: int where [abi_defs]: "EEXIST = 17"
definition EXDEV :: int where [abi_defs]: "EXDEV = 18"
definition ENOTDIR :: int where [abi_defs]: "ENOTDIR = 20"
definition EBUSY :: int where [abi_defs]: "EBUSY = 16"
definition EAFNOSUPPORT :: int where [abi_defs]: "EAFNOSUPPORT = 97"
definition O_EXCL :: u64 where [abi_defs]: "O_EXCL = 0x80"
definition O_DIRECTORY :: u64 where [abi_defs]: "O_DIRECTORY = 0x10000"
definition O_PATH :: u64 where [abi_defs]: "O_PATH = 0x200000"
definition O_TMPFILE :: u64 where [abi_defs]: "O_TMPFILE = 0x410000"
definition AT_SYMLINK_NOFOLLOW :: u32 where [abi_defs]: "AT_SYMLINK_NOFOLLOW = 0x100"
definition RESOLVE_NO_MAGICLINKS :: u64 where [abi_defs]: "RESOLVE_NO_MAGICLINKS = 0x02"
definition RESOLVE_NO_SYMLINKS :: u64 where [abi_defs]: "RESOLVE_NO_SYMLINKS = 0x04"
definition RESOLVE_BENEATH :: u64 where [abi_defs]: "RESOLVE_BENEATH = 0x08"

section \<open>The kernel\<close>

text \<open>\<open>OpenProc f flags\<close> is \<open>open("/proc/self/fd/<f>", flags)\<close>; \<open>ChmodProc\<close> and \<open>ChownProc\<close> name the
  same path.\<close>

datatype fd_call = Openat2 fd path u64 u64 u64 | DupFd fd | OpenProc fd u64

datatype effect_call =
    Ftruncate fd int
  | Renameat2 fd path fd path u32
  | Mkdirat fd path u32
  | Unlinkat fd path u32
  | Linkat fd path fd path
  | Symlinkat path fd path
  | ChmodProc fd u32
  | Fchownat fd path u32 u32
  | ChownProc fd u32 u32

datatype sys =
    FdCall fd_call "io_error + fd"
  | EffectCall effect_call "io_error + unit"
  | ReadFdLink fd "io_error + path"
  | Fstat fd "io_error + u32"
  | SocketCall network_operation fd bytes bytes u32 "io_error + int"
  | Respond broker_response "fd option" "io_error + unit"
  | Receive "io_error + received"
  | DropFd fd

record kernel =
  k_fd :: "sys list \<Rightarrow> fd_call \<Rightarrow> io_error + fd"
  k_effect :: "sys list \<Rightarrow> effect_call \<Rightarrow> io_error + unit"
  k_readlink :: "sys list \<Rightarrow> fd \<Rightarrow> io_error + path"
  k_fstat :: "sys list \<Rightarrow> fd \<Rightarrow> io_error + u32"
  k_socket :: "sys list \<Rightarrow> network_operation \<Rightarrow> fd \<Rightarrow> bytes \<Rightarrow> bytes \<Rightarrow> u32 \<Rightarrow> io_error + int"
  k_respond :: "sys list \<Rightarrow> broker_response \<Rightarrow> fd option \<Rightarrow> io_error + unit"
  k_receive :: "sys list \<Rightarrow> io_error + received"
  k_decode :: "string \<Rightarrow> string + broker_request"

section \<open>State\<close>

record held_path =
  hp_target :: "fd option"
  hp_parent :: "fd option"
  hp_basename :: "path option"

record broker_state =
  bs_anchors :: "root_anchor list"
  bs_workspace :: path
  bs_held :: "u64 \<Rightarrow> held_path option"
  bs_next_token :: u64
  bs_log :: "sys list"

type_synonym 'a serve = "(broker_state, io_error, 'a) eff"

definition sys_call :: "(sys list \<Rightarrow> 'r) \<Rightarrow> ('r \<Rightarrow> sys) \<Rightarrow> 'r serve" where
  "sys_call answer mk = (\<lambda>s. let r = answer (bs_log s) in (Inr r, s\<lparr>bs_log := bs_log s @ [mk r]\<rparr>))"

text \<open>The kernel's answer as the \<open>io::Result\<close> of the call.\<close>

definition fd_result :: "kernel \<Rightarrow> fd_call \<Rightarrow> fd serve" where
  "fd_result K c = bindE (sys_call (\<lambda>h. k_fd K h c) (FdCall c)) (liftE id)"

text \<open>\<open>rc_zero\<close> of an effect: \<open>Ok(0)\<close> or the last OS error.\<close>

definition rc_zero :: "kernel \<Rightarrow> effect_call \<Rightarrow> int serve" where
  "rc_zero K c = bindE (sys_call (\<lambda>h. k_effect K h c) (EffectCall c)) (\<lambda>r. liftE id (map_sum id (\<lambda>_. 0) r))"

definition openat2 :: "kernel \<Rightarrow> fd \<Rightarrow> path \<Rightarrow> u64 \<Rightarrow> u64 \<Rightarrow> u64 \<Rightarrow> fd serve" where
  "openat2 K dirfd p flags m resolve = fd_result K (Openat2 dirfd p flags m resolve)"

definition dup_fd :: "kernel \<Rightarrow> fd \<Rightarrow> fd serve" where
  "dup_fd K f = fd_result K (DupFd f)"

definition fd_identity :: "kernel \<Rightarrow> fd \<Rightarrow> path serve" where
  "fd_identity K f = bindE (sys_call (\<lambda>h. k_readlink K h f) (ReadFdLink f)) (liftE id)"

definition drop_fds :: "fd list \<Rightarrow> broker_state \<Rightarrow> broker_state" where
  "drop_fds fs s = s\<lparr>bs_log := bs_log s @ map DropFd fs\<rparr>"

definition option_list :: "'a option \<Rightarrow> 'a list" where
  "option_list x = (case x of None \<Rightarrow> [] | Some y \<Rightarrow> [y])"

definition held_fds :: "held_path \<Rightarrow> fd list" where
  "held_fds h = option_list (hp_target h) @ option_list (hp_parent h)"

section \<open>Answers\<close>

definition respond :: "kernel \<Rightarrow> broker_response \<Rightarrow> fd option \<Rightarrow> unit serve" where
  "respond K resp f = bindE (sys_call (\<lambda>h. k_respond K h resp f) (Respond resp f)) (liftE id)"

definition respond_errno :: "kernel \<Rightarrow> int \<Rightarrow> unit serve" where
  "respond_errno K errno = respond K (ErrnoValue errno) None"

text \<open>\<open>error.raw_os_error().unwrap_or(EACCES)\<close>.\<close>

definition raw_or_eacces :: "io_error \<Rightarrow> int" where
  "raw_or_eacces e = (case e of Some n \<Rightarrow> n | None \<Rightarrow> EACCES)"

section \<open>Preparing a path\<close>

definition prepare_parent :: "kernel \<Rightarrow> fd \<Rightarrow> path \<Rightarrow> u64 \<Rightarrow> (fd \<times> path) serve" where
  "prepare_parent K anchor relative resolve =
     (case path_file_name relative of
        None \<Rightarrow> failE (Some EINVAL)
      | Some basename \<Rightarrow>
          if CHR 0x00 \<in> set basename then failE (Some EINVAL)
          else
            let parent = (case path_parent relative of None \<Rightarrow> [] | Some q \<Rightarrow> q)
            in if parent = [] then bindE (dup_fd K anchor) (\<lambda>f. retE (f, basename))
               else if CHR 0x00 \<in> set parent then failE (Some EINVAL)
               else bindE (openat2 K anchor parent (O_PATH OR O_DIRECTORY OR O_CLOEXEC) 0 resolve)
                      (\<lambda>f. retE (f, basename)))"

definition resolve_flags :: "broker_state \<Rightarrow> root_anchor \<Rightarrow> u64" where
  "resolve_flags s anchor =
     RESOLVE_BENEATH OR RESOLVE_NO_MAGICLINKS OR
       (if path_eq (ra_root anchor) (bs_workspace s) \<or> path_eq (ra_root anchor) ''/'' then 0
        else RESOLVE_NO_SYMLINKS)"

text \<open>The final entry, pinned; it may be missing when the request allows that.\<close>

definition open_target :: "kernel \<Rightarrow> root_anchor \<Rightarrow> path \<Rightarrow> bool \<Rightarrow> u64 \<Rightarrow> fd serve" where
  "open_target K anchor relative follow_final_symlink resolve =
     (if relative = [] then dup_fd K (ra_fd anchor)
      else openat2 K (ra_fd anchor) relative
             (O_PATH OR O_CLOEXEC OR (if follow_final_symlink then 0 else O_NOFOLLOW)) 0 resolve)"

definition identity_of :: "kernel \<Rightarrow> fd option \<Rightarrow> (fd \<times> path) option \<Rightarrow> path serve" where
  "identity_of K target parts =
     (case target of
        Some f \<Rightarrow> fd_identity K f
      | None \<Rightarrow> (case parts of
                   None \<Rightarrow> failE (Some ENOENT)
                 | Some (parent, basename) \<Rightarrow>
                     bindE (fd_identity K parent) (\<lambda>p. retE (path_join p basename))))"

text \<open>\<open>next_token.checked_add(1).unwrap_or(1)\<close>.\<close>

definition next_token :: "u64 \<Rightarrow> u64" where
  "next_token t = (if t = - 1 then 1 else t + 1)"

text \<open>\<open>held.insert\<close>: the old value under the token, if any, is dropped.\<close>

definition hold_path :: "held_path \<Rightarrow> u64 serve" where
  "hold_path h = (\<lambda>s.
     let token = bs_next_token s
     in (Inr token, drop_fds (concat (map held_fds (option_list (bs_held s token))))
           (s\<lparr>bs_next_token := next_token token,
              bs_held := (bs_held s)(token := Some h)\<rparr>)))"

definition prepare_identity ::
  "kernel \<Rightarrow> root_anchor \<Rightarrow> bool \<Rightarrow> fd option \<Rightarrow> (fd \<times> path) option \<Rightarrow> unit serve" where
  "prepare_identity K anchor ex target parts =
     bindE (tryE (identity_of K target parts)) (\<lambda>r.
       let owned = option_list (map_option fst parts) @ option_list target
       in case r of
            Inl e \<Rightarrow> finallyE (failE e) (drop_fds owned)
          | Inr identity \<Rightarrow>
              if \<not> path_starts_with identity (ra_root anchor)
              then finallyE (respond_errno K EXDEV) (drop_fds owned)
              else bindE (hold_path \<lparr>hp_target = target, hp_parent = map_option fst parts,
                                     hp_basename = map_option snd parts\<rparr>) (\<lambda>token.
                     respond K (Prepared token identity ex) None))"

definition prepare_at :: "kernel \<Rightarrow> root_anchor \<Rightarrow> path \<Rightarrow> u64 \<Rightarrow> bool \<Rightarrow> fd option \<Rightarrow> unit serve" where
  "prepare_at K anchor relative resolve ex target =
     (if relative = [] then prepare_identity K anchor ex target None
      else bindE (tryE (prepare_parent K (ra_fd anchor) relative resolve)) (\<lambda>r.
        case r of
          Inl e \<Rightarrow> finallyE (respond_errno K (raw_or_eacces e)) (drop_fds (option_list target))
        | Inr parts \<Rightarrow> prepare_identity K anchor ex target (Some parts)))"

definition bs_prepare_path :: "kernel \<Rightarrow> nat \<Rightarrow> path \<Rightarrow> bool \<Rightarrow> bool \<Rightarrow> unit serve" where
  "bs_prepare_path K anchor_index relative follow_final_symlink allow_missing = (\<lambda>s.
     (if anchor_index \<ge> length (bs_anchors s) then respond_errno K EACCES
      else if CHR 0x00 \<in> set relative then respond_errno K EINVAL
      else
        let anchor = bs_anchors s ! anchor_index;
            resolve = resolve_flags s anchor
        in bindE (tryE (open_target K anchor relative follow_final_symlink resolve)) (\<lambda>r.
             case r of
               Inr f \<Rightarrow> prepare_at K anchor relative resolve True (Some f)
             | Inl e \<Rightarrow>
                 if e = Some ENOENT \<and> allow_missing then prepare_at K anchor relative resolve False None
                 else respond_errno K (raw_or_eacces e))) s)"

section \<open>Commits\<close>

definition required_target :: "held_path \<Rightarrow> io_error + fd" where
  "required_target h = ok_or (Some ENOENT) (hp_target h)"

definition required_parent_name :: "held_path \<Rightarrow> io_error + fd \<times> path" where
  "required_parent_name h =
     and_then (ok_or (Some EBUSY) (hp_parent h)) (\<lambda>parent.
     and_then (ok_or (Some EBUSY) (hp_basename h)) (\<lambda>name. Inr (parent, name)))"

text \<open>\<open>libc::c_int::try_from\<close> of the cleaned flags.\<close>

definition open_existing :: "kernel \<Rightarrow> fd \<Rightarrow> u64 \<Rightarrow> u32 \<Rightarrow> fd serve" where
  "open_existing K target flags m =
     (if flags AND (O_CREAT OR O_EXCL) = O_CREAT OR O_EXCL then failE (Some EEXIST)
      else if flags AND O_PATH \<noteq> 0 then
        (if flags AND O_DIRECTORY \<noteq> 0 then
           bindE (sys_call (\<lambda>h. k_fstat K h target) (Fstat target)) (\<lambda>r.
           bindE (liftE id r) (\<lambda>st.
             if st AND S_IFMT \<noteq> S_IFDIR then failE (Some ENOTDIR) else dup_fd K target))
         else dup_fd K target)
      else
        let clean_flags = flags AND NOT (O_CREAT OR O_EXCL OR O_NOFOLLOW)
        in if clean_flags > 0x7FFFFFFF then failE (Some EINVAL)
           else fd_result K (OpenProc target clean_flags))"

definition open_missing :: "kernel \<Rightarrow> fd \<Rightarrow> path \<Rightarrow> u64 \<Rightarrow> u32 \<Rightarrow> fd serve" where
  "open_missing K parent basename flags m =
     (if flags AND O_CREAT = 0 then failE (Some ENOENT)
      else openat2 K parent basename (flags OR O_NOFOLLOW) (ucast m)
             (RESOLVE_BENEATH OR RESOLVE_NO_MAGICLINKS OR RESOLVE_NO_SYMLINKS))"

definition truncate_held :: "kernel \<Rightarrow> held_path \<Rightarrow> int \<Rightarrow> int serve" where
  "truncate_held K h len =
     (if len < 0 then failE (Some EINVAL)
      else bindE (liftE id (required_target h)) (\<lambda>target.
           bindE (open_existing K target (O_WRONLY OR O_CLOEXEC) 0) (\<lambda>opened.
             finallyE (rc_zero K (Ftruncate opened len)) (drop_fds [opened]))))"

definition rename_held :: "kernel \<Rightarrow> held_path \<Rightarrow> held_path \<Rightarrow> u32 \<Rightarrow> int serve" where
  "rename_held K source destination flags =
     (if flags AND NOT 3 \<noteq> 0 \<or> flags = 3 then failE (Some EINVAL)
      else bindE (liftE id (required_parent_name source)) (\<lambda>(source_parent, source_name).
           bindE (liftE id (required_parent_name destination)) (\<lambda>(destination_parent, destination_name).
             rc_zero K (Renameat2 source_parent source_name destination_parent destination_name flags))))"

definition mkdir_held :: "kernel \<Rightarrow> held_path \<Rightarrow> u32 \<Rightarrow> int serve" where
  "mkdir_held K h m =
     bindE (liftE id (required_parent_name h)) (\<lambda>(parent, name). rc_zero K (Mkdirat parent name m))"

definition unlink_held :: "kernel \<Rightarrow> held_path \<Rightarrow> u32 \<Rightarrow> int serve" where
  "unlink_held K h flags =
     (if flags \<noteq> 0 \<and> flags \<noteq> AT_REMOVEDIR then failE (Some EINVAL)
      else bindE (liftE id (required_parent_name h)) (\<lambda>(parent, name). rc_zero K (Unlinkat parent name flags)))"

definition link_held :: "kernel \<Rightarrow> held_path \<Rightarrow> held_path \<Rightarrow> u32 \<Rightarrow> int serve" where
  "link_held K source destination flags =
     (if flags \<noteq> 0 then failE (Some EOPNOTSUPP)
      else bindE (liftE id (required_parent_name source)) (\<lambda>(source_parent, source_name).
           bindE (liftE id (required_parent_name destination)) (\<lambda>(destination_parent, destination_name).
             rc_zero K (Linkat source_parent source_name destination_parent destination_name))))"

definition symlink_held :: "kernel \<Rightarrow> held_path \<Rightarrow> path \<Rightarrow> int serve" where
  "symlink_held K destination target =
     (if CHR 0x00 \<in> set target then failE (Some EINVAL)
      else bindE (liftE id (required_parent_name destination)) (\<lambda>(parent, name).
             rc_zero K (Symlinkat target parent name)))"

definition chmod_held :: "kernel \<Rightarrow> held_path \<Rightarrow> u32 \<Rightarrow> int serve" where
  "chmod_held K h m = bindE (liftE id (required_target h)) (\<lambda>target. rc_zero K (ChmodProc target m))"

definition chown_held :: "kernel \<Rightarrow> held_path \<Rightarrow> u32 \<Rightarrow> u32 \<Rightarrow> u32 \<Rightarrow> int serve" where
  "chown_held K h uid gid flags =
     (if flags AND NOT AT_SYMLINK_NOFOLLOW \<noteq> 0 then failE (Some EOPNOTSUPP)
      else if flags = AT_SYMLINK_NOFOLLOW
      then bindE (liftE id (required_parent_name h)) (\<lambda>(parent, name). rc_zero K (Fchownat parent name uid gid))
      else bindE (liftE id (required_target h)) (\<lambda>target. rc_zero K (ChownProc target uid gid)))"

text \<open>\<open>self.held.remove(&token)\<close>.\<close>

definition take_held :: "u64 \<Rightarrow> held_path option serve" where
  "take_held token = (\<lambda>s. (Inr (bs_held s token), s\<lparr>bs_held := (bs_held s)(token := None)\<rparr>))"

definition answer_opened :: "kernel \<Rightarrow> io_error + fd \<Rightarrow> unit serve" where
  "answer_opened K opened =
     (case opened of
        Inr f \<Rightarrow> finallyE (respond K (ResultValue 0) (Some f)) (drop_fds [f])
      | Inl e \<Rightarrow> respond_errno K (raw_or_eacces e))"

definition bs_commit_open :: "kernel \<Rightarrow> u64 \<Rightarrow> u64 \<Rightarrow> u32 \<Rightarrow> unit serve" where
  "bs_commit_open K token flags m =
     bindE (take_held token) (\<lambda>taken.
       case taken of
         None \<Rightarrow> respond_errno K EBADF
       | Some h \<Rightarrow>
           if flags AND O_TMPFILE = O_TMPFILE
           then finallyE (respond_errno K EOPNOTSUPP) (drop_fds (held_fds h))
           else (case hp_target h of
                   Some target \<Rightarrow>
                     bindE (tryE (finallyE (open_existing K target flags m) (drop_fds [target]))) (\<lambda>opened.
                       finallyE (answer_opened K opened) (drop_fds (option_list (hp_parent h))))
                 | None \<Rightarrow>
                     (case (hp_parent h, hp_basename h) of
                        (None, _) \<Rightarrow> respond_errno K ENOENT
                      | (Some parent, None) \<Rightarrow> finallyE (respond_errno K ENOENT) (drop_fds [parent])
                      | (Some parent, Some basename) \<Rightarrow>
                          bindE (tryE (finallyE (open_missing K parent basename flags m) (drop_fds [parent])))
                            (answer_opened K))))"

fun mutate :: "kernel \<Rightarrow> held_path \<Rightarrow> held_path option \<Rightarrow> mutation_operation \<Rightarrow> int serve option" where
  "mutate K primary secondary (TruncateOp len) = Some (truncate_held K primary len)"
| "mutate K primary secondary (RenameOp flags) =
     map_option (\<lambda>q. rename_held K primary q flags) secondary"
| "mutate K primary secondary (MkdirOp m) = Some (mkdir_held K primary m)"
| "mutate K primary secondary (UnlinkOp flags) = Some (unlink_held K primary flags)"
| "mutate K primary secondary (LinkOp flags) =
     map_option (\<lambda>q. link_held K primary q flags) secondary"
| "mutate K primary secondary (SymlinkOp target) = Some (symlink_held K primary target)"
| "mutate K primary secondary (ChmodOp m) = Some (chmod_held K primary m)"
| "mutate K primary secondary (ChownOp uid gid flags) = Some (chown_held K primary uid gid flags)"

definition answer_value :: "kernel \<Rightarrow> io_error + int \<Rightarrow> unit serve" where
  "answer_value K r =
     (case r of Inr v \<Rightarrow> respond K (ResultValue v) None | Inl e \<Rightarrow> respond_errno K (raw_or_eacces e))"

definition commit_held :: "kernel \<Rightarrow> held_path \<Rightarrow> held_path option \<Rightarrow> mutation_operation \<Rightarrow> unit serve" where
  "commit_held K primary secondary operation =
     finallyE
       (case mutate K primary secondary operation of
          None \<Rightarrow> respond_errno K EINVAL
        | Some change \<Rightarrow> bindE (tryE change) (answer_value K))
       (drop_fds (concat (map held_fds (option_list secondary)) @ held_fds primary))"

definition bs_commit_mutation :: "kernel \<Rightarrow> u64 \<Rightarrow> u64 option \<Rightarrow> mutation_operation \<Rightarrow> unit serve" where
  "bs_commit_mutation K primary_token secondary_token operation =
     bindE (take_held primary_token) (\<lambda>primary.
       case primary of
         None \<Rightarrow> respond_errno K EBADF
       | Some p \<Rightarrow>
           (case secondary_token of
              None \<Rightarrow> commit_held K p None operation
            | Some token \<Rightarrow>
                bindE (take_held token) (\<lambda>secondary.
                  case secondary of
                    None \<Rightarrow> finallyE (respond_errno K EBADF) (drop_fds (held_fds p))
                  | Some q \<Rightarrow> commit_held K p (Some q) operation)))"

section \<open>Network operations\<close>

definition bs_network :: "kernel \<Rightarrow> network_operation \<Rightarrow> fd option \<Rightarrow> bytes \<Rightarrow> bytes \<Rightarrow> u32 \<Rightarrow> unit serve" where
  "bs_network K operation socket address payload flags =
     (case socket of
        None \<Rightarrow> respond_errno K EBADF
      | Some f \<Rightarrow>
          finallyE
            (if length address < 2 \<or> length address > 128 then respond_errno K EINVAL
             else
               let family = (le_word [address ! 0, address ! 1] :: u16)
               in if family \<noteq> AF_INET \<and> family \<noteq> AF_INET6 then respond_errno K EAFNOSUPPORT
                  else bindE (sys_call (\<lambda>h. k_socket K h operation f address payload flags)
                                (SocketCall operation f address payload flags)) (\<lambda>r.
                         case r of
                           Inl e \<Rightarrow> respond_errno K (raw_or_eacces e)
                         | Inr v \<Rightarrow> respond K (ResultValue v) None))
            (drop_fds [f]))"

section \<open>The loop\<close>

definition bs_release :: "kernel \<Rightarrow> u64 \<Rightarrow> unit serve" where
  "bs_release K token =
     bindE (take_held token) (\<lambda>taken s.
       respond K Released None (drop_fds (concat (map held_fds (option_list taken))) s))"

text \<open>One request; \<open>False\<close> when the loop returns. A descriptor passed with any other request than
  \<open>Network\<close> is dropped at the end of the iteration.\<close>

definition dispatch :: "kernel \<Rightarrow> broker_request \<Rightarrow> fd option \<Rightarrow> bool serve" where
  "dispatch K req passed =
     (let unused = drop_fds (option_list passed)
      in case req of
           PreparePath anchor relative follow missing \<Rightarrow>
             finallyE (bindE (bs_prepare_path K anchor relative follow missing) (\<lambda>_. retE True)) unused
         | CommitOpen token flags m \<Rightarrow>
             finallyE (bindE (bs_commit_open K token flags m) (\<lambda>_. retE True)) unused
         | CommitMutation primary secondary operation \<Rightarrow>
             finallyE (bindE (bs_commit_mutation K primary secondary operation) (\<lambda>_. retE True)) unused
         | Release token \<Rightarrow> finallyE (bindE (bs_release K token) (\<lambda>_. retE True)) unused
         | Network operation address payload flags \<Rightarrow>
             bindE (bs_network K operation passed address payload flags) (\<lambda>_. retE True)
         | Shutdown \<Rightarrow> finallyE (retE False) unused)"

text \<open>\<open>recv_packet::<Request>\<close>. A packet that is refused leaves the descriptor \<open>recvmsg\<close> installed with
  it open: no owner has been made of it.\<close>

definition receive_request :: "kernel \<Rightarrow> (broker_request \<times> fd option) serve" where
  "receive_request K =
     bindE (sys_call (k_receive K) Receive) (\<lambda>r.
     bindE (liftE id r) (\<lambda>m. liftE id (take_packet (k_decode K) m)))"

definition serve_one :: "kernel \<Rightarrow> bool serve" where
  "serve_one K = bindE (receive_request K) (\<lambda>(req, passed). dispatch K req passed)"

text \<open>\<open>loop\<close>, for at most \<open>n\<close> requests: \<open>None\<close> when they do not suffice.\<close>

fun bs_run :: "kernel \<Rightarrow> nat \<Rightarrow> broker_state \<Rightarrow> ((io_error + unit) \<times> broker_state) option" where
  "bs_run K 0 s = None"
| "bs_run K (Suc n) s =
     (case serve_one K s of
        (Inl e, s') \<Rightarrow> Some (Inl e, s')
      | (Inr True, s') \<Rightarrow> bs_run K n s'
      | (Inr False, s') \<Rightarrow> Some (Inr (), s'))"

definition initial_state :: "root_anchor list \<Rightarrow> path \<Rightarrow> broker_state" where
  "initial_state anchors workspace =
     \<lparr>bs_anchors = anchors, bs_workspace = workspace, bs_held = (\<lambda>_. None), bs_next_token = 1, bs_log = []\<rparr>"

section \<open>Entering the sandbox\<close>

text \<open>\<open>broker_child\<close>: the answers of \<open>prctl\<close>, of \<open>landlock_restrict_self\<close> and of the first send,
  with the message of an OS error, give the exit code or the loop's.\<close>

definition broker_child ::
  "kernel \<Rightarrow> (int \<Rightarrow> string) \<Rightarrow> io_error + unit \<Rightarrow> io_error + unit \<Rightarrow> nat \<Rightarrow> broker_state \<Rightarrow>
   (int \<times> broker_state) option" where
  "broker_child K message no_new_privs restricted n s =
     (let setup_error = (\<lambda>e code.
        Some (code, snd (respond K (SetupError (message (raw_or_eacces e))) None s)))
      in case no_new_privs of
           Inl e \<Rightarrow> setup_error e 70
         | Inr _ \<Rightarrow>
             (case restricted of
                Inl e \<Rightarrow> setup_error e 71
              | Inr _ \<Rightarrow>
                  (case respond K Ready None s of
                     (Inl _, s') \<Rightarrow> Some (72, s')
                   | (Inr _, s') \<Rightarrow>
                       (case bs_run K n s' of
                          None \<Rightarrow> None
                        | Some (Inr _, s'') \<Rightarrow> Some (0, s'')
                        | Some (Inl _, s'') \<Rightarrow> Some (73, s'')))))"

end
