(* ===== verification/Broker_Logic.thy ===== *)
theory Broker_Logic imports Broker_Server "HOL-Library.Multiset" begin

text \<open>
  The account of the confined broker: which descriptors it owns, which answers it gave, which tokens
  are held. \<open>owes c N D rs M s\<close> says that in state \<open>s\<close> the next token is \<open>N\<close>, the held tokens are
  \<open>D\<close>, the answers so far are \<open>rs\<close>, and every descriptor ever acquired has been dropped, is held
  under a token, or is one of \<open>M\<close>, those the running handler still owns. One rule per operation.
\<close>

section \<open>The account\<close>

fun acquired :: "sys \<Rightarrow> fd multiset" where
  "acquired (FdCall c (Inr f)) = {#f#}"
| "acquired (Receive (Inr m)) = mset (installed m)"
| "acquired _ = {#}"

fun dropped :: "sys \<Rightarrow> fd multiset" where
  "dropped (DropFd f) = {#f#}"
| "dropped _ = {#}"

fun answer :: "sys \<Rightarrow> (broker_response \<times> fd option) list" where
  "answer (Respond resp f r) = [(resp, f)]"
| "answer _ = []"

definition acquired_fds :: "sys list \<Rightarrow> fd multiset" where
  "acquired_fds h = sum_list (map acquired h)"

definition dropped_fds :: "sys list \<Rightarrow> fd multiset" where
  "dropped_fds h = sum_list (map dropped h)"

definition answers :: "sys list \<Rightarrow> (broker_response \<times> fd option) list" where
  "answers h = concat (map answer h)"

lemma log_append [simp]:
  "acquired_fds (h @ [c]) = acquired_fds h + acquired c"
  "dropped_fds (h @ [c]) = dropped_fds h + dropped c"
  "answers (h @ [c]) = answers h @ answer c"
  by (simp_all add: acquired_fds_def dropped_fds_def answers_def)

lemma log_drops [simp]:
  "acquired_fds (h @ map DropFd fs) = acquired_fds h"
  "dropped_fds (h @ map DropFd fs) = dropped_fds h + mset fs"
  "answers (h @ map DropFd fs) = answers h"
  by (induction fs rule: rev_induct) (simp_all add: acquired_fds_def dropped_fds_def answers_def)

text \<open>The last call that is not a drop.\<close>

fun is_drop :: "sys \<Rightarrow> bool" where
  "is_drop (DropFd f) = True"
| "is_drop _ = False"

definition last_call :: "sys list \<Rightarrow> sys option" where
  "last_call h = (let cs = filter (\<lambda>c. \<not> is_drop c) h in if cs = [] then None else Some (last cs))"

lemma last_call_append [simp]: "last_call (h @ [c]) = (if is_drop c then last_call h else Some c)"
  by (simp add: last_call_def Let_def)

lemma last_call_drops [simp]: "last_call (h @ map DropFd fs) = last_call h"
  by (simp add: last_call_def comp_def)

lemma last_call_drop_fds [simp]: "last_call (bs_log (drop_fds fs s)) = last_call (bs_log s)"
  by (simp add: drop_fds_def)

definition held_mset :: "(u64 \<Rightarrow> held_path option) \<Rightarrow> fd multiset" where
  "held_mset held = (\<Sum>t \<in> dom held. mset (held_fds (the (held t))))"

type_synonym config = "root_anchor list \<times> path"

definition owes :: "config \<Rightarrow> u64 \<Rightarrow> u64 set \<Rightarrow> (broker_response \<times> fd option) list \<Rightarrow> fd multiset \<Rightarrow>
    broker_state \<Rightarrow> bool" where
  "owes c N D rs M s \<longleftrightarrow> (bs_anchors s, bs_workspace s) = c \<and> bs_next_token s = N \<and>
     finite D \<and> dom (bs_held s) = D \<and> answers (bs_log s) = rs \<and>
     acquired_fds (bs_log s) = dropped_fds (bs_log s) + held_mset (bs_held s) + M"

lemma held_mset_remove:
  assumes "finite (dom held)"
  shows "held_mset held = held_mset (held(t := None)) + mset (concat (map held_fds (option_list (held t))))"
proof (cases "held t")
  case (Some h)
  let ?f = "\<lambda>u. mset (held_fds (the (held u)))"
  have "held_mset held = ?f t + (\<Sum>u \<in> dom held - {t}. ?f u)"
    unfolding held_mset_def using assms Some by (intro sum.remove) auto
  also have "(\<Sum>u \<in> dom held - {t}. ?f u) = held_mset (held(t := None))"
    unfolding held_mset_def by (rule sum.cong) auto
  also have "?f t = mset (concat (map held_fds (option_list (held t))))"
    using Some by (simp add: option_list_def)
  finally show ?thesis by (simp only: add.commute)
qed (simp add: option_list_def fun_upd_idem)

lemma swap_summand: "a = z + f \<Longrightarrow> b = z + x \<Longrightarrow> a + x = b + (f :: fd multiset)"
  by (simp add: ac_simps)

lemma held_mset_insert:
  assumes "finite (dom held)"
  shows "held_mset (held(t := Some h)) + mset (concat (map held_fds (option_list (held t)))) =
    held_mset held + mset (held_fds h)"
proof -
  have "held_mset (held(t := Some h)) = held_mset (held(t := None)) + mset (held_fds h)"
    using held_mset_remove [of "held(t := Some h)" t] assms by (simp add: option_list_def)
  from swap_summand [OF this held_mset_remove [OF assms, of t]] show ?thesis .
qed

section \<open>Rules of the account\<close>

lemma ok_or_Inl [result_simps]: "ok_or e m = Inl e' \<longleftrightarrow> m = None \<and> e' = e"
  by (cases m) auto

text \<open>A kernel's errors have an OS error number, and it is not zero.\<close>

definition sane_kernel :: "kernel \<Rightarrow> bool" where
  "sane_kernel K \<longleftrightarrow> (\<forall>h c. k_fd K h c \<noteq> Inl (Some 0)) \<and> (\<forall>h c. k_effect K h c \<noteq> Inl (Some 0)) \<and>
     (\<forall>h f. k_fstat K h f \<noteq> Inl (Some 0)) \<and> (\<forall>h op f a p fl. k_socket K h op f a p fl \<noteq> Inl (Some 0))"

lemma owes_log:
  "owes c N D rs M s \<Longrightarrow> acquired x = {#} \<Longrightarrow> dropped x = {#} \<Longrightarrow>
   owes c N D (rs @ answer x) M (s\<lparr>bs_log := bs_log s @ [x]\<rparr>)"
  by (simp add: owes_def)

lemma owes_drop: "owes c N D rs (mset fs + M) s \<Longrightarrow> owes c N D rs M (drop_fds fs s)"
  by (simp add: owes_def drop_fds_def ac_simps)

lemma owes_drop_all: "owes c N D rs M s \<Longrightarrow> M = mset fs \<Longrightarrow> owes c N D rs {#} (drop_fds fs s)"
  by (simp add: owes_drop)

lemma holds_sys_call: "Q (Inr (a (bs_log s))) (s\<lparr>bs_log := bs_log s @ [mk (a (bs_log s))]\<rparr>) \<Longrightarrow>
    holds (sys_call a mk) s Q"
  by (simp add: holds_def sys_call_def Let_def)

lemma owes_fd_result:
  assumes "owes c N D rs M s" and "sane_kernel K"
    and "\<And>f s'. owes c N D rs (add_mset f M) s' \<Longrightarrow> Q (Inr f) s'"
    and "\<And>e s'. owes c N D rs M s' \<Longrightarrow> e \<noteq> Some 0 \<Longrightarrow> last_call (bs_log s') = Some (FdCall q (Inl e)) \<Longrightarrow>
      Q (Inl e) s'"
  shows "holds (fd_result K q) s Q"
proof (cases "k_fd K (bs_log s) q")
  case (Inl e)
  have "owes c N D rs M (s\<lparr>bs_log := bs_log s @ [FdCall q (Inl e)]\<rparr>)"
    using owes_log [OF assms(1), of "FdCall q (Inl e)"] by simp
  moreover have "e \<noteq> Some 0" using assms(2) Inl unfolding sane_kernel_def by metis
  ultimately show ?thesis using Inl assms(4) by (simp add: fd_result_def holds_def bindE_def sys_call_def Let_def liftE_def failE_def)
next
  case (Inr f)
  have "owes c N D rs (add_mset f M) (s\<lparr>bs_log := bs_log s @ [FdCall q (Inr f)]\<rparr>)"
    using assms(1) by (simp add: owes_def)
  then show ?thesis using Inr assms(3) by (simp add: fd_result_def holds_def bindE_def sys_call_def Let_def liftE_def retE_def)
qed

lemmas owes_openat2 = owes_fd_result [where q = "Openat2 dirfd p flags m resolve" for dirfd p flags m resolve,
    folded openat2_def]

lemmas owes_dup_fd = owes_fd_result [where q = "DupFd f" for f, folded dup_fd_def]

lemma owes_rc_zero:
  assumes "owes c N D rs M s" and "sane_kernel K"
    and "\<And>s'. owes c N D rs M s' \<Longrightarrow> Q (Inr 0) s'"
    and "\<And>e s'. owes c N D rs M s' \<Longrightarrow> e \<noteq> Some 0 \<Longrightarrow> Q (Inl e) s'"
  shows "holds (rc_zero K q) s Q"
proof -
  have o: "owes c N D rs M (s\<lparr>bs_log := bs_log s @ [EffectCall q r]\<rparr>)" for r
    using owes_log [OF assms(1), of "EffectCall q r"] by simp
  show ?thesis
  proof (cases "k_effect K (bs_log s) q")
    case (Inl e)
    moreover have "e \<noteq> Some 0" using assms(2) Inl unfolding sane_kernel_def by metis
    ultimately show ?thesis using o assms(4)
      by (simp add: rc_zero_def holds_def bindE_def sys_call_def Let_def liftE_def failE_def)
  next
    case (Inr u)
    then show ?thesis using o assms(3) by (simp add: rc_zero_def holds_def bindE_def sys_call_def Let_def liftE_def retE_def)
  qed
qed

lemma owes_fd_identity:
  assumes "owes c N D rs M s"
    and "\<And>p s'. owes c N D rs M s' \<Longrightarrow> Q (Inr p) s'"
    and "\<And>e s'. owes c N D rs M s' \<Longrightarrow> last_call (bs_log s') = Some (ReadFdLink f (Inl e)) \<Longrightarrow> Q (Inl e) s'"
  shows "holds (fd_identity K f) s Q"
proof -
  have o: "owes c N D rs M (s\<lparr>bs_log := bs_log s @ [ReadFdLink f r]\<rparr>)" for r
    using owes_log [OF assms(1), of "ReadFdLink f r"] by simp
  show ?thesis using o assms(2,3)
    by (cases "k_readlink K (bs_log s) f")
       (simp_all add: fd_identity_def holds_def bindE_def sys_call_def Let_def liftE_def retE_def failE_def)
qed

lemma owes_respond:
  assumes "owes c N D rs M s"
    and "\<And>s'. owes c N D (rs @ [(resp, f)]) M s' \<Longrightarrow> Q (Inr ()) s'"
    and "\<And>e s'. owes c N D (rs @ [(resp, f)]) M s' \<Longrightarrow> last_call (bs_log s') = Some (Respond resp f (Inl e)) \<Longrightarrow>
      Q (Inl e) s'"
  shows "holds (respond K resp f) s Q"
proof -
  have o: "owes c N D (rs @ [(resp, f)]) M (s\<lparr>bs_log := bs_log s @ [Respond resp f r]\<rparr>)" for r
    using owes_log [OF assms(1), of "Respond resp f r"] by simp
  show ?thesis using o assms(2,3)
    by (cases "k_respond K (bs_log s) resp f")
       (simp_all add: respond_def holds_def bindE_def sys_call_def Let_def liftE_def retE_def failE_def)
qed

lemmas owes_respond_errno = owes_respond [where resp = "ErrnoValue e" and f = None for e, folded respond_errno_def]

lemma owes_take:
  assumes "owes c N D rs M s"
    and "t \<notin> D \<Longrightarrow> owes c N D rs M (s\<lparr>bs_held := (bs_held s)(t := None)\<rparr>) \<Longrightarrow>
      Q (Inr None) (s\<lparr>bs_held := (bs_held s)(t := None)\<rparr>)"
    and "\<And>h. t \<in> D \<Longrightarrow> owes c N (D - {t}) rs (mset (held_fds h) + M) (s\<lparr>bs_held := (bs_held s)(t := None)\<rparr>) \<Longrightarrow>
      Q (Inr (Some h)) (s\<lparr>bs_held := (bs_held s)(t := None)\<rparr>)"
  shows "holds (take_held t) s Q"
proof (cases "bs_held s t")
  case None
  then have "t \<notin> D" "(bs_held s)(t := None) = bs_held s" using assms(1) by (auto simp: owes_def)
  with assms(1,2) None show ?thesis by (simp add: holds_def take_held_def owes_def)
next
  case (Some h)
  then have t: "t \<in> D" using assms(1) by (auto simp: owes_def)
  have "owes c N (D - {t}) rs (mset (held_fds h) + M) (s\<lparr>bs_held := (bs_held s)(t := None)\<rparr>)"
    using assms(1) held_mset_remove [of "bs_held s" t] Some
    by (simp add: owes_def option_list_def ac_simps)
  with t assms(3) Some show ?thesis by (simp add: holds_def take_held_def)
qed

lemma owes_hold:
  assumes "owes c N D rs (mset (held_fds h) + M) s"
    and "\<And>s'. owes c (next_token N) (insert N D) rs M s' \<Longrightarrow> Q (Inr N) s'"
  shows "holds (hold_path h) s Q"
proof -
  let ?s = "s\<lparr>bs_next_token := next_token N, bs_held := (bs_held s)(N := Some h)\<rparr>"
  have "owes c (next_token N) (insert N D) rs (mset (concat (map held_fds (option_list (bs_held s N)))) + M) ?s"
    using assms(1) held_mset_insert [of "bs_held s" N h] by (auto simp: owes_def ac_simps)
  from assms(2) [OF owes_drop [OF this]] show ?thesis
    using assms(1) by (simp add: holds_def hold_path_def Let_def owes_def)
qed

end
