(* ===== verification/Broker_Proofs.thy ===== *)
theory Broker_Proofs imports Broker_Logic begin

text \<open>
  What the confined broker guarantees, request by request: one answer of the protocol's shape to
  every request, tokens issued in order and used once, identities inside their anchor, no
  descriptor leaked or dropped twice, and no effect outside a commit.
\<close>

section \<open>The contract of a request\<close>

definition refused :: "broker_response \<times> fd option \<Rightarrow> bool" where
  "refused a = (\<exists>e. a = (ErrnoValue e, None) \<and> e \<noteq> 0)"

text \<open>\<open>answered c N D req a N' D'\<close>: answer \<open>a\<close> is one the protocol allows for \<open>req\<close>, and takes the next
  token and the held tokens from \<open>N\<close> and \<open>D\<close> to \<open>N'\<close> and \<open>D'\<close>.\<close>

fun answered :: "config \<Rightarrow> u64 \<Rightarrow> u64 set \<Rightarrow> broker_request \<Rightarrow> broker_response \<times> fd option \<Rightarrow>
    u64 \<Rightarrow> u64 set \<Rightarrow> bool" where
  "answered c N D (PreparePath i rel follow missing) a N' D' =
     ((\<exists>identity ex. a = (Prepared N identity ex, None) \<and> i < length (fst c) \<and>
         path_starts_with identity (ra_root (fst c ! i)) \<and> N' = next_token N \<and> D' = insert N D) \<or>
      refused a \<and> N' = N \<and> D' = D)"
| "answered c N D (CommitOpen t flags m) a N' D' =
     (((\<exists>f. a = (ResultValue 0, Some f)) \<or> refused a) \<and> N' = N \<and> D' = D - {t})"
| "answered c N D (CommitMutation t u op) a N' D' =
     ((a = (ResultValue 0, None) \<or> refused a) \<and> N' = N \<and>
      D' = (if t \<in> D then D - {t} - set (option_list u) else D))"
| "answered c N D (Release t) a N' D' = (a = (Released, None) \<and> N' = N \<and> D' = D - {t})"
| "answered c N D (Network op address payload flags) a N' D' =
     (((\<exists>v. a = (ResultValue v, None)) \<or> refused a) \<and> N' = N \<and> D' = D)"
| "answered c N D Shutdown a N' D' = False"

text \<open>
  The one way out without an answer: preparing a path, the identity of the descriptor just opened could
  not be read (or duplicating the anchor itself reported a missing file, which \<open>fcntl\<close> does not).
\<close>

definition gave_up :: "broker_request \<Rightarrow> io_error \<Rightarrow> sys option \<Rightarrow> bool" where
  "gave_up req e c \<longleftrightarrow> (\<exists>i relative follow missing. req = PreparePath i relative follow missing) \<and>
     (\<exists>f. c = Some (ReadFdLink f (Inl e)) \<or> c = Some (FdCall (DupFd f) (Inl e)) \<and> e = Some ENOENT)"

text \<open>A request that ends the loop with an error: its answer could not be sent, or none was made.\<close>

definition failed_post ::
  "config \<Rightarrow> u64 \<Rightarrow> u64 set \<Rightarrow> (broker_response \<times> fd option) list \<Rightarrow> fd multiset \<Rightarrow> broker_request \<Rightarrow>
   io_error \<Rightarrow> broker_state \<Rightarrow> bool" where
  "failed_post c N D rs P req e s' \<longleftrightarrow>
     (\<exists>a N' D'. owes c N' D' (rs @ [a]) P s' \<and> answered c N D req a N' D' \<and>
        last_call (bs_log s') = Some (Respond (fst a) (snd a) (Inl e))) \<or>
     owes c N D rs P s' \<and> gave_up req e (last_call (bs_log s'))"

definition handled_post ::
  "config \<Rightarrow> u64 \<Rightarrow> u64 set \<Rightarrow> (broker_response \<times> fd option) list \<Rightarrow> fd multiset \<Rightarrow> broker_request \<Rightarrow>
   io_error + unit \<Rightarrow> broker_state \<Rightarrow> bool" where
  "handled_post c N D rs P req r s' \<longleftrightarrow>
     (case r of
        Inl e \<Rightarrow> failed_post c N D rs P req e s'
      | Inr _ \<Rightarrow> \<exists>a N' D'. owes c N' D' (rs @ [a]) P s' \<and> answered c N D req a N' D')"

lemma handled_silent: "owes c N D rs P s' \<Longrightarrow> gave_up req e (last_call (bs_log s')) \<Longrightarrow>
    handled_post c N D rs P req (Inl e) s'"
  unfolding handled_post_def failed_post_def sum.case by blast

lemma handled_Inl: "owes c N' D' (rs @ [a]) P s' \<Longrightarrow> answered c N D req a N' D' \<Longrightarrow>
    last_call (bs_log s') = Some (Respond (fst a) (snd a) (Inl e)) \<Longrightarrow> handled_post c N D rs P req (Inl e) s'"
  unfolding handled_post_def failed_post_def sum.case by blast

lemma handled_Inr: "owes c N' D' (rs @ [a]) P s' \<Longrightarrow> answered c N D req a N' D' \<Longrightarrow>
    handled_post c N D rs P req (Inr ()) s'"
  unfolding handled_post_def sum.case by blast

lemma ok_respond:
  assumes "owes c N' D' rs P s" and "answered c N D req (resp, f) N' D'"
  shows "holds (respond K resp f) s (handled_post c N D rs P req)"
  by (rule owes_respond [OF assms(1)])
     (auto intro: handled_Inl [where a = "(resp, f)"] handled_Inr assms(2))

lemma ok_respond_drop:
  assumes "owes c N' D' rs (mset fs + P) s" and "answered c N D req (resp, f) N' D'"
  shows "holds (finallyE (respond K resp f) (drop_fds fs)) s (handled_post c N D rs P req)"
  by (rule holds_finally, rule owes_respond [OF assms(1)])
     (auto intro: handled_Inl [where a = "(resp, f)"] handled_Inr owes_drop assms(2))

lemma refused_errno [simp]: "refused (ErrnoValue e, None) \<longleftrightarrow> e \<noteq> 0"
  by (auto simp: refused_def)

lemma raw_nonzero: "e \<noteq> Some 0 \<Longrightarrow> raw_or_eacces e \<noteq> 0"
  by (auto simp: raw_or_eacces_def abi_defs split: option.split)

lemma option_list_simps [simp]: "option_list None = []" "option_list (Some x) = [x]"
  by (simp_all add: option_list_def)

lemma ok_errno:
  "owes c N' D' rs P s \<Longrightarrow> answered c N D req (ErrnoValue e, None) N' D' \<Longrightarrow>
   holds (respond_errno K e) s (handled_post c N D rs P req)"
  unfolding respond_errno_def by (rule ok_respond)

lemma ok_errno_drop:
  "owes c N' D' rs (mset fs + P) s \<Longrightarrow> answered c N D req (ErrnoValue e, None) N' D' \<Longrightarrow>
   holds (finallyE (respond_errno K e) (drop_fds fs)) s (handled_post c N D rs P req)"
  unfolding respond_errno_def by (rule ok_respond_drop)

section \<open>Preparing\<close>

lemma owes_prepare_parent:
  assumes "owes c N D rs M s" and "sane_kernel K"
    and "\<And>f b s'. owes c N D rs (add_mset f M) s' \<Longrightarrow> Q (Inr (f, b)) s'"
    and "\<And>e s'. owes c N D rs M s' \<Longrightarrow> e \<noteq> Some 0 \<Longrightarrow> Q (Inl e) s'"
  shows "holds (prepare_parent K anchor rel resolve) s Q"
proof -
  have inval: "Q (Inl (Some EINVAL)) s" by (rule assms(4) [OF assms(1)]) (simp add: abi_defs)
  show ?thesis
    unfolding prepare_parent_def Let_def
    by (intro holds_rules inval owes_dup_fd [OF assms(1,2)] owes_openat2 [OF assms(1,2)] assms(3,4))
qed

lemma owes_identity:
  assumes "owes c N D rs M s" and req: "req = PreparePath i rel follow missing"
    and bare: "target = None \<and> parts = None \<longrightarrow> gave_up req (Some ENOENT) (last_call (bs_log s))"
    and "\<And>p s'. owes c N D rs M s' \<Longrightarrow> Q (Inr p) s'"
    and "\<And>e s'. owes c N D rs M s' \<Longrightarrow> gave_up req e (last_call (bs_log s')) \<Longrightarrow> Q (Inl e) s'"
  shows "holds (identity_of K target parts) s Q"
proof -
  have gave: "last_call (bs_log s') = Some (ReadFdLink f (Inl e)) \<Longrightarrow> gave_up req e (last_call (bs_log s'))" for s' f e
    by (simp add: gave_up_def req)
  show ?thesis
    unfolding identity_of_def
  proof (intro holds_rules)
    fix f
    show "holds (fd_identity K f) s Q"
      by (rule owes_fd_identity [OF assms(1)]; rule assms(4,5); (rule gave)?)
  next
    assume "target = None" "parts = None"
    with assms(1,5) bare show "Q (Inl (Some ENOENT)) s" by blast
  next
    fix y a b
    show "holds (fd_identity K a) s (then_post (\<lambda>p. retE (path_join p b)) Q)"
      by (rule owes_fd_identity [OF assms(1)]; (rule then_post_Inr, rule holds_ret | rule then_post_Inl);
          rule assms(4,5); (rule gave)?)
  qed
qed

definition owned :: "fd option \<Rightarrow> (fd \<times> path) option \<Rightarrow> fd multiset" where
  "owned target parts = mset (option_list target) + mset (option_list (map_option fst parts))"

lemma ok_prepare_identity:
  assumes o: "owes (A, W) N D rs (owned target parts + P) s" and i: "i < length A"
    and bare: "target = None \<and> parts = None \<longrightarrow>
      gave_up (PreparePath i rel follow missing) (Some ENOENT) (last_call (bs_log s))"
  shows "holds (prepare_identity K (A ! i) ex target parts) s
    (handled_post (A, W) N D rs P (PreparePath i rel follow missing))"
  unfolding prepare_identity_def Let_def
proof (rule holds_bind, rule holds_try, rule owes_identity [OF o refl bare]; rule then_post_Inr; simp only: sum.case)
  fix p s'
  assume s': "owes (A, W) N D rs (owned target parts + P) s'"
  show "holds (if \<not> path_starts_with p (ra_root (A ! i))
      then finallyE (respond_errno K EXDEV)
             (drop_fds (option_list (map_option fst parts) @ option_list target))
      else bindE (hold_path \<lparr>hp_target = target, hp_parent = map_option fst parts,
                    hp_basename = map_option snd parts\<rparr>)
             (\<lambda>token. respond K (Prepared token p ex) None)) s'
      (handled_post (A, W) N D rs P (PreparePath i rel follow missing))"
  proof (rule holds_if)
    show "holds (finallyE (respond_errno K EXDEV)
        (drop_fds (option_list (map_option fst parts) @ option_list target))) s'
        (handled_post (A, W) N D rs P (PreparePath i rel follow missing))"
      by (rule ok_errno_drop [where N' = N and D' = D])
         (use s' in \<open>simp_all add: owned_def ac_simps abi_defs EXDEV_def\<close>)
    assume "\<not> \<not> path_starts_with p (ra_root (A ! i))"
    then show "holds (bindE (hold_path \<lparr>hp_target = target, hp_parent = map_option fst parts,
        hp_basename = map_option snd parts\<rparr>) (\<lambda>token. respond K (Prepared token p ex) None)) s'
        (handled_post (A, W) N D rs P (PreparePath i rel follow missing))"
      using s' i
      by (intro holds_bind owes_hold [where M = P] then_post_Inr ok_respond)
         (auto simp: owned_def held_fds_def ac_simps)
  qed
next
  fix e s'
  assume "owes (A, W) N D rs (owned target parts + P) s'"
    "gave_up (PreparePath i rel follow missing) e (last_call (bs_log s'))"
  then show "holds (finallyE (failE e) (drop_fds (option_list (map_option fst parts) @ option_list target))) s'
      (handled_post (A, W) N D rs P (PreparePath i rel follow missing))"
    by (intro holds_rules handled_silent owes_drop) (simp_all add: owned_def ac_simps)
qed

lemma ok_prepare_at:
  assumes o: "owes (A, W) N D rs (mset (option_list target) + P) s" and i: "i < length A" and K: "sane_kernel K"
    and bare: "target = None \<and> relative = [] \<longrightarrow>
      gave_up (PreparePath i rel follow missing) (Some ENOENT) (last_call (bs_log s))"
  shows "holds (prepare_at K (A ! i) relative resolve ex target) s
    (handled_post (A, W) N D rs P (PreparePath i rel follow missing))"
  unfolding prepare_at_def
proof (rule holds_if)
  assume "relative = []"
  then show "holds (prepare_identity K (A ! i) ex target None) s
      (handled_post (A, W) N D rs P (PreparePath i rel follow missing))"
    using o bare by (intro ok_prepare_identity i) (simp_all add: owned_def)
next
  show "holds (bindE (tryE (prepare_parent K (ra_fd (A ! i)) relative resolve)) (\<lambda>r. case r of
          Inl e \<Rightarrow> finallyE (respond_errno K (raw_or_eacces e)) (drop_fds (option_list target))
        | Inr parts \<Rightarrow> prepare_identity K (A ! i) ex target (Some parts))) s
      (handled_post (A, W) N D rs P (PreparePath i rel follow missing))"
  proof (rule holds_bind, rule holds_try, rule owes_prepare_parent [OF o K]; rule then_post_Inr; simp only: sum.case)
    fix f b s'
    assume "owes (A, W) N D rs (add_mset f (mset (option_list target) + P)) s'"
    then show "holds (prepare_identity K (A ! i) ex target (Some (f, b))) s'
        (handled_post (A, W) N D rs P (PreparePath i rel follow missing))"
      by (intro ok_prepare_identity i) (simp_all add: owned_def)
  next
    fix e :: io_error and s'
    assume "owes (A, W) N D rs (mset (option_list target) + P) s'" and "e \<noteq> Some 0"
    then show "holds (finallyE (respond_errno K (raw_or_eacces e)) (drop_fds (option_list target))) s'
        (handled_post (A, W) N D rs P (PreparePath i rel follow missing))"
      by (intro ok_errno_drop) (simp_all add: raw_nonzero)
  qed
qed

lemma owes_open_target:
  assumes "owes c N D rs M s" and "sane_kernel K"
    and "\<And>f s'. owes c N D rs (add_mset f M) s' \<Longrightarrow> Q (Inr f) s'"
    and "\<And>e s'. owes c N D rs M s' \<Longrightarrow> e \<noteq> Some 0 \<Longrightarrow>
      (relative = [] \<longrightarrow> last_call (bs_log s') = Some (FdCall (DupFd (ra_fd anchor)) (Inl e))) \<Longrightarrow> Q (Inl e) s'"
  shows "holds (open_target K anchor relative follow resolve) s Q"
  unfolding open_target_def
  by (intro holds_if owes_dup_fd [OF assms(1,2)] owes_openat2 [OF assms(1,2)] assms(3,4)) simp_all

lemma ok_prepare:
  assumes o: "owes c N D rs P s" and K: "sane_kernel K"
  shows "holds (bs_prepare_path K i relative follow missing) s
    (handled_post c N D rs P (PreparePath i relative follow missing))"
proof -
  obtain A W where c: "c = (A, W)" by (cases c)
  have A: "bs_anchors s = A" using o c by (auto simp: owes_def)
  let ?Q = "handled_post c N D rs P (PreparePath i relative follow missing)"
  consider "length A \<le> i" | "i < length A" "CHR 0x00 \<in> set relative"
    | "i < length A" "CHR 0x00 \<notin> set relative" by linarith
  then show ?thesis
  proof cases
    case 1
    have "holds (respond_errno K EACCES) s ?Q" by (rule ok_errno [OF o]) (simp add: abi_defs)
    with 1 A show ?thesis by (simp add: bs_prepare_path_def holds_def)
  next
    case 2
    have "holds (respond_errno K EINVAL) s ?Q" by (rule ok_errno [OF o]) (simp add: abi_defs)
    with 2 A show ?thesis by (simp add: bs_prepare_path_def holds_def)
  next
    case 3
    let ?resolve = "resolve_flags s (A ! i)"
    have "holds (bindE (tryE (open_target K (A ! i) relative follow ?resolve)) (\<lambda>r. case r of
             Inr f \<Rightarrow> prepare_at K (A ! i) relative ?resolve True (Some f)
           | Inl e \<Rightarrow>
               if e = Some ENOENT \<and> missing then prepare_at K (A ! i) relative ?resolve False None
               else respond_errno K (raw_or_eacces e))) s ?Q"
      unfolding c
    proof (rule holds_bind, rule holds_try, rule owes_open_target [OF o [unfolded c] K];
        rule then_post_Inr; simp only: sum.case)
      fix f s'
      assume "owes (A, W) N D rs (add_mset f P) s'"
      then show "holds (prepare_at K (A ! i) relative ?resolve True (Some f)) s'
          (handled_post (A, W) N D rs P (PreparePath i relative follow missing))"
        by (intro ok_prepare_at 3 K) simp_all
    next
      fix e :: io_error and s'
      assume "owes (A, W) N D rs P s'" and "e \<noteq> Some 0"
        and "relative = [] \<longrightarrow> last_call (bs_log s') = Some (FdCall (DupFd (ra_fd (A ! i))) (Inl e))"
      then show "holds (if e = Some ENOENT \<and> missing then prepare_at K (A ! i) relative ?resolve False None
          else respond_errno K (raw_or_eacces e)) s'
          (handled_post (A, W) N D rs P (PreparePath i relative follow missing))"
        by (intro holds_if ok_prepare_at ok_errno 3 K) (auto simp: raw_nonzero gave_up_def)
    qed
    with 3 A show ?thesis by (simp add: bs_prepare_path_def holds_def Let_def)
  qed
qed

section \<open>Committing\<close>

lemma owes_open_existing:
  assumes o: "owes c N D rs M s" and K: "sane_kernel K"
    and ok: "\<And>f s'. owes c N D rs (add_mset f M) s' \<Longrightarrow> Q (Inr f) s'"
    and err: "\<And>e s'. owes c N D rs M s' \<Longrightarrow> e \<noteq> Some 0 \<Longrightarrow> Q (Inl e) s'"
  shows "holds (open_existing K target flags m) s Q"
proof -
  have fail: "holds (failE (Some e)) s' Q" if "owes c N D rs M s'" "e \<noteq> 0" for e s'
    using that by (intro holds_fail err) auto
  have stat: "holds (sys_call (\<lambda>h. k_fstat K h target) (Fstat target)) s R"
    if R: "\<And>r s'. owes c N D rs M s' \<Longrightarrow> r \<noteq> Inl (Some 0) \<Longrightarrow> R (Inr r) s'" for R :: "io_error + io_error + u32 \<Rightarrow> _"
  proof (rule holds_sys_call, rule R)
    show "owes c N D rs M (s\<lparr>bs_log := bs_log s @ [Fstat target (k_fstat K (bs_log s) target)]\<rparr>)"
      using owes_log [OF o, of "Fstat target (k_fstat K (bs_log s) target)"] by simp
    show "k_fstat K (bs_log s) target \<noteq> Inl (Some 0)" using K by (simp add: sane_kernel_def)
  qed
  show ?thesis
    unfolding open_existing_def Let_def
  proof (intro holds_if)
    show "holds (failE (Some EEXIST)) s Q" "holds (failE (Some EINVAL)) s Q"
      by (rule fail [OF o], simp add: abi_defs)+
    show "holds (dup_fd K target) s Q" by (rule owes_dup_fd [OF o K]; rule ok err)
    show "holds (fd_result K (OpenProc target (flags AND NOT (O_CREAT OR O_EXCL OR O_NOFOLLOW)))) s Q"
      by (rule owes_fd_result [OF o K]; rule ok err)
    show "holds (bindE (sys_call (\<lambda>h. k_fstat K h target) (Fstat target))
        (\<lambda>r. bindE (liftE id r)
          (\<lambda>st. if st AND S_IFMT \<noteq> S_IFDIR then failE (Some ENOTDIR) else dup_fd K target))) s Q"
    proof (rule holds_bind, rule stat, rule then_post_Inr, rule holds_bind)
      fix r :: "io_error + u32" and s'
      assume o': "owes c N D rs M s'" and r: "r \<noteq> Inl (Some 0)"
      show "holds (liftE id r) s' (then_post (\<lambda>st. if st AND S_IFMT \<noteq> S_IFDIR then failE (Some ENOTDIR)
          else dup_fd K target) Q)"
        by (intro holds_rules err fail [OF o'] owes_dup_fd [OF o' K] ok o')
           (use r in \<open>auto simp: abi_defs\<close>)
    qed
  qed
qed

lemma owes_open_missing:
  assumes o: "owes c N D rs M s" and K: "sane_kernel K"
    and ok: "\<And>f s'. owes c N D rs (add_mset f M) s' \<Longrightarrow> Q (Inr f) s'"
    and err: "\<And>e s'. owes c N D rs M s' \<Longrightarrow> e \<noteq> Some 0 \<Longrightarrow> Q (Inl e) s'"
  shows "holds (open_missing K parent basename flags m) s Q"
  unfolding open_missing_def
  by (intro holds_rules err [OF o] owes_openat2 [OF o K] ok err) (simp add: abi_defs)

lemma owes_parent_name:
  assumes "\<And>f b. holds (g (f, b)) s Q" and "Q (Inl (Some EBUSY)) s"
  shows "holds (bindE (liftE id (required_parent_name h)) g) s Q"
  using assms by (intro holds_rules)
    (auto simp: required_parent_name_def result_simps)

lemma owes_target:
  assumes "\<And>f. holds (g f) s Q" and "Q (Inl (Some ENOENT)) s"
  shows "holds (bindE (liftE id (required_target h)) g) s Q"
  using assms by (intro holds_rules) (auto simp: required_target_def result_simps)

lemma owes_mutate:
  assumes o: "owes c N D rs M s" and K: "sane_kernel K" and change: "mutate K p q op = Some change"
    and ok: "\<And>s'. owes c N D rs M s' \<Longrightarrow> Q (Inr 0) s'"
    and err: "\<And>e s'. owes c N D rs M s' \<Longrightarrow> e \<noteq> Some 0 \<Longrightarrow> Q (Inl e) s'"
  shows "holds change s Q"
proof -
  have rc: "holds (rc_zero K call) s Q" for call by (rule owes_rc_zero [OF o K]; rule ok err)
  have fail: "e \<noteq> 0 \<Longrightarrow> holds (failE (Some e)) s Q" for e by (intro holds_fail err [OF o]) simp
  have none: "Q (Inl (Some EBUSY)) s" "Q (Inl (Some ENOENT)) s" by (rule err [OF o], simp add: abi_defs)+
  have named: "(\<And>f b. holds (g (f, b)) s Q) \<Longrightarrow> holds (bindE (liftE id (required_parent_name h)) g) s Q" for g h
    by (rule owes_parent_name; simp add: none)
  have target: "(\<And>f. holds (g f) s Q) \<Longrightarrow> holds (bindE (liftE id (required_target h)) g) s Q" for g h
    by (rule owes_target; simp add: none)
  have split: "holds (case x of (a, b) \<Rightarrow> g a b) s Q" if "\<And>a b. holds (g a b) s Q" for x g
    using that by (cases x) simp
  have trunc: "holds (truncate_held K h len) s Q" for h len
    unfolding truncate_held_def
  proof (intro holds_if fail target)
    fix f
    show "holds (bindE (open_existing K f (O_WRONLY OR O_CLOEXEC) 0) (\<lambda>opened.
        finallyE (rc_zero K (Ftruncate opened len)) (drop_fds [opened]))) s Q"
    proof (rule holds_bind, rule owes_open_existing [OF o K])
      fix g s'
      assume g: "owes c N D rs (add_mset g M) s'"
      show "then_post (\<lambda>opened. finallyE (rc_zero K (Ftruncate opened len)) (drop_fds [opened])) Q (Inr g) s'"
        by (intro then_post_Inr holds_finally owes_rc_zero [OF g K] ok err owes_drop) simp_all
    qed (intro then_post_Inl err)
  qed (simp add: abi_defs)
  show ?thesis
    using change
    by (cases op)
       (auto simp: rename_held_def mkdir_held_def unlink_held_def link_held_def symlink_held_def
          chmod_held_def chown_held_def abi_defs intro!: trunc holds_if fail named target rc split)
qed

lemma ok_answer_value:
  assumes o: "owes c N' D' rs P s" and r: "r = Inr 0 \<or> (\<exists>e. r = Inl e \<and> e \<noteq> Some 0)"
    and a: "answered c N D req (ResultValue 0, None) N' D'"
      "\<And>e. e \<noteq> 0 \<Longrightarrow> answered c N D req (ErrnoValue e, None) N' D'"
  shows "holds (answer_value K r) s (handled_post c N D rs P req)"
  using r unfolding answer_value_def
  by (auto intro!: ok_respond [OF o] ok_errno [OF o] a simp: raw_nonzero)

lemma handled_drop:
  "handled_post c N D rs (mset fs + P) req r s \<Longrightarrow> handled_post c N D rs P req r (drop_fds fs s)"
  unfolding handled_post_def failed_post_def by (cases r; simp; blast intro: owes_drop)

lemma ok_commit_held:
  assumes o: "owes c N D' rs (mset (concat (map held_fds (option_list q)) @ held_fds p) + P) s"
    and K: "sane_kernel K"
    and a: "answered c N D req (ResultValue 0, None) N D'"
      "\<And>e. e \<noteq> 0 \<Longrightarrow> answered c N D req (ErrnoValue e, None) N D'"
  shows "holds (commit_held K p q op) s (handled_post c N D rs P req)"
proof -
  let ?fs = "concat (map held_fds (option_list q)) @ held_fds p"
  have "holds (case mutate K p q op of None \<Rightarrow> respond_errno K EINVAL
      | Some change \<Rightarrow> bindE (tryE change) (answer_value K)) s (handled_post c N D rs (mset ?fs + P) req)"
  proof (rule holds_case_option)
    show "holds (respond_errno K EINVAL) s (handled_post c N D rs (mset ?fs + P) req)"
      by (rule ok_errno [OF o]) (rule a(2), simp add: abi_defs)
    fix change
    assume "mutate K p q op = Some change"
    then show "holds (bindE (tryE change) (answer_value K)) s (handled_post c N D rs (mset ?fs + P) req)"
      by (intro holds_bind holds_try, elim owes_mutate [OF o K];
          intro then_post_Inr ok_answer_value; auto intro: a)
  qed
  then show ?thesis unfolding commit_held_def by (intro holds_finally) (rule holds_mono, assumption, rule handled_drop)
qed

lemma ok_commit_mutation:
  assumes o: "owes c N D rs P s" and K: "sane_kernel K"
  shows "holds (bs_commit_mutation K t u op) s (handled_post c N D rs P (CommitMutation t u op))"
  unfolding bs_commit_mutation_def
proof (rule holds_bind, rule owes_take [OF o]; rule then_post_Inr; simp only: option.case)
  let ?s = "s\<lparr>bs_held := (bs_held s)(t := None)\<rparr>"
  assume "t \<notin> D" "owes c N D rs P ?s"
  then show "holds (respond_errno K EBADF) ?s (handled_post c N D rs P (CommitMutation t u op))"
    by (intro ok_errno) (auto simp: abi_defs)
next
  let ?s = "s\<lparr>bs_held := (bs_held s)(t := None)\<rparr>"
  fix p
  assume t: "t \<in> D" and p: "owes c N (D - {t}) rs (mset (held_fds p) + P) ?s"
  show "holds (case u of None \<Rightarrow> commit_held K p None op
      | Some token \<Rightarrow> bindE (take_held token) (\<lambda>secondary. case secondary of
            None \<Rightarrow> finallyE (respond_errno K EBADF) (drop_fds (held_fds p))
          | Some q \<Rightarrow> commit_held K p (Some q) op)) ?s
      (handled_post c N D rs P (CommitMutation t u op))"
  proof (cases u)
    case None
    then show ?thesis using p t by (auto intro!: ok_commit_held [where D' = "D - {t}"] K)
  next
    case (Some v)
    show ?thesis
      unfolding Some option.case
    proof (rule holds_bind, rule owes_take [OF p]; rule then_post_Inr; simp only: option.case)
      let ?s' = "?s\<lparr>bs_held := (bs_held ?s)(v := None)\<rparr>"
      assume v: "v \<notin> D - {t}" "owes c N (D - {t}) rs (mset (held_fds p) + P) ?s'"
      then have "D - {t} - {v} = D - {t}" by auto
      with v t show "holds (finallyE (respond_errno K EBADF) (drop_fds (held_fds p))) ?s'
          (handled_post c N D rs P (CommitMutation t (Some v) op))"
        by (intro ok_errno_drop [where D' = "D - {t}"]) (auto simp: abi_defs)
    next
      let ?s' = "?s\<lparr>bs_held := (bs_held ?s)(v := None)\<rparr>"
      fix q
      assume "owes c N (D - {t} - {v}) rs (mset (held_fds q) + (mset (held_fds p) + P)) ?s'"
      then show "holds (commit_held K p (Some q) op) ?s' (handled_post c N D rs P (CommitMutation t (Some v) op))"
        using t by (intro ok_commit_held [where D' = "D - {t} - {v}"] K) (auto simp: ac_simps)
    qed
  qed
qed

lemma ok_commit_open:
  assumes o: "owes c N D rs P s" and K: "sane_kernel K"
  shows "holds (bs_commit_open K t flags m) s (handled_post c N D rs P (CommitOpen t flags m))"
  unfolding bs_commit_open_def
proof (rule holds_bind, rule owes_take [OF o]; rule then_post_Inr; simp only: option.case)
  let ?s = "s\<lparr>bs_held := (bs_held s)(t := None)\<rparr>" and ?Q = "handled_post c N D rs P (CommitOpen t flags m)"
  assume "t \<notin> D" "owes c N D rs P ?s"
  then show "holds (respond_errno K EBADF) ?s ?Q" by (intro ok_errno) (auto simp: abi_defs)
next
  let ?s = "s\<lparr>bs_held := (bs_held s)(t := None)\<rparr>" and ?Q = "handled_post c N D rs P (CommitOpen t flags m)"
  fix h
  assume h: "owes c N (D - {t}) rs (mset (held_fds h) + P) ?s"
  have ans: "holds (answer_opened K opened) s' (handled_post c N D rs M (CommitOpen t flags m))"
    if "owes c N (D - {t}) rs (mset (case opened of Inl _ \<Rightarrow> [] | Inr f \<Rightarrow> [f]) + M) s'" "opened \<noteq> Inl (Some 0)"
    for opened s' M
    unfolding answer_opened_def
    using that by (cases opened) (auto intro!: ok_respond_drop ok_errno simp: raw_nonzero)
  have errno: "holds (finallyE (respond_errno K e) (drop_fds fs)) s' (handled_post c N D rs P (CommitOpen t flags m))"
    if "owes c N (D - {t}) rs (mset fs + P) s'" "e \<noteq> 0" for e fs s'
    by (rule ok_errno_drop [OF that(1)]) (simp add: that(2))
  show "holds (if flags AND O_TMPFILE = O_TMPFILE
        then finallyE (respond_errno K EOPNOTSUPP) (drop_fds (held_fds h))
        else case hp_target h of
            None \<Rightarrow> (case (hp_parent h, hp_basename h) of
                (None, _) \<Rightarrow> respond_errno K ENOENT
              | (Some parent, None) \<Rightarrow> finallyE (respond_errno K ENOENT) (drop_fds [parent])
              | (Some parent, Some basename) \<Rightarrow>
                  bindE (tryE (finallyE (open_missing K parent basename flags m) (drop_fds [parent]))) (answer_opened K))
          | Some target \<Rightarrow>
              bindE (tryE (finallyE (open_existing K target flags m) (drop_fds [target])))
                (\<lambda>opened. finallyE (answer_opened K opened) (drop_fds (option_list (hp_parent h))))) ?s ?Q"
  proof (rule holds_if)
    show "holds (finallyE (respond_errno K EOPNOTSUPP) (drop_fds (held_fds h))) ?s ?Q"
      by (rule errno [OF h]) (simp add: abi_defs)
  next
    show "holds (case hp_target h of
            None \<Rightarrow> (case (hp_parent h, hp_basename h) of
                (None, _) \<Rightarrow> respond_errno K ENOENT
              | (Some parent, None) \<Rightarrow> finallyE (respond_errno K ENOENT) (drop_fds [parent])
              | (Some parent, Some basename) \<Rightarrow>
                  bindE (tryE (finallyE (open_missing K parent basename flags m) (drop_fds [parent]))) (answer_opened K))
          | Some target \<Rightarrow>
              bindE (tryE (finallyE (open_existing K target flags m) (drop_fds [target])))
                (\<lambda>opened. finallyE (answer_opened K opened) (drop_fds (option_list (hp_parent h))))) ?s ?Q"
    proof (cases "hp_target h")
      case target: (Some target)
      then have o': "owes c N (D - {t}) rs (add_mset target (mset (option_list (hp_parent h)) + P)) ?s"
        using h by (simp add: held_fds_def)
      have "holds (bindE (tryE (finallyE (open_existing K target flags m) (drop_fds [target])))
          (\<lambda>opened. finallyE (answer_opened K opened) (drop_fds (option_list (hp_parent h))))) ?s ?Q"
        by (rule holds_bind, rule holds_try, rule holds_finally, rule owes_open_existing [OF o' K];
            rule then_post_Inr, rule holds_finally, rule holds_mono [OF ans handled_drop];
            (rule owes_drop)?; simp add: add_mset_commute)
      with target show ?thesis by simp
    next
      case none: None
      show ?thesis
      proof (cases "hp_parent h")
        case None
        with none h have "owes c N (D - {t}) rs P ?s" by (simp add: held_fds_def)
        then show ?thesis using none None by (auto intro!: ok_errno simp: abi_defs)
      next
        case parent: (Some parent)
        with none h have o': "owes c N (D - {t}) rs (add_mset parent P) ?s" by (simp add: held_fds_def)
        show ?thesis
        proof (cases "hp_basename h")
          case None
          with o' none parent show ?thesis by (auto intro!: errno simp: abi_defs)
        next
          case (Some basename)
          have "holds (bindE (tryE (finallyE (open_missing K parent basename flags m) (drop_fds [parent])))
              (answer_opened K)) ?s ?Q"
            by (rule holds_bind, rule holds_try, rule holds_finally, rule owes_open_missing [OF o' K];
                rule then_post_Inr, rule ans; (rule owes_drop)?; simp add: add_mset_commute)
          with none parent Some show ?thesis by simp
        qed
      qed
    qed
  qed
qed

section \<open>Releasing and network operations\<close>

lemma ok_release:
  assumes o: "owes c N D rs P s"
  shows "holds (bs_release K t) s (handled_post c N D rs P (Release t))"
proof -
  let ?s = "s\<lparr>bs_held := (bs_held s)(t := None)\<rparr>" and ?Q = "handled_post c N D rs P (Release t)"
  have "holds (respond K Released None) (drop_fds (concat (map held_fds (option_list (bs_held s t)))) ?s) ?Q"
  proof (rule ok_respond)
    have "owes c N (D - {t}) rs (mset (concat (map held_fds (option_list (bs_held s t)))) + P) ?s"
      using o held_mset_remove [of "bs_held s" t] by (auto simp: owes_def ac_simps)
    then show "owes c N (D - {t}) rs P (drop_fds (concat (map held_fds (option_list (bs_held s t)))) ?s)"
      by (rule owes_drop)
  qed simp
  then show ?thesis by (simp add: bs_release_def take_held_def holds_def bindE_def)
qed

lemma ok_network:
  assumes o: "owes c N D rs (mset (option_list passed) + P) s" and K: "sane_kernel K"
  shows "holds (bs_network K op passed address payload flags) s
    (handled_post c N D rs P (Network op address payload flags))"
proof (cases passed)
  case None
  with o have "owes c N D rs P s" by simp
  then show ?thesis using None by (auto simp: bs_network_def abi_defs intro: ok_errno)
next
  case (Some f)
  let ?R = "handled_post c N D rs (mset [f] + P) (Network op address payload flags)"
  have o': "owes c N D rs (mset [f] + P) s" using o Some by simp
  have errno: "e \<noteq> 0 \<Longrightarrow> holds (respond_errno K e) s ?R" for e
    by (rule ok_errno [OF o']) simp
  have call: "holds (bindE (sys_call (\<lambda>h. k_socket K h op f address payload flags) (SocketCall op f address payload flags))
      (\<lambda>r. case r of Inl e \<Rightarrow> respond_errno K (raw_or_eacces e) | Inr v \<Rightarrow> respond K (ResultValue v) None)) s ?R"
  proof (rule holds_bind, rule holds_sys_call, rule then_post_Inr)
    let ?r = "k_socket K (bs_log s) op f address payload flags"
    let ?s = "s\<lparr>bs_log := bs_log s @ [SocketCall op f address payload flags ?r]\<rparr>"
    have "owes c N D rs (mset [f] + P) ?s"
      using owes_log [OF o', of "SocketCall op f address payload flags ?r"] by simp
    moreover have "?r \<noteq> Inl (Some 0)" using K by (simp add: sane_kernel_def)
    ultimately show "holds (case ?r of Inl e \<Rightarrow> respond_errno K (raw_or_eacces e) | Inr v \<Rightarrow> respond K (ResultValue v) None) ?s ?R"
      by (cases ?r) (auto intro!: ok_respond ok_errno simp: raw_nonzero)
  qed
  have "holds (if length address < 2 \<or> length address > 128 then respond_errno K EINVAL
      else let family = (le_word [address ! 0, address ! 1] :: u16)
        in if family \<noteq> AF_INET \<and> family \<noteq> AF_INET6 then respond_errno K EAFNOSUPPORT
           else bindE (sys_call (\<lambda>h. k_socket K h op f address payload flags) (SocketCall op f address payload flags))
             (\<lambda>r. case r of Inl e \<Rightarrow> respond_errno K (raw_or_eacces e) | Inr v \<Rightarrow> respond K (ResultValue v) None)) s ?R"
    unfolding Let_def
    by (intro holds_if errno call) (simp_all add: abi_defs EAFNOSUPPORT_def)
  then show ?thesis
    unfolding bs_network_def Some option.case
    by (intro holds_finally) (rule holds_mono, assumption, rule handled_drop)
qed

section \<open>The loop\<close>

definition served_post ::
  "config \<Rightarrow> u64 \<Rightarrow> u64 set \<Rightarrow> (broker_response \<times> fd option) list \<Rightarrow> broker_request \<Rightarrow>
   io_error + bool \<Rightarrow> broker_state \<Rightarrow> bool" where
  "served_post c N D rs req r s' \<longleftrightarrow>
     (case r of
        Inl e \<Rightarrow> req \<noteq> Shutdown \<and> failed_post c N D rs {#} req e s'
      | Inr go \<Rightarrow>
          if req = Shutdown then \<not> go \<and> owes c N D rs {#} s'
          else go \<and> (\<exists>a N' D'. owes c N' D' (rs @ [a]) {#} s' \<and> answered c N D req a N' D'))"

lemma ok_continue:
  assumes "holds m s (handled_post c N D rs (mset fs) req)"
  shows "holds (finallyE (bindE m (\<lambda>_. retE True)) (drop_fds fs)) s (served_post c N D rs req)"
proof (rule holds_finally, rule holds_bind, rule holds_mono [OF assms])
  fix r s'
  assume "handled_post c N D rs (mset fs) req r s'"
  then have h: "handled_post c N D rs {#} req r (drop_fds fs s')" using handled_drop [where P = "{#}"] by simp
  show "then_post (\<lambda>_. retE True) (\<lambda>r s'. served_post c N D rs req r (drop_fds fs s')) r s'"
  proof (cases r)
    case (Inl e)
    with h have f: "failed_post c N D rs {#} req e (drop_fds fs s')" by (simp add: handled_post_def)
    then have "req \<noteq> Shutdown" by (auto simp: failed_post_def gave_up_def)
    with f Inl show ?thesis by (simp add: then_post_def served_post_def)
  next
    case (Inr u)
    with h have "req \<noteq> Shutdown" by (auto simp: handled_post_def)
    with h Inr show ?thesis
      by (simp add: then_post_def holds_def retE_def handled_post_def served_post_def)
  qed
qed

lemma ok_dispatch:
  assumes o: "owes c N D rs (mset (option_list passed)) s" and K: "sane_kernel K"
  shows "holds (dispatch K req passed) s (served_post c N D rs req)"
proof (cases req)
  case (Network op address payload flags)
  have drop_none: "finallyE m (drop_fds []) = m" for m :: "bool serve"
    by (rule ext) (simp add: finallyE_def drop_fds_def split: prod.split)
  show ?thesis
    using ok_continue [OF ok_network [where P = "mset []"], of c N D rs passed s K op address payload flags] o K
    by (simp add: dispatch_def Network drop_none)
next
  case Shutdown
  have "owes c N D rs {#} (drop_fds (option_list passed) s)" using o by (intro owes_drop) simp
  then show ?thesis by (simp add: dispatch_def Shutdown holds_def finallyE_def retE_def served_post_def)
qed (auto simp: dispatch_def intro!: ok_continue ok_prepare [OF o K] ok_commit_open [OF o K]
      ok_commit_mutation [OF o K] ok_release [OF o])

section \<open>A session\<close>

text \<open>The answers of a session, each allowed after those before it.\<close>

inductive session :: "config \<Rightarrow> u64 \<Rightarrow> u64 set \<Rightarrow> (broker_response \<times> fd option) list \<Rightarrow> bool" for c where
  start: "session c 1 {} []"
| step: "session c N D rs \<Longrightarrow> answered c N D req a N' D' \<Longrightarrow> session c N' D' (rs @ [a])"

text \<open>
  What nobody owns when the loop has ended: the descriptor of a packet that was refused after \<open>recvmsg\<close>
  had installed it.
\<close>

definition unclaimed :: "io_error + 'a \<Rightarrow> sys list \<Rightarrow> fd multiset" where
  "unclaimed r h =
     (case r of
        Inl e \<Rightarrow> (case last_call h of Some (Receive (Inr m)) \<Rightarrow> mset (installed m) | _ \<Rightarrow> {#})
      | Inr _ \<Rightarrow> {#})"

lemma unclaimed_Inr [simp]: "unclaimed (Inr x) h = {#}"
  by (simp add: unclaimed_def)

lemma receive_account:
  assumes o: "owes c N D rs {#} s"
  shows "holds (receive_request K) s (\<lambda>r s'. case r of
     Inl e \<Rightarrow> owes c N D rs (unclaimed (Inl e :: io_error + bool) (bs_log s')) s'
   | Inr (req, passed) \<Rightarrow> owes c N D rs (mset (option_list passed)) s')"
proof -
  let ?r = "k_receive K (bs_log s)"
  let ?s = "s\<lparr>bs_log := bs_log s @ [Receive ?r]\<rparr>"
  have o': "owes c N D rs (acquired (Receive ?r)) ?s"
    using o by (simp add: owes_def)
  show ?thesis
  proof (cases ?r)
    case (Inl e)
    with o' show ?thesis
      by (simp add: receive_request_def holds_def bindE_def sys_call_def liftE_def failE_def Let_def unclaimed_def)
  next
    case (Inr m)
    show ?thesis
    proof (cases "take_packet (k_decode K) m")
      case (Inl e)
      with o' Inr show ?thesis
        by (simp add: receive_request_def holds_def bindE_def sys_call_def liftE_def failE_def retE_def Let_def unclaimed_def)
    next
      case taken: (Inr vf)
      obtain v f where vf: "vf = (v, f)" by (cases vf)
      have "installed m = option_list f"
        using take_packet_ok [OF taken [unfolded vf]] by (auto simp: option_list_def split: option.splits)
      with o' Inr taken vf show ?thesis
        by (simp add: receive_request_def holds_def bindE_def sys_call_def liftE_def retE_def Let_def)
    qed
  qed
qed

text \<open>A request that fails has its own last call, so nothing of its packet is left over.\<close>

lemma failed_claimed: "failed_post c N D rs P req e s' \<Longrightarrow> unclaimed (Inl e) (bs_log s') = {#}"
  by (auto simp: failed_post_def gave_up_def unclaimed_def)

lemma serve_one_account:
  assumes K: "sane_kernel K" and o: "owes c N D rs {#} s" and ses: "session c N D rs"
  shows "holds (serve_one K) s (\<lambda>r s'. \<exists>N' D' rs'. owes c N' D' rs' (unclaimed r (bs_log s')) s' \<and>
     length rs' \<le> Suc (length rs) \<and> (\<exists>N'' D''. session c N'' D'' rs') \<and> (r = Inr True \<longrightarrow> session c N' D' rs'))"
  unfolding serve_one_def
proof (rule holds_bind, rule holds_mono [OF receive_account [OF o]])
  fix r :: "io_error + broker_request \<times> fd option" and s'
  assume r: "case r of Inl e \<Rightarrow> owes c N D rs (unclaimed (Inl e :: io_error + bool) (bs_log s')) s'
    | Inr (req, passed) \<Rightarrow> owes c N D rs (mset (option_list passed)) s'"
  let ?Q = "\<lambda>r s'. \<exists>N' D' rs'. owes c N' D' rs' (unclaimed r (bs_log s')) s' \<and> length rs' \<le> Suc (length rs) \<and>
     (\<exists>N'' D''. session c N'' D'' rs') \<and> (r = Inr True \<longrightarrow> session c N' D' rs')"
  show "then_post (\<lambda>(req, passed). dispatch K req passed) ?Q r s'"
  proof (cases r)
    case (Inl e)
    with r have "owes c N D rs (unclaimed (Inl e :: io_error + bool) (bs_log s')) s'" by simp
    with ses have "?Q (Inl e) s'" by (metis Inl_Inr_False le_SucI order_refl)
    with Inl show ?thesis by (simp add: then_post_def)
  next
    case (Inr rp)
    obtain req passed where rp: "rp = (req, passed)" by (cases rp)
    have "holds (dispatch K req passed) s' ?Q"
    proof (rule holds_mono [OF ok_dispatch [OF _ K]])
      show "owes c N D rs (mset (option_list passed)) s'" using r Inr rp by simp
      fix r' s''
      assume p: "served_post c N D rs req r' s''"
      show "?Q r' s''"
      proof (cases r')
        case (Inl e)
        with p have f: "failed_post c N D rs {#} req e s''" by (simp add: served_post_def)
        then obtain N' D' rs' where o': "owes c N' D' rs' {#} s''"
          and "rs' = rs \<or> (\<exists>a. rs' = rs @ [a] \<and> answered c N D req a N' D')" unfolding failed_post_def by blast
        then have "length rs' \<le> Suc (length rs) \<and> (\<exists>N'' D''. session c N'' D'' rs')"
          using ses session.step [OF ses] by auto blast
        moreover have "unclaimed r' (bs_log s'') = {#}" unfolding Inl by (rule failed_claimed [OF f])
        with o' have "owes c N' D' rs' (unclaimed r' (bs_log s'')) s''" by simp
        ultimately show ?thesis using Inl by blast
      next
        case (Inr go)
        show ?thesis
        proof (cases "req = Shutdown")
          case True
          with p Inr have "owes c N D rs {#} s''" "\<not> go" by (simp_all add: served_post_def)
          with ses Inr show ?thesis by (metis le_SucI order_refl sum.inject(2) unclaimed_Inr)
        next
          case False
          with p Inr obtain a N' D' where "owes c N' D' (rs @ [a]) {#} s''" "answered c N D req a N' D'"
            by (auto simp: served_post_def)
          with ses Inr show ?thesis by (metis length_append_singleton order_refl session.step unclaimed_Inr)
        qed
      qed
    qed
    with Inr rp show ?thesis by (simp add: then_post_def)
  qed
qed

lemma bs_run_account:
  assumes K: "sane_kernel K"
  shows "bs_run K n s = Some (r, s') \<Longrightarrow> owes c N D rs {#} s \<Longrightarrow> session c N D rs \<Longrightarrow>
    \<exists>N' D' rs'. owes c N' D' rs' (unclaimed r (bs_log s')) s' \<and> length rs' \<le> n + length rs \<and>
      (\<exists>N'' D''. session c N'' D'' rs')"
proof (induction n arbitrary: s N D rs)
  case (Suc n)
  obtain r1 s1 where one: "serve_one K s = (r1, s1)" by (metis surj_pair)
  from holdsD [OF serve_one_account [OF K Suc.prems(2,3)] one] obtain N1 D1 rs1 where
    o1: "owes c N1 D1 rs1 (unclaimed r1 (bs_log s1)) s1" "length rs1 \<le> Suc (length rs)" "\<exists>N'' D''. session c N'' D'' rs1"
      "r1 = Inr True \<longrightarrow> session c N1 D1 rs1" by blast
  show ?case
  proof (cases "r1 = Inr True")
    case True
    with Suc.prems(1) one have "bs_run K n s1 = Some (r, s')" by simp
    from Suc.IH [OF this] o1 True show ?thesis by fastforce
  next
    case False
    with Suc.prems(1) one have "s' = s1" and "unclaimed r (bs_log s1) = unclaimed r1 (bs_log s1)"
      by (auto simp: unclaimed_def split: sum.splits bool.splits)
    with o1 show ?thesis by fastforce
  qed
qed simp

lemma owes_initial: "owes (anchors, workspace) 1 {} [] {#} (initial_state anchors workspace)"
  by (simp add: owes_def initial_state_def answers_def acquired_fds_def dropped_fds_def held_mset_def)

lemma run_account:
  assumes "sane_kernel K" and "bs_run K n (initial_state anchors workspace) = Some (r, s')"
  obtains N' D' rs' N'' D'' where "owes (anchors, workspace) N' D' rs' (unclaimed r (bs_log s')) s'" "length rs' \<le> n"
    "session (anchors, workspace) N'' D'' rs'"
  using bs_run_account [OF assms(1,2) owes_initial session.start] by auto

text \<open>The tokens a list of answers issues.\<close>

fun issued :: "broker_response \<times> fd option \<Rightarrow> u64 list" where
  "issued (Prepared t identity ex, f) = [t]"
| "issued _ = []"

definition tokens_issued :: "(broker_response \<times> fd option) list \<Rightarrow> u64 list" where
  "tokens_issued rs = concat (map issued rs)"

lemma refused_issues [simp]: "refused a \<Longrightarrow> issued a = []"
  by (auto simp: refused_def)

lemma answered_issues:
  assumes "answered c N D req a N' D'"
  shows "issued a = [N] \<and> N' = next_token N \<and> D' = insert N D \<or> issued a = [] \<and> N' = N \<and> D' \<subseteq> D"
  using assms by (cases req) (auto split: if_splits)

lemma unat_of_nat_u64: "n < 2 ^ 64 \<Longrightarrow> unat (of_nat n :: u64) = n"
  by (simp add: unat_of_nat take_bit_nat_eq_self)

lemma session_tokens:
  "session c N D rs \<Longrightarrow> length rs < 2 ^ 64 - 1 \<Longrightarrow>
   \<exists>k \<le> length rs. N = of_nat (Suc k) \<and> tokens_issued rs = map of_nat [1..<Suc k] \<and> D \<subseteq> set (tokens_issued rs)"
proof (induction rule: session.induct)
  case start
  then show ?case by (simp add: tokens_issued_def)
next
  case (step N D rs req a N' D')
  then obtain k where k: "k \<le> length rs" "N = of_nat (Suc k)" "tokens_issued rs = map of_nat [1..<Suc k]"
    "D \<subseteq> set (tokens_issued rs)" by auto
  have "next_token N = of_nat (Suc (Suc k))"
  proof -
    have "Suc k < 2 ^ 64 - 1" using k(1) step.prems by simp
    then have "unat (of_nat (Suc k) :: u64) = Suc k" by (intro unat_of_nat_u64) simp
    moreover have "unat (- 1 :: u64) = 2 ^ 64 - 1" by (simp add: unsigned_minus_1_eq_mask mask_eq_exp_minus_1)
    ultimately have "N \<noteq> - 1" using k(2) \<open>Suc k < 2 ^ 64 - 1\<close> by (metis less_irrefl)
    then show ?thesis using k(2) by (simp add: next_token_def add.commute)
  qed
  moreover have iss: "tokens_issued (rs @ [a]) = tokens_issued rs @ issued a" by (simp add: tokens_issued_def)
  ultimately show ?case
    using answered_issues [OF step.hyps(2)]
  proof (elim disjE conjE)
    assume a: "issued a = [N]" "N' = next_token N" "D' = insert N D"
    show ?thesis
      using a k iss \<open>next_token N = _\<close> by (intro exI [of _ "Suc k"]) auto
  next
    assume "issued a = []" "N' = N" "D' \<subseteq> D"
    with k iss show ?thesis by (intro exI [of _ k]) auto
  qed
qed

lemma session_anchored:
  "session c N D rs \<Longrightarrow> (Prepared t identity ex, f) \<in> set rs \<Longrightarrow>
   f = None \<and> (\<exists>a \<in> set (fst c). path_starts_with identity (ra_root a))"
proof (induction rule: session.induct)
  case (step N D rs req a N' D')
  show ?case
  proof (cases "a = (Prepared t identity ex, f)")
    case True
    with step.hyps(2) show ?thesis by (cases req) (auto simp: refused_def split: if_splits)
  next
    case False
    with step show ?thesis by auto
  qed
qed simp

end
