(* ===== verification/Broker_Claims.thy ===== *)
theory Broker_Claims imports Broker_Proofs begin

text \<open>
  The properties of the confined broker: its answers, its tokens, its descriptors, and which kernel
  calls it makes for which request.
\<close>

section \<open>Calls of a request\<close>

definition traced :: "(sys \<Rightarrow> bool) \<Rightarrow> sys list \<Rightarrow> broker_state \<Rightarrow> bool" where
  "traced Ok h s = (\<exists>cs. bs_log s = h @ cs \<and> list_all Ok cs)"

lemma traced_log: "traced Ok h s \<Longrightarrow> Ok x \<Longrightarrow> traced Ok h (s\<lparr>bs_log := bs_log s @ [x]\<rparr>)"
  by (auto simp: traced_def)

lemma traced_same: "traced Ok h s \<Longrightarrow> bs_log s' = bs_log s \<Longrightarrow> traced Ok h s'"
  by (simp add: traced_def)

lemma traced_drop: "traced Ok h s \<Longrightarrow> (\<And>f. Ok (DropFd f)) \<Longrightarrow> traced Ok h (drop_fds fs s)"
  by (auto simp: traced_def drop_fds_def list_all_iff)

lemma traced_sys_call:
  assumes "traced Ok h s" and "\<And>r. Ok (mk r)" and "\<And>r s'. traced Ok h s' \<Longrightarrow> Q (Inr r) s'"
  shows "holds (sys_call a mk) s Q"
  by (rule holds_sys_call) (intro assms traced_log)

lemma traced_fd_result:
  assumes "traced Ok h s" and "\<And>r. Ok (FdCall q r)" and "\<And>r s'. traced Ok h s' \<Longrightarrow> Q r s'"
  shows "holds (fd_result K q) s Q"
  unfolding fd_result_def
  by (rule holds_bind, rule traced_sys_call [OF assms(1,2)], rule then_post_Inr) (intro holds_rules assms(3))

lemma traced_rc_zero:
  assumes "traced Ok h s" and "\<And>r. Ok (EffectCall q r)" and "\<And>r s'. traced Ok h s' \<Longrightarrow> Q r s'"
  shows "holds (rc_zero K q) s Q"
  unfolding rc_zero_def
  by (rule holds_bind, rule traced_sys_call [OF assms(1,2)], rule then_post_Inr) (intro holds_rules assms(3))

lemma traced_respond:
  assumes "traced Ok h s" and "\<And>r. Ok (Respond resp f r)" and "\<And>r s'. traced Ok h s' \<Longrightarrow> Q r s'"
  shows "holds (respond K resp f) s Q"
  unfolding respond_def
  by (rule holds_bind, rule traced_sys_call [OF assms(1,2)], rule then_post_Inr) (intro holds_rules assms(3))

lemma traced_take:
  assumes "traced Ok h s"
    and "\<And>s'. traced Ok h s' \<Longrightarrow> bs_held s' = (bs_held s)(t := None) \<Longrightarrow> Q (Inr (bs_held s t)) s'"
  shows "holds (take_held t) s Q"
  using assms by (simp add: take_held_def holds_def traced_same)

text \<open>The descriptors an effect acts through, except the one \<open>ftruncate\<close> gets from reopening.\<close>

fun effect_fds :: "effect_call \<Rightarrow> fd list" where
  "effect_fds (Ftruncate f len) = []"
| "effect_fds (Renameat2 a x b y flags) = [a, b]"
| "effect_fds (Mkdirat f x m) = [f]"
| "effect_fds (Unlinkat f x flags) = [f]"
| "effect_fds (Linkat a x b y) = [a, b]"
| "effect_fds (Symlinkat x f y) = [f]"
| "effect_fds (ChmodProc f m) = [f]"
| "effect_fds (Fchownat f x uid gid) = [f]"
| "effect_fds (ChownProc f uid gid) = [f]"

text \<open>The kind of effect an operation asks for, with its own arguments.\<close>

fun effect_of :: "mutation_operation \<Rightarrow> effect_call \<Rightarrow> bool" where
  "effect_of (TruncateOp len) (Ftruncate f l) = (l = len)"
| "effect_of (RenameOp flags) (Renameat2 a x b y fl) = (fl = flags)"
| "effect_of (MkdirOp m) (Mkdirat f x m') = (m' = m)"
| "effect_of (UnlinkOp flags) (Unlinkat f x fl) = (fl = flags)"
| "effect_of (LinkOp flags) (Linkat a x b y) = True"
| "effect_of (SymlinkOp target) (Symlinkat x f y) = (x = target)"
| "effect_of (ChmodOp m) (ChmodProc f m') = (m' = m)"
| "effect_of (ChownOp uid gid flags) (Fchownat f x u g) = (u = uid \<and> g = gid)"
| "effect_of (ChownOp uid gid flags) (ChownProc f u g) = (u = uid \<and> g = gid)"
| "effect_of _ _ = False"

definition pinned :: "broker_state \<Rightarrow> u64 \<Rightarrow> fd set" where
  "pinned s t = (case bs_held s t of None \<Rightarrow> {} | Some h \<Rightarrow> set (held_fds h))"

definition plain_call :: "sys \<Rightarrow> bool" where
  "plain_call c = (case c of Respond _ _ _ \<Rightarrow> True | DropFd _ \<Rightarrow> True | _ \<Rightarrow> False)"

text \<open>The calls a request may make, in the state it is served in. Preparing resolves: every open is
  beneath the request's anchor and yields a path descriptor. A commit opens or changes what the
  request's tokens pin, as its operation says. A network operation acts on the descriptor passed.\<close>

fun may_call :: "broker_state \<Rightarrow> broker_request \<Rightarrow> fd option \<Rightarrow> sys \<Rightarrow> bool" where
  "may_call s (PreparePath i rel follow missing) passed c =
     (plain_call c \<or> (case c of
        FdCall (Openat2 d p flags m resolve) r \<Rightarrow> i < length (bs_anchors s) \<and> d = ra_fd (bs_anchors s ! i) \<and>
          flags AND O_PATH \<noteq> 0 \<and> resolve AND RESOLVE_BENEATH \<noteq> 0 \<and> resolve AND RESOLVE_NO_MAGICLINKS \<noteq> 0
      | FdCall (DupFd d) r \<Rightarrow> i < length (bs_anchors s) \<and> d = ra_fd (bs_anchors s ! i)
      | ReadFdLink f r \<Rightarrow> True
      | _ \<Rightarrow> False))"
| "may_call s (CommitOpen t flags m) passed c =
     (plain_call c \<or> (case c of
        FdCall (Openat2 d p fl m' resolve) r \<Rightarrow> d \<in> pinned s t \<and> flags AND O_CREAT \<noteq> 0 \<and>
          fl AND O_NOFOLLOW \<noteq> 0 \<and> resolve = RESOLVE_BENEATH OR RESOLVE_NO_MAGICLINKS OR RESOLVE_NO_SYMLINKS
      | FdCall (DupFd d) r \<Rightarrow> d \<in> pinned s t \<and> flags AND O_PATH \<noteq> 0
      | FdCall (OpenProc d fl) r \<Rightarrow> d \<in> pinned s t \<and> fl AND O_CREAT = 0
      | Fstat d r \<Rightarrow> d \<in> pinned s t
      | _ \<Rightarrow> False))"
| "may_call s (CommitMutation t u op) passed c =
     (plain_call c \<or> (case c of
        EffectCall e r \<Rightarrow> effect_of op e \<and> set (effect_fds e) \<subseteq> pinned s t \<union> (\<Union>v \<in> set (option_list u). pinned s v)
      | FdCall (OpenProc d fl) r \<Rightarrow> d \<in> pinned s t \<and> fl = O_WRONLY OR O_CLOEXEC \<and> (\<exists>len. op = TruncateOp len)
      | _ \<Rightarrow> False))"
| "may_call s (Release t) passed c = plain_call c"
| "may_call s (Network op address payload flags) passed c =
     (plain_call c \<or> (case c of
        SocketCall o' f a p fl r \<Rightarrow> o' = op \<and> passed = Some f \<and> a = address \<and> p = payload \<and> fl = flags \<and>
          2 \<le> length a \<and> length a \<le> 128
      | _ \<Rightarrow> False))"
| "may_call s Shutdown passed c = plain_call c"

lemma plain_calls [simp]: "plain_call (Respond resp f r)" "plain_call (DropFd g)"
  by (simp_all add: plain_call_def)

lemma may_call_plain [simp]: "plain_call c \<Longrightarrow> may_call s req passed c"
  by (cases req) simp_all

lemma traced_errno:
  assumes "traced (may_call s0 req passed) h s" and "\<And>r s'. traced (may_call s0 req passed) h s' \<Longrightarrow> Q r s'"
  shows "holds (respond_errno K e) s Q"
  unfolding respond_errno_def by (rule traced_respond [OF assms(1) _ assms(2)]) simp

lemma traced_drops: "traced (may_call s0 req passed) h s \<Longrightarrow> traced (may_call s0 req passed) h (drop_fds fs s)"
  by (rule traced_drop) simp_all

lemma path_bits:
  "(O_PATH OR O_CLOEXEC OR x) AND O_PATH \<noteq> (0 :: u64)"
  "(O_PATH OR O_DIRECTORY OR O_CLOEXEC) AND O_PATH \<noteq> 0"
proof -
  have b: "bit O_PATH 21" by (simp add: abi_defs)
  have "bit ((O_PATH OR y) AND O_PATH) 21" for y :: u64 using b by (simp add: bit_simps)
  then have "(O_PATH OR y) AND O_PATH \<noteq> 0" for y :: u64 by (metis bit_0_eq bot_apply bot_bool_def)
  then show "(O_PATH OR O_CLOEXEC OR x) AND O_PATH \<noteq> (0 :: u64)"
    "(O_PATH OR O_DIRECTORY OR O_CLOEXEC) AND O_PATH \<noteq> 0" by (simp_all only: or.assoc [symmetric]) (metis or.assoc)+
qed

lemma resolve_bits:
  "resolve_flags s a AND RESOLVE_BENEATH \<noteq> 0" "resolve_flags s a AND RESOLVE_NO_MAGICLINKS \<noteq> 0"
  by (simp_all add: resolve_flags_def abi_defs)

lemma clean_flags_bits: "(flags AND NOT (O_CREAT OR O_EXCL OR O_NOFOLLOW)) AND O_CREAT = 0"
  by (rule bit_word_eqI) (auto simp: bit_simps)

section \<open>Preparing makes no effect\<close>

lemma anchored_open:
  assumes "traced (may_call s0 (PreparePath i relative follow missing) passed) h s"
    and "i < length (bs_anchors s0)" and "d = ra_fd (bs_anchors s0 ! i)"
    and "flags AND O_PATH \<noteq> 0" and "resolve AND RESOLVE_BENEATH \<noteq> 0" and "resolve AND RESOLVE_NO_MAGICLINKS \<noteq> 0"
    and "\<And>r s'. traced (may_call s0 (PreparePath i relative follow missing) passed) h s' \<Longrightarrow> Q r s'"
  shows "holds (openat2 K d p flags m resolve) s Q"
  unfolding openat2_def by (rule traced_fd_result [OF assms(1) _ assms(7)]) (simp add: assms(2-6))

lemma anchored_dup:
  assumes "traced (may_call s0 (PreparePath i relative follow missing) passed) h s"
    and "i < length (bs_anchors s0)" and "d = ra_fd (bs_anchors s0 ! i)"
    and "\<And>r s'. traced (may_call s0 (PreparePath i relative follow missing) passed) h s' \<Longrightarrow> Q r s'"
  shows "holds (dup_fd K d) s Q"
  unfolding dup_fd_def by (rule traced_fd_result [OF assms(1) _ assms(4)]) (simp add: assms(2,3))

lemma traced_identity:
  assumes "traced (may_call s0 (PreparePath i relative follow missing) passed) h s"
    and "\<And>r s'. traced (may_call s0 (PreparePath i relative follow missing) passed) h s' \<Longrightarrow> Q r s'"
  shows "holds (fd_identity K f) s Q"
  unfolding fd_identity_def
  by (rule holds_bind, rule traced_sys_call [OF assms(1)], simp, rule then_post_Inr) (intro holds_rules assms(2))

lemma traced_hold:
  assumes "traced Ok h s" and "\<And>f. Ok (DropFd f)" and "\<And>r s'. traced Ok h s' \<Longrightarrow> Q r s'"
  shows "holds (hold_path hp) s Q"
  unfolding hold_path_def holds_def Let_def prod.case
  by (intro assms(3) traced_drop assms(2)) (rule traced_same [OF assms(1)], simp)

lemma then_postI:
  "(\<And>x. r = Inr x \<Longrightarrow> holds (f x) s Q) \<Longrightarrow> (\<And>e. r = Inl e \<Longrightarrow> Q (Inl e) s) \<Longrightarrow> then_post f Q r s"
  by (cases r) (auto simp: then_post_def)

lemma prepare_identity_calls:
  assumes t: "traced (may_call s0 (PreparePath i relative follow missing) passed) h s"
    and Q: "\<And>r s'. traced (may_call s0 (PreparePath i relative follow missing) passed) h s' \<Longrightarrow> Q r s'"
  shows "holds (prepare_identity K anchor ex target parts) s Q"
proof -
  let ?T = "traced (may_call s0 (PreparePath i relative follow missing) passed) h"
  have after: "holds (case r of
        Inl e \<Rightarrow> finallyE (failE e) (drop_fds fs)
      | Inr identity \<Rightarrow> if \<not> path_starts_with identity (ra_root anchor)
          then finallyE (respond_errno K EXDEV) (drop_fds fs)
          else bindE (hold_path hp) (\<lambda>token. respond K (Prepared token identity ex) None)) s' Q"
    if "?T s'" for r fs hp s'
  proof (cases r)
    case (Inl e)
    with that show ?thesis by (auto intro!: holds_rules Q traced_drops)
  next
    case (Inr identity)
    have "holds (bindE (hold_path hp) (\<lambda>token. respond K (Prepared token identity ex) None)) s' Q"
      by (rule holds_bind, rule traced_hold [OF that])
         (auto intro!: then_postI Q traced_respond)
    with Inr that show ?thesis by (auto intro!: holds_if holds_finally traced_errno Q traced_drops)
  qed
  have "holds (identity_of K target parts) s (\<lambda>r. ?T)"
    unfolding identity_of_def
    by (intro holds_case_option holds_case_prod holds_fail holds_bind traced_identity [OF t] then_postI holds_ret t)
       assumption+
  then show ?thesis
    unfolding prepare_identity_def Let_def
    by (intro holds_bind holds_try) (rule holds_mono, assumption, rule then_post_Inr, rule after)
qed

lemma prepare_at_calls:
  assumes t: "traced (may_call s0 (PreparePath i relative follow missing) passed) h s"
    and i: "i < length (bs_anchors s0)"
    and res: "resolve AND RESOLVE_BENEATH \<noteq> 0" "resolve AND RESOLVE_NO_MAGICLINKS \<noteq> 0"
    and Q: "\<And>r s'. traced (may_call s0 (PreparePath i relative follow missing) passed) h s' \<Longrightarrow> Q r s'"
  shows "holds (prepare_at K (bs_anchors s0 ! i) relative resolve ex target) s Q"
proof -
  let ?T = "traced (may_call s0 (PreparePath i relative follow missing) passed) h"
  let ?a = "bs_anchors s0 ! i"
  have parent: "holds (prepare_parent K (ra_fd ?a) relative resolve) s (\<lambda>r. ?T)"
    unfolding prepare_parent_def Let_def
    by (intro holds_case_option holds_if holds_fail holds_bind anchored_dup [OF t i refl]
        anchored_open [OF t i refl path_bits(2) res] then_postI holds_ret t) assumption+
  show ?thesis
    unfolding prepare_at_def
  proof (intro holds_if)
    show "holds (prepare_identity K ?a ex target None) s Q" by (rule prepare_identity_calls [OF t Q])
    show "holds (bindE (tryE (prepare_parent K (ra_fd ?a) relative resolve)) (\<lambda>r. case r of
        Inl e \<Rightarrow> finallyE (respond_errno K (raw_or_eacces e)) (drop_fds (option_list target))
      | Inr parts \<Rightarrow> prepare_identity K ?a ex target (Some parts))) s Q"
      by (rule holds_bind, rule holds_try, rule holds_mono [OF parent], rule then_post_Inr)
         (intro holds_case_sum holds_finally traced_errno Q traced_drops prepare_identity_calls)
  qed
qed

lemma prepare_calls:
  assumes t: "traced (may_call s0 (PreparePath i relative follow missing) passed) h s"
    and A: "bs_anchors s = bs_anchors s0"
    and Q: "\<And>r s'. traced (may_call s0 (PreparePath i relative follow missing) passed) h s' \<Longrightarrow> Q r s'"
  shows "holds (bs_prepare_path K i relative follow missing) s Q"
proof -
  let ?T = "traced (may_call s0 (PreparePath i relative follow missing) passed) h"
  let ?a = "bs_anchors s0 ! i" and ?res = "resolve_flags s (bs_anchors s0 ! i)"
  have err: "?T s' \<Longrightarrow> holds (respond_errno K e) s' Q" for e s' by (rule traced_errno) (auto intro: Q)
  have body: "holds (bindE (tryE (open_target K ?a relative follow ?res)) (\<lambda>r. case r of
        Inr f \<Rightarrow> prepare_at K ?a relative ?res True (Some f)
      | Inl e \<Rightarrow> if e = Some ENOENT \<and> missing then prepare_at K ?a relative ?res False None
          else respond_errno K (raw_or_eacces e))) s Q" if i: "i < length (bs_anchors s0)"
  proof -
    have at: "holds (prepare_at K ?a relative ?res ex target) s' Q" if "?T s'" for ex target s'
      by (rule prepare_at_calls [OF that i resolve_bits Q])
    have "holds (open_target K ?a relative follow ?res) s (\<lambda>r. ?T)"
      unfolding open_target_def
      by (intro holds_if anchored_dup [OF t i refl] anchored_open [OF t i refl path_bits(1) resolve_bits]) assumption+
    then show ?thesis
      by (intro holds_bind holds_try, elim holds_mono)
         (intro then_post_Inr holds_case_sum holds_if at err)
  qed
  show ?thesis
    using err [OF t] body A by (auto simp: bs_prepare_path_def holds_def Let_def not_le)
qed

section \<open>Commits act on what is pinned\<close>

lemma commit_open_calls:
  assumes t: "traced (may_call s0 (CommitOpen tok flags m) passed) h s" and held: "bs_held s = bs_held s0"
    and Q: "\<And>r s'. traced (may_call s0 (CommitOpen tok flags m) passed) h s' \<Longrightarrow> Q r s'"
  shows "holds (bs_commit_open K tok flags m) s Q"
proof -
  let ?T = "traced (may_call s0 (CommitOpen tok flags m) passed) h"
  have err: "?T s' \<Longrightarrow> (\<And>r s'. ?T s' \<Longrightarrow> R r s') \<Longrightarrow> holds (respond_errno K e) s' R" for e s' R
    by (rule traced_errno)
  have ans: "?T s' \<Longrightarrow> (\<And>r s'. ?T s' \<Longrightarrow> R r s') \<Longrightarrow> holds (answer_opened K opened) s' R" for opened s' R
    unfolding answer_opened_def
    by (cases opened) (auto intro!: err holds_finally traced_respond traced_drops)
  have existing: "holds (open_existing K f flags m) s' (\<lambda>r. ?T)" if T: "?T s'" and f: "f \<in> pinned s0 tok" for f s'
  proof -
    have dup: "?T s2 \<Longrightarrow> flags AND O_PATH \<noteq> 0 \<Longrightarrow> holds (dup_fd K f) s2 (\<lambda>r. ?T)" for s2
      unfolding dup_fd_def by (rule traced_fd_result) (auto simp: f)
    have stat: "holds (sys_call (\<lambda>h. k_fstat K h f) (Fstat f)) s' (then_post g (\<lambda>r. ?T))"
      if "\<And>r s2. ?T s2 \<Longrightarrow> holds (g r) s2 (\<lambda>r. ?T)" for g :: "io_error + u32 \<Rightarrow> fd serve"
      by (rule traced_sys_call [OF T]) (auto simp: f intro!: then_post_Inr that)
    have proc: "holds (fd_result K (OpenProc f (flags AND NOT (O_CREAT OR O_EXCL OR O_NOFOLLOW)))) s' (\<lambda>r. ?T)"
      by (rule traced_fd_result [OF T])
         (simp_all only: may_call.simps sys.case fd_call.case f clean_flags_bits simp_thms)
    show ?thesis
      unfolding open_existing_def Let_def
      by (intro holds_if holds_fail T dup holds_bind stat holds_lift then_postI proc)
  qed
  have missing: "holds (open_missing K f b flags m) s' (\<lambda>r. ?T)" if T: "?T s'" and f: "f \<in> pinned s0 tok" for f b s'
  proof -
    have "(flags OR O_NOFOLLOW) AND O_NOFOLLOW = O_NOFOLLOW" by (rule bit_word_eqI) (auto simp: bit_simps)
    then have "(flags OR O_NOFOLLOW) AND O_NOFOLLOW \<noteq> 0" by (simp add: abi_defs)
    then show ?thesis
      unfolding open_missing_def openat2_def
      by (intro holds_if holds_fail T traced_fd_result [OF T]) (simp_all add: f)
  qed
  show ?thesis
    unfolding bs_commit_open_def
  proof (rule holds_bind, rule traced_take [OF t], rule then_post_Inr)
    fix s'
    assume T: "?T s'"
    show "holds (case bs_held s tok of None \<Rightarrow> respond_errno K EBADF
      | Some h \<Rightarrow>
          if flags AND O_TMPFILE = O_TMPFILE
          then finallyE (respond_errno K EOPNOTSUPP) (drop_fds (held_fds h))
          else (case hp_target h of
                  Some target \<Rightarrow>
                    bindE (tryE (finallyE (open_existing K target flags m) (drop_fds [target]))) (\<lambda>opened.
                      finallyE (answer_opened K opened) (drop_fds (option_list (hp_parent h))))
                | None \<Rightarrow>
                    (case (hp_parent h, hp_basename h) of
                       (None, _) \<Rightarrow> respond_errno K ENOENT
                     | (Some parent, None) \<Rightarrow> finallyE (respond_errno K ENOENT) (drop_fds [parent])
                     | (Some parent, Some basename) \<Rightarrow>
                         bindE (tryE (finallyE (open_missing K parent basename flags m) (drop_fds [parent])))
                           (answer_opened K)))) s' Q"
    proof (cases "bs_held s tok")
      case None
      with T show ?thesis by (auto intro!: err Q)
    next
      case (Some hp)
      have target: "hp_target hp = Some f \<Longrightarrow> f \<in> pinned s0 tok"
        and parent: "hp_parent hp = Some f \<Longrightarrow> f \<in> pinned s0 tok" for f
        using Some held by (simp_all add: pinned_def held_fds_def)
      have open_existing: "holds (bindE (tryE (finallyE (open_existing K f flags m) (drop_fds [f]))) (\<lambda>opened.
          finallyE (answer_opened K opened) (drop_fds fs))) s' Q" if "hp_target hp = Some f" for f fs
        by (rule holds_bind, rule holds_try, rule holds_finally, rule holds_mono [OF existing [OF T target [OF that]]])
           (auto intro!: then_post_Inr holds_finally ans Q traced_drops)
      have open_missing: "holds (bindE (tryE (finallyE (open_missing K f b flags m) (drop_fds [f]))) (answer_opened K)) s' Q"
        if "hp_parent hp = Some f" for f b
        by (rule holds_bind, rule holds_try, rule holds_finally, rule holds_mono [OF missing [OF T parent [OF that]]])
           (auto intro!: then_post_Inr ans Q traced_drops)
      show ?thesis
        using Some T by (auto intro!: open_existing open_missing err holds_finally Q traced_drops split: option.split)
    qed
  qed
qed

lemma parent_name_cases:
  "required_parent_name h = Inr (f, b) \<Longrightarrow> hp_parent h = Some f"
  by (auto simp: required_parent_name_def result_simps)

lemma target_cases: "required_target h = Inr f \<Longrightarrow> hp_target h = Some f"
  by (auto simp: required_target_def result_simps)

lemma mutate_calls:
  assumes t: "traced (may_call s0 (CommitMutation tok u op) passed) h s"
    and p: "set (held_fds p) \<subseteq> pinned s0 tok"
    and q: "\<And>q'. q = Some q' \<Longrightarrow> set (held_fds q') \<subseteq> (\<Union>v \<in> set (option_list u). pinned s0 v)"
    and change: "mutate K p q op = Some change"
    and Q: "\<And>r s'. traced (may_call s0 (CommitMutation tok u op) passed) h s' \<Longrightarrow> Q r s'"
  shows "holds change s Q"
proof -
  let ?T = "traced (may_call s0 (CommitMutation tok u op) passed) h"
  let ?F = "pinned s0 tok \<union> (\<Union>v \<in> set (option_list u). pinned s0 v)"
  have change_call: "holds (rc_zero K e) s' R" if "?T s'" "effect_of op e" "set (effect_fds e) \<subseteq> ?F"
    "\<And>r s'. ?T s' \<Longrightarrow> R r s'" for e s' R
    by (rule traced_rc_zero [OF that(1) _ that(4)]) (simp add: that(2,3))
  have rc: "holds (rc_zero K e) s Q" if "effect_of op e" "set (effect_fds e) \<subseteq> ?F" for e
    by (rule change_call [OF t that Q])
  have err: "holds (failE e) s Q" for e by (intro holds_fail Q t)
  have in_p: "hp_target p = Some f \<Longrightarrow> f \<in> pinned s0 tok" "hp_parent p = Some f \<Longrightarrow> f \<in> pinned s0 tok" for f
    using p by (auto simp: held_fds_def)
  have in_q: "q = Some q' \<Longrightarrow> hp_parent q' = Some f \<Longrightarrow> f \<in> (\<Union>v \<in> set (option_list u). pinned s0 v)" for f q'
    using q by (auto simp: held_fds_def)
  have named: "holds (bindE (liftE id (required_parent_name hp)) (\<lambda>(f, b). g f b)) s Q"
    if "\<And>f b. hp_parent hp = Some f \<Longrightarrow> holds (g f b) s Q" for hp g
    by (intro holds_bind holds_lift then_post_Inr then_post_Inl Q t)
       (auto dest: parent_name_cases intro: that split: prod.split)
  have target: "holds (bindE (liftE id (required_target p)) g) s Q"
    if "\<And>f. hp_target p = Some f \<Longrightarrow> holds (g f) s Q" for g
    by (intro holds_bind holds_lift then_post_Inr then_post_Inl Q t) (auto dest: target_cases intro: that)
  have trunc: "holds (truncate_held K p len) s Q" if op: "op = TruncateOp len" for len
    unfolding truncate_held_def
  proof (intro holds_if err target)
    fix f
    assume f: "hp_target p = Some f"
    have "holds (fd_result K (OpenProc f (O_WRONLY OR O_CLOEXEC))) s (\<lambda>r. ?T)"
      by (rule traced_fd_result [OF t]) (simp_all add: in_p(1) [OF f] op)
    then have "holds (open_existing K f (O_WRONLY OR O_CLOEXEC) 0) s (\<lambda>r. ?T)"
      by (simp add: open_existing_def abi_defs)
    then show "holds (bindE (open_existing K f (O_WRONLY OR O_CLOEXEC) 0) (\<lambda>opened.
        finallyE (rc_zero K (Ftruncate opened len)) (drop_fds [opened]))) s Q"
      by (intro holds_bind, elim holds_mono)
         (intro then_postI Q holds_finally change_call traced_drops; simp add: op)
  qed
  show ?thesis
    using change
    by (cases op)
       (auto simp: rename_held_def mkdir_held_def unlink_held_def link_held_def symlink_held_def
          chmod_held_def chown_held_def in_p intro!: trunc holds_if err named target rc in_q)
qed

lemma commit_held_calls:
  assumes t: "traced (may_call s0 (CommitMutation tok u op) passed) h s"
    and p: "set (held_fds p) \<subseteq> pinned s0 tok"
    and q: "\<And>q'. q = Some q' \<Longrightarrow> set (held_fds q') \<subseteq> (\<Union>v \<in> set (option_list u). pinned s0 v)"
    and Q: "\<And>r s'. traced (may_call s0 (CommitMutation tok u op) passed) h s' \<Longrightarrow> Q r s'"
  shows "holds (commit_held K p q op) s Q"
proof -
  let ?T = "traced (may_call s0 (CommitMutation tok u op) passed) h"
  have ans: "?T s' \<Longrightarrow> holds (answer_value K r) s' (\<lambda>r. ?T)" for r s'
    unfolding answer_value_def
    by (cases r) (auto intro!: traced_errno traced_respond)
  have "holds (case mutate K p q op of None \<Rightarrow> respond_errno K EINVAL
      | Some change \<Rightarrow> bindE (tryE change) (answer_value K)) s (\<lambda>r. ?T)"
  proof (rule holds_case_option)
    show "holds (respond_errno K EINVAL) s (\<lambda>r. ?T)" by (rule traced_errno [OF t])
    show "holds (bindE (tryE change) (answer_value K)) s (\<lambda>r. ?T)" if "mutate K p q op = Some change" for change
      by (rule holds_bind, rule holds_try, rule mutate_calls [OF t p q that]) (auto intro!: then_post_Inr ans)
  qed
  then show ?thesis unfolding commit_held_def
    by (intro holds_finally, elim holds_mono) (intro Q traced_drops)
qed

lemma commit_mutation_calls:
  assumes t: "traced (may_call s0 (CommitMutation tok u op) passed) h s" and held: "bs_held s = bs_held s0"
    and Q: "\<And>r s'. traced (may_call s0 (CommitMutation tok u op) passed) h s' \<Longrightarrow> Q r s'"
  shows "holds (bs_commit_mutation K tok u op) s Q"
  unfolding bs_commit_mutation_def
proof (rule holds_bind, rule traced_take [OF t], rule then_post_Inr, rule holds_case_option)
  let ?T = "traced (may_call s0 (CommitMutation tok u op) passed) h"
  show "?T s' \<Longrightarrow> holds (respond_errno K EBADF) s' Q" for s' by (rule traced_errno) (auto intro: Q)
  fix s1 p
  assume T: "?T s1" and s1: "bs_held s1 = (bs_held s)(tok := None)" and p: "bs_held s tok = Some p"
  have pin: "set (held_fds p) \<subseteq> pinned s0 tok" using p held by (simp add: pinned_def)
  show "holds (case u of None \<Rightarrow> commit_held K p None op
      | Some token \<Rightarrow> bindE (take_held token) (\<lambda>secondary. case secondary of
            None \<Rightarrow> finallyE (respond_errno K EBADF) (drop_fds (held_fds p))
          | Some q \<Rightarrow> commit_held K p (Some q) op)) s1 Q"
  proof (rule holds_case_option)
    show "holds (commit_held K p None op) s1 Q" by (rule commit_held_calls [OF T pin _ Q]) simp_all
    fix token
    assume u: "u = Some token"
    show "holds (bindE (take_held token) (\<lambda>secondary. case secondary of
        None \<Rightarrow> finallyE (respond_errno K EBADF) (drop_fds (held_fds p))
      | Some q \<Rightarrow> commit_held K p (Some q) op)) s1 Q"
    proof (rule holds_bind, rule traced_take [OF T], rule then_post_Inr, rule holds_case_option)
      show "?T s2 \<Longrightarrow> holds (finallyE (respond_errno K EBADF) (drop_fds (held_fds p))) s2 Q" for s2
        by (intro holds_finally traced_errno) (auto intro: Q traced_drops)
      fix s2 q
      assume "?T s2" and "bs_held s1 token = Some q"
      with s1 held u show "holds (commit_held K p (Some q) op) s2 Q"
        by (intro commit_held_calls [OF _ pin _ Q]) (auto simp: pinned_def split: if_splits)
    qed
  qed
qed

section \<open>Every request\<close>

lemma network_calls:
  assumes t: "traced (may_call s0 (Network op address payload flags) passed) h s"
    and Q: "\<And>r s'. traced (may_call s0 (Network op address payload flags) passed) h s' \<Longrightarrow> Q r s'"
  shows "holds (bs_network K op passed address payload flags) s Q"
proof -
  let ?T = "traced (may_call s0 (Network op address payload flags) passed) h"
  have err: "?T s' \<Longrightarrow> holds (respond_errno K e) s' (\<lambda>r. ?T)" for e s' by (rule traced_errno)
  have "holds (if length address < 2 \<or> length address > 128 then respond_errno K EINVAL
      else let family = (le_word [address ! 0, address ! 1] :: u16)
        in if family \<noteq> AF_INET \<and> family \<noteq> AF_INET6 then respond_errno K EAFNOSUPPORT
           else bindE (sys_call (\<lambda>h. k_socket K h op f address payload flags) (SocketCall op f address payload flags))
             (\<lambda>r. case r of Inl e \<Rightarrow> respond_errno K (raw_or_eacces e) | Inr v \<Rightarrow> respond K (ResultValue v) None)) s
      (\<lambda>r. ?T)" if "passed = Some f" for f
    unfolding Let_def
  proof (intro holds_if err t)
    assume len: "\<not> (length address < 2 \<or> length address > 128)"
    have ok: "may_call s0 (Network op address payload flags) passed (SocketCall op f address payload flags r)" for r
      using len that by simp
    show "holds (bindE (sys_call (\<lambda>h. k_socket K h op f address payload flags) (SocketCall op f address payload flags))
        (\<lambda>r. case r of Inl e \<Rightarrow> respond_errno K (raw_or_eacces e) | Inr v \<Rightarrow> respond K (ResultValue v) None)) s
        (\<lambda>r. ?T)"
      by (rule holds_bind, rule traced_sys_call [OF t ok], rule then_post_Inr, rule holds_case_sum,
          erule err, erule traced_respond, rule may_call_plain, rule plain_calls)
  qed
  note body = this
  show ?thesis
  proof (cases passed)
    case None
    then show ?thesis by (simp add: bs_network_def) (rule traced_errno [OF t Q], simp add: None)
  next
    case (Some f)
    show ?thesis
      unfolding bs_network_def Some option.case
      by (rule holds_finally, rule holds_mono [OF body [OF Some]], rule Q, simp only: Some [symmetric] traced_drops)
  qed
qed


lemma release_calls:
  assumes "traced (may_call s0 (Release tok) passed) h s"
    and "\<And>r s'. traced (may_call s0 (Release tok) passed) h s' \<Longrightarrow> Q r s'"
  shows "holds (bs_release K tok) s Q"
proof -
  have "holds (respond K Released None) s' Q" if "traced (may_call s0 (Release tok) passed) h s'" for s'
    by (rule traced_respond [OF that]) (auto intro: assms(2))
  then have "holds (\<lambda>s'. respond K Released None (drop_fds fs s')) s' Q"
    if "traced (may_call s0 (Release tok) passed) h s'" for s' fs
    using that traced_drops by (simp add: holds_def)
  then show ?thesis
    unfolding bs_release_def by (intro holds_bind traced_take [OF assms(1)] then_post_Inr)
qed

lemma dispatch_calls: "holds (dispatch K req passed) s (\<lambda>r. traced (may_call s req passed) (bs_log s))"
proof -
  let ?Q = "\<lambda>req r. traced (may_call s req passed) (bs_log s)"
  have t: "traced (may_call s req passed) (bs_log s) s" for req by (simp add: traced_def)
  have continue: "holds (finallyE (bindE m (\<lambda>_. retE True)) (drop_fds fs)) s (?Q req)" if "holds m s (?Q req)"
    for m :: "unit serve" and req fs
    by (rule holds_finally, rule holds_bind, rule holds_mono [OF that])
       (auto intro!: then_postI holds_ret traced_drops)
  show ?thesis
  proof (cases req)
    case (PreparePath i relative follow missing)
    have "holds (bs_prepare_path K i relative follow missing) s (?Q req)"
      unfolding PreparePath by (rule prepare_calls [OF t refl])
    from continue [OF this] show ?thesis by (simp add: dispatch_def PreparePath)
  next
    case (CommitOpen tok flags m)
    have "holds (bs_commit_open K tok flags m) s (?Q req)"
      unfolding CommitOpen by (rule commit_open_calls [OF t refl])
    from continue [OF this] show ?thesis by (simp add: dispatch_def CommitOpen)
  next
    case (CommitMutation tok u op)
    have "holds (bs_commit_mutation K tok u op) s (?Q req)"
      unfolding CommitMutation by (rule commit_mutation_calls [OF t refl])
    from continue [OF this] show ?thesis by (simp add: dispatch_def CommitMutation)
  next
    case (Release tok)
    have "holds (bs_release K tok) s (?Q req)" unfolding Release by (rule release_calls [OF t])
    from continue [OF this] show ?thesis by (simp add: dispatch_def Release)
  next
    case (Network op address payload flags)
    have n: "holds (bs_network K op passed address payload flags) s (?Q req)"
      unfolding Network by (rule network_calls [OF t])
    have drop_none: "finallyE m (drop_fds []) = m" for m :: "bool serve"
      by (rule ext) (simp add: finallyE_def drop_fds_def split: prod.split)
    from continue [OF n, of "[]"] show ?thesis by (simp add: dispatch_def Network drop_none)
  next
    case Shutdown
    show ?thesis
      using traced_drops [OF t, of Shutdown] by (simp add: dispatch_def Shutdown holds_def finallyE_def retE_def)
  qed
qed

section \<open>The last call of a request\<close>

lemma last_call_suffix: "x \<in> set cs \<Longrightarrow> \<not> is_drop x \<Longrightarrow> last_call (h @ cs) = last_call cs"
  by (auto simp: last_call_def Let_def filter_empty_conv)

lemma last_call_mem: "last_call cs = Some x \<Longrightarrow> x \<in> set cs"
  by (auto simp: last_call_def Let_def split: if_splits dest!: arg_cong [where f = "\<lambda>c. c \<in> set cs"] last_in_set)

definition made_call :: "sys list \<Rightarrow> broker_state \<Rightarrow> bool" where
  "made_call h s \<longleftrightarrow> (\<exists>x cs. bs_log s = h @ x # cs \<and> \<not> is_drop x)"

lemma made_call_traced:
  "\<not> is_drop x \<Longrightarrow> bs_log s1 = h @ [x] \<Longrightarrow> traced Ok (bs_log s1) s \<Longrightarrow> made_call h s"
  by (auto simp: made_call_def traced_def)

lemma made_call_drop: "made_call h s \<Longrightarrow> made_call h (drop_fds fs s)"
  by (auto simp: made_call_def drop_fds_def)

lemma prepare_makes_call:
  "holds (bs_prepare_path K i relative follow missing) s (\<lambda>r. made_call (bs_log s))"
proof -
  let ?a = "bs_anchors s ! i" and ?res = "resolve_flags s (bs_anchors s ! i)"
  have errno: "holds (respond_errno K e) s (\<lambda>r. made_call (bs_log s))" for e
    by (auto simp: respond_errno_def respond_def holds_def bindE_def sys_call_def liftE_def retE_def failE_def
        Let_def made_call_def split: sum.splits)
  have body: "holds (bindE (tryE (open_target K ?a relative follow ?res)) (\<lambda>r. case r of
        Inr f \<Rightarrow> prepare_at K ?a relative ?res True (Some f)
      | Inl e \<Rightarrow> if e = Some ENOENT \<and> missing then prepare_at K ?a relative ?res False None
          else respond_errno K (raw_or_eacces e))) s (\<lambda>r. made_call (bs_log s))" if i: "i < length (bs_anchors s)"
  proof -
    let ?T = "traced (may_call s (PreparePath i relative follow missing) None)"
    obtain r1 s1 where o: "open_target K ?a relative follow ?res s = (r1, s1)" by (metis surj_pair)
    then obtain q x where s1: "bs_log s1 = bs_log s @ [FdCall q x]"
      by (auto simp: open_target_def dup_fd_def openat2_def fd_result_def bindE_def sys_call_def liftE_def
          retE_def failE_def Let_def split: if_splits sum.splits)
    have T: "?T (bs_log s1) s1" by (simp add: traced_def)
    have called: "made_call (bs_log s) s'" if "?T (bs_log s1) s'" for s'
      using made_call_traced [OF _ s1 that] by simp
    have "holds (case r1 of Inr f \<Rightarrow> prepare_at K ?a relative ?res True (Some f)
      | Inl e \<Rightarrow> if e = Some ENOENT \<and> missing then prepare_at K ?a relative ?res False None
          else respond_errno K (raw_or_eacces e)) s1 (\<lambda>r. made_call (bs_log s))"
      by (intro holds_case_sum holds_if prepare_at_calls [OF T i resolve_bits called] traced_errno [OF T called])
    with o show ?thesis by (simp add: holds_def bindE_def tryE_def)
  qed
  show ?thesis
    using errno body by (auto simp: bs_prepare_path_def holds_def Let_def not_le)
qed

lemma dispatch_prepare_makes_call:
  "holds (dispatch K (PreparePath i relative follow missing) passed) s (\<lambda>r. made_call (bs_log s))"
  unfolding dispatch_def Let_def broker_request.case
  by (rule holds_finally, rule holds_bind, rule holds_mono [OF prepare_makes_call])
     (auto intro!: then_postI holds_ret made_call_drop)

lemma answers_grown: "answers (h @ cs) = answers h @ [a] \<Longrightarrow> \<exists>x \<in> set cs. \<not> is_drop x"
proof -
  assume "answers (h @ cs) = answers h @ [a]"
  then have "answers cs \<noteq> []" by (simp add: answers_def)
  moreover have "is_drop x \<Longrightarrow> answer x = []" for x by (cases x) simp_all
  ultimately show ?thesis by (auto simp: answers_def)
qed

section \<open>Properties\<close>

text \<open>
  C15. What becomes of a request, for every outcome. A request the loop goes on from was answered exactly
  once and in the shape the protocol has for it: preparing gives the next token with an identity under
  the request's anchor and pins it, or refuses with a real errno and pins nothing; a commit or a
  release consumes its tokens whatever the outcome. \<open>Shutdown\<close> is not answered and ends the loop without
  an error. When a request ends the loop with an error, either its one answer was made and that very
  packet could not be sent, or it is a path whose identity could not be read from \<open>/proc\<close> (the \<open>?\<close> of
  \<open>prepare_path\<close>), which is not answered and pins nothing. In every case each descriptor acquired on
  the way is held under a token or dropped again.
\<close>

theorem broker_request_outcomes:
  assumes "sane_kernel K" and "owes c N D rs (mset (option_list passed)) s"
    and "dispatch K req passed s = (r, s')"
  shows "\<exists>cs. bs_log s' = bs_log s @ cs \<and>
    (case r of
       Inr go \<Rightarrow>
         if req = Shutdown then \<not> go \<and> owes c N D rs {#} s'
         else go \<and> (\<exists>a N' D'. owes c N' D' (rs @ [a]) {#} s' \<and> answered c N D req a N' D')
     | Inl e \<Rightarrow> req \<noteq> Shutdown \<and>
         ((\<exists>a N' D'. owes c N' D' (rs @ [a]) {#} s' \<and> answered c N D req a N' D' \<and>
             last_call cs = Some (Respond (fst a) (snd a) (Inl e))) \<or>
          owes c N D rs {#} s' \<and> gave_up req e (last_call cs)))"
proof -
  obtain cs where cs: "bs_log s' = bs_log s @ cs"
    using holdsD [OF dispatch_calls assms(3)] by (auto simp: traced_def)
  from holdsD [OF ok_dispatch [OF assms(2,1)] assms(3)] have post: "served_post c N D rs req r s'" .
  have log: "answers (bs_log s) = rs" using assms(2) by (simp add: owes_def)
  have grown: "last_call cs = last_call (bs_log s')" if "owes c N' D' (rs @ [a]) {#} s'" for N' D' a
  proof -
    have "answers (bs_log s @ cs) = answers (bs_log s) @ [a]" using that log cs by (simp add: owes_def)
    from answers_grown [OF this] last_call_suffix show ?thesis unfolding cs by metis
  qed
  have prepared: "last_call cs = last_call (bs_log s')" if "gave_up req e x" for e x
  proof -
    from that obtain i relative follow missing where "req = PreparePath i relative follow missing"
      by (auto simp: gave_up_def)
    with holdsD [OF dispatch_prepare_makes_call] assms(3) have "made_call (bs_log s) s'" by blast
    then have "\<exists>y. y \<in> set cs \<and> \<not> is_drop y" unfolding made_call_def cs by force
    then obtain y where "y \<in> set cs" "\<not> is_drop y" by blast
    from last_call_suffix [OF this] show ?thesis unfolding cs by metis
  qed
  show ?thesis
  proof (cases r)
    case (Inl e)
    with post have "req \<noteq> Shutdown" "failed_post c N D rs {#} req e s'" by (simp_all add: served_post_def)
    then have "(\<exists>a N' D'. owes c N' D' (rs @ [a]) {#} s' \<and> answered c N D req a N' D' \<and>
             last_call cs = Some (Respond (fst a) (snd a) (Inl e))) \<or>
          owes c N D rs {#} s' \<and> gave_up req e (last_call cs)"
      unfolding failed_post_def using grown prepared by metis
    with \<open>req \<noteq> Shutdown\<close> cs Inl show ?thesis by (intro exI [of _ cs]) simp
  next
    case (Inr go)
    with post cs show ?thesis by (intro exI [of _ cs]) (simp add: served_post_def)
  qed
qed

text \<open>A kernel that opens everything below \<open>/w\<close> and takes every send.\<close>

definition sample_kernel :: kernel where
  "sample_kernel = \<lparr>k_fd = (\<lambda>h c. Inr (length h + 10)), k_effect = (\<lambda>h c. Inr ()),
     k_readlink = (\<lambda>h f. Inr ''/w/a''), k_fstat = (\<lambda>h f. Inr 0x8000), k_socket = (\<lambda>h op f a p fl. Inr 0),
     k_respond = (\<lambda>h r f. Inr ()),
     k_receive = (\<lambda>h. Inr \<lparr>rm_bytes = (if h = [] then ''p'' else ''q''), rm_flags = 0, rm_control = None\<rparr>),
     k_decode = (\<lambda>b. if b = ''p'' then Inr (PreparePath 0 ''a'' True False) else Inr Shutdown)\<rparr>"

definition sample_state :: broker_state where
  "sample_state = initial_state [\<lparr>ra_root = ''/w'', ra_allowed_access = 0, ra_fd = 3\<rparr>] ''/w''"

lemma sample_kernel_sane: "sane_kernel sample_kernel"
  by (simp add: sane_kernel_def sample_kernel_def)

lemma sample_paths:
  "path_file_name ''a'' = Some ''a''" "path_parent ''a'' = Some []" "path_starts_with ''/w/a'' ''/w''"
  "path_eq ''/w'' ''/w''"
  by (simp_all add: path_file_name_def components_def body_components_def path_parent_def Let_def
      trim_pieces_def path_starts_with_def path_eq_def)

lemma sample_broker_prepare:
  "\<exists>s'. dispatch sample_kernel (PreparePath 0 ''a'' True False) None sample_state = (Inr True, s') \<and>
     bs_next_token s' = 2"
  by (simp add: dispatch_def bs_prepare_path_def sample_state_def initial_state_def open_target_def openat2_def
      fd_result_def prepare_at_def prepare_parent_def dup_fd_def prepare_identity_def identity_of_def fd_identity_def
      hold_path_def respond_def sample_paths resolve_flags_def sample_kernel_def sys_call_def eff_defs Let_def
      drop_fds_def next_token_def)

lemma broker_request_outcomes_witness:
  "\<exists>s' a N' D'. dispatch sample_kernel (PreparePath 0 ''a'' True False) None sample_state = (Inr True, s') \<and>
     answered ([\<lparr>ra_root = ''/w'', ra_allowed_access = 0, ra_fd = 3\<rparr>], ''/w'') 1 {} (PreparePath 0 ''a'' True False) a N' D'"
proof -
  obtain s' where s': "dispatch sample_kernel (PreparePath 0 ''a'' True False) None sample_state = (Inr True, s')"
    using sample_broker_prepare by blast
  have "owes ([\<lparr>ra_root = ''/w'', ra_allowed_access = 0, ra_fd = 3\<rparr>], ''/w'') 1 {} [] (mset (option_list None)) sample_state"
    using owes_initial by (simp add: sample_state_def)
  with broker_request_outcomes [OF sample_kernel_sane this s'] obtain a N' D' where
    "answered ([\<lparr>ra_root = ''/w'', ra_allowed_access = 0, ra_fd = 3\<rparr>], ''/w'') 1 {} (PreparePath 0 ''a'' True False) a N' D'"
    by (simp del: answered.simps) blast
  with s' show ?thesis by blast
qed

text \<open>
  C23. The descriptors of a whole run of the loop, however it ended: with their multiplicity, those the
  process acquired are those it dropped, those still held under a token, and, when the loop ended
  because a received packet was refused (it was truncated or did not decode), the descriptor that
  packet had brought, which no owner was made of. So nothing is dropped twice, and at most that one
  descriptor is lost, in a process that then exits.
\<close>

theorem broker_accounts_for_descriptors:
  assumes "sane_kernel K" and "bs_run K n (initial_state anchors workspace) = Some (r, s')"
  shows "acquired_fds (bs_log s') = dropped_fds (bs_log s') + held_mset (bs_held s') +
    (case (r, last_call (bs_log s')) of
       (Inl e, Some (Receive (Inr m))) \<Rightarrow> mset (installed m)
     | _ \<Rightarrow> {#})"
proof -
  obtain N' D' rs' N'' D'' where "owes (anchors, workspace) N' D' rs' (unclaimed r (bs_log s')) s'"
    using run_account [OF assms] by metis
  moreover have "unclaimed r (bs_log s') = (case (r, last_call (bs_log s')) of
      (Inl e, Some (Receive (Inr m))) \<Rightarrow> mset (installed m) | _ \<Rightarrow> {#})"
    by (simp add: unclaimed_def split: sum.split)
  ultimately show ?thesis by (simp add: owes_def)
qed

lemma sample_broker_run: "\<exists>s'. bs_run sample_kernel 2 sample_state = Some (Inr (), s')"
  by (simp add: numeral_2_eq_2 serve_one_def receive_request_def take_packet_def dispatch_def bs_prepare_path_def sample_state_def
      initial_state_def open_target_def openat2_def fd_result_def prepare_at_def prepare_parent_def dup_fd_def
      prepare_identity_def identity_of_def fd_identity_def hold_path_def respond_def sample_paths resolve_flags_def
      sample_kernel_def sys_call_def eff_defs Let_def drop_fds_def next_token_def)

lemma broker_accounts_for_descriptors_witness:
  "\<exists>s'. bs_run sample_kernel 2 sample_state = Some (Inr (), s') \<and>
     acquired_fds (bs_log s') = dropped_fds (bs_log s') + held_mset (bs_held s')"
  using sample_broker_run broker_accounts_for_descriptors [OF sample_kernel_sane, of 2] unfolding sample_state_def
  by fastforce

text \<open>
  C22. A run issues each token once and only for paths inside the sandbox: over a run of fewer than
  \<open>2 ^ 64 - 1\<close> requests the tokens answered are pairwise different, and every identity answered
  lies under the root of one of the broker's anchors.
\<close>

theorem tokens_are_unique_and_anchored:
  assumes "sane_kernel K" and "bs_run K n (initial_state anchors workspace) = Some (r, s')"
    and "n < 2 ^ 64 - 1"
  shows "distinct (tokens_issued (answers (bs_log s'))) \<and>
    (\<forall>t identity ex f. (Prepared t identity ex, f) \<in> set (answers (bs_log s')) \<longrightarrow>
       f = None \<and> (\<exists>a \<in> set anchors. path_starts_with identity (ra_root a)))"
proof -
  obtain N' D' rs' N'' D'' where o: "owes (anchors, workspace) N' D' rs' (unclaimed r (bs_log s')) s'" and len: "length rs' \<le> n"
    and ses: "session (anchors, workspace) N'' D'' rs'"
    using run_account [OF assms(1,2)] by metis
  have log: "answers (bs_log s') = rs'" using o by (simp add: owes_def)
  obtain k where k: "k \<le> length rs'" "tokens_issued rs' = map of_nat [1..<Suc k]"
    using session_tokens [OF ses] len assms(3) by auto
  have "inj_on (of_nat :: nat \<Rightarrow> u64) (set [1..<Suc k])"
  proof (rule inj_onI)
    fix a b :: nat
    assume "a \<in> set [1..<Suc k]" "b \<in> set [1..<Suc k]" and eq: "(of_nat a :: u64) = of_nat b"
    then have "a < 2 ^ 64" "b < 2 ^ 64" using k(1) len assms(3) by auto
    with eq show "a = b" by (metis unat_of_nat_u64)
  qed
  then have "distinct (tokens_issued rs')" unfolding k(2) by (simp add: distinct_map del: upt_Suc)
  with session_anchored [OF ses] log show ?thesis by auto
qed

lemma tokens_are_unique_and_anchored_witness:
  "\<exists>s'. bs_run sample_kernel 2 sample_state = Some (Inr (), s') \<and> distinct (tokens_issued (answers (bs_log s')))"
proof -
  obtain s' where s': "bs_run sample_kernel 2 sample_state = Some (Inr (), s')" using sample_broker_run by blast
  from tokens_are_unique_and_anchored [OF sample_kernel_sane s' [unfolded sample_state_def]] s'
  show ?thesis by (auto simp: sample_state_def)
qed

text \<open>
  C16. The broker makes no call a request does not ask for: preparing a path only resolves, beneath the
  request's anchor and never through magic links, and yields path descriptors; a commit opens or
  changes only what its own tokens pin, with the operation and the arguments of the request; a
  network operation acts on the passed socket and address only; a release calls nothing.
\<close>

theorem broker_calls_only_what_is_asked:
  "\<exists>cs. bs_log (snd (dispatch K req passed s)) = bs_log s @ cs \<and> list_all (may_call s req passed) cs"
  using holdsD [OF dispatch_calls surjective_pairing] by (simp add: traced_def)

end
