(* ===== verification/Preflight.thy ===== *)
theory Preflight imports Rust_Text Recorder begin

text \<open>
  \<open>src/src/supervisor/preflight.rs\<close>: the host probes and the pure decision over what they found. What
  the kernel answers to each probe is the record \<open>host_facts\<close>; a file that cannot be read is \<open>None\<close>.
\<close>

section \<open>Data\<close>

definition KERNEL_FLOOR :: "nat \<times> nat" where "KERNEL_FLOOR = (5, 19)"
definition LANDLOCK_ABI_FLOOR :: nat where "LANDLOCK_ABI_FLOOR = 2"

record overlay_probe =
  op_kernel_has_overlay :: bool
  op_running_as_root :: bool
  op_userns_restricted :: bool

record capabilities =
  cap_kernel_release :: string
  cap_kernel_version :: "nat \<times> nat"
  cap_seccomp_unotify :: bool
  cap_wait_killable_recv :: bool
  cap_addfd_send :: bool
  cap_landlock_abi :: nat
  cap_overlay :: overlay_probe

datatype outcome = Proceed capabilities snapshot_mechanism string | Refuse string

datatype preflight_error = UnsupportedPlatform | ProbeFailed string

section \<open>The decision\<close>

definition refuse_floor :: "capabilities \<Rightarrow> string \<Rightarrow> outcome" where
  "refuse_floor caps why =
     Refuse (''leash cannot run on this host: '' @ why @ ''. leash requires Linux '' @
       show_nat (fst KERNEL_FLOOR) @ ''.'' @ show_nat (snd KERNEL_FLOOR) @
       '' or later with seccomp user-notification and Landlock (kernel: '' @ cap_kernel_release caps @ '').'')"

definition select_mechanism :: "overlay_probe \<Rightarrow> snapshot_mechanism \<times> string" where
  "select_mechanism p =
     (if \<not> op_kernel_has_overlay p then (Copy, ''kernel has no overlayfs; using the copy fallback'')
      else if op_running_as_root p then (Overlay, ''privileged overlay mount available'')
      else if op_userns_restricted p then
        (Copy, ''host restricts unprivileged user namespaces and the run is unprivileged; using the copy fallback'')
      else (Overlay, ''unprivileged user-namespace overlay available''))"

definition below :: "nat \<times> nat \<Rightarrow> nat \<times> nat \<Rightarrow> bool" where
  "below a b \<longleftrightarrow> fst a < fst b \<or> fst a = fst b \<and> snd a < snd b"

definition preflight :: "capabilities \<Rightarrow> mode \<Rightarrow> outcome" where
  "preflight caps m =
     (if below (cap_kernel_version caps) KERNEL_FLOOR then
        refuse_floor caps (''kernel '' @ cap_kernel_release caps @ '' is below the required Linux '' @
          show_nat (fst KERNEL_FLOOR) @ ''.'' @ show_nat (snd KERNEL_FLOOR))
      else if \<not> cap_seccomp_unotify caps then
        refuse_floor caps ''seccomp user-notification is unavailable''
      else if \<not> cap_wait_killable_recv caps then
        refuse_floor caps ''SECCOMP_FILTER_FLAG_WAIT_KILLABLE_RECV is unsupported (a supervisor-executed allow could double-run on a signal without it)''
      else if \<not> cap_addfd_send caps then
        refuse_floor caps ''SECCOMP_ADDFD_FLAG_SEND is unsupported''
      else if m = Enforce \<and> cap_landlock_abi caps < LANDLOCK_ABI_FLOOR then
        refuse_floor caps (''Landlock ABI '' @ show_nat (cap_landlock_abi caps) @
          '' is below the required ABI '' @ show_nat LANDLOCK_ABI_FLOOR @ '' for enforce mode'')
      else
        let (mechanism, reason) = select_mechanism (cap_overlay caps)
        in Proceed caps mechanism reason)"

section \<open>The probes\<close>

definition parse_u32 :: "string \<Rightarrow> nat option" where
  "parse_u32 s = parse_uint (2 ^ 32 - 1) s"

text \<open>\<open>release.split(['.', '-'])\<close>.\<close>

definition split_release :: "string \<Rightarrow> string list" where
  "split_release s = concat (map (split_on CHR ''-'') (split_on CHR ''.'' s))"

definition parse_kernel_version :: "string \<Rightarrow> (nat \<times> nat) option" where
  "parse_kernel_version release =
     (case split_release release of
        major # minor # _ \<Rightarrow>
          (case (parse_u32 major, parse_u32 minor) of (Some a, Some b) \<Rightarrow> Some (a, b) | _ \<Rightarrow> None)
      | _ \<Rightarrow> None)"

text \<open>What the host answers: \<open>uname\<close>'s release, the return codes and errno of the probing calls, and the
  three files read.\<close>

record host_facts =
  hf_uname :: "string option"
  hf_notif_sizes_rc :: int
  hf_null_filter_errno :: int
  hf_landlock_rc :: int
  hf_proc_filesystems :: "string option"
  hf_geteuid :: nat
  hf_apparmor_restrict :: "string option"
  hf_max_user_namespaces :: "string option"

definition probe_uname :: "host_facts \<Rightarrow> preflight_error + string \<times> nat \<times> nat" where
  "probe_uname h =
     and_then (ok_or (ProbeFailed ''uname failed'') (hf_uname h)) (\<lambda>bytes.
       let release = to_string_lossy bytes
       in and_then (ok_or (ProbeFailed (''unparseable kernel release '' @ release)) (parse_kernel_version release))
            (\<lambda>version. Inr (release, version)))"

definition probe_unotify :: "host_facts \<Rightarrow> bool" where
  "probe_unotify h \<longleftrightarrow> hf_notif_sizes_rc h = 0"

definition probe_wait_killable_recv :: "host_facts \<Rightarrow> bool" where
  "probe_wait_killable_recv h \<longleftrightarrow> hf_null_filter_errno h \<noteq> 22"

definition probe_landlock_abi :: "host_facts \<Rightarrow> nat" where
  "probe_landlock_abi h = (if hf_landlock_rc h > 0 then nat (hf_landlock_rc h mod 2 ^ 32) else 0)"

definition userns_restricted :: "host_facts \<Rightarrow> bool" where
  "userns_restricted h \<longleftrightarrow>
     (case hf_apparmor_restrict h of Some v \<Rightarrow> trim v = ''1'' | None \<Rightarrow> False) \<or>
     (case hf_max_user_namespaces h of Some v \<Rightarrow> trim v = ''0'' | None \<Rightarrow> False)"

definition probe_overlay :: "host_facts \<Rightarrow> overlay_probe" where
  "probe_overlay h =
     \<lparr>op_kernel_has_overlay = (case hf_proc_filesystems h of
        Some s \<Rightarrow> list_ex (\<lambda>l. list_ex (\<lambda>f. f = ''overlay'') (split_on CHR 0x09 l)) (lines s)
      | None \<Rightarrow> False),
      op_running_as_root = (hf_geteuid h = 0),
      op_userns_restricted = userns_restricted h\<rparr>"

definition probe :: "host_facts \<Rightarrow> preflight_error + capabilities" where
  "probe h =
     and_then (probe_uname h) (\<lambda>(release, version).
       let killable = probe_wait_killable_recv h
       in Inr \<lparr>cap_kernel_release = release, cap_kernel_version = version,
               cap_seccomp_unotify = probe_unotify h, cap_wait_killable_recv = killable,
               cap_addfd_send = killable, cap_landlock_abi = probe_landlock_abi h,
               cap_overlay = probe_overlay h\<rparr>)"

section \<open>Lemmas\<close>

definition admits :: "capabilities \<Rightarrow> mode \<Rightarrow> bool" where
  "admits caps m \<longleftrightarrow> \<not> below (cap_kernel_version caps) KERNEL_FLOOR \<and> cap_seccomp_unotify caps \<and>
     cap_wait_killable_recv caps \<and> cap_addfd_send caps \<and>
     (m = Enforce \<longrightarrow> LANDLOCK_ABI_FLOOR \<le> cap_landlock_abi caps)"

lemma preflight_admits:
  "admits caps m \<Longrightarrow> preflight caps m =
     Proceed caps (fst (select_mechanism (cap_overlay caps))) (snd (select_mechanism (cap_overlay caps)))"
  by (auto simp: admits_def preflight_def split: prod.split)

lemma refuse_floor_names_kernel:
  "\<exists>pre post. refuse_floor caps why = Refuse (pre @ cap_kernel_release caps @ post)"
  unfolding refuse_floor_def by (metis append.assoc)

lemma preflight_refuses:
  "\<not> admits caps m \<Longrightarrow> \<exists>pre post. preflight caps m = Refuse (pre @ cap_kernel_release caps @ post)"
  using refuse_floor_names_kernel by (auto simp: admits_def preflight_def)

lemma split_release_pieces:
  "split_release (major @ CHR ''.'' # rest) = major # split_release rest"
  if "CHR ''.'' \<notin> set major" and "CHR ''-'' \<notin> set major"
proof -
  have "split_on CHR ''.'' (major @ CHR ''.'' # rest) = major # split_on CHR ''.'' rest"
    using split_on_append_sep [of "CHR ''.''" major rest] split_on_no_sep that(1) by simp
  moreover have "split_on CHR ''-'' major = [major]" using split_on_no_sep that(2) by simp
  ultimately show ?thesis by (simp add: split_release_def)
qed

lemma digits_plain: "CHR ''.'' \<notin> set (show_nat n)" "CHR ''-'' \<notin> set (show_nat n)"
  using show_nat_digits [of n] by (auto simp: is_digit_def code_def)

lemma split_release_last:
  assumes "CHR ''.'' \<notin> set minor" and "CHR ''-'' \<notin> set minor"
    and "rest = [] \<or> hd rest \<in> {CHR ''.'', CHR ''-''}"
  shows "\<exists>more. split_release (minor @ rest) = minor # more"
proof (cases rest)
  case Nil
  have "split_on CHR ''.'' minor = [minor]" "split_on CHR ''-'' minor = [minor]"
    using split_on_no_sep assms(1,2) by simp_all
  with Nil show ?thesis by (simp add: split_release_def)
next
  case (Cons c cs)
  show ?thesis
  proof (cases "c = CHR ''.''")
    case True
    with split_release_pieces [of minor cs] assms(1,2) Cons show ?thesis by simp
  next
    case False
    with assms(3) Cons have c: "c = CHR ''-''" by simp
    obtain x xs where x: "split_on CHR ''.'' cs = x # xs" by (cases "split_on CHR ''.'' cs") auto
    have "split_on CHR ''.'' (minor @ CHR ''-'' # cs) = (minor @ CHR ''-'' # x) # xs"
      using assms(1) x by (induction minor) auto
    moreover have "split_on CHR ''-'' (minor @ CHR ''-'' # x) = minor # split_on CHR ''-'' x"
      using split_on_append_sep [of "CHR ''-''" minor x] split_on_no_sep assms(2) by simp
    ultimately show ?thesis by (simp add: split_release_def Cons c)
  qed
qed

lemma parse_kernel_version_show:
  assumes "a < 2 ^ 32" and "b < 2 ^ 32" and "rest = [] \<or> hd rest \<in> {CHR ''.'', CHR ''-''}"
  shows "parse_kernel_version (show_nat a @ CHR ''.'' # show_nat b @ rest) = Some (a, b)"
proof -
  obtain more where "split_release (show_nat b @ rest) = show_nat b # more"
    using split_release_last [of "show_nat b" rest] digits_plain assms(3) by blast
  then have "split_release (show_nat a @ CHR ''.'' # show_nat b @ rest) = show_nat a # show_nat b # more"
    using split_release_pieces [of "show_nat a" "show_nat b @ rest"] digits_plain by simp
  moreover have "parse_u32 (show_nat a) = Some a" "parse_u32 (show_nat b) = Some b"
    using assms(1,2) by (simp_all add: parse_u32_def parse_uint_show)
  ultimately show ?thesis by (simp add: parse_kernel_version_def)
qed

section \<open>Properties\<close>

text \<open>
  C39. Which hosts are admitted, from what the kernel answers: with a release \<open>a.b\<close> (and any suffix that
  starts with a dot or a dash) the run proceeds exactly on 5.19 or later with user notification, with
  the killable wait recognised (the probe's errno is not EINVAL), and in enforce mode with Landlock ABI
  2 or later; it then gets the copy snapshots exactly without overlayfs, or unprivileged on a host
  that restricts user namespaces. Otherwise it is refused with a message that names the release.
\<close>

theorem host_is_admitted_exactly:
  assumes "hf_uname h = Some release" and "is_ascii release"
    and "release = show_nat a @ CHR ''.'' # show_nat b @ rest" and "a < 2 ^ 32" and "b < 2 ^ 32"
    and "rest = [] \<or> hd rest \<in> {CHR ''.'', CHR ''-''}" and "hf_landlock_rc h < 2 ^ 32"
  shows "\<exists>caps. probe h = Inr caps \<and>
    (if (5 < a \<or> a = 5 \<and> 19 \<le> b) \<and> hf_notif_sizes_rc h = 0 \<and> hf_null_filter_errno h \<noteq> 22 \<and>
        (m = Enforce \<longrightarrow> 2 \<le> hf_landlock_rc h)
     then \<exists>mechanism reason. preflight caps m = Proceed caps mechanism reason \<and>
        (mechanism = Copy \<longleftrightarrow> \<not> op_kernel_has_overlay (probe_overlay h) \<or>
           hf_geteuid h \<noteq> 0 \<and> userns_restricted h)
     else \<exists>pre post. preflight caps m = Refuse (pre @ release @ post))"
proof -
  have "parse_kernel_version release = Some (a, b)"
    using parse_kernel_version_show [OF assms(4,5,6)] assms(3) by simp
  moreover define caps where "caps = \<lparr>cap_kernel_release = release, cap_kernel_version = (a, b),
    cap_seccomp_unotify = (hf_notif_sizes_rc h = 0), cap_wait_killable_recv = (hf_null_filter_errno h \<noteq> 22),
    cap_addfd_send = (hf_null_filter_errno h \<noteq> 22), cap_landlock_abi = probe_landlock_abi h,
    cap_overlay = probe_overlay h\<rparr>"
  ultimately have probed: "probe h = Inr caps"
    using assms(1,2)
    by (simp add: probe_def probe_uname_def lossy_ascii probe_unotify_def probe_wait_killable_recv_def Let_def)
  have "probe_landlock_abi h = nat (hf_landlock_rc h)" using assms(7) by (simp add: probe_landlock_abi_def)
  then have admits: "admits caps m \<longleftrightarrow> (5 < a \<or> a = 5 \<and> 19 \<le> b) \<and> hf_notif_sizes_rc h = 0 \<and>
      hf_null_filter_errno h \<noteq> 22 \<and> (m = Enforce \<longrightarrow> 2 \<le> hf_landlock_rc h)"
    by (auto simp: admits_def caps_def below_def KERNEL_FLOOR_def LANDLOCK_ABI_FLOOR_def)
  have "fst (select_mechanism (probe_overlay h)) = Copy \<longleftrightarrow>
      \<not> op_kernel_has_overlay (probe_overlay h) \<or> hf_geteuid h \<noteq> 0 \<and> userns_restricted h"
    by (simp add: select_mechanism_def) (simp add: probe_overlay_def)
  with preflight_admits [of caps m] preflight_refuses [of caps m] probed admits show ?thesis
    by (auto simp: caps_def)
qed

definition sample_release :: string where
  "sample_release = show_nat 6 @ CHR ''.'' # show_nat 8 @ ''.0-124-generic''"

definition sample_host :: host_facts where
  "sample_host = \<lparr>hf_uname = Some sample_release, hf_notif_sizes_rc = 0, hf_null_filter_errno = 14,
     hf_landlock_rc = 4, hf_proc_filesystems = None, hf_geteuid = 1000, hf_apparmor_restrict = None,
     hf_max_user_namespaces = None\<rparr>"

lemma host_is_admitted_exactly_witness:
  "\<exists>caps reason. probe sample_host = Inr caps \<and> preflight caps Enforce = Proceed caps Copy reason"
proof -
  have "is_ascii sample_release"
    by (simp add: sample_release_def is_ascii_def show_nat.simps digit_char_def code_def)
  from host_is_admitted_exactly [OF _ this sample_release_def, of sample_host Enforce]
  obtain caps mechanism reason where "probe sample_host = Inr caps"
    "preflight caps Enforce = Proceed caps mechanism reason"
    "mechanism = Copy \<longleftrightarrow> \<not> op_kernel_has_overlay (probe_overlay sample_host) \<or>
      hf_geteuid sample_host \<noteq> 0 \<and> userns_restricted sample_host"
    by (auto simp: sample_host_def)
  then show ?thesis by (auto simp: probe_overlay_def sample_host_def)
qed

end
