(* ===== verification/Spawn.thy ===== *)
theory Spawn imports Effect Rust_Path Recorder Seccomp_Filter begin

text \<open>
  \<open>src/src/supervisor/spawn.rs\<close> and \<open>src/src/sandbox/child.rs\<close>: the launch of the child. What the parent
  prepares before the fork is a function; what follows is two sequential programs, the parent's
  handshake and the child's \<open>enter\<close>, that run side by side over a socket pair: a step relation whose
  labels say who did what and how the kernel answered. The kernel keeps the open copies of each
  descriptor, the bytes in flight, and what the child has put on itself; once a filter is installed,
  every later call of the child goes through it.
\<close>

section \<open>Data\<close>

datatype spawn_error =
    ExecNotFound string
  | FilterTooLarge nat
  | SocketpairFailed io_error
  | ForkFailed io_error
  | HandshakeFailed io_error
  | ChildSetupFailed int

definition CHILD_SETUP_EXIT :: nat where "CHILD_SETUP_EXIT = 121"
definition CHILD_READY :: u8 where "CHILD_READY = 76"
definition SUPERVISOR_ACK :: u8 where "SUPERVISOR_ACK = 65"
definition CHILD_BOUNDARY_READY :: u8 where "CHILD_BOUNDARY_READY = 66"

record spawn_spec =
  sw_argv :: "string list"
  sw_stdout :: "fd option"
  sw_mode :: mode
  sw_landlock_ruleset :: "fd option"

text \<open>The sockets are the two ends of the pair; the pointers are the buffers they point to.\<close>

record child_setup =
  cs_redirect :: "fd option"
  cs_prog :: "sock_filter list"
  cs_landlock_ruleset :: "fd option"
  cs_exec_path :: string
  cs_argv :: "string list"

section \<open>Before the fork\<close>

text \<open>\<open>CString::new\<close> refuses an interior NUL.\<close>

definition cstring :: "string \<Rightarrow> string option" where
  "cstring s = (if CHR 0x00 \<in> set s then None else Some s)"

record spawn_host =
  sh_path :: "string option"
  sh_access :: "path \<Rightarrow> bool"
  sh_socketpair :: "io_error + unit"
  sh_fork :: "io_error + u32"

text \<open>The loop over \<open>PATH\<close>.\<close>

fun search_path :: "(path \<Rightarrow> bool) \<Rightarrow> string \<Rightarrow> path list \<Rightarrow> string option" where
  "search_path access argv0 [] = None"
| "search_path access argv0 (d # ds) =
     (if d = [] then search_path access argv0 ds
      else case cstring (path_join d argv0) of
             Some c \<Rightarrow> if access c then Some c else search_path access argv0 ds
           | None \<Rightarrow> search_path access argv0 ds)"

definition resolve_exec :: "spawn_host \<Rightarrow> string \<Rightarrow> spawn_error + string" where
  "resolve_exec H argv0 =
     (let not_found = ExecNotFound argv0
      in if argv0 = [] then Inl not_found
         else if CHR ''/'' \<in> set argv0 then ok_or not_found (cstring argv0)
         else and_then (ok_or not_found (sh_path H)) (\<lambda>p.
                ok_or not_found (search_path (sh_access H) argv0 (split_on CHR '':'' p))))"

definition argv0_of :: "string list \<Rightarrow> string" where
  "argv0_of argv = (case argv of [] \<Rightarrow> [] | a # _ \<Rightarrow> a)"

text \<open>\<open>spawn_with_filter\<close> up to the fork: the child's setup and its pid.\<close>

definition spawn_prepare :: "spawn_host \<Rightarrow> spawn_spec \<Rightarrow> sock_filter list \<Rightarrow> spawn_error + child_setup \<times> u32" where
  "spawn_prepare H spec prog =
     (if length prog > 4096 then Inl (FilterTooLarge (length prog))
      else let argv0 = argv0_of (sw_argv spec)
        in and_then (resolve_exec H argv0) (\<lambda>exec_path.
           and_then (ok_or (ExecNotFound argv0) (those (map cstring (sw_argv spec)))) (\<lambda>argv.
           and_then (map_err SocketpairFailed (sh_socketpair H)) (\<lambda>_.
           and_then (map_err ForkFailed (sh_fork H)) (\<lambda>pid.
             Inr (\<lparr>cs_redirect = sw_stdout spec, cs_prog = prog,
                   cs_landlock_ruleset = sw_landlock_ruleset spec,
                   cs_exec_path = exec_path, cs_argv = argv\<rparr>, pid))))))"

section \<open>The child's program\<close>

datatype child_call =
    CloseSupervisorSock
  | Dup2 fd nat
  | SetNoNewPrivs
  | InstallFilter
  | SendNotifyFd
  | CloseNotifyFd
  | RecvAck
  | RestrictSelf fd
  | WriteReady
  | CloseRange
  | Execv

text \<open>\<open>enter\<close>: the calls in order. A failed \<open>fatal\<close> call ends the child with \<open>die\<close>; the results of the
  others are ignored.\<close>

definition enter :: "child_setup \<Rightarrow> child_call list" where
  "enter st =
     [CloseSupervisorSock] @
     (case cs_redirect st of None \<Rightarrow> [] | Some f \<Rightarrow> [Dup2 f 1, Dup2 f 2]) @
     [SetNoNewPrivs, InstallFilter, SendNotifyFd, CloseNotifyFd, RecvAck] @
     (case cs_landlock_ruleset st of None \<Rightarrow> [] | Some f \<Rightarrow> [RestrictSelf f]) @
     [WriteReady, CloseRange, Execv]"

fun fatal :: "child_call \<Rightarrow> bool" where
  "fatal CloseSupervisorSock = False"
| "fatal CloseNotifyFd = False"
| "fatal CloseRange = False"
| "fatal _ = True"

text \<open>The x86-64 numbers the filter sees.\<close>

fun call_nr :: "child_call \<Rightarrow> u32" where
  "call_nr CloseSupervisorSock = 3"
| "call_nr (Dup2 _ _) = 33"
| "call_nr SetNoNewPrivs = 157"
| "call_nr InstallFilter = 317"
| "call_nr SendNotifyFd = 46"
| "call_nr CloseNotifyFd = 3"
| "call_nr RecvAck = 0"
| "call_nr (RestrictSelf _) = 446"
| "call_nr WriteReady = 1"
| "call_nr CloseRange = 436"
| "call_nr Execv = 59"

section \<open>The state\<close>

datatype child_state = ChildRuns "child_call list" | Agent | Gone "32 word"

datatype reap_reason = SetupAborted | AckFailed io_error

datatype parent_point =
    DropChildSock
  | RecvNotifyFd
  | WriteAck
  | ReadReady
  | WrapNotify
  | ReapFor reap_reason
  | Returned "spawn_error + u32"

record handshake =
  hs_child :: child_state
  hs_parent :: parent_point
  hs_to_parent :: "(u8 \<times> bool) list"
  hs_to_child :: "u8 list"
  hs_c_sup :: bool
  hs_c_sock :: bool
  hs_c_notify :: bool
  hs_p_sup :: bool
  hs_p_sock :: bool
  hs_p_notify :: bool
  hs_stdio :: "(fd \<times> nat) list"
  hs_no_new_privs :: bool
  hs_filter :: "sock_filter list option"
  hs_restricted :: "fd list"
  hs_reaped :: bool

definition forked :: "child_setup \<Rightarrow> handshake" where
  "forked st =
     \<lparr>hs_child = ChildRuns (enter st), hs_parent = DropChildSock, hs_to_parent = [], hs_to_child = [],
      hs_c_sup = True, hs_c_sock = True, hs_c_notify = False, hs_p_sup = True, hs_p_sock = True,
      hs_p_notify = False, hs_stdio = [], hs_no_new_privs = False, hs_filter = None, hs_restricted = [],
      hs_reaped = False\<rparr>"

text \<open>A socket end is open while either process has a copy; the listener also while it is in flight.\<close>

definition supervisor_end :: "handshake \<Rightarrow> bool" where
  "supervisor_end s \<longleftrightarrow> hs_c_sup s \<or> hs_p_sup s"

definition child_end :: "handshake \<Rightarrow> bool" where
  "child_end s \<longleftrightarrow> hs_c_sock s \<or> hs_p_sock s"

definition listener :: "handshake \<Rightarrow> bool" where
  "listener s \<longleftrightarrow> hs_c_notify s \<or> hs_p_notify s \<or> supervisor_end s \<and> True \<in> snd ` set (hs_to_parent s)"

text \<open>The supervisor answers notifications once the spawn has returned a child.\<close>

definition served :: "handshake \<Rightarrow> bool" where
  "served s \<longleftrightarrow> (\<exists>pid. hs_parent s = Returned (Inr pid)) \<and> hs_p_notify s"

definition close_all :: "handshake \<Rightarrow> handshake" where
  "close_all s = s\<lparr>hs_c_sup := False, hs_c_sock := False, hs_c_notify := False\<rparr>"

definition die :: "handshake \<Rightarrow> handshake" where
  "die s = (close_all s)\<lparr>hs_child := Gone (of_nat (CHILD_SETUP_EXIT * 256))\<rparr>"

section \<open>The child's calls\<close>

text \<open>What a call that succeeds does, and when it can succeed; the sockets and the listener are
  close-on-exec.\<close>

fun effect :: "child_setup \<Rightarrow> child_call \<Rightarrow> handshake \<Rightarrow> handshake" where
  "effect st CloseSupervisorSock s = s\<lparr>hs_c_sup := False\<rparr>"
| "effect st (Dup2 f n) s = s\<lparr>hs_stdio := hs_stdio s @ [(f, n)]\<rparr>"
| "effect st SetNoNewPrivs s = s\<lparr>hs_no_new_privs := True\<rparr>"
| "effect st InstallFilter s = s\<lparr>hs_filter := Some (cs_prog st), hs_c_notify := True\<rparr>"
| "effect st SendNotifyFd s = s\<lparr>hs_to_parent := hs_to_parent s @ [(CHILD_READY, True)]\<rparr>"
| "effect st CloseNotifyFd s = s\<lparr>hs_c_notify := False\<rparr>"
| "effect st RecvAck s = s\<lparr>hs_to_child := tl (hs_to_child s)\<rparr>"
| "effect st (RestrictSelf f) s = s\<lparr>hs_restricted := hs_restricted s @ [f]\<rparr>"
| "effect st WriteReady s = s\<lparr>hs_to_parent := hs_to_parent s @ [(CHILD_BOUNDARY_READY, False)]\<rparr>"
| "effect st CloseRange s = close_all s"
| "effect st Execv s = close_all s"

fun can_succeed :: "child_call \<Rightarrow> handshake \<Rightarrow> bool" where
  "can_succeed InstallFilter s = hs_no_new_privs s"
| "can_succeed SendNotifyFd s = supervisor_end s"
| "can_succeed WriteReady s = supervisor_end s"
| "can_succeed RecvAck s = (hs_to_child s \<noteq> [] \<and> hd (hs_to_child s) = SUPERVISOR_ACK)"
| "can_succeed _ s = True"

text \<open>When a call fails for a reason in the state: the peer is gone, or the byte is another one.\<close>

fun must_fail :: "child_call \<Rightarrow> handshake \<Rightarrow> bool" where
  "must_fail InstallFilter s = (\<not> hs_no_new_privs s)"
| "must_fail SendNotifyFd s = (\<not> supervisor_end s)"
| "must_fail WriteReady s = (\<not> supervisor_end s)"
| "must_fail RecvAck s =
     (if hs_to_child s = [] then \<not> supervisor_end s else hd (hs_to_child s) \<noteq> SUPERVISOR_ACK)"
| "must_fail _ s = False"

definition after :: "child_call \<Rightarrow> child_call list \<Rightarrow> child_state" where
  "after c cs = (if c = Execv then Agent else ChildRuns cs)"

definition give_up :: "child_call \<Rightarrow> child_call list \<Rightarrow> handshake \<Rightarrow> handshake" where
  "give_up c cs s = (if fatal c then die s else s\<lparr>hs_child := ChildRuns cs\<rparr>)"

text \<open>What the installed filter does with a call.\<close>

datatype route = Passes | Notifies | Blocked

definition route_of :: "(child_call \<Rightarrow> u64 list) \<Rightarrow> child_call \<Rightarrow> handshake \<Rightarrow> route" where
  "route_of args c s =
     (case hs_filter s of
        None \<Rightarrow> Passes
      | Some prog \<Rightarrow>
          (case run_filter prog (call_nr c) AUDIT_ARCH_X86_64 (args c) of
             Inr v \<Rightarrow> if v = SECCOMP_RET_ALLOW then Passes
                       else if v = SECCOMP_RET_USER_NOTIF then Notifies else Blocked
           | Inl _ \<Rightarrow> Blocked))"

section \<open>The steps\<close>

datatype label =
    ChildDoes child_call
  | ChildRefused child_call
  | ChildFault child_call
  | ChildKilled "32 word"
  | AgentEnds "32 word"
  | ParentDoes parent_point
  | ParentRefused parent_point
  | ParentFault parent_point io_error

text \<open>A fault is an answer the state gives no reason for: an interrupted or failing call, a truncated
  message, a signal from outside.\<close>

fun fault_free :: "label \<Rightarrow> bool" where
  "fault_free (ChildFault c) = False"
| "fault_free (ChildKilled w) = False"
| "fault_free (ParentFault p e) = False"
| "fault_free _ = True"

definition leave :: "spawn_error + u32 \<Rightarrow> handshake \<Rightarrow> handshake" where
  "leave r s = s\<lparr>hs_parent := Returned r, hs_p_sup := False\<rparr>"

definition drop_and_reap :: "reap_reason \<Rightarrow> handshake \<Rightarrow> handshake" where
  "drop_and_reap why s = s\<lparr>hs_parent := ReapFor why, hs_p_notify := False\<rparr>"

fun reaped_error :: "reap_reason \<Rightarrow> int \<Rightarrow> spawn_error" where
  "reaped_error SetupAborted status = ChildSetupFailed status"
| "reaped_error (AckFailed e) status = HandshakeFailed e"

definition EPIPE :: io_error where "EPIPE = Some 32"

inductive step :: "(child_call \<Rightarrow> u64 list) \<Rightarrow> child_setup \<Rightarrow> u32 \<Rightarrow> label \<Rightarrow> handshake \<Rightarrow> handshake \<Rightarrow> bool"
  for args st pid
where
  child_passes:
    "hs_child s = ChildRuns (c # cs) \<Longrightarrow> route_of args c s = Passes \<Longrightarrow> can_succeed c s \<Longrightarrow>
     step args st pid (ChildDoes c) s ((effect st c s)\<lparr>hs_child := after c cs\<rparr>)"
| child_continued:
    "hs_child s = ChildRuns (c # cs) \<Longrightarrow> route_of args c s = Notifies \<Longrightarrow> served s \<Longrightarrow> can_succeed c s \<Longrightarrow>
     step args st pid (ChildDoes c) s ((effect st c s)\<lparr>hs_child := after c cs\<rparr>)"
| child_denied:
    "hs_child s = ChildRuns (c # cs) \<Longrightarrow> route_of args c s = Notifies \<Longrightarrow> served s \<Longrightarrow>
     step args st pid (ChildRefused c) s (give_up c cs s)"
| child_no_listener:
    "hs_child s = ChildRuns (c # cs) \<Longrightarrow> route_of args c s = Notifies \<Longrightarrow> \<not> listener s \<Longrightarrow>
     step args st pid (ChildRefused c) s (give_up c cs s)"
| child_blocked:
    "hs_child s = ChildRuns (c # cs) \<Longrightarrow> route_of args c s = Blocked \<Longrightarrow>
     step args st pid (ChildRefused c) s (give_up c cs s)"
| child_refused:
    "hs_child s = ChildRuns (c # cs) \<Longrightarrow> route_of args c s = Passes \<Longrightarrow> must_fail c s \<Longrightarrow>
     step args st pid (ChildRefused c) s (give_up c cs s)"
| child_fault:
    "hs_child s = ChildRuns (c # cs) \<Longrightarrow> step args st pid (ChildFault c) s (give_up c cs s)"
| child_killed:
    "hs_child s = ChildRuns cs \<Longrightarrow>
     step args st pid (ChildKilled w) s ((close_all s)\<lparr>hs_child := Gone w\<rparr>)"
| agent_ends:
    "hs_child s = Agent \<Longrightarrow> step args st pid (AgentEnds w) s (s\<lparr>hs_child := Gone w\<rparr>)"
| parent_drops:
    "hs_parent s = DropChildSock \<Longrightarrow>
     step args st pid (ParentDoes DropChildSock) s (s\<lparr>hs_parent := RecvNotifyFd, hs_p_sock := False\<rparr>)"
| parent_receives:
    "hs_parent s = RecvNotifyFd \<Longrightarrow> hs_to_parent s = (b, True) # ms \<Longrightarrow>
     step args st pid (ParentDoes RecvNotifyFd) s
       (s\<lparr>hs_parent := WriteAck, hs_to_parent := ms, hs_p_notify := True\<rparr>)"
| parent_no_fd:
    "hs_parent s = RecvNotifyFd \<Longrightarrow> hs_to_parent s = (b, False) # ms \<Longrightarrow>
     step args st pid (ParentRefused RecvNotifyFd) s (drop_and_reap SetupAborted (s\<lparr>hs_to_parent := ms\<rparr>))"
| parent_eof:
    "hs_parent s = RecvNotifyFd \<Longrightarrow> hs_to_parent s = [] \<Longrightarrow> \<not> child_end s \<Longrightarrow>
     step args st pid (ParentRefused RecvNotifyFd) s (drop_and_reap SetupAborted s)"
| parent_recv_fault:
    "hs_parent s = RecvNotifyFd \<Longrightarrow>
     step args st pid (ParentFault RecvNotifyFd e) s (drop_and_reap SetupAborted s)"
| parent_truncated:
    "hs_parent s = RecvNotifyFd \<Longrightarrow> hs_to_parent s = m # ms \<Longrightarrow>
     step args st pid (ParentFault RecvNotifyFd e) s (drop_and_reap SetupAborted (s\<lparr>hs_to_parent := ms\<rparr>))"
| parent_acks:
    "hs_parent s = WriteAck \<Longrightarrow> child_end s \<Longrightarrow>
     step args st pid (ParentDoes WriteAck) s
       (s\<lparr>hs_parent := ReadReady, hs_to_child := hs_to_child s @ [SUPERVISOR_ACK]\<rparr>)"
| parent_ack_refused:
    "hs_parent s = WriteAck \<Longrightarrow> \<not> child_end s \<Longrightarrow>
     step args st pid (ParentRefused WriteAck) s (drop_and_reap (AckFailed EPIPE) s)"
| parent_ack_fault:
    "hs_parent s = WriteAck \<Longrightarrow>
     step args st pid (ParentFault WriteAck e) s (drop_and_reap (AckFailed e) s)"
| parent_ready:
    "hs_parent s = ReadReady \<Longrightarrow> hs_to_parent s = (CHILD_BOUNDARY_READY, x) # ms \<Longrightarrow>
     step args st pid (ParentDoes ReadReady) s (s\<lparr>hs_parent := WrapNotify, hs_to_parent := ms\<rparr>)"
| parent_wrong_byte:
    "hs_parent s = ReadReady \<Longrightarrow> hs_to_parent s = (b, x) # ms \<Longrightarrow> b \<noteq> CHILD_BOUNDARY_READY \<Longrightarrow>
     step args st pid (ParentRefused ReadReady) s (drop_and_reap SetupAborted (s\<lparr>hs_to_parent := ms\<rparr>))"
| parent_ready_eof:
    "hs_parent s = ReadReady \<Longrightarrow> hs_to_parent s = [] \<Longrightarrow> \<not> child_end s \<Longrightarrow>
     step args st pid (ParentRefused ReadReady) s (drop_and_reap SetupAborted s)"
| parent_ready_fault:
    "hs_parent s = ReadReady \<Longrightarrow>
     step args st pid (ParentFault ReadReady e) s (drop_and_reap SetupAborted s)"
| parent_wraps:
    "hs_parent s = WrapNotify \<Longrightarrow> step args st pid (ParentDoes WrapNotify) s (leave (Inr pid) s)"
| parent_wrap_fault:
    "hs_parent s = WrapNotify \<Longrightarrow>
     step args st pid (ParentFault WrapNotify e) s (leave (Inl (HandshakeFailed e)) (s\<lparr>hs_p_notify := False\<rparr>))"
| parent_reaps:
    "hs_parent s = ReapFor why \<Longrightarrow> hs_child s = Gone w \<Longrightarrow>
     step args st pid (ParentDoes (ReapFor why)) s
       (leave (Inl (reaped_error why (sint w))) (s\<lparr>hs_reaped := True\<rparr>))"
| parent_reap_fault:
    "hs_parent s = ReapFor why \<Longrightarrow>
     step args st pid (ParentFault (ReapFor why) e) s (leave (Inl (reaped_error why (- 1))) s)"

inductive_cases child_doesE: "step args st pid (ChildDoes c) s s'"
inductive_cases parent_doesE: "step args st pid (ParentDoes p) s s'"
inductive_cases parent_refusedE: "step args st pid (ParentRefused p) s s'"
inductive_simps step_fault_simps:
  "step args st pid (ChildFault c) s s'"
  "step args st pid (ChildKilled w) s s'"

text \<open>Runs: the labels of the steps taken since the fork.\<close>

inductive shakes :: "(child_call \<Rightarrow> u64 list) \<Rightarrow> child_setup \<Rightarrow> u32 \<Rightarrow> label list \<Rightarrow> handshake \<Rightarrow> bool"
  for args st pid
where
  start: "shakes args st pid [] (forked st)"
| more: "shakes args st pid ls s \<Longrightarrow> step args st pid l s s' \<Longrightarrow> shakes args st pid (ls @ [l]) s'"

text \<open>\<open>spawn_with_filter\<close> and \<open>spawn_supervised\<close>: the results they can return.\<close>

definition spawn_with_filter ::
  "(child_call \<Rightarrow> u64 list) \<Rightarrow> spawn_host \<Rightarrow> spawn_spec \<Rightarrow> sock_filter list \<Rightarrow> (spawn_error + u32) \<Rightarrow> bool" where
  "spawn_with_filter args H spec prog r =
     (case spawn_prepare H spec prog of
        Inl e \<Rightarrow> r = Inl e
      | Inr (st, pid) \<Rightarrow> (\<exists>ls s. shakes args st pid ls s \<and> hs_parent s = Returned r))"

definition spawn_supervised ::
  "(child_call \<Rightarrow> u64 list) \<Rightarrow> spawn_host \<Rightarrow> spawn_spec \<Rightarrow> (spawn_error + u32) \<Rightarrow> bool" where
  "spawn_supervised args H spec r = spawn_with_filter args H spec build_filter r"

end
