(* ===== verification/Spawn_Claims.thy ===== *)
theory Spawn_Claims imports Spawn begin

text \<open>
  What the launch of the child guarantees: an invariant of every interleaving of the two programs of
  Spawn, one of the fault-free ones, and the properties that follow.
\<close>

section \<open>Positions of the child\<close>

text \<open>The calls after a call of \<open>enter\<close>, and the calls that occur in it.\<close>

definition confine :: "child_setup \<Rightarrow> child_call list" where
  "confine st = (case cs_landlock_ruleset st of None \<Rightarrow> [] | Some f \<Rightarrow> [RestrictSelf f])"

fun rest :: "child_setup \<Rightarrow> child_call \<Rightarrow> child_call list" where
  "rest st Execv = []"
| "rest st CloseRange = [Execv]"
| "rest st WriteReady = [CloseRange, Execv]"
| "rest st (RestrictSelf f) = [WriteReady, CloseRange, Execv]"
| "rest st RecvAck = confine st @ [WriteReady, CloseRange, Execv]"
| "rest st CloseNotifyFd = RecvAck # confine st @ [WriteReady, CloseRange, Execv]"
| "rest st SendNotifyFd = CloseNotifyFd # RecvAck # confine st @ [WriteReady, CloseRange, Execv]"
| "rest st InstallFilter = SendNotifyFd # CloseNotifyFd # RecvAck # confine st @ [WriteReady, CloseRange, Execv]"
| "rest st SetNoNewPrivs =
     InstallFilter # SendNotifyFd # CloseNotifyFd # RecvAck # confine st @ [WriteReady, CloseRange, Execv]"
| "rest st (Dup2 f n) = (if n = 1 then [Dup2 f 2] else []) @ SetNoNewPrivs #
     InstallFilter # SendNotifyFd # CloseNotifyFd # RecvAck # confine st @ [WriteReady, CloseRange, Execv]"
| "rest st CloseSupervisorSock =
     (case cs_redirect st of None \<Rightarrow> [] | Some f \<Rightarrow> [Dup2 f 1, Dup2 f 2]) @ SetNoNewPrivs #
     InstallFilter # SendNotifyFd # CloseNotifyFd # RecvAck # confine st @ [WriteReady, CloseRange, Execv]"

lemma enter_rest: "enter st = CloseSupervisorSock # rest st CloseSupervisorSock"
  by (simp add: enter_def confine_def split: option.split)

fun belongs :: "child_setup \<Rightarrow> child_call \<Rightarrow> bool" where
  "belongs st (Dup2 f n) = (cs_redirect st = Some f \<and> n \<in> {1, 2})"
| "belongs st (RestrictSelf f) = (cs_landlock_ruleset st = Some f)"
| "belongs st c = True"

fun rank :: "child_call \<Rightarrow> nat" where
  "rank CloseSupervisorSock = 0"
| "rank (Dup2 _ n) = n"
| "rank SetNoNewPrivs = 3"
| "rank InstallFilter = 4"
| "rank SendNotifyFd = 5"
| "rank CloseNotifyFd = 6"
| "rank RecvAck = 7"
| "rank (RestrictSelf _) = 8"
| "rank WriteReady = 9"
| "rank CloseRange = 10"
| "rank Execv = 11"

text \<open>What the child has put on itself once the calls below position \<open>p\<close> have succeeded.\<close>

definition stdio_at :: "child_setup \<Rightarrow> nat \<Rightarrow> (fd \<times> nat) list" where
  "stdio_at st p = (case cs_redirect st of None \<Rightarrow> []
     | Some f \<Rightarrow> (if 1 < p then [(f, 1)] else []) @ (if 2 < p then [(f, 2)] else []))"

definition restricted_at :: "child_setup \<Rightarrow> nat \<Rightarrow> fd list" where
  "restricted_at st p = (case cs_landlock_ruleset st of Some f \<Rightarrow> if 8 < p then [f] else [] | None \<Rightarrow> [])"

definition worn :: "child_setup \<Rightarrow> nat \<Rightarrow> handshake \<Rightarrow> bool" where
  "worn st p s \<longleftrightarrow> hs_no_new_privs s = (3 < p) \<and>
     hs_filter s = (if 4 < p then Some (cs_prog st) else None) \<and>
     hs_restricted s = restricted_at st p \<and> hs_stdio s = stdio_at st p"

text \<open>The whole boundary.\<close>

definition boundary :: "child_setup \<Rightarrow> handshake \<Rightarrow> bool" where
  "boundary st s \<longleftrightarrow> hs_no_new_privs s \<and> hs_filter s = Some (cs_prog st) \<and>
     hs_restricted s = (case cs_landlock_ruleset st of Some f \<Rightarrow> [f] | None \<Rightarrow> []) \<and>
     hs_stdio s = (case cs_redirect st of Some f \<Rightarrow> [(f, 1), (f, 2)] | None \<Rightarrow> [])"

lemma boundary_worn: "8 < p \<Longrightarrow> boundary st s \<longleftrightarrow> worn st p s"
  by (auto simp: boundary_def worn_def restricted_at_def stdio_at_def split: option.splits)

text \<open>One call of the child takes it to the next position.\<close>

lemma next_call:
  assumes "belongs st c" and "c \<noteq> Execv"
  defines "d \<equiv> hd (rest st c)"
  shows "rest st c = d # rest st d \<and> belongs st d \<and> rank c < rank d \<and>
    (rank c \<noteq> 0 \<longrightarrow> rank c \<noteq> 7 \<longrightarrow> rank d = Suc (rank c)) \<and>
    (rank c = 0 \<longrightarrow> rank d = (if cs_redirect st = None then 3 else 1)) \<and>
    (rank c = 7 \<longrightarrow> rank d = (if cs_landlock_ruleset st = None then 9 else 8))"
  unfolding d_def using assms(1,2)
  by (intro conjI; cases c; cases "cs_redirect st"; cases "cs_landlock_ruleset st") (auto simp: confine_def)

lemma worn_effect:
  assumes "worn st (rank c) s" and "belongs st c" and "c \<noteq> Execv" and "rest st c = d # rest st d"
  shows "worn st (rank d) ((effect st c s)\<lparr>hs_child := x\<rparr>)"
proof -
  show ?thesis using assms
    by (cases c) (auto simp: worn_def restricted_at_def stdio_at_def confine_def close_all_def split: option.splits)
qed

lemma worn_skip:
  assumes "worn st (rank c) s" and "\<not> fatal c" and "rest st c = d # rest st d"
  shows "worn st (rank d) (s\<lparr>hs_child := x\<rparr>)"
  using assms
  by (cases c) (auto simp: worn_def restricted_at_def stdio_at_def confine_def split: option.splits)

section \<open>The invariant\<close>

fun pos :: "child_state \<Rightarrow> nat" where
  "pos (ChildRuns cs) = (case cs of [] \<Rightarrow> 12 | c # _ \<Rightarrow> rank c)"
| "pos Agent = 12"
| "pos (Gone w) = 13"

definition on_course :: "child_setup \<Rightarrow> handshake \<Rightarrow> bool" where
  "on_course st s \<longleftrightarrow>
     (case hs_child s of
        ChildRuns cs \<Rightarrow> (\<exists>c. cs = c # rest st c \<and> belongs st c \<and> worn st (rank c) s \<and>
          (rank c \<le> 10 \<longrightarrow> hs_c_sock s))
      | Agent \<Rightarrow> worn st 12 s \<and> \<not> hs_c_sup s \<and> \<not> hs_c_sock s \<and> \<not> hs_c_notify s
      | Gone w \<Rightarrow> \<not> hs_c_sup s \<and> \<not> hs_c_sock s \<and> \<not> hs_c_notify s)"

lemma on_course_forked: "on_course st (forked st)"
  by (simp add: on_course_def forked_def enter_rest worn_def restricted_at_def stdio_at_def split: option.split)

lemma on_course_does:
  assumes "on_course st s" and "hs_child s = ChildRuns (c # cs)"
  shows "on_course st ((effect st c s)\<lparr>hs_child := after c cs\<rparr>)"
proof (cases "c = Execv")
  case True
  then show ?thesis using assms
    by (auto simp: on_course_def after_def worn_def close_all_def restricted_at_def stdio_at_def split: option.splits)
next
  case False
  with assms have c: "cs = rest st c" "belongs st c" "worn st (rank c) s" "rank c \<le> 10 \<longrightarrow> hs_c_sock s"
    by (auto simp: on_course_def)
  define d where "d = hd (rest st c)"
  have d: "rest st c = d # rest st d" "belongs st d" "rank c < rank d"
    using next_call [OF c(2) False] by (simp_all add: d_def)
  have "hs_c_sock (effect st c s) = hs_c_sock s \<or> rank d = 11"
    using d(1) by (cases c) auto
  then have "rank d \<le> 10 \<longrightarrow> hs_c_sock (effect st c s)" using c(4) d(3) by auto
  with worn_effect [OF c(3) c(2) False d(1)] d c(1) False show ?thesis
    by (auto simp: on_course_def after_def)
qed

lemma on_course_give_up:
  assumes "on_course st s" and "hs_child s = ChildRuns (c # cs)"
  shows "on_course st (give_up c cs s)"
proof (cases "fatal c")
  case True
  then show ?thesis by (simp add: give_up_def die_def close_all_def on_course_def)
next
  case False
  then have e: "c \<noteq> Execv" by auto
  with assms have c: "cs = rest st c" "belongs st c" "worn st (rank c) s" "rank c \<le> 10 \<longrightarrow> hs_c_sock s"
    by (auto simp: on_course_def)
  define d where "d = hd (rest st c)"
  have d: "rest st c = d # rest st d" "belongs st d" "rank c < rank d"
    using next_call [OF c(2) e] by (simp_all add: d_def)
  with worn_skip [OF c(3) False d(1)] c(1,4) False show ?thesis
    by (auto simp: on_course_def give_up_def)
qed

text \<open>The parent's steps leave the child as it is; the child's leave the parent.\<close>

definition same_child :: "handshake \<Rightarrow> handshake \<Rightarrow> bool" where
  "same_child s s' \<longleftrightarrow> hs_child s' = hs_child s \<and> hs_c_sup s' = hs_c_sup s \<and> hs_c_sock s' = hs_c_sock s \<and>
     hs_c_notify s' = hs_c_notify s \<and> hs_no_new_privs s' = hs_no_new_privs s \<and> hs_filter s' = hs_filter s \<and>
     hs_restricted s' = hs_restricted s \<and> hs_stdio s' = hs_stdio s"

text \<open>Why a call of the child fails when nothing interferes.\<close>

definition refusal :: "(child_call \<Rightarrow> u64 list) \<Rightarrow> child_call \<Rightarrow> handshake \<Rightarrow> bool" where
  "refusal args c s \<longleftrightarrow>
     (case route_of args c s of Passes \<Rightarrow> must_fail c s | Notifies \<Rightarrow> served s \<or> \<not> listener s | Blocked \<Rightarrow> True)"

lemma same_childD: "same_child s s' \<Longrightarrow> hs_child s' = hs_child s"
  by (simp add: same_child_def)

lemma step_kinds [consumes 1, case_names does gives_up killed ends parent]:
  assumes "step args st pid l s s'"
  obtains (does) c cs where "l = ChildDoes c" "hs_child s = ChildRuns (c # cs)" "can_succeed c s"
      "s' = (effect st c s)\<lparr>hs_child := after c cs\<rparr>"
      "route_of args c s = Passes \<or> route_of args c s = Notifies \<and> served s"
    | (gives_up) c cs where "hs_child s = ChildRuns (c # cs)" "s' = give_up c cs s"
      "l = ChildRefused c \<and> refusal args c s \<or> l = ChildFault c"
    | (killed) cs w where "l = ChildKilled w" "hs_child s = ChildRuns cs" "s' = (close_all s)\<lparr>hs_child := Gone w\<rparr>"
    | (ends) w where "l = AgentEnds w" "hs_child s = Agent" "s' = s\<lparr>hs_child := Gone w\<rparr>"
    | (parent) "same_child s s'" "(\<exists>p. l = ParentDoes p) \<or> (\<exists>p. l = ParentRefused p) \<or> (\<exists>p e. l = ParentFault p e)"
proof -
  have "(\<exists>c cs. l = ChildDoes c \<and> hs_child s = ChildRuns (c # cs) \<and> can_succeed c s \<and>
        s' = (effect st c s)\<lparr>hs_child := after c cs\<rparr> \<and>
        (route_of args c s = Passes \<or> route_of args c s = Notifies \<and> served s)) \<or>
      (\<exists>c cs. hs_child s = ChildRuns (c # cs) \<and> s' = give_up c cs s \<and>
        (l = ChildRefused c \<and> refusal args c s \<or> l = ChildFault c)) \<or>
      (\<exists>cs w. l = ChildKilled w \<and> hs_child s = ChildRuns cs \<and> s' = (close_all s)\<lparr>hs_child := Gone w\<rparr>) \<or>
      (\<exists>w. l = AgentEnds w \<and> hs_child s = Agent \<and> s' = s\<lparr>hs_child := Gone w\<rparr>) \<or>
      same_child s s' \<and> ((\<exists>p. l = ParentDoes p) \<or> (\<exists>p. l = ParentRefused p) \<or> (\<exists>p e. l = ParentFault p e))"
    using assms by (cases rule: step.cases) (simp_all add: same_child_def drop_and_reap_def leave_def refusal_def)
  then show thesis using that by blast
qed

lemma on_course_step:
  assumes "step args st pid l s s'" and "on_course st s"
  shows "on_course st s'"
  using assms(1)
proof (cases rule: step_kinds)
  case parent
  then show ?thesis using assms(2)
    by (auto simp: same_child_def on_course_def worn_def split: child_state.splits)
next
  case (does c cs)
  then show ?thesis using on_course_does [OF assms(2)] by simp
next
  case (gives_up c cs)
  then show ?thesis using on_course_give_up [OF assms(2)] by simp
qed (use assms(2) in \<open>simp_all add: on_course_def close_all_def\<close>)

lemma on_course: "shakes args st pid ls s \<Longrightarrow> on_course st s"
  by (induction rule: shakes.induct) (auto intro: on_course_forked on_course_step)

lemma effect_keeps [simp]:
  "hs_parent (effect st c s) = hs_parent s" "hs_p_sup (effect st c s) = hs_p_sup s"
  "hs_p_sock (effect st c s) = hs_p_sock s" "hs_p_notify (effect st c s) = hs_p_notify s"
  "hs_reaped (effect st c s) = hs_reaped s"
  by (cases c; simp add: close_all_def)+

lemma give_up_keeps [simp]:
  "hs_parent (give_up c cs s) = hs_parent s" "hs_p_sup (give_up c cs s) = hs_p_sup s"
  "hs_p_sock (give_up c cs s) = hs_p_sock s" "hs_p_notify (give_up c cs s) = hs_p_notify s"
  "hs_reaped (give_up c cs s) = hs_reaped s" "hs_to_parent (give_up c cs s) = hs_to_parent s"
  "hs_to_child (give_up c cs s) = hs_to_child s"
  by (simp_all add: give_up_def die_def close_all_def)

lemma close_all_keeps [simp]:
  "hs_parent (close_all s) = hs_parent s" "hs_p_sup (close_all s) = hs_p_sup s"
  "hs_p_sock (close_all s) = hs_p_sock s" "hs_p_notify (close_all s) = hs_p_notify s"
  "hs_reaped (close_all s) = hs_reaped s" "hs_to_parent (close_all s) = hs_to_parent s"
  "hs_to_child (close_all s) = hs_to_child s"
  by (simp_all add: close_all_def)

lemma effect_to_parent:
  "hs_to_parent (effect st c s) = hs_to_parent s @
     (if c = SendNotifyFd then [(CHILD_READY, True)]
      else if c = WriteReady then [(CHILD_BOUNDARY_READY, False)] else [])"
  by (cases c) (simp_all add: close_all_def)

text \<open>The parent's descriptors follow its program point.\<close>

definition parent_holds :: "u32 \<Rightarrow> handshake \<Rightarrow> bool" where
  "parent_holds pid s \<longleftrightarrow> hs_p_sock s = (hs_parent s = DropChildSock) \<and>
     hs_p_sup s = (\<forall>r. hs_parent s \<noteq> Returned r) \<and>
     hs_p_notify s = (hs_parent s \<in> {WriteAck, ReadReady, WrapNotify, Returned (Inr pid)}) \<and>
     (\<forall>p. hs_parent s = Returned (Inr p) \<longrightarrow> p = pid)"

lemmas parent_defs = parent_holds_def drop_and_reap_def leave_def

lemma parent_holds: "shakes args st pid ls s \<Longrightarrow> parent_holds pid s"
proof (induction rule: shakes.induct)
  case start
  then show ?case by (simp add: parent_holds_def forked_def)
next
  case (more ls s l s')
  from more.hyps(2) more.IH show ?case by (cases rule: step.cases) (simp_all add: parent_defs)
qed

text \<open>The child's report is sent, and received, only behind the whole boundary.\<close>

definition reported :: "child_setup \<Rightarrow> handshake \<Rightarrow> bool" where
  "reported st s \<longleftrightarrow>
     (hs_parent s = WrapNotify \<or> (\<exists>p. hs_parent s = Returned (Inr p)) \<or>
        CHILD_BOUNDARY_READY \<in> fst ` set (hs_to_parent s) \<longrightarrow>
      9 < pos (hs_child s) \<and> boundary st s)"

lemma boundary_kept:
  assumes "step args st pid l s s'" and "on_course st s" and "9 < pos (hs_child s)" and "boundary st s"
  shows "9 < pos (hs_child s') \<and> boundary st s'"
  using assms(1)
proof (cases rule: step_kinds)
  case (does c cs)
  show ?thesis
  proof (cases "c = Execv")
    case True
    with does assms(4) show ?thesis by (simp add: after_def boundary_def close_all_def)
  next
    case False
    with does assms(2) have c: "cs = rest st c" "belongs st c" by (auto simp: on_course_def)
    with assms(3) does(2) False have "c = CloseRange" by (cases c) auto
    with does c(1) assms(4) show ?thesis by (simp add: after_def boundary_def close_all_def)
  qed
next
  case (gives_up c cs)
  show ?thesis
  proof (cases "fatal c")
    case True
    with gives_up assms(4) show ?thesis by (simp add: give_up_def die_def boundary_def close_all_def)
  next
    case False
    then have "c \<noteq> Execv" by auto
    moreover from this gives_up assms(2) have c: "cs = rest st c" "belongs st c" by (auto simp: on_course_def)
    ultimately obtain d where "cs = d # rest st d" "rank c < rank d" using next_call by metis
    with gives_up assms(3,4) False show ?thesis by (simp add: give_up_def boundary_def)
  qed
qed (use assms(3,4) in \<open>simp_all add: boundary_def close_all_def same_child_def\<close>)

lemma reported: "shakes args st pid ls s \<Longrightarrow> reported st s"
proof (induction rule: shakes.induct)
  case start
  then show ?case by (simp add: reported_def forked_def)
next
  case (more ls s l s')
  note course = on_course [OF more.hyps(1)]
  show ?case
  proof (cases "hs_parent s = WrapNotify \<or> (\<exists>p. hs_parent s = Returned (Inr p)) \<or>
        CHILD_BOUNDARY_READY \<in> fst ` set (hs_to_parent s)")
    case True
    with more.IH have "9 < pos (hs_child s)" "boundary st s" by (auto simp: reported_def)
    from boundary_kept [OF more.hyps(2) course this] show ?thesis by (simp add: reported_def)
  next
    case False
    note old = False
    show ?thesis
    proof (cases "l = ChildDoes WriteReady")
      case True
      with more.hyps(2) obtain cs where cs: "hs_child s = ChildRuns (WriteReady # cs)"
        "s' = (effect st WriteReady s)\<lparr>hs_child := after WriteReady cs\<rparr>"
        by (auto elim: child_doesE)
      with course have "cs = [CloseRange, Execv]" "worn st 9 s" by (auto simp: on_course_def)
      with cs show ?thesis by (simp add: reported_def after_def boundary_worn [of 9, symmetric] boundary_def)
    next
      case False
      from more.hyps(2) old False
      have "\<not> (hs_parent s' = WrapNotify \<or> (\<exists>p. hs_parent s' = Returned (Inr p)) \<or>
        CHILD_BOUNDARY_READY \<in> fst ` set (hs_to_parent s'))"
        by (cases rule: step.cases)
          (auto simp: effect_to_parent CHILD_READY_def CHILD_BOUNDARY_READY_def drop_and_reap_def leave_def)
      then show ?thesis by (simp add: reported_def)
    qed
  qed
qed

section \<open>The child under the real filter\<close>

lemma run_real_filter:
  "run_filter build_filter nr arch as =
     Inr (if arch \<noteq> AUDIT_ARCH_X86_64 \<or> nr AND X32_SYSCALL_BIT \<noteq> 0 \<or>
            routed (MEDIATED @ DENIED_RECORDED) nr as
          then SECCOMP_RET_USER_NOTIF else SECCOMP_RET_ALLOW)"
  unfolding build_filter_def
  by (rule run_build_for) (use tables_distinct sendto_tabled tables_length in simp_all)

lemma call_route:
  "run_filter build_filter (call_nr c) AUDIT_ARCH_X86_64 as =
     Inr (if c = Execv then SECCOMP_RET_USER_NOTIF else SECCOMP_RET_ALLOW)"
  unfolding run_real_filter
  by (cases c) (simp_all add: routed_def MEDIATED_def DENIED_RECORDED_def abi_defs)

lemma real_route:
  assumes "on_course st s" and "hs_child s = ChildRuns (c # cs)" and "cs_prog st = build_filter"
  shows "route_of args c s = (if c = Execv then Notifies else Passes)"
proof -
  have w: "worn st (rank c) s" using assms(1,2) by (auto simp: on_course_def)
  have "SECCOMP_RET_USER_NOTIF \<noteq> SECCOMP_RET_ALLOW" by (simp add: abi_defs)
  then show ?thesis using w assms(3) call_route [of c "args c"]
    by (cases "hs_filter s") (auto simp: route_of_def worn_def split: if_splits)
qed

lemma agent_is_served:
  assumes "shakes args st pid ls s" and "cs_prog st = build_filter"
  shows "hs_child s = Agent \<or> ChildDoes Execv \<in> set ls \<longrightarrow> hs_parent s = Returned (Inr pid)"
  using assms(1)
proof (induction rule: shakes.induct)
  case start
  then show ?case by (simp add: forked_def)
next
  case (more ls s l s')
  note course = on_course [OF more.hyps(1)] and holds = parent_holds [OF more.hyps(1)]
  have stays: "hs_parent s' = hs_parent s" if "hs_parent s = Returned r" for r
    using more.hyps(2) that by (cases rule: step.cases) simp_all
  show ?case
  proof (cases "l = ChildDoes Execv")
    case True
    with more.hyps(2) obtain cs where cs: "hs_child s = ChildRuns (Execv # cs)"
      "route_of args Execv s = Passes \<or> served s" by (auto elim: child_doesE)
    with real_route [OF course cs(1) assms(2)] have "served s" by simp
    with holds have "hs_parent s = Returned (Inr pid)" by (auto simp: served_def parent_holds_def)
    with stays show ?thesis by simp
  next
    case False
    have "hs_child s' = Agent \<Longrightarrow> hs_child s = Agent"
      using more.hyps(2) False
      by (cases rule: step_kinds) (auto simp: after_def give_up_def die_def same_child_def split: if_splits)
    with False stays more.IH show ?thesis by auto
  qed
qed

section \<open>Who is gone\<close>

fun parent_fault :: "label \<Rightarrow> bool" where
  "parent_fault (ParentFault p e) = True"
| "parent_fault _ = False"

lemma gone_stays:
  assumes "step args st pid l s s'" and "hs_child s = Gone w"
  shows "hs_child s' = Gone w"
  using assms(1) by (cases rule: step_kinds) (simp_all add: assms(2) same_child_def)

text \<open>
  A failed handshake reaps the child, but for two calls of the parent: \<open>NotifyFd::new\<close>, whose failure is
  returned at once, and the \<open>waitpid\<close> of the reaping itself.
\<close>

fun skips_reaping :: "label \<Rightarrow> bool" where
  "skips_reaping (ParentFault WrapNotify e) = True"
| "skips_reaping (ParentFault (ReapFor why) e) = True"
| "skips_reaping _ = False"

definition reaped_exactly :: "label list \<Rightarrow> handshake \<Rightarrow> bool" where
  "reaped_exactly ls s \<longleftrightarrow>
     (case hs_parent s of
        Returned (Inl e) \<Rightarrow> hs_reaped s = list_all (\<lambda>l. \<not> skips_reaping l) ls \<and>
          (hs_reaped s \<longrightarrow> (\<exists>w. hs_child s = Gone w \<and> (e = ChildSetupFailed (sint w) \<or>
             (\<exists>io. e = HandshakeFailed io \<and> (io = EPIPE \<or> ParentFault WriteAck io \<in> set ls)))))
      | ReapFor (AckFailed io) \<Rightarrow> list_all (\<lambda>l. \<not> skips_reaping l) ls \<and> \<not> hs_reaped s \<and>
          (io = EPIPE \<or> ParentFault WriteAck io \<in> set ls)
      | _ \<Rightarrow> list_all (\<lambda>l. \<not> skips_reaping l) ls \<and> \<not> hs_reaped s)"

lemma reaped_exactly: "shakes args st pid ls s \<Longrightarrow> reaped_exactly ls s"
proof (induction rule: shakes.induct)
  case start
  then show ?case by (simp add: reaped_exactly_def forked_def)
next
  case (more ls s l s')
  show ?case
  proof (cases "hs_parent s' = hs_parent s")
    case True
    moreover have "hs_reaped s' = hs_reaped s" "\<not> skips_reaping l"
      using more.hyps(2) True by (cases rule: step.cases; simp add: parent_defs)+
    ultimately show ?thesis
      using more.IH gone_stays [OF more.hyps(2)]
      by (auto simp: reaped_exactly_def split: parent_point.splits sum.splits reap_reason.splits)
  next
    case False
    from more.hyps(2) show ?thesis
      using False more.IH
      by (cases rule: step.cases)
        (auto simp: reaped_exactly_def drop_and_reap_def leave_def split: reap_reason.splits)
  qed
qed

section \<open>No deadlock\<close>

text \<open>Where each side is while the parent's own calls do not fail.\<close>

fun smooth_at :: "parent_point \<Rightarrow> nat \<Rightarrow> (u8 \<times> bool) list \<Rightarrow> u8 list \<Rightarrow> bool" where
  "smooth_at WriteAck p up down = (down = [] \<and> up = [] \<and> p \<in> {6, 7, 13})"
| "smooth_at ReadReady p up down =
     (p \<in> {6, 7} \<and> down = [SUPERVISOR_ACK] \<and> up = [] \<or> p \<in> {8, 9} \<and> up = [] \<or>
      p \<in> {10, 11} \<and> up = [(CHILD_BOUNDARY_READY, False)] \<or>
      p = 13 \<and> up \<in> {[], [(CHILD_BOUNDARY_READY, False)]})"
| "smooth_at WrapNotify p up down = (p \<in> {10, 11, 13})"
| "smooth_at (ReapFor why) p up down = (p = 13)"
| "smooth_at (Returned r) p up down = True"
| "smooth_at q p up down =
     (down = [] \<and> (p \<le> 5 \<and> up = [] \<or> p \<in> {6, 7} \<and> up = [(CHILD_READY, True)] \<or>
        p = 13 \<and> up \<in> {[], [(CHILD_READY, True)]}))"

definition smooth :: "handshake \<Rightarrow> bool" where
  "smooth s = smooth_at (hs_parent s) (pos (hs_child s)) (hs_to_parent s) (hs_to_child s)"

lemma smooth_gone: "smooth_at q p up down \<Longrightarrow> smooth_at q 13 up down"
  by (cases q) auto

lemma smooth_move:
  "smooth_at q p up down \<Longrightarrow> p \<le> 4 \<and> p' \<le> 5 \<or> p = 6 \<and> p' = 7 \<or> p = 8 \<and> p' = 9 \<or> p = 10 \<and> p' = 11 \<Longrightarrow>
   smooth_at q p' up down"
  by (cases q) auto

lemma smooth_send: "smooth_at q 5 up down \<Longrightarrow> smooth_at q 6 (up @ [(CHILD_READY, True)]) down"
  by (cases q) auto

lemma smooth_ack: "smooth_at q 7 up down \<Longrightarrow> down \<noteq> [] \<Longrightarrow> p \<in> {8, 9} \<Longrightarrow> smooth_at q p up (tl down)"
  by (cases q) auto

lemma smooth_ready: "smooth_at q 9 up down \<Longrightarrow> smooth_at q 10 (up @ [(CHILD_BOUNDARY_READY, False)]) down"
  by (cases q) auto

lemma pos_Gone: "on_course st s \<Longrightarrow> pos (hs_child s) = 13 \<longleftrightarrow> (\<exists>w. hs_child s = Gone w)"
proof (cases "hs_child s")
  case (ChildRuns cs)
  assume "on_course st s"
  with ChildRuns obtain c where "cs = c # rest st c" "belongs st c" by (auto simp: on_course_def)
  with ChildRuns show ?thesis by (cases c) auto
qed simp_all

lemma running:
  assumes "on_course st s" and "hs_child s = ChildRuns cs"
  obtains c where "cs = c # rest st c" "belongs st c" "worn st (rank c) s" "rank c \<le> 10 \<longrightarrow> hs_c_sock s" "rank c \<le> 11"
proof -
  obtain c where c: "cs = c # rest st c" "belongs st c" "worn st (rank c) s" "rank c \<le> 10 \<longrightarrow> hs_c_sock s"
    using assms by (auto simp: on_course_def)
  then have "rank c \<le> 11" by (cases c) auto
  with c show thesis using that by blast
qed

lemma moved:
  fixes n m :: nat
  assumes "n \<noteq> 0 \<Longrightarrow> n \<noteq> 7 \<Longrightarrow> m = Suc n" and "n = 0 \<Longrightarrow> m \<le> 5" and "n \<le> 4 \<or> n \<in> {6, 8, 10}"
  shows "n \<le> 4 \<and> m \<le> 5 \<or> n = 6 \<and> m = 7 \<or> n = 8 \<and> m = 9 \<or> n = 10 \<and> m = 11"
proof (cases "n = 0")
  case True
  then show ?thesis using assms(2) by simp
next
  case False
  moreover from assms(3) have "n \<noteq> 7" by auto
  ultimately have "m = Suc n" using assms(1) by simp
  with assms(3) show ?thesis by auto
qed

lemma smooth_child_does:
  assumes "smooth s" and "on_course st s" and "hs_child s = ChildRuns (c # cs)" and "can_succeed c s"
    and "c = Execv \<Longrightarrow> served s"
  shows "smooth ((effect st c s)\<lparr>hs_child := after c cs\<rparr>)"
proof (cases "c = Execv")
  case True
  with assms(5) obtain p where "hs_parent s = Returned (Inr p)" by (auto simp: served_def)
  then show ?thesis by (simp add: smooth_def)
next
  case False
  from running [OF assms(2,3)] have c: "cs = rest st c" "belongs st c" by auto
  define d where "d = hd (rest st c)"
  have d: "rest st c = d # rest st d" "rank c \<noteq> 0 \<Longrightarrow> rank c \<noteq> 7 \<Longrightarrow> rank d = Suc (rank c)"
    "rank c = 0 \<Longrightarrow> rank d \<le> 5" "rank c = 7 \<Longrightarrow> rank d \<in> {8, 9}"
    using next_call [OF c(2) False] by (simp_all add: d_def)
  have at: "smooth_at (hs_parent s) (rank c) (hs_to_parent s) (hs_to_child s)"
    using assms(1,3) by (simp add: smooth_def)
  have goal: "smooth ((effect st c s)\<lparr>hs_child := after c cs\<rparr>) \<longleftrightarrow>
      smooth_at (hs_parent s) (rank d) (hs_to_parent (effect st c s)) (hs_to_child (effect st c s))"
    using c(1) d(1) False by (simp add: smooth_def after_def)
  consider "c = SendNotifyFd" | "c = WriteReady" | "c = RecvAck" |
    "c \<noteq> SendNotifyFd" "c \<noteq> WriteReady" "c \<noteq> RecvAck" "hs_to_child (effect st c s) = hs_to_child s"
    by (cases c) (auto simp: close_all_def)
  then show ?thesis
  proof cases
    case 1
    then show ?thesis using at d(2) smooth_send unfolding goal by simp
  next
    case 2
    then show ?thesis using at d(2) smooth_ready unfolding goal by simp
  next
    case 3
    then show ?thesis using at d(4) smooth_ack assms(4) unfolding goal by simp
  next
    case 4
    have "rank c \<le> 4 \<or> rank c \<in> {6, 8, 10}" using 4(1-3) False c(2) by (cases c) auto
    then have "rank c \<le> 4 \<and> rank d \<le> 5 \<or> rank c = 6 \<and> rank d = 7 \<or> rank c = 8 \<and> rank d = 9 \<or> rank c = 10 \<and> rank d = 11"
      by (intro moved [OF d(2,3)])
    from smooth_move [OF at this] 4 show ?thesis unfolding goal by (simp add: effect_to_parent)
  qed
qed

lemma smooth_give_up:
  assumes "smooth s" and "on_course st s" and "hs_child s = ChildRuns (c # cs)"
  shows "smooth (give_up c cs s)"
proof -
  from running [OF assms(2,3)] have c: "cs = rest st c" "belongs st c" by auto
  have at: "smooth_at (hs_parent s) (rank c) (hs_to_parent s) (hs_to_child s)"
    using assms(1,3) by (simp add: smooth_def)
  show ?thesis
  proof (cases "fatal c")
    case True
    then have "pos (hs_child (give_up c cs s)) = 13" by (simp add: give_up_def die_def)
    with smooth_gone [OF at] show ?thesis by (simp add: smooth_def)
  next
    case False
    then have "c \<noteq> Execv" "rank c \<in> {0, 6, 10}" by (cases c, simp_all)+
    define d where "d = hd (rest st c)"
    have d: "rest st c = d # rest st d" "rank c \<noteq> 0 \<Longrightarrow> rank c \<noteq> 7 \<Longrightarrow> rank d = Suc (rank c)"
      "rank c = 0 \<Longrightarrow> rank d \<le> 5"
      using next_call [OF c(2) \<open>c \<noteq> Execv\<close>] by (simp_all add: d_def)
    have "rank c \<le> 4 \<and> rank d \<le> 5 \<or> rank c = 6 \<and> rank d = 7 \<or> rank c = 8 \<and> rank d = 9 \<or> rank c = 10 \<and> rank d = 11"
      by (rule moved [OF d(2,3)]) (use \<open>rank c \<in> {0, 6, 10}\<close> in auto)
    from smooth_move [OF at this] c(1) d(1) False show ?thesis by (simp add: smooth_def give_up_def)
  qed
qed

lemma smooth_parent_does:
  "step args st pid (ParentDoes p) s s' \<Longrightarrow> hs_child s' = hs_child s \<Longrightarrow> smooth s \<Longrightarrow> smooth s'"
  by (erule parent_doesE)
    (auto simp: smooth_def leave_def CHILD_READY_def CHILD_BOUNDARY_READY_def)

lemma smooth_parent_refused:
  assumes "step args st pid (ParentRefused p) s s'" and "hs_child s' = hs_child s" and "smooth s"
    and "\<not> child_end s \<longrightarrow> 10 < pos (hs_child s)"
  shows "smooth s'"
  using assms(1)
  by (rule parent_refusedE)
    (use assms(2-4) in \<open>auto simp: smooth_def drop_and_reap_def CHILD_READY_def CHILD_BOUNDARY_READY_def\<close>)

lemma smooth:
  assumes "shakes args st pid ls s" and "\<forall>l \<in> set ls. \<not> parent_fault l" and "cs_prog st = build_filter"
  shows "smooth s"
  using assms(1,2)
proof (induction rule: shakes.induct)
  case start
  then show ?case by (simp add: smooth_def forked_def enter_rest)
next
  case (more ls s l s')
  then have IH: "smooth s" by simp
  note course = on_course [OF more.hyps(1)] and holds = parent_holds [OF more.hyps(1)]
  have gone: "\<not> child_end s \<longrightarrow> 10 < pos (hs_child s)"
  proof (cases "hs_child s")
    case (ChildRuns cs)
    obtain c where "cs = c # rest st c" "rank c \<le> 10 \<longrightarrow> hs_c_sock s" "rank c \<le> 11"
      by (rule running [OF course ChildRuns])
    with ChildRuns show ?thesis by (auto simp: child_end_def)
  qed simp_all
  from more.hyps(2) show ?case
  proof (cases rule: step_kinds)
    case (does c cs)
    moreover have "served s" if "c = Execv"
      using does(5) real_route [OF course does(2) assms(3)] that by simp
    ultimately show ?thesis using smooth_child_does [OF IH course] by simp
  next
    case (gives_up c cs)
    then show ?thesis using smooth_give_up [OF IH course] by simp
  next
    case (killed cs w)
    with smooth_gone IH show ?thesis by (simp add: smooth_def)
  next
    case (ends w)
    with smooth_gone IH show ?thesis by (simp add: smooth_def)
  next
    case parent
    from parent(2) more.prems obtain p where "l = ParentDoes p \<or> l = ParentRefused p" by auto
    then show ?thesis
      using smooth_parent_does smooth_parent_refused [OF _ _ IH gone] more.hyps(2) IH same_childD [OF parent(1)]
      by blast
  qed
qed

lemma succeed_or_fail: "c \<noteq> RecvAck \<or> hs_to_child s \<noteq> [] \<Longrightarrow> can_succeed c s \<or> must_fail c s"
  by (cases c) auto

lemma child_can_move:
  assumes "on_course st s" and "hs_child s = ChildRuns (c # cs)" and "cs_prog st = build_filter"
    and "c \<noteq> Execv" and "c = RecvAck \<Longrightarrow> hs_to_child s \<noteq> []"
  shows "\<exists>l s'. step args st pid l s s' \<and> fault_free l"
proof -
  have "route_of args c s = Passes" using real_route [OF assms(1-3)] assms(4) by simp
  with assms(2) succeed_or_fail [of c s] assms(5) show ?thesis
    by (metis child_passes child_refused fault_free.simps(4,5))
qed

lemma progress:
  assumes "shakes args st pid ls s" and "\<forall>l \<in> set ls. \<not> parent_fault l" and "cs_prog st = build_filter"
    and "\<forall>r. hs_parent s \<noteq> Returned r"
  shows "\<exists>l s'. step args st pid l s s' \<and> fault_free l"
proof -
  note course = on_course [OF assms(1)] and holds = parent_holds [OF assms(1)]
  have smooth: "smooth_at (hs_parent s) (pos (hs_child s)) (hs_to_parent s) (hs_to_child s)"
    using smooth [OF assms(1-3)] by (simp add: smooth_def)
  have child: ?thesis if "pos (hs_child s) \<le> 10" "pos (hs_child s) = 7 \<Longrightarrow> hs_to_child s \<noteq> []"
  proof (cases "hs_child s")
    case (ChildRuns cs)
    obtain c where c: "cs = c # rest st c" by (rule running [OF course ChildRuns])
    with ChildRuns that have "c \<noteq> Execv" "c = RecvAck \<Longrightarrow> hs_to_child s \<noteq> []" by auto
    with child_can_move [OF course _ assms(3)] ChildRuns c show ?thesis by blast
  qed (use that in simp_all)
  have eof: "\<not> child_end s" if "pos (hs_child s) = 13" "hs_parent s \<noteq> DropChildSock"
  proof -
    from that(1) pos_Gone [OF course] obtain w where "hs_child s = Gone w" by blast
    with course holds that(2) show ?thesis by (simp add: on_course_def child_end_def parent_holds_def)
  qed
  show ?thesis
  proof (cases "hs_parent s")
    case DropChildSock
    then show ?thesis using parent_drops by fastforce
  next
    case RecvNotifyFd
    consider "hs_to_parent s = [(CHILD_READY, True)]" | "hs_to_parent s = []" "pos (hs_child s) \<le> 5"
      | "hs_to_parent s = []" "pos (hs_child s) = 13" using smooth RecvNotifyFd by auto
    then show ?thesis
    proof cases
      case 1
      then show ?thesis using parent_receives [OF RecvNotifyFd] by fastforce
    next
      case 2
      then show ?thesis using child by simp
    next
      case 3
      then show ?thesis using parent_eof [OF RecvNotifyFd] eof RecvNotifyFd by fastforce
    qed
  next
    case WriteAck
    then show ?thesis using parent_acks parent_ack_refused by (metis fault_free.simps(7,8))
  next
    case ReadReady
    consider "hs_to_parent s = [(CHILD_BOUNDARY_READY, False)]"
      | "hs_to_parent s = []" "pos (hs_child s) \<le> 9" "pos (hs_child s) = 7 \<Longrightarrow> hs_to_child s \<noteq> []"
      | "hs_to_parent s = []" "pos (hs_child s) = 13" using smooth ReadReady by auto
    then show ?thesis
    proof cases
      case 1
      then show ?thesis using parent_ready [OF ReadReady] by fastforce
    next
      case 2
      then show ?thesis using child by simp
    next
      case 3
      then show ?thesis using parent_ready_eof [OF ReadReady] eof ReadReady by fastforce
    qed
  next
    case WrapNotify
    then show ?thesis using parent_wraps by fastforce
  next
    case (ReapFor why)
    with smooth pos_Gone [OF course] obtain w where "hs_child s = Gone w" by auto
    then show ?thesis using parent_reaps [OF ReapFor] by fastforce
  next
    case (Returned r)
    then show ?thesis using assms(4) by simp
  qed
qed

text \<open>Every step uses up some of the work left.\<close>

fun child_work :: "child_state \<Rightarrow> nat" where
  "child_work (ChildRuns cs) = length cs + 2"
| "child_work Agent = 1"
| "child_work (Gone w) = 0"

fun parent_work :: "parent_point \<Rightarrow> nat" where
  "parent_work DropChildSock = 6"
| "parent_work RecvNotifyFd = 5"
| "parent_work WriteAck = 4"
| "parent_work ReadReady = 3"
| "parent_work WrapNotify = 2"
| "parent_work (ReapFor why) = 1"
| "parent_work (Returned r) = 0"

definition work :: "handshake \<Rightarrow> nat" where
  "work s = child_work (hs_child s) + parent_work (hs_parent s)"

lemma step_works: "step args st pid l s s' \<Longrightarrow> work s' < work s"
  by (cases rule: step.cases, assumption)
    (simp_all add: work_def after_def give_up_def die_def drop_and_reap_def leave_def)

lemma run_bounded: "shakes args st pid ls s \<Longrightarrow> length ls + work s \<le> 20"
proof (induction rule: shakes.induct)
  case start
  have "length (enter st) \<le> 12" by (simp add: enter_def split: option.split)
  then show ?case by (simp add: work_def forked_def)
next
  case (more ls s l s')
  then show ?case using step_works [OF more.hyps(2)] by simp
qed

text \<open>Without any fault the child stays alive until the parent has returned it.\<close>

definition clean :: "handshake \<Rightarrow> bool" where
  "clean s \<longleftrightarrow> (\<forall>e. hs_parent s \<noteq> Returned (Inl e)) \<and>
     ((\<forall>r. hs_parent s \<noteq> Returned r) \<longrightarrow> (\<forall>w. hs_child s \<noteq> Gone w))"

lemma fault_free_parent: "fault_free l \<Longrightarrow> \<not> parent_fault l"
  by (cases l) simp_all

lemma no_refusal:
  assumes "on_course st s" and "parent_holds pid s" and "smooth s" and "hs_child s = ChildRuns (c # cs)"
    and "cs_prog st = build_filter" and "\<forall>r. hs_parent s \<noteq> Returned r"
  shows "\<not> refusal args c s"
proof (cases "c = Execv")
  case True
  have "hs_p_notify s"
    using assms(2,3,4,6) True by (cases "hs_parent s") (auto simp: smooth_def parent_holds_def)
  then show ?thesis
    using real_route [OF assms(1,4,5)] assms(6) True by (simp add: refusal_def served_def listener_def)
next
  case False
  have "worn st (rank c) s" using assms(1,4) by (auto simp: on_course_def)
  moreover have "supervisor_end s" using assms(2,6) by (simp add: supervisor_end_def parent_holds_def)
  moreover have "c = RecvAck \<Longrightarrow> hs_to_child s \<in> {[], [SUPERVISOR_ACK]}"
    using assms(3,4) assms(6) by (cases "hs_parent s") (auto simp: smooth_def)
  ultimately have "\<not> must_fail c s" by (cases c) (auto simp: worn_def)
  then show ?thesis using real_route [OF assms(1,4,5)] False by (simp add: refusal_def)
qed

lemma clean_run:
  assumes "shakes args st pid ls s" and "\<forall>l \<in> set ls. fault_free l" and "cs_prog st = build_filter"
  shows "clean s"
  using assms(1,2)
proof (induction rule: shakes.induct)
  case start
  then show ?case by (simp add: clean_def forked_def)
next
  case (more ls s l s')
  then have IH: "clean s" by simp
  have ff: "fault_free l" "\<forall>l \<in> set ls. \<not> parent_fault l"
    using more.prems fault_free_parent by auto
  note course = on_course [OF more.hyps(1)] and holds = parent_holds [OF more.hyps(1)]
    and smooth = smooth [OF more.hyps(1) ff(2) assms(3)]
  from more.hyps(2) show ?case
  proof (cases rule: step_kinds)
    case (does c cs)
    then show ?thesis using IH by (simp add: clean_def after_def)
  next
    case (gives_up c cs)
    with ff(1) have "refusal args c s" by auto
    with no_refusal [OF course holds smooth gives_up(1) assms(3)] obtain r where "hs_parent s = Returned r" by blast
    with gives_up(2) IH show ?thesis by (simp add: clean_def)
  next
    case (killed cs w)
    with ff(1) show ?thesis by simp
  next
    case (ends w)
    with agent_is_served [OF more.hyps(1) assms(3)] have "hs_parent s = Returned (Inr pid)" by simp
    with ends(3) show ?thesis by (simp add: clean_def)
  next
    case parent
    have "hs_parent s \<noteq> ReapFor why" for why
    proof
      assume "hs_parent s = ReapFor why"
      with smooth pos_Gone [OF course] IH show False by (auto simp: smooth_def clean_def)
    qed
    with more.hyps(2) ff(1) IH same_childD [OF parent(1)] show ?thesis
      by (cases rule: step.cases) (auto simp: clean_def drop_and_reap_def leave_def)
  qed
qed

section \<open>Sample runs\<close>

definition sample_setup :: child_setup where
  "sample_setup = \<lparr>cs_redirect = None, cs_prog = build_filter, cs_landlock_ruleset = Some 9,
     cs_exec_path = ''/bin/sh'', cs_argv = [''sh'']\<rparr>"

abbreviation no_args :: "child_call \<Rightarrow> u64 list" where "no_args \<equiv> \<lambda>_. replicate 6 0"

definition gets :: "(label \<Rightarrow> bool) \<Rightarrow> handshake \<Rightarrow> bool" where
  "gets ok s \<longleftrightarrow> (\<exists>ls. (\<forall>l \<in> set ls. ok l) \<and> shakes no_args sample_setup 7 ls s)"

lemma gets_start: "gets ok (forked sample_setup)"
  unfolding gets_def by (rule exI [of _ "[]"]) (simp add: shakes.start)

lemma gets_more: "gets ok s \<Longrightarrow> step no_args sample_setup 7 l s s' \<Longrightarrow> ok l \<Longrightarrow> gets ok s'"
  unfolding gets_def by (elim exE conjE) (rule exI, rule conjI [OF _ shakes.more], auto)

lemma gets_child:
  assumes "gets ok s" and "hs_child s = ChildRuns (c # cs)" and "c \<noteq> Execv \<and> can_succeed c s \<or> c = Execv \<and> served s" and "ok (ChildDoes c)"
  shows "gets ok ((effect sample_setup c s)\<lparr>hs_child := after c cs\<rparr>)"
proof -
  obtain ls where "shakes no_args sample_setup 7 ls s" using assms(1) by (auto simp: gets_def)
  from real_route [OF on_course [OF this] assms(2)]
  have "route_of no_args c s = (if c = Execv then Notifies else Passes)" by (simp add: sample_setup_def)
  moreover have "can_succeed Execv s" by simp
  ultimately show ?thesis
    using gets_more [OF assms(1) child_passes [OF assms(2)] assms(4)]
      gets_more [OF assms(1) child_continued [OF assms(2)] assms(4)] assms(3) by (auto split: if_splits)
qed

text \<open>A state of a sample run: both programs, both directions, the copies of the supervisor's and the
  child's socket and of the listener, and what the child wears.\<close>

definition at :: "child_state \<Rightarrow> parent_point \<Rightarrow> (u8 \<times> bool) list \<Rightarrow> u8 list \<Rightarrow> bool list \<Rightarrow> nat \<Rightarrow> handshake" where
  "at ch pa up down fds p =
     \<lparr>hs_child = ch, hs_parent = pa, hs_to_parent = up, hs_to_child = down, hs_c_sup = fds ! 0, hs_c_sock = fds ! 1,
      hs_c_notify = fds ! 2, hs_p_sup = fds ! 3, hs_p_sock = fds ! 4, hs_p_notify = fds ! 5, hs_stdio = [],
      hs_no_new_privs = (3 < p), hs_filter = (if 4 < p then Some build_filter else None),
      hs_restricted = (if 8 < p then [9] else []), hs_reaped = False\<rparr>"

lemmas sample_defs = at_def sample_setup_def after_def close_all_def

lemma sample_sent:
  assumes "\<And>c. ok (ChildDoes c)" and "\<And>p. ok (ParentDoes p)"
  shows "gets ok (at (ChildRuns (rest sample_setup CloseNotifyFd)) RecvNotifyFd [(CHILD_READY, True)] []
    [False, True, False, True, False, False] 7)"
proof -
  have s: "forked sample_setup = at (ChildRuns (enter sample_setup)) DropChildSock [] [] [True, True, False, True, True, False] 0"
    by (simp add: forked_def sample_defs)
  have 1: "gets ok (at (ChildRuns (enter sample_setup)) RecvNotifyFd [] [] [True, True, False, True, False, False] 0)"
    using gets_more [where ok = ok, OF gets_start parent_drops] assms(2) unfolding s by (simp add: at_def)
  have 2: "gets ok (at (ChildRuns (rest sample_setup CloseSupervisorSock)) RecvNotifyFd [] []
      [False, True, False, True, False, False] 0)"
    using gets_child [OF 1 _ _ assms(1), of CloseSupervisorSock] by (simp add: enter_rest sample_defs)
  have 3: "gets ok (at (ChildRuns (rest sample_setup SetNoNewPrivs)) RecvNotifyFd [] []
      [False, True, False, True, False, False] 4)"
    using gets_child [OF 2 _ _ assms(1), of SetNoNewPrivs] by (simp add: sample_defs)
  have 4: "gets ok (at (ChildRuns (rest sample_setup InstallFilter)) RecvNotifyFd [] []
      [False, True, True, True, False, False] 5)"
    using gets_child [OF 3 _ _ assms(1), of InstallFilter] by (simp add: sample_defs)
  have 5: "gets ok (at (ChildRuns (rest sample_setup SendNotifyFd)) RecvNotifyFd [(CHILD_READY, True)] []
      [False, True, True, True, False, False] 6)"
    using gets_child [OF 4 _ _ assms(1), of SendNotifyFd] by (simp add: sample_defs supervisor_end_def)
  show ?thesis
    using gets_child [OF 5 _ _ assms(1), of CloseNotifyFd] by (simp add: sample_defs)
qed

lemma sample_agent:
  "gets fault_free (at Agent (Returned (Inr 7)) [] [] [False, False, False, False, False, True] 12)"
proof -
  have 1: "gets fault_free (at (ChildRuns (rest sample_setup CloseNotifyFd)) WriteAck [] []
      [False, True, False, True, False, True] 7)"
    using gets_more [OF sample_sent parent_receives, of fault_free] by (simp add: sample_defs)
  have 2: "gets fault_free (at (ChildRuns (rest sample_setup CloseNotifyFd)) ReadReady [] [SUPERVISOR_ACK]
      [False, True, False, True, False, True] 7)"
    using gets_more [OF 1 parent_acks] by (simp add: sample_defs child_end_def)
  have 3: "gets fault_free (at (ChildRuns (rest sample_setup RecvAck)) ReadReady [] []
      [False, True, False, True, False, True] 8)"
    using gets_child [OF 2, of RecvAck] by (simp add: sample_defs)
  have 4: "gets fault_free (at (ChildRuns (rest sample_setup (RestrictSelf 9))) ReadReady [] []
      [False, True, False, True, False, True] 9)"
    using gets_child [OF 3, of "RestrictSelf 9"] by (simp add: sample_defs confine_def)
  have 5: "gets fault_free (at (ChildRuns (rest sample_setup WriteReady)) ReadReady [(CHILD_BOUNDARY_READY, False)] []
      [False, True, False, True, False, True] 10)"
    using gets_child [OF 4, of WriteReady] by (simp add: sample_defs supervisor_end_def)
  have 6: "gets fault_free (at (ChildRuns (rest sample_setup WriteReady)) WrapNotify [] []
      [False, True, False, True, False, True] 10)"
    using gets_more [OF 5 parent_ready [where x = False]] by (simp add: sample_defs)
  have 7: "gets fault_free (at (ChildRuns (rest sample_setup WriteReady)) (Returned (Inr 7)) [] []
      [False, True, False, False, False, True] 10)"
    using gets_more [OF 6 parent_wraps] by (simp add: sample_defs leave_def)
  have 8: "gets fault_free (at (ChildRuns [Execv]) (Returned (Inr 7)) [] []
      [False, False, False, False, False, True] 11)"
    using gets_child [OF 7, of CloseRange] by (simp add: sample_defs)
  show ?thesis using gets_child [OF 8, of Execv] by (simp add: sample_defs served_def)
qed

section \<open>Properties\<close>

text \<open>
  C4. The agent runs only confined and supervised: in every interleaving, whatever fails or is killed on
  the way, once \<open>execv\<close> has succeeded the spawn has returned the child, the supervisor holds the only
  copy of the notify descriptor, no new privileges can be gained, the filter is the installed program,
  the Landlock ruleset of the setup is applied (once, and none in record-only), standard output and
  error are redirected as asked, and the agent has neither socket end nor listener.
\<close>

theorem agent_runs_confined:
  assumes "shakes args st pid ls s" and "cs_prog st = build_filter" and "hs_child s = Agent"
  shows "hs_parent s = Returned (Inr pid) \<and> hs_p_notify s \<and> hs_no_new_privs s \<and>
    hs_filter s = Some build_filter \<and>
    hs_restricted s = (case cs_landlock_ruleset st of Some f \<Rightarrow> [f] | None \<Rightarrow> []) \<and>
    hs_stdio s = (case cs_redirect st of Some f \<Rightarrow> [(f, 1), (f, 2)] | None \<Rightarrow> []) \<and>
    \<not> hs_c_sup s \<and> \<not> hs_c_sock s \<and> \<not> hs_c_notify s"
proof -
  have "hs_parent s = Returned (Inr pid)" using agent_is_served [OF assms(1,2)] assms(3) by simp
  moreover from on_course [OF assms(1)] assms(3) boundary_worn [of 12 st s]
  have "boundary st s" "\<not> hs_c_sup s" "\<not> hs_c_sock s" "\<not> hs_c_notify s" by (auto simp: on_course_def)
  moreover have "hs_p_notify s" using parent_holds [OF assms(1)] calculation(1) by (simp add: parent_holds_def)
  ultimately show ?thesis using assms(2) by (simp add: boundary_def)
qed

lemma agent_runs_confined_witness: "\<exists>s :: handshake. hs_child s = Agent \<and> hs_parent s = Returned (Inr 7) \<and> hs_restricted s = [9]"
proof -
  obtain ls where ls: "shakes no_args sample_setup 7 ls
      (at Agent (Returned (Inr 7)) [] [] [False, False, False, False, False, True] 12)"
    using sample_agent by (auto simp: gets_def)
  from agent_runs_confined [OF ls] show ?thesis
    by (intro exI [of _ "at Agent (Returned (Inr 7)) [] [] [False, False, False, False, False, True] 12"])
      (auto simp: at_def sample_setup_def)
qed

text \<open>
  C19. A spawn that succeeds returns a child whose whole boundary is in place: no new privileges, the
  filter, the ruleset and the redirections are there before \<open>Ok\<close> is returned (the ready byte is sent
  only behind them), under any filter program, and the child has not run the agent before it.
\<close>

theorem returned_child_is_ready:
  assumes "shakes args st pid ls s" and "hs_parent s = Returned (Inr p)"
  shows "p = pid \<and> hs_p_notify s \<and> \<not> hs_p_sup s \<and> hs_no_new_privs s \<and> hs_filter s = Some (cs_prog st) \<and>
    hs_restricted s = (case cs_landlock_ruleset st of Some f \<Rightarrow> [f] | None \<Rightarrow> []) \<and>
    (\<forall>c cs. hs_child s = ChildRuns (c # cs) \<longrightarrow> c \<in> {CloseRange, Execv})"
proof -
  from reported [OF assms(1)] assms(2) have b: "boundary st s" "9 < pos (hs_child s)" by (auto simp: reported_def)
  have "c \<in> {CloseRange, Execv}" if c: "hs_child s = ChildRuns (c # cs)" for c cs
  proof -
    from on_course [OF assms(1)] c have "belongs st c" by (auto simp: on_course_def)
    with b(2) c show ?thesis by (cases c) auto
  qed
  with b(1) parent_holds [OF assms(1)] assms(2) show ?thesis by (auto simp: parent_holds_def boundary_def)
qed

lemma returned_child_is_ready_witness:
  "\<exists>s :: handshake. hs_parent s = Returned (Inr 7) \<and> hs_no_new_privs s \<and> hs_filter s = Some build_filter"
proof -
  obtain ls where ls: "shakes no_args sample_setup 7 ls
      (at Agent (Returned (Inr 7)) [] [] [False, False, False, False, False, True] 12)"
    using sample_agent by (auto simp: gets_def)
  from returned_child_is_ready [OF ls, of 7] show ?thesis
    by (intro exI [of _ "at Agent (Returned (Inr 7)) [] [] [False, False, False, False, False, True] 12"])
      (auto simp: at_def sample_setup_def)
qed

text \<open>
  C20. A spawn that fails after the fork ran no agent: when an error is returned, \<open>execv\<close> has not succeeded
  and never will have by then. The child has been reaped exactly if neither \<open>NotifyFd::new\<close> nor the
  \<open>waitpid\<close> of the reaping failed (the first returns without reaping, against the comment on
  \<open>parent_handshake\<close>); it is then gone, and the error is the abort with its wait status or, for an ack
  that could not be written, the handshake error of that write.
\<close>

theorem failed_spawn_ran_no_agent:
  assumes "shakes args st pid ls s" and "cs_prog st = build_filter" and "hs_parent s = Returned (Inl e)"
  shows "hs_child s \<noteq> Agent \<and> ChildDoes Execv \<notin> set ls \<and>
    hs_reaped s = list_all (\<lambda>l. \<not> skips_reaping l) ls \<and>
    (hs_reaped s \<longrightarrow> (\<exists>w. hs_child s = Gone w \<and> (e = ChildSetupFailed (sint w) \<or>
       (\<exists>io. e = HandshakeFailed io \<and> (io = EPIPE \<or> ParentFault WriteAck io \<in> set ls)))))"
  using agent_is_served [OF assms(1,2)] reaped_exactly [OF assms(1)] assms(3) by (auto simp: reaped_exactly_def)

lemma skips_reaping_fault: "skips_reaping l \<Longrightarrow> parent_fault l"
  by (cases l rule: skips_reaping.cases) simp_all

lemma sample_killed:
  "gets (\<lambda>l. \<not> parent_fault l) ((at (Gone 9) (Returned (Inl (ChildSetupFailed 9))) [] []
     [False, False, False, False, False, False] 0)\<lparr>hs_reaped := True\<rparr>)"
proof -
  let ?ok = "\<lambda>l. \<not> parent_fault l"
  have 1: "gets ?ok (at (ChildRuns (enter sample_setup)) RecvNotifyFd [] [] [True, True, False, True, False, False] 0)"
    using gets_more [where ok = ?ok, OF gets_start parent_drops] by (simp add: forked_def at_def)
  have 2: "gets ?ok (at (Gone 9) RecvNotifyFd [] [] [False, False, False, True, False, False] 0)"
    using gets_more [OF 1 child_killed [where w = 9]] by (simp add: sample_defs)
  have 3: "gets ?ok (at (Gone 9) (ReapFor SetupAborted) [] [] [False, False, False, True, False, False] 0)"
    using gets_more [OF 2 parent_eof] by (simp add: sample_defs child_end_def drop_and_reap_def)
  show ?thesis using gets_more [OF 3 parent_reaps] by (simp add: sample_defs leave_def)
qed

lemma failed_spawn_ran_no_agent_witness:
  "\<exists>s :: handshake. hs_parent s = Returned (Inl (ChildSetupFailed 9)) \<and> hs_child s \<noteq> Agent \<and> hs_reaped s"
proof -
  obtain ls where ls: "\<forall>l \<in> set ls. \<not> parent_fault l" "shakes no_args sample_setup 7 ls
      ((at (Gone 9) (Returned (Inl (ChildSetupFailed 9))) [] []
         [False, False, False, False, False, False] 0)\<lparr>hs_reaped := True\<rparr>)"
    using sample_killed by (auto simp: gets_def)
  from ls(1) have "list_all (\<lambda>l. \<not> skips_reaping l) ls" using skips_reaping_fault by (auto simp: list_all_iff)
  with failed_spawn_ran_no_agent [OF ls(2), of "ChildSetupFailed 9"] show ?thesis
    by (intro exI [of _ "(at (Gone 9) (Returned (Inl (ChildSetupFailed 9))) [] []
         [False, False, False, False, False, False] 0)\<lparr>hs_reaped := True\<rparr>"]) (auto simp: at_def sample_setup_def)
qed

text \<open>
  C18. The handshake does not deadlock: a run of the two programs has at most twenty steps, and as long as
  the parent has not returned and none of its own calls has failed, one of the two can move without
  any fault, whatever failed in the child or killed it. With no fault at all the spawn never returns an
  error, so it returns the child.
\<close>

theorem handshake_never_deadlocks:
  assumes "shakes args st pid ls s" and "cs_prog st = build_filter"
  shows "length ls \<le> 20 \<and>
    ((\<forall>l \<in> set ls. \<not> parent_fault l) \<longrightarrow> (\<forall>r. hs_parent s \<noteq> Returned r) \<longrightarrow>
       (\<exists>l s'. step args st pid l s s' \<and> fault_free l)) \<and>
    ((\<forall>l \<in> set ls. fault_free l) \<longrightarrow> (\<forall>e. hs_parent s \<noteq> Returned (Inl e)))"
  using run_bounded [OF assms(1)] progress [OF assms(1) _ assms(2)] clean_run [OF assms(1) _ assms(2)]
  by (auto simp: clean_def)

lemma handshake_never_deadlocks_witness:
  "\<exists>ls s l s'. hs_parent s = RecvNotifyFd \<and> hs_child s = ChildRuns (rest sample_setup CloseNotifyFd) \<and> shakes no_args sample_setup 7 ls s \<and>
     length ls \<le> 20 \<and> step no_args sample_setup 7 l s s' \<and> fault_free l"
proof -
  let ?s = "at (ChildRuns (rest sample_setup CloseNotifyFd)) RecvNotifyFd [(CHILD_READY, True)] []
    [False, True, False, True, False, False] 7"
  obtain ls where ls: "\<forall>l \<in> set ls. fault_free l" "shakes no_args sample_setup 7 ls ?s"
    using sample_sent [of fault_free] by (auto simp: gets_def)
  from ls(1) fault_free_parent have "\<forall>l \<in> set ls. \<not> parent_fault l" by blast
  moreover have at: "hs_parent ?s = RecvNotifyFd" "hs_child ?s = ChildRuns (rest sample_setup CloseNotifyFd)"
    by (simp_all add: at_def)
  ultimately obtain l s' where "length ls \<le> 20" "step no_args sample_setup 7 l ?s s'" "fault_free l"
    using handshake_never_deadlocks [OF ls(2)] by (auto simp: sample_setup_def)
  with at ls(2) show ?thesis by blast
qed

text \<open>
  Every call the child makes between the filter and the agent, and the exit of a failed setup, passes
  the filter; the one call the filter hands to the supervisor is the \<open>execve\<close> of the agent.
\<close>

theorem setup_calls_pass_filter:
  "run_filter build_filter (call_nr c) AUDIT_ARCH_X86_64 as =
     Inr (if c = Execv then SECCOMP_RET_USER_NOTIF else SECCOMP_RET_ALLOW) \<and>
   run_filter build_filter 231 AUDIT_ARCH_X86_64 as = Inr SECCOMP_RET_ALLOW"
  by (rule conjI [OF call_route])
    (simp add: run_real_filter routed_def MEDIATED_def DENIED_RECORDED_def abi_defs)

text \<open>
  A failure of one of the parent's own calls can leave it waiting forever: when the message with the
  notify descriptor arrives without it (no free descriptor slot truncates the control data), the parent
  goes to reap the child while it still holds the supervisor's socket end, and the child waits on that
  socket for the ack; without a signal or a failing call from outside, neither side can ever move.
\<close>

theorem reap_can_wait_forever:
  "\<exists>ls s. shakes (\<lambda>_. replicate 6 0) sample_setup 7 (ls @ [ParentFault RecvNotifyFd None]) s \<and>
     (\<forall>l \<in> set ls. fault_free l) \<and> hs_parent s = ReapFor SetupAborted \<and>
     (\<forall>l s'. step (\<lambda>_. replicate 6 0) sample_setup 7 l s s' \<longrightarrow> \<not> fault_free l)"
proof -
  let ?s = "at (ChildRuns (rest sample_setup CloseNotifyFd)) RecvNotifyFd [(CHILD_READY, True)] []
    [False, True, False, True, False, False] 7"
  let ?t = "at (ChildRuns (rest sample_setup CloseNotifyFd)) (ReapFor SetupAborted) [] []
    [False, True, False, True, False, False] 7"
  obtain ls where ls: "\<forall>l \<in> set ls. fault_free l" "shakes no_args sample_setup 7 ls ?s"
    using sample_sent [of fault_free] by (auto simp: gets_def)
  have "step no_args sample_setup 7 (ParentFault RecvNotifyFd None) ?s ?t"
    using parent_truncated [of ?s "(CHILD_READY, True)" "[]"] by (simp add: at_def drop_and_reap_def)
  with ls(2) have run: "shakes no_args sample_setup 7 (ls @ [ParentFault RecvNotifyFd None]) ?t" by (rule more)
  have child: "hs_child ?t = ChildRuns (RecvAck # rest sample_setup RecvAck)" by (simp add: at_def)
  have route: "route_of no_args RecvAck ?t = Passes"
    using real_route [OF on_course [OF run] child] by (simp add: sample_setup_def)
  have "\<not> fault_free l" if "step no_args sample_setup 7 l ?t s'" for l s'
    using that by (cases rule: step.cases) (use child route in \<open>simp_all add: at_def supervisor_end_def\<close>)
  with run ls(1) show ?thesis by (intro exI [of _ ls] exI [of _ ?t]) (auto simp: at_def)
qed

end
