(* ===== verification/Json_Value.thy ===== *)
theory Json_Value imports Prelude begin

text \<open>
  The public enum \<open>serde_json::Value\<close> and the accessors the sources call on it. A number is kept as
  the integer it denotes, if it denotes one. The parser and the printer are parameters where they
  are used.
\<close>

datatype json =
    JNull
  | JBool bool
  | JNumber "int option"
  | JString string
  | JArray "json list"
  | JObject "(string \<times> json) list"

fun get :: "json \<Rightarrow> string \<Rightarrow> json option" where
  "get (JObject fields) key = map_of fields key"
| "get _ key = None"

fun as_str :: "json \<Rightarrow> string option" where
  "as_str (JString s) = Some s"
| "as_str _ = None"

fun as_array :: "json \<Rightarrow> json list option" where
  "as_array (JArray vs) = Some vs"
| "as_array _ = None"

fun is_object :: "json \<Rightarrow> bool" where
  "is_object (JObject fields) = True"
| "is_object _ = False"

fun is_number :: "json \<Rightarrow> bool" where
  "is_number (JNumber n) = True"
| "is_number _ = False"

definition in_i64 :: "int \<Rightarrow> bool" where
  "in_i64 i \<longleftrightarrow> - (2 ^ 63) \<le> i \<and> i < 2 ^ 63"

fun as_i64 :: "json \<Rightarrow> int option" where
  "as_i64 (JNumber (Some i)) = (if in_i64 i then Some i else None)"
| "as_i64 _ = None"

text \<open>\<open>value.get(f).and_then(Value::as_str)\<close> and its companions.\<close>

definition get_str :: "json \<Rightarrow> string \<Rightarrow> string option" where
  "get_str v f = Option.bind (get v f) as_str"

definition get_i64 :: "json \<Rightarrow> string \<Rightarrow> int option" where
  "get_i64 v f = Option.bind (get v f) as_i64"

definition get_array :: "json \<Rightarrow> string \<Rightarrow> json list option" where
  "get_array v f = Option.bind (get v f) as_array"

definition get_object :: "json \<Rightarrow> string \<Rightarrow> json option" where
  "get_object v f = Option.bind (get v f) (\<lambda>fields. if is_object fields then Some fields else None)"

text \<open>\<open>items.iter().map(..).collect()\<close> into a \<open>Result\<close>.\<close>

fun collect_strs :: "'e \<Rightarrow> json list \<Rightarrow> 'e + string list" where
  "collect_strs e [] = Inr []"
| "collect_strs e (v # vs) =
     and_then (ok_or e (as_str v)) (\<lambda>s. and_then (collect_strs e vs) (\<lambda>ss. Inr (s # ss)))"

lemma collect_strs_Inr [result_simps]:
  "collect_strs e vs = Inr ss \<longleftrightarrow> map as_str vs = map Some ss"
  by (induction vs arbitrary: ss) (auto simp: result_simps Cons_eq_map_conv)

end
