(* ===== verification/Rust_BTree.thy ===== *)
theory Rust_BTree imports Prelude "HOL-Library.List_Lexorder" "HOL-Library.Char_ord" "HOL-Library.Product_Lexorder" begin

text \<open>
  Rust's \<open>BTreeMap\<close> as the list of its entries, strictly sorted by key, and \<open>BTreeSet\<close> as a sorted
  list without duplicates (\<open>insert\<close> is \<open>insort_insert\<close>). Strings compare by their bytes, pairs
  lexicographically, as in Rust.
\<close>

type_synonym ('k, 'v) btree_map = "('k \<times> 'v) list"

definition wf_map :: "('k::linorder, 'v) btree_map \<Rightarrow> bool" where
  "wf_map m = sorted_wrt (<) (map fst m)"

text \<open>\<open>*m.entry(k).or_insert(d)\<close> updated by \<open>f\<close>.\<close>

fun entry_or :: "'k::linorder \<Rightarrow> 'v \<Rightarrow> ('v \<Rightarrow> 'v) \<Rightarrow> ('k, 'v) btree_map \<Rightarrow> ('k, 'v) btree_map" where
  "entry_or k d f [] = [(k, f d)]"
| "entry_or k d f ((k', v) # m) =
     (if k < k' then (k, f d) # (k', v) # m
      else if k = k' then (k', f v) # m
      else (k', v) # entry_or k d f m)"

lemma keys_entry_or: "fst ` set (entry_or k d f m) = insert k (fst ` set m)"
proof (induction m)
  case (Cons e m)
  obtain k' v where "e = (k', v)" by (cases e)
  with Cons show ?case by (cases "k < k'"; cases "k = k'") auto
qed simp

lemma wf_entry_or [intro]: "wf_map m \<Longrightarrow> wf_map (entry_or k d f m)"
proof (induction m)
  case (Cons e m)
  obtain k' v where e: "e = (k', v)" by (cases e)
  have "\<forall>x \<in> set m. k' < fst x" and "wf_map (entry_or k d f m)"
    using Cons e by (auto simp: wf_map_def)
  moreover have "\<forall>x \<in> set (entry_or k d f m). fst x = k \<or> fst x \<in> fst ` set m"
    using keys_entry_or [of k d f m] by (metis image_eqI insertE)
  ultimately show ?case
    using Cons.prems by (fastforce simp: e wf_map_def)
qed (simp add: wf_map_def)

lemma map_of_above: "\<forall>x \<in> set m. (k :: 'k::linorder) < fst x \<Longrightarrow> map_of m k = None"
  by (induction m) auto

lemma map_of_entry_or:
  "wf_map m \<Longrightarrow> map_of (entry_or k d f m) =
     (map_of m)(k \<mapsto> f (case map_of m k of None \<Rightarrow> d | Some v \<Rightarrow> v))"
proof (induction m)
  case (Cons e m)
  obtain k' v where e: "e = (k', v)" by (cases e)
  have m: "wf_map m" and above: "\<forall>x \<in> set m. k' < fst x" using Cons.prems by (auto simp: e wf_map_def)
  show ?case
  proof (cases "k < k'")
    case True
    then have "map_of m k = None" using above by (intro map_of_above) auto
    with True show ?thesis by (auto simp: e fun_eq_iff)
  next
    case False
    then show ?thesis using Cons.IH [OF m] by (auto simp: e fun_eq_iff)
  qed
qed auto

lemma map_of_wf: "wf_map m \<Longrightarrow> (k, v) \<in> set m \<longleftrightarrow> map_of m k = Some v"
  by (simp add: wf_map_def strict_sorted_iff)

section \<open>Tallies\<close>

text \<open>A map from keys to the set of values seen with the key.\<close>

definition tallies :: "('k::linorder, 'v::linorder list) btree_map \<Rightarrow> ('k \<times> 'v) set \<Rightarrow> bool" where
  "tallies m S \<longleftrightarrow> wf_map m \<and> (\<forall>k. k \<in> dom (map_of m) \<longleftrightarrow> k \<in> fst ` S) \<and>
     (\<forall>k vs. map_of m k = Some vs \<longrightarrow> sorted vs \<and> distinct vs \<and> set vs = {v. (k, v) \<in> S})"

definition tally :: "'k::linorder \<Rightarrow> 'v::linorder \<Rightarrow> ('k, 'v list) btree_map \<Rightarrow> ('k, 'v list) btree_map" where
  "tally k v m = entry_or k [] (insort_insert v) m"

lemma tallies_Nil [simp]: "tallies [] S \<longleftrightarrow> S = {}"
  by (auto simp: tallies_def wf_map_def)

lemma tallies_tally:
  assumes "tallies m S" shows "tallies (tally k v m) (insert (k, v) S)"
proof -
  have m: "wf_map m" using assms by (simp add: tallies_def)
  let ?old = "case map_of m k of None \<Rightarrow> [] | Some vs \<Rightarrow> vs"
  have "sorted ?old \<and> distinct ?old \<and> set ?old = {v. (k, v) \<in> S}"
    using assms by (auto simp: tallies_def image_iff split: option.split) (metis domIff fst_conv)+
  then have "sorted (insort_insert v ?old) \<and> distinct (insort_insert v ?old) \<and>
      set (insort_insert v ?old) = {w. (k, w) \<in> insert (k, v) S}"
    by (auto simp: sorted_insort_insert distinct_insort_insert set_insort_insert)
  then show ?thesis
    using assms by (auto simp: tallies_def tally_def map_of_entry_or [OF m] image_iff)
qed

end
