(* ===== verification/Report.thy ===== *)
theory Report imports Json_Value Rust_BTree Rust_Text Recorder begin

text \<open>
  \<open>src/src/recorder/report.rs\<close>: the session report, rendered from the text of a trace. The JSON
  parser (\<open>serde_json::from_str\<close>) is a parameter. The accumulators are the state of the line loop;
  the maps and sets are those of \<open>Rust_BTree\<close>, so the rendered order is theirs.
\<close>

section \<open>Data\<close>

datatype report_error = Malformed nat string | InvalidEvent nat string | MissingRunStart

datatype exit_outcome = ExitCode int | ExitSignal int

record file_activity =
  fa_access :: "string list"
  fa_decisions :: "string list"

record report_state =
  rs_mode :: "string option"
  rs_argv :: "string list option"
  rs_workspace :: "string option"
  rs_exit_outcome :: "exit_outcome option"
  rs_have_run_end :: bool
  rs_files :: "(string, file_activity) btree_map"
  rs_processes :: "(string, string list) btree_map"
  rs_process_creations :: "(string, string list) btree_map"
  rs_cross_process :: "(string, string list) btree_map"
  rs_network :: "(string \<times> int, string list) btree_map"
  rs_denied_raw :: "(string \<times> string) list"

definition empty_report :: report_state where
  "empty_report = \<lparr>rs_mode = None, rs_argv = None, rs_workspace = None, rs_exit_outcome = None,
     rs_have_run_end = False, rs_files = [], rs_processes = [], rs_process_creations = [],
     rs_cross_process = [], rs_network = [], rs_denied_raw = []\<rparr>"

section \<open>Fields\<close>

definition display_decision :: "string \<Rightarrow> string" where
  "display_decision raw =
     (if raw = ''allow'' then ''allowed'' else if raw = ''deny'' then ''denied'' else raw)"

definition require_str :: "json \<Rightarrow> string \<Rightarrow> nat \<Rightarrow> report_error + string" where
  "require_str v field line = ok_or (InvalidEvent line field) (get_str v field)"

definition require_number :: "json \<Rightarrow> string \<Rightarrow> nat \<Rightarrow> report_error + unit" where
  "require_number v field line =
     (case get v field of
        Some n \<Rightarrow> if is_number n then Inr () else Inl (InvalidEvent line field)
      | None \<Rightarrow> Inl (InvalidEvent line field))"

definition optional_number :: "json \<Rightarrow> string \<Rightarrow> nat \<Rightarrow> report_error + int option" where
  "optional_number v field line =
     (case get v field of
        None \<Rightarrow> Inr None
      | Some JNull \<Rightarrow> Inr None
      | Some n \<Rightarrow> and_then (ok_or (InvalidEvent line field) (as_i64 n)) (\<lambda>i. Inr (Some i)))"

definition parse_argv :: "json \<Rightarrow> nat \<Rightarrow> report_error + string list" where
  "parse_argv v line =
     and_then (ok_or (InvalidEvent line ''argv'') (get_array v ''argv''))
       (collect_strs (InvalidEvent line ''argv''))"

definition parse_access :: "json \<Rightarrow> nat \<Rightarrow> report_error + string list" where
  "parse_access obj line =
     (case get obj ''access'' of
        None \<Rightarrow> Inr []
      | Some (JArray items) \<Rightarrow> collect_strs (InvalidEvent line ''access'') items
      | Some _ \<Rightarrow> Inl (InvalidEvent line ''access''))"

section \<open>The line loop\<close>

definition report_run_start :: "nat \<Rightarrow> json \<Rightarrow> report_state \<Rightarrow> report_error + report_state" where
  "report_run_start line v st =
     and_then (require_str v ''mode'' line) (\<lambda>m.
       if m \<noteq> ''record_only'' \<and> m \<noteq> ''enforce'' then Inl (InvalidEvent line ''mode'')
       else
         and_then (parse_argv v line) (\<lambda>argv.
         and_then (require_str v ''workspace'' line) (\<lambda>workspace.
           if rs_mode st = None
           then Inr (st\<lparr>rs_mode := Some m, rs_argv := Some argv, rs_workspace := Some workspace\<rparr>)
           else Inr st)))"

definition note_file :: "string \<Rightarrow> string list \<Rightarrow> string \<Rightarrow> report_state \<Rightarrow> report_state" where
  "note_file p access display st =
     st\<lparr>rs_files := entry_or p \<lparr>fa_access = [], fa_decisions = []\<rparr>
        (\<lambda>a. \<lparr>fa_access = fold insort_insert access (fa_access a),
             fa_decisions = insort_insert display (fa_decisions a)\<rparr>) (rs_files st)\<rparr>"

definition report_fact ::
  "nat \<Rightarrow> string \<Rightarrow> string \<Rightarrow> string \<Rightarrow> json \<Rightarrow> string \<Rightarrow> report_state \<Rightarrow> report_error + report_state" where
  "report_fact line syscall decision matched_rule obj family st =
     (let display = display_decision decision;
          field = (\<lambda>f. ok_or (InvalidEvent line f) (get_str obj f))
      in if family = ''fs'' then
           and_then (field ''path'') (\<lambda>p.
           and_then (parse_access obj line) (\<lambda>access. Inr (note_file p access display st)))
         else if family = ''exec'' then
           and_then (field ''binary'') (\<lambda>b.
             Inr (st\<lparr>rs_processes := tally b display (rs_processes st)\<rparr>))
         else if family = ''net'' then
           and_then (field ''host'') (\<lambda>host.
           and_then (ok_or (InvalidEvent line ''port'') (get_i64 obj ''port'')) (\<lambda>port.
             Inr (st\<lparr>rs_network := tally (host, port) display (rs_network st)\<rparr>)))
         else if family = ''process'' then
           Inr (st\<lparr>rs_process_creations := tally syscall display (rs_process_creations st)\<rparr>)
         else if family = ''cross_process'' then
           (let target = (case get_i64 obj ''target_pid'' of None \<Rightarrow> ''unknown'' | Some pid \<Rightarrow> show_int pid)
            in Inr (st\<lparr>rs_cross_process :=
                 tally (syscall @ '' target='' @ target) display (rs_cross_process st)\<rparr>))
         else if family = ''raw'' then
           (if decision = ''deny''
            then Inr (st\<lparr>rs_denied_raw := insort_insert (syscall, matched_rule) (rs_denied_raw st)\<rparr>)
            else Inr st)
         else Inl (InvalidEvent line ''family''))"

definition report_syscall :: "nat \<Rightarrow> json \<Rightarrow> report_state \<Rightarrow> report_error + report_state" where
  "report_syscall line v st =
     and_then (require_str v ''syscall'' line) (\<lambda>syscall.
     and_then (require_str v ''decision'' line) (\<lambda>decision.
     and_then (require_str v ''matched_rule'' line) (\<lambda>matched_rule.
     and_then (ok_or (InvalidEvent line ''fact'') (get_object v ''fact'')) (\<lambda>obj.
     and_then (ok_or (InvalidEvent line ''family'') (get_str obj ''family'')) (\<lambda>family.
       report_fact line syscall decision matched_rule obj family st)))))"

definition report_run_end :: "nat \<Rightarrow> json \<Rightarrow> report_state \<Rightarrow> report_error + report_state" where
  "report_run_end line v st =
     and_then (optional_number v ''exit_code'' line) (\<lambda>code.
     and_then (optional_number v ''signal'' line) (\<lambda>signal.
     and_then (case (code, signal) of
                 (Some n, _) \<Rightarrow> Inr (ExitCode n)
               | (None, Some s) \<Rightarrow> Inr (ExitSignal s)
               | (None, None) \<Rightarrow> Inl (InvalidEvent line ''exit_code'')) (\<lambda>outcome.
       if \<not> rs_have_run_end st then Inr (st\<lparr>rs_exit_outcome := Some outcome, rs_have_run_end := True\<rparr>)
       else Inr st)))"

definition report_event :: "nat \<Rightarrow> json \<Rightarrow> report_state \<Rightarrow> report_error + report_state" where
  "report_event line v st =
     and_then (require_number v ''seq'' line) (\<lambda>_.
     and_then (require_number v ''ts'' line) (\<lambda>_.
     and_then (require_str v ''type'' line) (\<lambda>event_type.
       if event_type = ''run_start'' then report_run_start line v st
       else if event_type = ''syscall'' then report_syscall line v st
       else if event_type = ''run_end'' then report_run_end line v st
       else Inr st)))"

fun report_lines ::
  "(string \<Rightarrow> string + json) \<Rightarrow> nat \<Rightarrow> string list \<Rightarrow> report_state \<Rightarrow> report_error + report_state" where
  "report_lines parse idx [] st = Inr st"
| "report_lines parse idx (raw_line # rest) st =
     (if trim raw_line = [] then report_lines parse (idx + 1) rest st
      else
        and_then (map_err (Malformed (idx + 1)) (parse raw_line)) (\<lambda>v.
        and_then (report_event (idx + 1) v st) (\<lambda>st'. report_lines parse (idx + 1) rest st')))"

section \<open>The text\<close>

definition nl :: string where "nl = [CHR 0x0A]"

definition UNKNOWN_EXIT :: string where
  "UNKNOWN_EXIT = ''unknown (no run_end was recorded; the supervisor failed before stamping one)''"

definition mode_line :: "string \<Rightarrow> string" where
  "mode_line m =
     (if m = ''enforce'' then ''enforce''
      else ''record-only (no policy was enforced; the denials listed below are the un-mediated I/O paths (SR-4), foreign-ABI entries (SR-3), and undecodable facts)'')"

definition exit_line :: "bool \<Rightarrow> exit_outcome option \<Rightarrow> string" where
  "exit_line have_run_end outcome =
     (if \<not> have_run_end then UNKNOWN_EXIT
      else case outcome of
             Some (ExitCode n) \<Rightarrow> ''code '' @ show_int n
           | Some (ExitSignal s) \<Rightarrow> ''killed by signal '' @ show_int s
           | None \<Rightarrow> UNKNOWN_EXIT)"

text \<open>One section: its entries, or the line that says there are none.\<close>

definition section_lines :: "string \<Rightarrow> ('a \<Rightarrow> string) \<Rightarrow> 'a list \<Rightarrow> string" where
  "section_lines none show entries =
     (if entries = [] then none @ nl else concat (map (\<lambda>e. show e @ nl) entries))"

definition tally_line :: "('k \<Rightarrow> string) \<Rightarrow> 'k \<times> string list \<Rightarrow> string" where
  "tally_line show_key = (\<lambda>(k, decisions). ''  '' @ show_key k @ ''  '' @ join_with '', '' decisions)"

definition file_line :: "string \<times> file_activity \<Rightarrow> string" where
  "file_line = (\<lambda>(p, a). ''  '' @ p @ ''  ['' @ join_with '', '' (fa_access a) @ '']  '' @
                        join_with '', '' (fa_decisions a))"

definition format_report :: "string \<Rightarrow> string list \<Rightarrow> string \<Rightarrow> report_state \<Rightarrow> string" where
  "format_report m argv workspace st =
     ''leash session report'' @ nl @
     ''mode: '' @ mode_line m @ nl @
     ''command: '' @ join_with '' '' argv @ nl @
     ''workspace: '' @ workspace @ nl @
     ''exit: '' @ exit_line (rs_have_run_end st) (rs_exit_outcome st) @ nl @ nl @
     ''files touched ('' @ show_nat (length (rs_files st)) @ ''):'' @ nl @
     section_lines ''  none recorded'' file_line (rs_files st) @ nl @
     ''processes spawned (from observed execve and execveat events):'' @ nl @
     section_lines ''  none recorded'' (tally_line id) (rs_processes st) @ nl @
     ''process creation:'' @ nl @
     section_lines ''  none recorded'' (tally_line id) (rs_process_creations st) @ nl @
     ''cross-process control:'' @ nl @
     section_lines ''  none recorded'' (tally_line id) (rs_cross_process st) @ nl @
     ''network connections:'' @ nl @
     section_lines ''  none recorded'' (tally_line (\<lambda>(host, port). host @ '':'' @ show_int port)) (rs_network st) @ nl @
     ''denied without a typed fact:'' @ nl @
     section_lines ''  none'' (\<lambda>(syscall, rule). ''  '' @ syscall @ ''  ('' @ rule @ '')'') (rs_denied_raw st)"

definition render_report :: "(string \<Rightarrow> string + json) \<Rightarrow> string \<Rightarrow> report_error + string" where
  "render_report parse trace =
     and_then (report_lines parse 0 (lines trace) empty_report) (\<lambda>st.
     and_then (ok_or MissingRunStart (rs_mode st)) (\<lambda>m.
       Inr (format_report m (case rs_argv st of Some a \<Rightarrow> a | None \<Rightarrow> [])
              (case rs_workspace st of Some w \<Rightarrow> w | None \<Rightarrow> []) st)))"

end
