(* ===== verification/Trace_Json.thy ===== *)
theory Trace_Json imports Json_Value Recorder begin

text \<open>
  The JSON value each event of \<open>src/src/recorder.rs\<close> serializes to, as its serde attributes say: the
  \<open>type\<close> and \<open>family\<close> tags inside the object, the body flattened into the envelope, variant names in
  snake case, absent options skipped where the attribute says so and \<open>null\<close> elsewhere. Turning the
  value into text, and text back into a value, are parameters of the theorems.
\<close>

definition jnat :: "nat \<Rightarrow> json" where "jnat n = JNumber (Some (int n))"
definition jword :: "'a::len word \<Rightarrow> json" where "jword w = jnat (unat w)"

fun mode_value :: "mode \<Rightarrow> json" where
  "mode_value RecordOnly = JString ''record_only''"
| "mode_value Enforce = JString ''enforce''"

fun attendance_value :: "attendance \<Rightarrow> json" where
  "attendance_value Attended = JString ''attended''"
| "attendance_value Unattended = JString ''unattended''"

fun snapshot_value :: "snapshot_mechanism \<Rightarrow> json" where
  "snapshot_value Overlay = JString ''overlay''"
| "snapshot_value Copy = JString ''copy''"

fun access_value :: "fs_access \<Rightarrow> json" where
  "access_value AccRead = JString ''read''"
| "access_value AccWrite = JString ''write''"
| "access_value AccCreate = JString ''create''"
| "access_value AccDelete = JString ''delete''"

fun decision_value :: "decision \<Rightarrow> json" where
  "decision_value Allow = JString ''allow''"
| "decision_value Deny = JString ''deny''"
| "decision_value Ask = JString ''ask''"

fun resolution_value :: "ask_resolution \<Rightarrow> json" where
  "resolution_value Approved = JString ''approved''"
| "resolution_value Denied = JString ''denied''"
| "resolution_value TimedOut = JString ''timed_out''"
| "resolution_value NoOperator = JString ''unattended''"

fun operand_value :: "fs_operand \<Rightarrow> json" where
  "operand_value PathOperand = JString ''path''"
| "operand_value DestOperand = JString ''dest''"

text \<open>An option: \<open>null\<close> when absent, or no field at all.\<close>

definition nullable :: "('a \<Rightarrow> json) \<Rightarrow> 'a option \<Rightarrow> json" where
  "nullable f x = (case x of None \<Rightarrow> JNull | Some y \<Rightarrow> f y)"

definition skippable :: "string \<Rightarrow> ('a \<Rightarrow> json) \<Rightarrow> 'a option \<Rightarrow> (string \<times> json) list" where
  "skippable name f x = (case x of None \<Rightarrow> [] | Some y \<Rightarrow> [(name, f y)])"

definition meta_fields :: "run_meta \<Rightarrow> (string \<times> json) list" where
  "meta_fields m =
     [(''schema_version'', jnat (rm_schema_version m)),
      (''mode'', mode_value (rm_mode m)),
      (''attendance'', attendance_value (rm_attendance m)),
      (''policy_digest'', nullable JString (rm_policy_digest m)),
      (''kernel'', JString (rm_kernel m)),
      (''landlock_abi'', nullable jnat (rm_landlock_abi m)),
      (''landlock_residuals'', nullable (\<lambda>rs. JArray (map JString rs)) (rm_landlock_residuals m)),
      (''snapshot_mechanism'', snapshot_value (rm_snapshot_mechanism m)),
      (''snapshot_reason'', JString (rm_snapshot_reason m)),
      (''argv'', JArray (map JString (rm_argv m))),
      (''workspace'', JString (rm_workspace m)),
      (''start_ts'', jnat (rm_start_ts m))]"

fun fact_value :: "fact \<Rightarrow> json" where
  "fact_value (FsFact path access dest) =
     JObject ([(''family'', JString ''fs''), (''path'', JString path),
               (''access'', JArray (map access_value access))] @ skippable ''dest'' JString dest)"
| "fact_value (NetFact host port) =
     JObject [(''family'', JString ''net''), (''host'', JString host), (''port'', jword port)]"
| "fact_value (ProcessFact flags) =
     JObject ((''family'', JString ''process'') # skippable ''flags'' jword flags)"
| "fact_value (CrossProcessFact target) =
     JObject [(''family'', JString ''cross_process''), (''target_pid'', jword target)]"
| "fact_value (ExecFact binary) = JObject [(''family'', JString ''exec''), (''binary'', JString binary)]"
| "fact_value RawFact = JObject [(''family'', JString ''raw'')]"

definition operand_decision_value :: "fs_operand_decision \<Rightarrow> json" where
  "operand_decision_value d =
     JObject ([(''operand'', operand_value (od_operand d)), (''access'', access_value (od_access d)),
               (''decision'', decision_value (od_decision d))] @
              skippable ''ask_resolution'' resolution_value (od_ask_resolution d) @
              [(''matched_rule'', JString (od_matched_rule d))])"

definition syscall_fields :: "syscall_event \<Rightarrow> (string \<times> json) list" where
  "syscall_fields e =
     [(''pid'', jword (ev_pid e)), (''syscall'', JString (ev_syscall e)), (''fact'', fact_value (ev_fact e)),
      (''decision'', decision_value (ev_decision e))] @
     skippable ''ask_resolution'' resolution_value (ev_ask_resolution e) @
     [(''matched_rule'', JString (ev_matched_rule e))] @
     skippable ''would_deny'' JBool (ev_would_deny e) @
     skippable ''operand_decisions'' (\<lambda>ds. JArray (map operand_decision_value ds)) (ev_operand_decisions e)"

fun body_fields :: "event_body \<Rightarrow> (string \<times> json) list" where
  "body_fields (RunStart m) = (''type'', JString ''run_start'') # meta_fields m"
| "body_fields (SyscallBody e) = (''type'', JString ''syscall'') # syscall_fields e"
| "body_fields (Step n) = [(''type'', JString ''step''), (''step'', jnat n)]"
| "body_fields (RunEnd exit_code signal final_step) =
     [(''type'', JString ''run_end''), (''exit_code'', nullable (JNumber \<circ> Some) exit_code),
      (''signal'', nullable (JNumber \<circ> Some) signal), (''final_step'', jnat final_step)]"

definition event_value :: "event \<Rightarrow> json" where
  "event_value e = JObject ([(''seq'', jnat (e_seq e)), (''ts'', jnat (e_ts e))] @ body_fields (e_body e))"

end
