(* ===== verification/Session.thy ===== *)
theory Session imports Preflight Landlock Notify_Loop Report Trace_Json Spawn begin

text \<open>
  \<open>src/src/supervisor/session.rs\<close> and the run directory of \<open>src/src/recorder.rs\<close>: one run from the host
  probes to the report. The state is the log of the calls made to the outside and the trace writer's
  next sequence number; the components the session calls are the models of the other theories (the
  policy loader, the hull and the ruleset, the notify loop, the trace writer, the report), and what
  lies outside the process answers through \<open>session_env\<close>.
\<close>

section \<open>The wait status\<close>

datatype exit_disposition = Exited int | Signaled int

fun shell_code :: "exit_disposition \<Rightarrow> int" where
  "shell_code (Exited n) = n"
| "shell_code (Signaled s) = 128 + s"

text \<open>The status is an \<open>i32\<close>; \<open>as i8\<close> and \<open>>>\<close> are the signed ones.\<close>

definition decode_wait_status :: "32 word \<Rightarrow> 32 word + exit_disposition" where
  "decode_wait_status status =
     (let low = status AND 0x7f
      in if low = 0 then Inr (Exited (sint (signed_drop_bit 8 status AND 0xff)))
         else if 0 < sint (signed_drop_bit 1 (ucast (low + 1) :: 8 word)) then Inr (Signaled (sint low))
         else Inl status)"

section \<open>Data\<close>

record session_spec =
  sp_argv :: "string list"
  sp_mode :: mode
  sp_attendance :: attendance
  sp_state_root :: path
  sp_workspace :: path
  sp_policy_path :: "path option"
  sp_ask_timeout :: nat

record session_outcome =
  so_run_id :: string
  so_run_path :: path
  so_exit :: exit_disposition

record run_dir =
  rd_id :: string
  rd_path :: path

record enforcement_setup =
  es_policy :: "policy option"
  es_policy_digest :: "string option"
  es_landlock_abi :: "nat option"
  es_landlock_residuals :: "string list option"
  es_ruleset :: "prepared_ruleset option"
  es_resolved_hosts :: "string \<Rightarrow> ipaddr list option"

datatype session_error =
    RunRefused string
  | PreflightFailed preflight_error
  | PolicyFailed "(io_error, string) policy_error"
  | PolicyHome
  | MissingPolicy
  | LandlockFailed landlock_error
  | SessionRecorder trace_error
  | SpawnFailed spawn_error
  | RunFailed run_error
  | SessionBroker broker_error
  | MalformedWaitStatus "32 word"
  | ReportFailed io_error
  | RenderFailed report_error

section \<open>The outside\<close>

datatype session_call =
    LandlockSetup landlock_hull "landlock_call list" "landlock_error + prepared_ruleset"
  | CreateDirAll path "io_error + unit"
  | CreateDir path "io_error + unit"
  | CreateNew path "io_error + unit"
  | WriteFile path string "io_error + unit"
  | SyncFile path "io_error + unit"
  | TraceWrite string "io_error + unit"
  | TraceFlush "io_error + unit"
  | TraceSync "io_error + unit"
  | Announce string
  | SpawnBroker prepared_ruleset path "broker_error + unit"
  | SpawnChild "string list" mode "fd option" "spawn_error + u32"
  | ServeLoop "action list" "run_error + int"
  | ReadFile path "io_error + string"
  | StopBroker
  | DropRuleset

record session_env =
  se_facts :: host_facts
  se_home :: "string option"
  se_read_policy :: "path \<Rightarrow> io_error + string"
  se_sha256 :: "string \<Rightarrow> u8 list"
  se_toml :: "string \<Rightarrow> string + raw_policy"
  se_resolve :: "string \<Rightarrow> string + ipaddr list"
  se_landlock :: landlock_kernel
  se_clock_ms :: "session_call list \<Rightarrow> nat option"
  se_random :: "string + u32"
  se_encode :: "event \<Rightarrow> string + string"
  se_encode_meta :: "run_meta \<Rightarrow> string + string"
  se_parse :: "string \<Rightarrow> string + json"
  se_file :: "session_call list \<Rightarrow> path \<Rightarrow> io_error + unit"
  se_read :: "session_call list \<Rightarrow> path \<Rightarrow> io_error + string"
  se_spawn_broker :: "session_call list \<Rightarrow> prepared_ruleset \<Rightarrow> path \<Rightarrow> broker_error + unit"
  se_spawn_child :: "session_call list \<Rightarrow> string list \<Rightarrow> mode \<Rightarrow> fd option \<Rightarrow> spawn_error + u32"
  se_kernel :: "session_call list \<Rightarrow> env"

record session_state =
  ses_log :: "session_call list"
  ses_next_seq :: nat

text \<open>Before the run: nothing called, no event numbered.\<close>

definition fresh_session :: session_state where
  "fresh_session = \<lparr>ses_log = [], ses_next_seq = 0\<rparr>"

type_synonym 'a session = "(session_state, session_error, 'a) eff"

text \<open>One call to the outside.\<close>

definition outside :: "(session_call list \<Rightarrow> 'r) \<Rightarrow> ('r \<Rightarrow> session_call) \<Rightarrow> 'r session" where
  "outside answer mk = (\<lambda>s. let r = answer (ses_log s) in (Inr r, s\<lparr>ses_log := ses_log s @ [mk r]\<rparr>))"

definition attempt ::
  "(io_error \<Rightarrow> session_error) \<Rightarrow> (session_call list \<Rightarrow> io_error + 'r) \<Rightarrow> (io_error + 'r \<Rightarrow> session_call) \<Rightarrow> 'r session"
where
  "attempt err answer mk = bindE (outside answer mk) (liftE err)"

definition log_call :: "session_call \<Rightarrow> session_state \<Rightarrow> session_state" where
  "log_call c s = s\<lparr>ses_log := ses_log s @ [c]\<rparr>"

definition announce :: "string \<Rightarrow> unit session" where
  "announce msg = (\<lambda>s. (Inr (), log_call (Announce msg) s))"

text \<open>The trace file as the sink of the trace writer: its state is the log.\<close>

definition trace_ops :: "session_env \<Rightarrow> (session_call list, io_error) sink_ops" where
  "trace_ops K = \<lparr>so_write_all = (\<lambda>l h. let r = se_file K h ''trace.jsonl'' in (r, h @ [TraceWrite l r])),
     so_flush = (\<lambda>h. let r = se_file K h ''trace.jsonl'' in (r, h @ [TraceFlush r])),
     so_sync = (\<lambda>h. let r = se_file K h ''trace.jsonl'' in (r, h @ [TraceSync r]))\<rparr>"

definition writer_of :: "session_state \<Rightarrow> session_call list trace_writer" where
  "writer_of s = \<lparr>tw_sink = ses_log s, tw_next_seq = ses_next_seq s\<rparr>"

definition of_writer :: "session_call list trace_writer \<Rightarrow> session_state" where
  "of_writer w = \<lparr>ses_log = tw_sink w, ses_next_seq = tw_next_seq w\<rparr>"

definition append_event :: "session_env \<Rightarrow> nat \<Rightarrow> event_body \<Rightarrow> unit session" where
  "append_event K ts body = (\<lambda>s.
     case trace_append (se_encode K) (trace_ops K) ts body (writer_of s) of
       (r, w) \<Rightarrow> (map_sum SessionRecorder (\<lambda>_. ()) r, of_writer w))"

definition sync_trace :: "session_env \<Rightarrow> unit session" where
  "sync_trace K = (\<lambda>s.
     case trace_sync (trace_ops K) (writer_of s) of (r, w) \<Rightarrow> (map_sum SessionRecorder id r, of_writer w))"

section \<open>Clock and run directory\<close>

definition now_ms :: "session_env \<Rightarrow> nat session" where
  "now_ms K = (\<lambda>s. liftE SessionRecorder
     (ok_or ClockBeforeEpoch (map_option (\<lambda>ms. min ms (2 ^ 64 - 1)) (se_clock_ms K (ses_log s)))) s)"

definition setup_err :: "io_error \<Rightarrow> session_error" where
  "setup_err e = SessionRecorder (Setup e)"

definition create_run_dir :: "session_env \<Rightarrow> path \<Rightarrow> run_meta \<Rightarrow> run_dir session" where
  "create_run_dir K state_root meta = (\<lambda>s.
     (bindE (liftE SessionRecorder
        (generate_run_id (map_option (\<lambda>ms. ms div 1000) (se_clock_ms K (ses_log s))) (se_random K))) (\<lambda>rid.
      let runs = path_join state_root ''runs''; p = path_join runs rid; meta_path = path_join p ''meta.json''
      in bindE (attempt setup_err (\<lambda>h. se_file K h runs) (CreateDirAll runs)) (\<lambda>_.
         bindE (attempt setup_err (\<lambda>h. se_file K h p) (CreateDir p)) (\<lambda>_.
         bindE (attempt setup_err (\<lambda>h. se_file K h (path_join p ''snapshots''))
                  (CreateDir (path_join p ''snapshots''))) (\<lambda>_.
         bindE (liftE (SessionRecorder \<circ> Serialize) (se_encode_meta K meta)) (\<lambda>txt.
         bindE (attempt setup_err (\<lambda>h. se_file K h meta_path) (CreateNew meta_path)) (\<lambda>_.
         bindE (attempt setup_err (\<lambda>h. se_file K h meta_path) (WriteFile meta_path txt)) (\<lambda>_.
         bindE (attempt setup_err (\<lambda>h. se_file K h meta_path) (SyncFile meta_path)) (\<lambda>_.
           retE \<lparr>rd_id = rid, rd_path = p\<rparr>))))))))) s)"

text \<open>\<open>RunDir::trace_writer\<close>: the trace file is new and the first event gets number 0.\<close>

definition open_trace :: "session_env \<Rightarrow> run_dir \<Rightarrow> unit session" where
  "open_trace K d =
     (let p = path_join (rd_path d) ''trace.jsonl''
      in bindE (attempt setup_err (\<lambda>h. se_file K h p) (CreateNew p)) (\<lambda>_.
           (\<lambda>s. (Inr (), s\<lparr>ses_next_seq := 0\<rparr>))))"

section \<open>Enforcement\<close>

definition quoted :: "string \<Rightarrow> string" where
  "quoted s = [CHR 0x22] @ s @ [CHR 0x22]"

fun resolve_hosts ::
  "(string \<Rightarrow> string + ipaddr list) \<Rightarrow> net_rule list \<Rightarrow> (string \<Rightarrow> ipaddr list option) \<Rightarrow>
   session_error + (string \<Rightarrow> ipaddr list option)" where
  "resolve_hosts resolve [] cache = Inr cache"
| "resolve_hosts resolve (r # rs) cache =
     (case nr_host r of
        Exact host \<Rightarrow>
          and_then (map_err (\<lambda>e. RunRefused (''could not resolve exact policy host '' @ quoted host @ '': '' @ e))
            (resolve host)) (\<lambda>addresses.
          if addresses = [] then
            Inl (RunRefused (''exact policy host '' @ quoted host @ '' resolved to no addresses''))
          else resolve_hosts resolve rs (cache(host \<mapsto> addresses)))
      | Suffix suffix \<Rightarrow>
          Inl (RunRefused (''suffix host policy '' @ quoted (''*.'' @ suffix) @
            '' is not enforceable in schema version 1 (ADR-0020)''))
      | _ \<Rightarrow> resolve_hosts resolve rs cache)"

definition resolve_policy_hosts ::
  "session_env \<Rightarrow> policy \<Rightarrow> session_error + (string \<Rightarrow> ipaddr list option)" where
  "resolve_policy_hosts K p = resolve_hosts (se_resolve K) (p_net p) (\<lambda>_. None)"

definition no_enforcement :: enforcement_setup where
  "no_enforcement = \<lparr>es_policy = None, es_policy_digest = None, es_landlock_abi = None,
     es_landlock_residuals = None, es_ruleset = None, es_resolved_hosts = (\<lambda>_. None)\<rparr>"

definition prepare_enforcement :: "session_env \<Rightarrow> session_spec \<Rightarrow> nat \<Rightarrow> enforcement_setup session" where
  "prepare_enforcement K spec abi =
     (if sp_mode spec = RecordOnly then retE no_enforcement
      else case sp_policy_path spec of
        None \<Rightarrow> failE MissingPolicy
      | Some p \<Rightarrow>
          (case se_home K of
             None \<Rightarrow> failE PolicyHome
           | Some home \<Rightarrow>
               bindE (liftE PolicyFailed (load_with_digest (se_read_policy K) (se_sha256 K) (se_toml K) p
                 \<lparr>ec_workspace = to_string_lossy (sp_workspace spec), ec_home = home\<rparr>)) (\<lambda>loaded.
               bindE (liftE id (resolve_policy_hosts K (lp_policy loaded))) (\<lambda>hosts.
               let hull = derive_hull (lp_policy loaded) abi
               in bindE (outside (\<lambda>h. prepare_ruleset (se_landlock K) hull [])
                           (\<lambda>(r, calls). LandlockSetup hull calls r)) (\<lambda>(r, calls).
                  bindE (liftE LandlockFailed r) (\<lambda>ruleset.
                    retE \<lparr>es_policy = Some (lp_policy loaded), es_policy_digest = Some (lp_digest loaded),
                          es_landlock_abi = Some abi, es_landlock_residuals = Some (lh_residuals hull),
                          es_ruleset = Some ruleset, es_resolved_hosts = hosts\<rparr>))))))"

section \<open>The run\<close>

definition record_only_notice :: string where
  "record_only_notice = ''leash: record-only run; no policy is enforced, and only un-mediated I/O paths (SR-4), foreign-ABI entries (SR-3), and undecodable facts are denied''"

text \<open>Steps 3 and 4: the mode is announced and \<open>run_start\<close> is on disk before the child exists.\<close>

definition start_trace :: "session_env \<Rightarrow> run_meta \<Rightarrow> unit session" where
  "start_trace K meta =
     bindE (announce (case rm_mode meta of RecordOnly \<Rightarrow> record_only_notice | Enforce \<Rightarrow> ''leash: enforce run'')) (\<lambda>_.
     bindE (append_event K (rm_start_ts meta) (RunStart meta)) (\<lambda>_.
       sync_trace K))"

definition spawn_broker :: "session_env \<Rightarrow> session_spec \<Rightarrow> mode \<Rightarrow> prepared_ruleset option \<Rightarrow> broker_client option session" where
  "spawn_broker K spec m ruleset =
     (case m of
        RecordOnly \<Rightarrow> retE None
      | Enforce \<Rightarrow>
          bindE (liftE RunFailed (ok_or MissingBroker ruleset)) (\<lambda>rs.
          bindE (outside (\<lambda>h. se_spawn_broker K h rs (sp_workspace spec)) (SpawnBroker rs (sp_workspace spec))) (\<lambda>r.
          bindE (liftE SessionBroker r) (\<lambda>_.
            retE (Some \<lparr>bc_anchors = map ra_root (pr_anchors rs), bc_workspace = sp_workspace spec\<rparr>)))))"

definition spawn_child :: "session_env \<Rightarrow> session_spec \<Rightarrow> mode \<Rightarrow> prepared_ruleset option \<Rightarrow> u32 session" where
  "spawn_child K spec m ruleset =
     (let fd = map_option pr_ruleset ruleset
      in bindE (outside (\<lambda>h. se_spawn_child K h (sp_argv spec) m fd) (SpawnChild (sp_argv spec) m fd))
           (liftE SpawnFailed))"

definition loop_config ::
  "session_spec \<Rightarrow> mode \<Rightarrow> u32 \<Rightarrow> policy option \<Rightarrow> broker_client option \<Rightarrow> (string \<Rightarrow> ipaddr list option) \<Rightarrow>
   session_error + run_config" where
  "loop_config spec m pid policy broker hosts =
     map_sum id (\<lambda>c. with_ask_timeout c (sp_ask_timeout spec))
       (case m of
          RecordOnly \<Rightarrow> Inr (config_record_only pid (sp_attendance spec))
        | Enforce \<Rightarrow>
            and_then (map_err RunFailed (ok_or EnforceWithoutPolicy policy)) (\<lambda>p.
            and_then (map_err RunFailed (ok_or MissingBroker broker)) (\<lambda>b.
              Inr (config_enforce_with_broker pid (sp_attendance spec) p b hosts))))"

text \<open>The loop appends through the session's writer: its environment answers an append with what the
  writer gives in the state reached by the appends before it, which \<open>replay\<close> recomputes.\<close>

fun replay :: "session_env \<Rightarrow> action list \<Rightarrow> session_call list trace_writer \<Rightarrow> session_call list trace_writer" where
  "replay K [] w = w"
| "replay K (Append ts body r # as) w =
     replay K as (snd (trace_append (se_encode K) (trace_ops K) ts body w))"
| "replay K (a # as) w = replay K as w"

definition loop_env :: "session_env \<Rightarrow> session_state \<Rightarrow> env" where
  "loop_env K s = (se_kernel K (ses_log s))\<lparr>env_append := (\<lambda>h ts body.
     map_sum id (\<lambda>_. ()) (fst (trace_append (se_encode K) (trace_ops K) ts body (replay K h (writer_of s)))))\<rparr>"

definition serve_loop :: "nat \<Rightarrow> session_env \<Rightarrow> run_config \<Rightarrow> session_state \<Rightarrow> ((session_error + int) \<times> session_state) option" where
  "serve_loop fuel K c s =
     (case run_loop fuel (loop_env K s) c \<lparr>w_log = [], w_next_seq = ses_next_seq s\<rparr> of
        None \<Rightarrow> None
      | Some (r, w) \<Rightarrow>
          Some (map_sum RunFailed id r, log_call (ServeLoop (w_log w) r) (of_writer (replay K (w_log w) (writer_of s)))))"

text \<open>Steps 7 to 10.\<close>

definition finish_run :: "session_env \<Rightarrow> run_dir \<Rightarrow> 32 word \<Rightarrow> session_outcome session" where
  "finish_run K d status =
     bindE (liftE MalformedWaitStatus (decode_wait_status status)) (\<lambda>ex.
     let (exit_code, signal) = (case ex of Exited c \<Rightarrow> (Some c, None) | Signaled g \<Rightarrow> (None, Some g));
         trace_path = path_join (rd_path d) ''trace.jsonl'';
         report_path = path_join (rd_path d) ''report.txt''
     in bindE (now_ms K) (\<lambda>ts.
        bindE (append_event K ts (RunEnd exit_code signal 0)) (\<lambda>_.
        bindE (sync_trace K) (\<lambda>_.
        bindE (attempt ReportFailed (\<lambda>h. se_read K h trace_path) (ReadFile trace_path)) (\<lambda>trace.
        bindE (liftE RenderFailed (render_report (se_parse K) trace)) (\<lambda>report.
        bindE (attempt ReportFailed (\<lambda>h. se_file K h report_path) (CreateNew report_path)) (\<lambda>_.
        bindE (attempt ReportFailed (\<lambda>h. se_file K h report_path) (WriteFile report_path report)) (\<lambda>_.
        bindE (attempt ReportFailed (\<lambda>h. se_file K h report_path) (SyncFile report_path)) (\<lambda>_.
        bindE (announce (''leash: run '' @ rd_id d @ '' recorded; report: '' @ report_path)) (\<lambda>_.
          retE \<lparr>so_run_id = rd_id d, so_run_path = rd_path d, so_exit = ex\<rparr>))))))))))"

text \<open>\<open>run_session_with_writer_and_ruleset\<close>. A broker that was spawned is stopped however the function
  returns; \<open>None\<close> when the fuel does not cover the loop.\<close>

definition run_with_writer ::
  "nat \<Rightarrow> session_env \<Rightarrow> session_spec \<Rightarrow> run_meta \<Rightarrow> run_dir \<Rightarrow> enforcement_setup \<Rightarrow> session_state \<Rightarrow>
   ((session_error + session_outcome) \<times> session_state) option" where
  "run_with_writer fuel K spec meta d es s =
     (let m = rm_mode meta
      in case bindE (start_trace K meta) (\<lambda>_. spawn_broker K spec m (es_ruleset es)) s of
           (Inl e, s1) \<Rightarrow> Some (Inl e, s1)
         | (Inr broker, s1) \<Rightarrow>
             let leave = (\<lambda>(r, s'). Some (r, if broker = None then s' else log_call StopBroker s'))
             in case bindE (spawn_child K spec m (es_ruleset es)) (\<lambda>pid.
                       liftE id (loop_config spec m pid (es_policy es) broker (es_resolved_hosts es))) s1 of
                  (Inl e, s2) \<Rightarrow> leave (Inl e, s2)
                | (Inr config, s2) \<Rightarrow>
                    (case serve_loop fuel K config s2 of
                       None \<Rightarrow> None
                     | Some (Inl e, s3) \<Rightarrow> leave (Inl e, s3)
                     | Some (Inr status, s3) \<Rightarrow> leave (finish_run K d (of_int status) s3)))"

text \<open>The public entry with the writer given: no policy, no ruleset, no resolved host.\<close>

definition run_session_with_writer ::
  "nat \<Rightarrow> session_env \<Rightarrow> session_spec \<Rightarrow> run_meta \<Rightarrow> run_dir \<Rightarrow> session_state \<Rightarrow>
   ((session_error + session_outcome) \<times> session_state) option" where
  "run_session_with_writer fuel K spec meta d = run_with_writer fuel K spec meta d no_enforcement"

definition run_meta_of :: "session_spec \<Rightarrow> capabilities \<Rightarrow> enforcement_setup \<Rightarrow> snapshot_mechanism \<Rightarrow> string \<Rightarrow> nat \<Rightarrow> run_meta" where
  "run_meta_of spec caps es mechanism reason ts =
     \<lparr>rm_schema_version = TRACE_SCHEMA_VERSION, rm_mode = sp_mode spec, rm_attendance = sp_attendance spec,
      rm_policy_digest = es_policy_digest es, rm_kernel = cap_kernel_release caps,
      rm_landlock_abi = es_landlock_abi es, rm_landlock_residuals = es_landlock_residuals es,
      rm_snapshot_mechanism = mechanism, rm_snapshot_reason = reason, rm_argv = sp_argv spec,
      rm_workspace = sp_workspace spec, rm_start_ts = ts\<rparr>"

text \<open>\<open>run_session\<close>; the ruleset's descriptors are dropped when it returns.\<close>

definition run_session ::
  "nat \<Rightarrow> session_env \<Rightarrow> session_spec \<Rightarrow> session_state \<Rightarrow> ((session_error + session_outcome) \<times> session_state) option" where
  "run_session fuel K spec s =
     (case probe (se_facts K) of
        Inl e \<Rightarrow> Some (Inl (PreflightFailed e), s)
      | Inr caps \<Rightarrow>
          (case preflight caps (sp_mode spec) of
             Refuse msg \<Rightarrow> Some (Inl (RunRefused msg), s)
           | Proceed caps mechanism reason \<Rightarrow>
               (case prepare_enforcement K spec (cap_landlock_abi caps) s of
                  (Inl e, s1) \<Rightarrow> Some (Inl e, s1)
                | (Inr es, s1) \<Rightarrow>
                    let leave = map_option (\<lambda>(r, s'). (r, if es_ruleset es = None then s' else log_call DropRuleset s'))
                    in case bindE (now_ms K) (\<lambda>ts.
                              let meta = run_meta_of spec caps es mechanism reason ts
                              in bindE (create_run_dir K (sp_state_root spec) meta) (\<lambda>d.
                                 bindE (open_trace K d) (\<lambda>_. retE (meta, d)))) s1 of
                         (Inl e, s2) \<Rightarrow> leave (Some (Inl e, s2))
                       | (Inr (meta, d), s2) \<Rightarrow> leave (run_with_writer fuel K spec meta d es s2))))"

end
