(* ===== verification/Report_Claims.thy ===== *)
theory Report_Claims imports Report Trace_Json begin

text \<open>
  What the session report says of a trace. \<open>observed\<close> reads one JSON value on its own: what a reader
  of the trace would note of it. \<open>summarises\<close> states what the accumulators hold after a list of
  observations, as sets. The recorder's events are then encoded as its serde attributes say, which
  closes the loop from the writer to the report.
\<close>

section \<open>Observations\<close>

datatype observation =
    SawFs string "string list" string
  | SawExec string string
  | SawNet "string \<times> int" string
  | SawProcess string string
  | SawCross string string
  | SawRaw string string string

definition cross_key :: "string \<Rightarrow> int option \<Rightarrow> string" where
  "cross_key syscall target =
     syscall @ '' target='' @ (case target of None \<Rightarrow> ''unknown'' | Some pid \<Rightarrow> show_int pid)"

definition observed_fact :: "string \<Rightarrow> string \<Rightarrow> string \<Rightarrow> json \<Rightarrow> string \<Rightarrow> observation option" where
  "observed_fact syscall d rule obj family =
     (if family = ''fs'' then
        map_option (\<lambda>p. SawFs p (case get_array obj ''access'' of None \<Rightarrow> [] | Some vs \<Rightarrow> map (the \<circ> as_str) vs) d)
          (get_str obj ''path'')
      else if family = ''exec'' then map_option (\<lambda>b. SawExec b d) (get_str obj ''binary'')
      else if family = ''net'' then
        (case (get_str obj ''host'', get_i64 obj ''port'') of
           (Some host, Some port) \<Rightarrow> Some (SawNet (host, port) d) | _ \<Rightarrow> None)
      else if family = ''process'' then Some (SawProcess syscall d)
      else if family = ''cross_process'' then Some (SawCross (cross_key syscall (get_i64 obj ''target_pid'')) d)
      else if family = ''raw'' then Some (SawRaw syscall rule d)
      else None)"

definition observed :: "json \<Rightarrow> observation option" where
  "observed v =
     (if get_str v ''type'' \<noteq> Some ''syscall'' then None
      else case (get_str v ''syscall'', get_str v ''decision'', get_str v ''matched_rule'', get_object v ''fact'') of
             (Some syscall, Some d, Some rule, Some obj) \<Rightarrow>
               Option.bind (get_str obj ''family'') (observed_fact syscall d rule obj)
           | _ \<Rightarrow> None)"

fun noted :: "observation \<Rightarrow> report_state \<Rightarrow> report_state" where
  "noted (SawFs p access d) st = note_file p access (display_decision d) st"
| "noted (SawExec b d) st = st\<lparr>rs_processes := tally b (display_decision d) (rs_processes st)\<rparr>"
| "noted (SawNet a d) st = st\<lparr>rs_network := tally a (display_decision d) (rs_network st)\<rparr>"
| "noted (SawProcess s d) st = st\<lparr>rs_process_creations := tally s (display_decision d) (rs_process_creations st)\<rparr>"
| "noted (SawCross k d) st = st\<lparr>rs_cross_process := tally k (display_decision d) (rs_cross_process st)\<rparr>"
| "noted (SawRaw s r d) st =
     (if d = ''deny'' then st\<lparr>rs_denied_raw := insort_insert (s, r) (rs_denied_raw st)\<rparr> else st)"



section \<open>What the accumulators hold\<close>

definition decisions_seen :: "('k \<Rightarrow> string \<Rightarrow> observation) \<Rightarrow> observation list \<Rightarrow> ('k \<times> string) set" where
  "decisions_seen mk os = {(k, display_decision d) | k d. mk k d \<in> set os}"

definition activity_seen :: "file_activity \<Rightarrow> string \<Rightarrow> observation list \<Rightarrow> bool" where
  "activity_seen a p os \<longleftrightarrow>
     sorted (fa_access a) \<and> distinct (fa_access a) \<and> sorted (fa_decisions a) \<and> distinct (fa_decisions a) \<and>
     set (fa_access a) = {x. \<exists>access d. SawFs p access d \<in> set os \<and> x \<in> set access} \<and>
     set (fa_decisions a) = {display_decision d | access d. SawFs p access d \<in> set os}"

definition files_seen :: "(string, file_activity) btree_map \<Rightarrow> observation list \<Rightarrow> bool" where
  "files_seen m os \<longleftrightarrow> wf_map m \<and>
     (\<forall>p. case map_of m p of
        None \<Rightarrow> \<forall>access d. SawFs p access d \<notin> set os
      | Some a \<Rightarrow> (\<exists>access d. SawFs p access d \<in> set os) \<and> activity_seen a p os)"

definition summarises :: "report_state \<Rightarrow> observation list \<Rightarrow> bool" where
  "summarises st os \<longleftrightarrow>
     files_seen (rs_files st) os \<and>
     tallies (rs_processes st) (decisions_seen SawExec os) \<and>
     tallies (rs_process_creations st) (decisions_seen SawProcess os) \<and>
     tallies (rs_cross_process st) (decisions_seen SawCross os) \<and>
     tallies (rs_network st) (decisions_seen SawNet os) \<and>
     sorted (rs_denied_raw st) \<and> distinct (rs_denied_raw st) \<and>
     set (rs_denied_raw st) = {(s, r). SawRaw s r ''deny'' \<in> set os}"

lemma fold_insort_insert:
  "sorted xs \<and> distinct xs \<Longrightarrow>
     sorted (fold insort_insert ys xs) \<and> distinct (fold insort_insert ys xs) \<and>
     set (fold insort_insert ys xs) = set ys \<union> set xs"
  by (induction ys arbitrary: xs) (auto simp: sorted_insort_insert distinct_insort_insert set_insort_insert)

lemma activity_empty:
  "\<forall>access d. SawFs p access d \<notin> set os \<Longrightarrow> activity_seen \<lparr>fa_access = [], fa_decisions = []\<rparr> p os"
  by (simp add: activity_seen_def)

lemma activity_same:
  assumes "\<forall>access d. saw \<noteq> SawFs p access d"
  shows "activity_seen a p (os @ [saw]) = activity_seen a p os"
proof -
  have "SawFs p access d \<in> set (os @ [saw]) \<longleftrightarrow> SawFs p access d \<in> set os" for access d
    using assms by auto
  then show ?thesis by (simp only: activity_seen_def)
qed

lemma activity_add:
  assumes "activity_seen a p os"
  shows "activity_seen \<lparr>fa_access = fold insort_insert access (fa_access a),
    fa_decisions = insort_insert (display_decision d) (fa_decisions a)\<rparr> p (os @ [SawFs p access d])"
  using assms fold_insort_insert [of "fa_access a" access]
  by (auto simp: activity_seen_def sorted_insort_insert distinct_insort_insert set_insort_insert)

lemma files_seen_file:
  assumes "files_seen (rs_files st) os"
  shows "files_seen (rs_files (note_file p access (display_decision d) st)) (os @ [SawFs p access d])"
proof -
  let ?m = "rs_files st"
  have wf: "wf_map ?m" using assms by (simp add: files_seen_def)
  let ?old = "case map_of ?m p of None \<Rightarrow> \<lparr>fa_access = [], fa_decisions = []\<rparr> | Some a \<Rightarrow> a"
  have seen: "case map_of ?m q of
      None \<Rightarrow> \<forall>acc e. SawFs q acc e \<notin> set os
    | Some a \<Rightarrow> (\<exists>acc e. SawFs q acc e \<in> set os) \<and> activity_seen a q os" for q
    using assms by (simp add: files_seen_def)
  have "activity_seen ?old p os"
    using seen [of p] activity_empty [of p os] by (auto split: option.splits)
  note new = activity_add [OF this, of access d]
  show ?thesis
    unfolding files_seen_def
  proof (intro conjI allI)
    show "wf_map (rs_files (note_file p access (display_decision d) st))" using wf by (auto simp: note_file_def)
    fix q
    show "case map_of (rs_files (note_file p access (display_decision d) st)) q of
        None \<Rightarrow> \<forall>acc e. SawFs q acc e \<notin> set (os @ [SawFs p access d])
      | Some a \<Rightarrow> (\<exists>acc e. SawFs q acc e \<in> set (os @ [SawFs p access d])) \<and> activity_seen a q (os @ [SawFs p access d])"
    proof (cases "q = p")
      case True
      then show ?thesis using new by (auto simp: note_file_def map_of_entry_or [OF wf])
    next
      case False
      with seen [of q] show ?thesis
        by (auto simp: note_file_def map_of_entry_or [OF wf] activity_same split: option.splits)
    qed
  qed
qed

lemma files_seen_same:
  assumes "\<forall>p access d. saw \<noteq> SawFs p access d"
  shows "files_seen m (os @ [saw]) = files_seen m os"
proof -
  have "SawFs p access d \<in> set (os @ [saw]) \<longleftrightarrow> SawFs p access d \<in> set os"
    and "activity_seen a p (os @ [saw]) = activity_seen a p os" for p access d a
    using assms by (auto simp: activity_same)
  then show ?thesis by (simp only: files_seen_def)
qed

lemma decisions_seen_add:
  "inj (case_prod mk) \<Longrightarrow> decisions_seen mk (os @ [mk k d]) = insert (k, display_decision d) (decisions_seen mk os)"
  by (auto simp: decisions_seen_def inj_def)

lemma decisions_seen_same:
  "\<forall>k d. saw \<noteq> mk k d \<Longrightarrow> decisions_seen mk (os @ [saw]) = decisions_seen mk os"
  by (simp add: decisions_seen_def) metis

lemma summarises_noted:
  assumes "summarises st os" shows "summarises (noted saw st) (os @ [saw])"
proof -
  have inj: "inj (case_prod SawExec)" "inj (case_prod SawProcess)" "inj (case_prod SawCross)" "inj (case_prod SawNet)"
    by (auto simp: inj_def)
  note same = files_seen_same decisions_seen_same
  show ?thesis
  proof (cases saw)
    case (SawFs p access d)
    then show ?thesis
      using assms files_seen_file [of st os p access d]
      by (simp add: summarises_def same note_file_def)
  next
    case (SawRaw s r d)
    then show ?thesis
      using assms
      by (auto simp: summarises_def same sorted_insort_insert distinct_insort_insert set_insort_insert)
  qed (use assms in \<open>simp_all add: summarises_def same decisions_seen_add inj tallies_tally\<close>)
qed

section \<open>The whole trace\<close>

definition event_type :: "json \<Rightarrow> string option" where
  "event_type v = get_str v ''type''"

text \<open>The fields of the first \<open>run_start\<close> and of the first \<open>run_end\<close>.\<close>

definition title :: "json \<Rightarrow> report_state \<Rightarrow> bool" where
  "title v st \<longleftrightarrow> (\<exists>m argv w. rs_mode st = Some m \<and> get_str v ''mode'' = Some m \<and>
     rs_argv st = Some argv \<and> get_array v ''argv'' = Some (map JString argv) \<and>
     rs_workspace st = Some w \<and> get_str v ''workspace'' = Some w)"

definition ending :: "json \<Rightarrow> report_state \<Rightarrow> bool" where
  "ending v st \<longleftrightarrow> rs_have_run_end st \<and> (\<exists>outcome. rs_exit_outcome st = Some outcome \<and>
     (case get_i64 v ''exit_code'' of
        Some n \<Rightarrow> outcome = ExitCode n
      | None \<Rightarrow> \<exists>n. get_i64 v ''signal'' = Some n \<and> outcome = ExitSignal n))"

definition titled :: "report_state \<Rightarrow> json list \<Rightarrow> bool" where
  "titled st vs \<longleftrightarrow>
     (case filter (\<lambda>v. event_type v = Some ''run_start'') vs of [] \<Rightarrow> rs_mode st = None | v # _ \<Rightarrow> title v st) \<and>
     (case filter (\<lambda>v. event_type v = Some ''run_end'') vs of [] \<Rightarrow> \<not> rs_have_run_end st | v # _ \<Rightarrow> ending v st)"

definition same_head :: "report_state \<Rightarrow> report_state \<Rightarrow> bool" where
  "same_head st st' \<longleftrightarrow> rs_mode st' = rs_mode st \<and> rs_argv st' = rs_argv st \<and> rs_workspace st' = rs_workspace st \<and>
     rs_exit_outcome st' = rs_exit_outcome st \<and> rs_have_run_end st' = rs_have_run_end st"


lemma noted_head: "same_head st (noted saw st)"
  by (cases saw) (auto simp: same_head_def note_file_def)












lemma empty_report_seen: "summarises empty_report []" "titled empty_report []"
  by (simp_all add: empty_report_def summarises_def titled_def decisions_seen_def files_seen_def wf_map_def)

section \<open>The recorder's own traces\<close>

fun decision_name :: "decision \<Rightarrow> string" where
  "decision_name Allow = ''allow''"
| "decision_name Deny = ''deny''"
| "decision_name Ask = ''ask''"

fun access_text :: "fs_access \<Rightarrow> string" where
  "access_text AccRead = ''read''"
| "access_text AccWrite = ''write''"
| "access_text AccCreate = ''create''"
| "access_text AccDelete = ''delete''"

text \<open>What the report is to note of an event: its fact and its decision.\<close>

fun fact_seen :: "string \<Rightarrow> string \<Rightarrow> string \<Rightarrow> fact \<Rightarrow> observation" where
  "fact_seen syscall rule d (FsFact path access dest) = SawFs path (map access_text access) d"
| "fact_seen syscall rule d (NetFact host port) = SawNet (host, uint port) d"
| "fact_seen syscall rule d (ProcessFact flags) = SawProcess syscall d"
| "fact_seen syscall rule d (CrossProcessFact target) = SawCross (cross_key syscall (Some (uint target))) d"
| "fact_seen syscall rule d (ExecFact binary) = SawExec binary d"
| "fact_seen syscall rule d RawFact = SawRaw syscall rule d"

definition event_seen :: "syscall_event \<Rightarrow> observation" where
  "event_seen e = fact_seen (ev_syscall e) (ev_matched_rule e) (decision_name (ev_decision e)) (ev_fact e)"

lemma get_simps [simp]:
  "get_str (JObject fs) f = Option.bind (map_of fs f) as_str"
  "get_i64 (JObject fs) f = Option.bind (map_of fs f) as_i64"
  "get_array (JObject fs) f = Option.bind (map_of fs f) as_array"
  "get_object (JObject fs) f = Option.bind (map_of fs f) (\<lambda>x. if is_object x then Some x else None)"
  by (simp_all add: get_str_def get_i64_def get_array_def get_object_def)

lemma decision_text [simp]: "as_str (decision_value d) = Some (decision_name d)"
  by (cases d) simp_all

lemma access_text_value [simp]: "as_str (access_value a) = Some (access_text a)"
  by (cases a) simp_all

lemma fact_object [simp]: "is_object (fact_value x)"
  by (cases x) simp_all

lemma skippable_other [simp]: "name \<noteq> f \<Longrightarrow> map_of (skippable name g x) f = None"
  by (simp add: skippable_def split: option.split)

lemma in_i64_nonneg: "0 \<le> i \<Longrightarrow> i < 2 ^ 63 \<Longrightarrow> in_i64 i"
  unfolding in_i64_def by (rule conjI, rule order_trans [of _ 0]) simp_all

lemma unsigned_i64:
  "as_i64 (jword (p :: u16)) = Some (uint p)" "as_i64 (jword (t :: u32)) = Some (uint t)"
  using uint_lt2p [of p] uint_lt2p [of t] by (simp_all add: jword_def jnat_def in_i64_nonneg)

lemma observed_syscall:
  "observed (event_value \<lparr>e_seq = n, e_ts = ts, e_body = SyscallBody e\<rparr>) = Some (event_seen e)"
proof -
  have access: "map (the \<circ> (as_str \<circ> access_value)) xs = map access_text xs" for xs by simp
  show ?thesis
    by (cases "ev_fact e")
       (simp_all add: observed_def observed_fact_def event_value_def syscall_fields_def event_seen_def
          unsigned_i64 access comp_assoc map_add_def)
qed

fun family_name :: "fact \<Rightarrow> string" where
  "family_name (FsFact path access dest) = ''fs''"
| "family_name (NetFact host port) = ''net''"
| "family_name (ProcessFact flags) = ''process''"
| "family_name (CrossProcessFact target) = ''cross_process''"
| "family_name (ExecFact binary) = ''exec''"
| "family_name RawFact = ''raw''"

lemma family_value [simp]: "get_str (fact_value x) ''family'' = Some (family_name x)"
  by (cases x) simp_all

lemma collect_access: "collect_strs e (map access_value access) = Inr (map access_text access)"
  by (simp add: collect_strs_Inr)

lemma report_fact_value:
  "report_fact line syscall (decision_name d) rule (fact_value x) (family_name x) st =
     Inr (noted (fact_seen syscall rule (decision_name d) x) st)"
  by (cases x) (simp_all add: report_fact_def parse_access_def collect_access unsigned_i64 cross_key_def)

lemma report_syscall_event:
  "report_event line (event_value \<lparr>e_seq = n, e_ts = ts, e_body = SyscallBody e\<rparr>) st = Inr (noted (event_seen e) st)"
  by (simp add: report_event_def report_syscall_def require_str_def require_number_def event_value_def
      syscall_fields_def jnat_def map_add_def report_fact_value event_seen_def)

text \<open>What a whole body does to the accumulators; a \<open>run_end\<close> carries an exit code or a signal.\<close>

fun mode_name :: "mode \<Rightarrow> string" where
  "mode_name RecordOnly = ''record_only''"
| "mode_name Enforce = ''enforce''"

fun body_noted :: "event_body \<Rightarrow> report_state \<Rightarrow> report_state" where
  "body_noted (RunStart m) st =
     (if rs_mode st = None then st\<lparr>rs_mode := Some (mode_name (rm_mode m)), rs_argv := Some (rm_argv m),
        rs_workspace := Some (rm_workspace m)\<rparr> else st)"
| "body_noted (SyscallBody e) st = noted (event_seen e) st"
| "body_noted (Step n) st = st"
| "body_noted (RunEnd exit_code signal n) st =
     (if rs_have_run_end st then st else st\<lparr>rs_exit_outcome := (case exit_code of
        Some c \<Rightarrow> Some (ExitCode c) | None \<Rightarrow> map_option ExitSignal signal), rs_have_run_end := True\<rparr>)"

fun ends_truly :: "event_body \<Rightarrow> bool" where
  "ends_truly (RunEnd exit_code signal n) \<longleftrightarrow> (exit_code \<noteq> None \<or> signal \<noteq> None) \<and>
     (\<forall>i \<in> set_option exit_code \<union> set_option signal. - (2 ^ 31) \<le> i \<and> i < 2 ^ 31)"
| "ends_truly _ \<longleftrightarrow> True"

lemma mode_value_text [simp]: "as_str (mode_value m) = Some (mode_name m)"
  by (cases m) simp_all

lemma in_i64_i32: "- (2 ^ 31) \<le> i \<Longrightarrow> i < 2 ^ 31 \<Longrightarrow> in_i64 i"
  unfolding in_i64_def by (rule conjI, rule order_trans [of _ "- (2 ^ 31)"]) simp_all

lemma nullable_number:
  "\<forall>i \<in> set_option x. - (2 ^ 31) \<le> i \<and> i < 2 ^ 31 \<Longrightarrow>
   optional_number (JObject (fs @ (name, nullable (JNumber \<circ> Some) x) # rest)) name line = Inr x"
  if "map_of fs name = None"
  using that in_i64_i32 by (cases x) (auto simp: optional_number_def nullable_def map_add_def)

lemma collect_texts: "collect_strs e (map JString ss) = Inr ss"
  by (simp add: collect_strs_Inr)

lemma report_body:
  assumes "ends_truly b"
  shows "report_event line (event_value \<lparr>e_seq = n, e_ts = ts, e_body = b\<rparr>) st = Inr (body_noted b st)"
proof (cases b)
  case (RunStart m)
  show ?thesis
    by (cases "rm_mode m")
       (simp_all add: RunStart report_event_def require_str_def require_number_def event_value_def jnat_def
          meta_fields_def report_run_start_def parse_argv_def collect_texts)
next
  case (RunEnd c g k)
  have "optional_number (event_value \<lparr>e_seq = n, e_ts = ts, e_body = b\<rparr>) ''exit_code'' line = Inr c"
    using assms nullable_number [of "[(''seq'', jnat n), (''ts'', jnat ts), (''type'', JString ''run_end'')]" "''exit_code''" c]
    by (simp add: event_value_def RunEnd)
  moreover have "optional_number (event_value \<lparr>e_seq = n, e_ts = ts, e_body = b\<rparr>) ''signal'' line = Inr g"
    using assms nullable_number [of "[(''seq'', jnat n), (''ts'', jnat ts), (''type'', JString ''run_end''),
      (''exit_code'', nullable (JNumber \<circ> Some) c)]" "''signal''" g]
    by (simp add: event_value_def RunEnd)
  moreover have "event_type (event_value \<lparr>e_seq = n, e_ts = ts, e_body = b\<rparr>) = Some ''run_end''"
    "require_number (event_value \<lparr>e_seq = n, e_ts = ts, e_body = b\<rparr>) ''seq'' line = Inr ()"
    "require_number (event_value \<lparr>e_seq = n, e_ts = ts, e_body = b\<rparr>) ''ts'' line = Inr ()"
    by (simp_all add: event_type_def event_value_def RunEnd require_number_def jnat_def)
  ultimately show ?thesis
    using assms
    by (auto simp: report_event_def require_str_def report_run_end_def RunEnd event_type_def split: option.splits)
next
  case (Step k)
  then show ?thesis
    by (simp add: report_event_def require_str_def require_number_def event_value_def jnat_def)
qed (simp add: report_syscall_event)

section \<open>Lines of JSON\<close>

definition json_line :: "string \<Rightarrow> bool" where
  "json_line l \<longleftrightarrow> newline \<notin> set l \<and> (\<exists>b. l = ''{'' @ b @ ''}'')"

lemma chars_brace: "\<exists>cs. chars (CHR ''{'' # s) = ''{'' # cs"
  by (cases s) (auto simp: chars_def utf8_width_def code_def)

lemma json_line_shown: "json_line l \<Longrightarrow> trim l \<noteq> []"
proof -
  assume "json_line l"
  then obtain cs where cs: "chars l = ''{'' # cs" using chars_brace by (auto simp: json_line_def)
  have "\<not> is_whitespace ''{''"
    by (simp add: is_whitespace_def whitespace_chars_def bytes_char_def char_of_def upt_rec)
  then have "trim l = ''{'' @ concat (rev (dropWhile is_whitespace (rev cs)))"
    by (simp add: trim_def cs dropWhile_append3)
  then show ?thesis by simp
qed

lemma lines_of_json:
  assumes "\<forall>l \<in> set ls. json_line l"
  shows "lines (concat (map (\<lambda>l. l @ [newline]) ls)) = ls"
proof -
  have "split_on newline (concat (map (\<lambda>l. l @ [newline]) ls)) = ls @ [[]]"
    using assms by (intro split_lines) (simp add: json_line_def)
  moreover have "map strip_cr ls = ls"
    using assms by (intro map_idI) (auto simp: json_line_def strip_cr_def)
  ultimately show ?thesis by (simp add: lines_def newline_def)
qed

fun sequenced :: "nat \<Rightarrow> (nat \<times> event_body) list \<Rightarrow> event list" where
  "sequenced n [] = []"
| "sequenced n ((ts, b) # bs) = \<lparr>e_seq = n, e_ts = ts, e_body = b\<rparr> # sequenced (Suc n) bs"

text \<open>The documented behaviour of serde_json on the events of a run: each prints to one line that
  holds an object and parses back to the value it stands for.\<close>

definition codec :: "(event \<Rightarrow> string + string) \<Rightarrow> (string \<Rightarrow> string + json) \<Rightarrow> event list \<Rightarrow> bool" where
  "codec encode parse es \<longleftrightarrow>
     (\<forall>e \<in> set es. \<forall>l. encode e = Inr l \<longrightarrow> json_line l \<and> parse l = Inr (event_value e))"

lemma report_encoded:
  assumes "encode_all encode n bs = Inr ls" and "codec encode parse (sequenced n bs)"
    and "\<forall>(t, b) \<in> set bs. ends_truly b"
  shows "report_lines parse idx ls st = Inr (fold (body_noted \<circ> snd) bs st) \<and> (\<forall>l \<in> set ls. json_line l)"
  using assms
proof (induction bs arbitrary: n ls idx st)
  case (Cons tb bs)
  obtain t b where tb: "tb = (t, b)" by (cases tb)
  with Cons.prems(1) obtain l ls' where l: "encode \<lparr>e_seq = n, e_ts = t, e_body = b\<rparr> = Inr l" "ls = l # ls'"
    "encode_all encode (Suc n) bs = Inr ls'" by (auto simp: result_simps)
  with Cons.prems(2) tb have "json_line l" "parse l = Inr (event_value \<lparr>e_seq = n, e_ts = t, e_body = b\<rparr>)"
    by (auto simp: codec_def)
  moreover have "codec encode parse (sequenced (Suc n) bs)" using Cons.prems(2) tb by (simp add: codec_def)
  ultimately show ?case
    using Cons.IH [OF l(3)] Cons.prems(3) l(2) tb json_line_shown [of l] by (simp add: report_body)
qed simp

lemma fold_summarises:
  "summarises st os \<Longrightarrow>
   summarises (fold (body_noted \<circ> snd) bs st) (os @ [event_seen e. (t, SyscallBody e) \<leftarrow> bs])"
proof (induction bs arbitrary: st os)
  case (Cons tb bs)
  obtain t b where tb: "tb = (t, b)" by (cases tb)
  have same: "summarises (body_noted b st) os" if "\<nexists>e. b = SyscallBody e"
    using Cons.prems that by (cases b) (auto simp: summarises_def)
  show ?case
  proof (cases "\<exists>e. b = SyscallBody e")
    case True
    with Cons.IH [OF summarises_noted [OF Cons.prems]] tb show ?thesis by auto
  next
    case False
    then have "(case b of SyscallBody e \<Rightarrow> [event_seen e] | _ \<Rightarrow> []) = []" by (cases b) auto
    with Cons.IH [OF same [OF False]] tb False show ?thesis by (cases b) auto
  qed
qed simp

lemma fold_title:
  "rs_mode st = Some m \<Longrightarrow>
   rs_mode (fold (body_noted \<circ> snd) bs st) = Some m \<and>
   rs_argv (fold (body_noted \<circ> snd) bs st) = rs_argv st \<and>
   rs_workspace (fold (body_noted \<circ> snd) bs st) = rs_workspace st"
proof (induction bs arbitrary: st)
  case (Cons tb bs)
  obtain t b where tb: "tb = (t, b)" by (cases tb)
  have "rs_mode (body_noted b st) = Some m" "rs_argv (body_noted b st) = rs_argv st"
    "rs_workspace (body_noted b st) = rs_workspace st"
    using Cons.prems noted_head [of st] by (cases b; simp add: same_head_def)+
  with Cons.IH [of "body_noted b st"] tb show ?case by simp
qed simp

lemma fold_end:
  "rs_have_run_end (fold (body_noted \<circ> snd) bs st) \<longleftrightarrow>
     rs_have_run_end st \<or> (\<exists>t c g k. (t, RunEnd c g k) \<in> set bs)"
proof (induction bs arbitrary: st)
  case (Cons tb bs)
  obtain t b where tb: "tb = (t, b)" by (cases tb)
  have "rs_have_run_end (body_noted b st) \<longleftrightarrow> rs_have_run_end st \<or> (\<exists>c g k. b = RunEnd c g k)"
    using noted_head [of st] by (cases b) (auto simp: same_head_def)
  with Cons.IH [of "body_noted b st"] tb show ?case by auto
qed simp

text \<open>The lines of an encoded trace render, in whatever way they came to the file.\<close>

lemma encoded_trace_renders:
  assumes "encode_all encode 0 ((t, RunStart m) # bs) = Inr ls"
    and "codec encode parse (sequenced 0 ((t, RunStart m) # bs))" and "\<forall>(t, b) \<in> set bs. ends_truly b"
  shows "\<exists>st. render_report parse (concat (map (\<lambda>l. l @ [newline]) ls)) =
      Inr (format_report (mode_name (rm_mode m)) (rm_argv m) (rm_workspace m) st) \<and>
    summarises st [event_seen e. (t, SyscallBody e) \<leftarrow> bs] \<and>
    (rs_have_run_end st \<longleftrightarrow> (\<exists>t c g k. (t, RunEnd c g k) \<in> set bs))"
proof -
  let ?bs = "(t, RunStart m) # bs"
  let ?st = "fold (body_noted \<circ> snd) ?bs empty_report"
  have ends: "\<forall>(t, b) \<in> set ?bs. ends_truly b" using assms(3) by simp
  from report_encoded [OF assms(1,2) ends]
  have "report_lines parse 0 (lines (concat (map (\<lambda>l. l @ [newline]) ls))) empty_report = Inr ?st"
    using lines_of_json by metis
  moreover have "rs_mode ?st = Some (mode_name (rm_mode m)) \<and> rs_argv ?st = Some (rm_argv m) \<and>
      rs_workspace ?st = Some (rm_workspace m)"
    using fold_title [of "body_noted (RunStart m) empty_report" "mode_name (rm_mode m)" bs]
    by (simp add: empty_report_def)
  moreover have "summarises ?st [event_seen e. (t, SyscallBody e) \<leftarrow> bs]"
    using fold_summarises [OF empty_report_seen(1), of ?bs] by simp
  moreover have "rs_have_run_end ?st \<longleftrightarrow> (\<exists>t c g k. (t, RunEnd c g k) \<in> set bs)"
    by (subst fold_end) (auto simp: empty_report_def)
  ultimately show ?thesis by (intro exI [of _ ?st]) (simp add: render_report_def)
qed

section \<open>Properties\<close>


text \<open>
  C35. Every trace the recorder writes renders: after a run's events are appended, from \<open>run_start\<close> on, to
  a fresh trace, the report over the bytes on disk succeeds, is headed by the run's own mode, command
  and workspace, summarises exactly the facts and decisions of the appended system call events, and
  states an exit exactly if a \<open>run_end\<close> was appended.
\<close>

theorem recorded_trace_renders:
  assumes "honest_sink content ops" and "content s = []"
    and "append_all encode ops ((t, RunStart m) # bs) (new_writer s) = (Inr (), w)"
    and "codec encode parse (sequenced 0 ((t, RunStart m) # bs))" and "\<forall>(t, b) \<in> set bs. ends_truly b"
  shows "\<exists>st. render_report parse (content (tw_sink w)) =
      Inr (format_report (mode_name (rm_mode m)) (rm_argv m) (rm_workspace m) st) \<and>
    summarises st [event_seen e. (t, SyscallBody e) \<leftarrow> bs] \<and>
    (rs_have_run_end st \<longleftrightarrow> (\<exists>t c g k. (t, RunEnd c g k) \<in> set bs))"
  using append_all_lines [OF assms(1,3)] encoded_trace_renders [OF _ assms(4,5)] assms(2)
  by (auto simp: new_writer_def)

definition sample_meta :: run_meta where
  "sample_meta = \<lparr>rm_schema_version = 1, rm_mode = RecordOnly, rm_attendance = Unattended, rm_policy_digest = None,
     rm_kernel = ''6.8.0'', rm_landlock_abi = None, rm_landlock_residuals = None, rm_snapshot_mechanism = Copy,
     rm_snapshot_reason = [], rm_argv = [''sh''], rm_workspace = ''/w'', rm_start_ts = 5\<rparr>"

definition sample_ask :: "ask_resolution \<Rightarrow> syscall_event" where
  "sample_ask r = \<lparr>ev_pid = 7, ev_syscall = ''execve'', ev_fact = ExecFact ''/b'', ev_decision = Ask,
     ev_ask_resolution = Some r, ev_matched_rule = ''exec.1'', ev_would_deny = None, ev_operand_decisions = None\<rparr>"

text \<open>A codec for the sample: \<open>{0}\<close> is its \<open>run_start\<close>, \<open>{1}\<close> the approved ask, \<open>{2}\<close> the denied one.\<close>

definition sample_events :: "event list" where
  "sample_events = [\<lparr>e_seq = 0, e_ts = 5, e_body = RunStart sample_meta\<rparr>,
     \<lparr>e_seq = 1, e_ts = 6, e_body = SyscallBody (sample_ask Approved)\<rparr>,
     \<lparr>e_seq = 1, e_ts = 6, e_body = SyscallBody (sample_ask Denied)\<rparr>]"

definition sample_encode :: "event \<Rightarrow> string + string" where
  "sample_encode e = Inr (if e = sample_events ! 0 then ''{0}'' else if e = sample_events ! 1 then ''{1}'' else ''{2}'')"

definition sample_parse :: "string \<Rightarrow> string + json" where
  "sample_parse l = Inr (event_value (sample_events ! (if l = ''{0}'' then 0 else if l = ''{1}'' then 1 else 2)))"

lemma sample_lines: "json_line ''{0}''" "json_line ''{1}''" "json_line ''{2}''"
proof -
  have "json_line (''{'' @ [c] @ ''}'')" if "c \<noteq> newline" for c
    using that by (auto simp: json_line_def newline_def)
  from this [of "CHR ''0''"] this [of "CHR ''1''"] this [of "CHR ''2''"]
  show "json_line ''{0}''" "json_line ''{1}''" "json_line ''{2}''" by (simp_all add: newline_def)
qed

lemma sample_codec: "codec sample_encode sample_parse sample_events"
  using sample_lines
  by (simp add: codec_def sample_encode_def sample_parse_def sample_events_def sample_ask_def)

lemma recorded_trace_renders_witness:
  "\<exists>st. render_report sample_parse (''{0}'' @ [newline] @ ''{1}'' @ [newline]) =
      Inr (format_report ''record_only'' [''sh''] ''/w'' st) \<and>
    summarises st [event_seen (sample_ask Approved)]"
proof -
  let ?bs = "[(6, SyscallBody (sample_ask Approved))]"
  have run: "append_all sample_encode buffer_ops ((5, RunStart sample_meta) # ?bs) (new_writer []) =
      (Inr (), \<lparr>tw_sink = ''{0}'' @ [newline] @ ''{1}'' @ [newline], tw_next_seq = 2\<rparr>)"
    by (simp add: trace_append_def buffer_ops_def new_writer_def newline_def sample_encode_def sample_events_def)
  have "honest_sink id buffer_ops" by (simp add: honest_sink_def buffer_ops_def)
  moreover have "codec sample_encode sample_parse (sequenced 0 ((5, RunStart sample_meta) # ?bs))"
    using sample_codec by (simp add: codec_def sample_events_def)
  ultimately show ?thesis
    using recorded_trace_renders [OF _ _ run, of id sample_parse] by (auto simp: sample_meta_def)
qed


text \<open>An event with another ask resolution.\<close>

fun with_resolution :: "(syscall_event \<Rightarrow> ask_resolution option) \<Rightarrow> event_body \<Rightarrow> event_body" where
  "with_resolution r (SyscallBody e) = SyscallBody (e\<lparr>ev_ask_resolution := r e\<rparr>)"
| "with_resolution r b = b"

lemma with_resolution_noted: "body_noted (with_resolution r b) = body_noted b"
  by (cases b) (auto simp: event_seen_def)

lemma with_resolution_ends: "ends_truly (with_resolution r b) = ends_truly b"
  by (cases b) simp_all

text \<open>
  The report does not say how an ask was resolved: changing the resolutions of a trace's events (an
  operator's approval into a denial, or into a timeout) leaves the rendered report the same.
\<close>

theorem ask_outcome_is_not_reported:
  assumes "encode_all encode 0 bs = Inr ls" and "codec encode parse (sequenced 0 bs)"
    and "encode_all encode 0 bs' = Inr ls'" and "codec encode parse (sequenced 0 bs')"
    and "\<forall>(t, b) \<in> set bs. ends_truly b"
    and "bs' = map (map_prod id (with_resolution r)) bs"
  shows "render_report parse (concat (map (\<lambda>l. l @ [newline]) ls')) =
    render_report parse (concat (map (\<lambda>l. l @ [newline]) ls))"
proof -
  have "fold (body_noted \<circ> snd) bs' st = fold (body_noted \<circ> snd) bs st" for st
    by (simp add: assms(6) fold_map comp_def with_resolution_noted)
  moreover have "\<forall>(t, b) \<in> set bs'. ends_truly b"
    using assms(5) by (auto simp: assms(6) with_resolution_ends)
  ultimately show ?thesis
    using report_encoded [OF assms(1,2,5)] report_encoded [OF assms(3,4)] lines_of_json
    by (simp add: render_report_def)
qed

lemma ask_outcome_is_not_reported_witness:
  "render_report sample_parse (''{0}'' @ [newline] @ ''{2}'' @ [newline]) =
   render_report sample_parse (''{0}'' @ [newline] @ ''{1}'' @ [newline])"
proof -
  let ?bs = "\<lambda>r. [(5, RunStart sample_meta), (6, SyscallBody (sample_ask r))]"
  have enc: "encode_all sample_encode 0 (?bs Approved) = Inr [''{0}'', ''{1}'']"
    "encode_all sample_encode 0 (?bs Denied) = Inr [''{0}'', ''{2}'']"
    by (simp_all add: sample_encode_def sample_events_def sample_ask_def)
  have cod: "codec sample_encode sample_parse (sequenced 0 (?bs r))" if "r \<in> {Approved, Denied}" for r
    using sample_codec that by (auto simp: codec_def sample_events_def)
  show ?thesis
    using ask_outcome_is_not_reported [OF enc(1) cod enc(2) cod, of "\<lambda>e. Some Denied"]
    by (simp add: sample_ask_def)
qed

end
