(* ===== verification/Notify_Trace.thy ===== *)
theory Notify_Trace imports Notify_Proofs begin

text \<open>
  The notify loop as a client of the trace writer. The interface: a property of the log that no other
  action disturbs and that an append with the writer's own answer keeps; the loop then keeps it for a
  whole run. And the effect of a failed append on a run: its result is an error.
\<close>

section \<open>Operations that append nothing\<close>

fun is_append :: "action \<Rightarrow> bool" where
  "is_append (Append ts b r) = True"
| "is_append _ = False"

definition no_append :: "unit \<Rightarrow> action \<Rightarrow> unit option" where
  "no_append q a = (if is_append a then None else Some ())"

lemma steps_no_append: "steps no_append as q = Some q' \<Longrightarrow> \<forall>a \<in> set as. \<not> is_append a"
  by (induction as arbitrary: q) (auto simp: no_append_def split: if_splits)

interpretation quiet_reads: child_reads no_append "()" "()" pid for pid
  by unfold_locales (simp_all add: no_append_def)

interpretation quiet_status: status_reads no_append "()"
  by unfold_locales (simp add: no_append_def)

definition quiet_op :: "('e, 'a) act \<Rightarrow> bool" where
  "quiet_op m = wp no_append m (\<lambda>_ _. True) ()"

lemma quiet_gather_fs: "quiet_op (gather_fs E c n sh)"
  unfolding quiet_op_def by (rule quiet_reads.wp_gather_fs) simp_all

lemma quiet_read_anchored: "quiet_op (read_anchored E n arg)"
  unfolding quiet_op_def by (rule quiet_reads.wp_read_anchored) simp_all

lemma quiet_k_read_bytes: "quiet_op (k_read_bytes E pid addr len)"
  unfolding quiet_op_def by (rule quiet_reads.wp_k_read_bytes) simp_all

lemma quiet_k_read_u64: "quiet_op (k_read_u64 E pid addr)"
  unfolding quiet_op_def by (rule quiet_reads.wp_k_read_u64) simp_all

lemma quiet_process_in_tree: "quiet_op (process_in_tree E root target)"
  unfolding quiet_op_def by (rule quiet_status.wp_process_in_tree) simp

lemma quiet_process_tgid: "quiet_op (process_tgid E pid)"
  unfolding quiet_op_def by (rule quiet_status.wp_process_tgid) simp

section \<open>The interface\<close>

named_theorems keeps_rules \<open>operations that keep the property of the log\<close>

locale append_log =
  fixes E :: env and I :: "action list \<Rightarrow> bool"
  assumes other: "I h \<Longrightarrow> \<not> is_append a \<Longrightarrow> I (h @ [a])"
    and appended: "I h \<Longrightarrow> I (h @ [Append ts b (env_append E h ts b)])"
begin

definition keeps :: "('e, 'a) act \<Rightarrow> bool" where
  "keeps m \<longleftrightarrow> (\<forall>w. I (w_log w) \<longrightarrow> I (w_log (snd (m w))))"

lemma others: "\<forall>a \<in> set as. \<not> is_append a \<Longrightarrow> I h \<Longrightarrow> I (h @ as)"
  by (induction as arbitrary: h) (auto dest: other simp flip: append_assoc, metis append_assoc append_Cons append_Nil other)

lemma keeps_quiet: "quiet_op m \<Longrightarrow> keeps m"
  unfolding quiet_op_def keeps_def
proof (intro allI impI)
  fix w :: world
  assume m: "wp no_append m (\<lambda>_ _. True) ()" and I: "I (w_log w)"
  obtain r w' where r: "m w = (r, w')" by (cases "m w")
  from wpD [OF m r] obtain as q' where "w_log w' = w_log w @ as" "steps no_append as () = Some q'" by blast
  with others [OF steps_no_append] I r show "I (w_log (snd (m w)))" by simp
qed

lemmas keeps_reads [keeps_rules] =
  quiet_gather_fs [THEN keeps_quiet] quiet_read_anchored [THEN keeps_quiet] quiet_k_read_bytes [THEN keeps_quiet]
  quiet_k_read_u64 [THEN keeps_quiet] quiet_process_in_tree [THEN keeps_quiet] quiet_process_tgid [THEN keeps_quiet]

lemma keeps_ret [keeps_rules]: "keeps (retE x)"
  by (simp add: keeps_def retE_def)

lemma keeps_fail [keeps_rules]: "keeps (failE e)"
  by (simp add: keeps_def failE_def)

lemma keeps_lift [keeps_rules]: "keeps (liftE g r)"
  by (cases r) (simp_all add: liftE_def keeps_ret keeps_fail)

lemma keeps_bind [keeps_rules]: "keeps m \<Longrightarrow> (\<And>x. keeps (f x)) \<Longrightarrow> keeps (bindE m f)"
  by (simp add: keeps_def bindE_def split: prod.split sum.split) (metis snd_conv)

lemma keeps_try [keeps_rules]: "keeps m \<Longrightarrow> keeps (tryE m)"
  by (simp add: keeps_def tryE_def split: prod.split) (metis snd_conv)

lemma keeps_call [keeps_rules]: "(\<And>r. \<not> is_append (mk r)) \<Longrightarrow> keeps (call answer mk)"
  by (simp add: keeps_def call_def Let_def log_action_def other)

lemma keeps_append [keeps_rules]: "keeps (call (\<lambda>h. env_append E h ts b) (Append ts b))"
  by (simp add: keeps_def call_def Let_def log_action_def appended)

lemma keeps_no_log [keeps_rules]: "(\<And>w. w_log (g w) = w_log w) \<Longrightarrow> keeps (\<lambda>w. (Inr x, g w))"
  by (simp add: keeps_def)

lemma keeps_if [keeps_rules]: "keeps m \<Longrightarrow> keeps m' \<Longrightarrow> keeps (if b then m else m')"
  by simp

lemma keeps_case_sum [keeps_rules]:
  "(\<And>e. keeps (f e)) \<Longrightarrow> (\<And>x. keeps (g x)) \<Longrightarrow> keeps (case r of Inl e \<Rightarrow> f e | Inr x \<Rightarrow> g x)"
  by (cases r) simp_all

lemma keeps_case_option [keeps_rules]:
  "keeps m \<Longrightarrow> (\<And>y. keeps (g y)) \<Longrightarrow> keeps (case x of None \<Rightarrow> m | Some y \<Rightarrow> g y)"
  by (cases x) simp_all

lemma keeps_case_prod [keeps_rules]: "(\<And>a b. keeps (f a b)) \<Longrightarrow> keeps (case x of (a, b) \<Rightarrow> f a b)"
  by (cases x) simp

section \<open>The handlers\<close>

lemma keeps_record [keeps_rules]: "keeps (record_with_operands E ts n name f d ops)"
  unfolding record_with_operands_def Let_def by (intro keeps_rules) simp

lemma keeps_record_event [keeps_rules]: "keeps (record_event E ts n name f d)"
  unfolding record_event_def by (rule keeps_record)

lemma keeps_answers [keeps_rules]:
  "keeps (answer_continue E nid)" "keeps (answer_error E nid e)" "keeps (still_valid E nid)"
  "keeps (send_error E nid e)" "keeps (respond_continue_or_deny E nid d)"
  "keeps (respond_broker_result E nid res flags)"
  by (auto simp: answer_continue_def answer_error_def still_valid_def respond_continue_or_deny_def
      respond_broker_result_def send_continue_def send_error_def send_success_def send_def send_addfd_def
      id_valid_def tolerate_dead_def intro!: keeps_rules split: sum.split decision.split broker_result.split)

lemma keeps_broker_call [keeps_rules]: "keeps m \<Longrightarrow> keeps (broker_call m)"
  unfolding broker_call_def by (intro keeps_rules)

lemma keeps_ipc [keeps_rules]: "keeps (ipc E req passed)"
  unfolding ipc_def by (intro keeps_rules) simp

lemma keeps_decode_result [keeps_rules]: "keeps (decode_result r)"
  by (cases r; cases "fst r"; cases "snd r") (auto simp: decode_result_def intro!: keeps_rules)

lemma keeps_broker [keeps_rules]:
  "keeps (commit_open E p flags m)" "keeps (commit_mutation E p q op)" "keeps (release E p)"
  "keeps (network E nop socket address payload nflags)" "keeps (prepare_path E b path follow missing)"
  unfolding commit_open_def commit_mutation_def release_def network_def prepare_path_def
  by (intro keeps_rules; auto intro!: keeps_rules split: broker_response.split option.split)+

lemma keeps_settle_asks [keeps_rules]: "keeps (settle_asks E c asks)"
  by (auto simp: settle_asks_def intro!: keeps_rules split: attendance.split)

lemma keeps_resolve [keeps_rules]: "keeps (resolve_decision E c req)"
  unfolding resolve_decision_def Let_def by (intro keeps_rules)

lemma keeps_realization_deny [keeps_rules]: "keeps (record_realization_deny E n ts name p dest access e)"
  unfolding record_realization_deny_def by (intro keeps_rules)

lemma keeps_prepare_operands [keeps_rules]:
  assumes "\<And>p q. keeps (k p q)"
  shows "keeps (prepare_operands E n ts sh b p dest access invo k)"
  unfolding prepare_operands_def Let_def
  by (auto intro!: keeps_rules assms split: option.split prod.split result_or_path.split broker_result.split)

lemma keeps_release_all [keeps_rules]: "keeps (release_all E p q)"
  unfolding release_all_def by (intro keeps_rules)

lemma keeps_decide_operands [keeps_rules]: "keeps (decide_operands E c access invo p q)"
  unfolding decide_operands_def Let_def by (intro keeps_rules)

lemma keeps_commit_operands [keeps_rules]: "keeps (commit_operands E invo p q)"
  by (cases invo) (auto simp: commit_operands_def intro!: keeps_rules split: option.split)

lemma keeps_handle_fs_enforce [keeps_rules]: "keeps (handle_fs_enforce E n c ts sh p dest access invo)"
  unfolding handle_fs_enforce_def by (intro keeps_rules)

lemma keeps_deny_unreadable [keeps_rules]: "keeps (deny_unreadable E n ts name)"
  unfolding deny_unreadable_def by (intro keeps_rules)

lemma keeps_handle_fs [keeps_rules]: "keeps (handle_fs E n c ts sh)"
  unfolding handle_fs_def by (intro keeps_rules)

lemma keeps_handle_exec [keeps_rules]: "keeps (handle_exec E n c ts)"
  unfolding handle_exec_def Let_def by (intro keeps_rules)

lemma keeps_handle_process [keeps_rules]: "keeps (handle_process E n c ts)"
  unfolding handle_process_def process_flags_def Let_def by (intro keeps_rules)

lemma keeps_handle_cross_process [keeps_rules]: "keeps (handle_cross_process E n c ts)"
  unfolding handle_cross_process_def target_in_tree_def Let_def by (intro keeps_rules)

lemma keeps_network_read_failure [keeps_rules]: "keeps (record_network_read_failure E n c ts name)"
  unfolding record_network_read_failure_def Let_def by (intro keeps_rules)

lemma keeps_realize_network [keeps_rules]: "keeps (realize_network E n c sa payload)"
  unfolding realize_network_def duplicate_fd_def Let_def
  by (intro keeps_rules) simp_all

lemma keeps_settle_network [keeps_rules]: "keeps (settle_network E n c ts name sa payload)"
  unfolding settle_network_def Let_def by (intro keeps_rules)

lemma keeps_read_payload [keeps_rules]: "keeps (read_payload E n c)"
  unfolding read_payload_def by (intro keeps_rules)

lemma keeps_handle_network [keeps_rules]: "keeps (handle_network E n c ts)"
  unfolding handle_network_def Let_def by (intro keeps_rules)

lemma keeps_handle_notification [keeps_rules]: "keeps (handle_notification E c n ts)"
  unfolding handle_notification_def deny_unsupported_def by (intro keeps_rules)

section \<open>The loop\<close>

lemma keeps_abort_run [keeps_rules]: "keeps (abort_run E)"
  unfolding abort_run_def by (intro keeps_rules) simp_all

lemma keeps_now [keeps_rules]:
  "(\<And>h. keeps (f h)) \<Longrightarrow>
   keeps (\<lambda>w. bindE (tryE (handle_notification E c n (env_now_ms E (w_log w)))) f w)"
  using keeps_bind [OF keeps_try [OF keeps_handle_notification], of f c n]
  by (simp add: keeps_def)

lemma keeps_loop_turn: "keeps (loop_turn E c)"
  unfolding loop_turn_def by (intro keeps_rules) simp_all

lemma keeps_serve: "I (w_log w) \<Longrightarrow> serve k E c w = Some (r, w') \<Longrightarrow> I (w_log w')"
proof (induction k arbitrary: w)
  case (Suc k)
  obtain t w1 where t: "loop_turn E c w = (t, w1)" by (cases "loop_turn E c w")
  with keeps_loop_turn [of c] Suc.prems(1) have "I (w_log w1)" by (simp add: keeps_def) (metis snd_conv)
  with Suc t show ?case by (auto split: sum.splits option.splits)
qed simp

lemma keeps_run_loop:
  assumes "I (w_log w)" and "run_loop fuel E c w = Some (r, w')"
  shows "I (w_log w')"
proof -
  have end_ok: "I (w_log w2)" if "I (w_log w1)" "m w1 = (x, w2)" "keeps m" for m :: "('e, 'a) act" and x w1 w2
    using that by (simp add: keeps_def) (metis snd_conv)
  show ?thesis
  proof (cases "validate_config c")
    case (Inl e)
    have "keeps (bindE (abort_run E) (\<lambda>_. failE e) :: (run_error, int) act)" by (intro keeps_rules)
    with end_ok [OF assms(1), of _ r w'] assms(2) Inl show ?thesis by (simp add: run_loop_def)
  next
    case (Inr c')
    with assms(2) obtain t w1 where t: "serve fuel E c' w = Some (t, w1)"
      by (auto simp: run_loop_def split: option.splits)
    note I = keeps_serve [OF assms(1) t]
    have "keeps (bindE (call (\<lambda>h. env_wait E h) Wait) (liftE NotifyFailed) :: (run_error, int) act)"
      by (intro keeps_rules) simp
    with end_ok [OF I, of _ r w'] I assms(2) Inr t show ?thesis
      by (auto simp: run_loop_def split: sum.splits)
  qed
qed

end

section \<open>Failed appends\<close>

text \<open>A run that has seen an append fail is past answering.\<close>

fun doomed :: "run_state \<Rightarrow> bool" where
  "doomed (Handling n (St p live clean ts)) = (p = AppendFailed)"
| "doomed Idle = False"
| "doomed s = True"

lemma doomed_not_ready: "doomed s \<Longrightarrow> \<not> ready s"
  by (auto simp: ready_def split: run_state.splits elim!: doomed.elims)

fun failed :: "notify_state \<Rightarrow> bool" where
  "failed (St p live clean ts) = (p = AppendFailed)"

lemma doomed_Handling: "doomed (Handling n q) = failed q"
  by (cases q) simp

lemma ipc_failed: "ipc_step q req r = Some q' \<Longrightarrow> failed q \<Longrightarrow> failed q'"
  by (cases q; cases req) (auto split: option.splits sum.splits if_splits)

lemma append_failed:
  assumes "notify_step n q (Append ts b r) = Some q'"
  shows "\<not> failed q" and "\<exists>ev. b = SyscallBody ev" and "r = Inl e \<Longrightarrow> failed q'"
proof -
  obtain p live clean pins where q: "q = St p live clean pins" by (cases q)
  show b: "\<exists>ev. b = SyscallBody ev" using assms by (cases b) (simp_all add: q)
  then obtain ev where ev: "b = SyscallBody ev" ..
  show "\<not> failed q" using assms by (auto simp: q ev split: if_splits)
  show "failed q'" if "r = Inl e" using assms by (auto simp: q ev that split: if_splits)
qed

lemma notify_failed: "notify_step n q a = Some q' \<Longrightarrow> failed q \<Longrightarrow> failed q'"
proof (cases a)
  case (Append ts b r)
  assume "notify_step n q a = Some q'" and "failed q"
  with Append append_failed(1) show ?thesis by blast
next
  case (Ipc req passed r)
  assume "notify_step n q a = Some q'" and "failed q"
  with Ipc ipc_failed show ?thesis by (cases q) auto
qed (cases q; auto split: if_splits)+

lemma doomed_stays:
  assumes "run_step s a = Some s'" and "doomed s"
  shows "doomed s'"
proof (cases s)
  case (Handling n q)
  with assms(2) have q: "failed q" by (simp add: doomed_Handling)
  have unfinished: "\<not> finished q h" for h using q by (cases q; cases h) auto
  from assms(1) Handling have step: "handling_step n q a = Some s'" by simp
  consider r where "a = Poll r" | r where "a = Wait r" | "a = Kill"
    | "handling_step n q a = (case notify_step n q a of
        Some q' \<Rightarrow> Some (Handling n q') | None \<Rightarrow> if failsafe_answer n a then Some Failing else None)"
    by (cases a) auto
  then show ?thesis
    using step unfinished notify_failed [OF _ q] by cases (auto simp: doomed_Handling split: option.splits if_splits)
qed (use assms in \<open>cases a; simp\<close>)+

lemma append_steps:
  assumes "run_step s (Append ts b r) = Some s'"
  shows "(\<exists>ev. b = SyscallBody ev) \<and> (\<forall>e. r = Inl e \<longrightarrow> doomed s')"
proof (cases s)
  case (Handling n q)
  with assms obtain q' where "notify_step n q (Append ts b r) = Some q'" "s' = Handling n q'"
    by (auto simp: failsafe_answer_def split: option.splits)
  with append_failed(2,3) show ?thesis by (auto simp: doomed_Handling)
qed (use assms in simp_all)

lemma ready_run_appends:
  "steps run_step as s = Some s' \<Longrightarrow> ready s' \<Longrightarrow>
   \<not> doomed s \<and> (\<forall>ts b r. Append ts b r \<in> set as \<longrightarrow> r = Inr () \<and> (\<exists>ev. b = SyscallBody ev))"
proof (induction as arbitrary: s)
  case Nil
  then show ?case using doomed_not_ready by auto
next
  case (Cons a as)
  then obtain s1 where s1: "run_step s a = Some s1" "steps run_step as s1 = Some s'" by (auto split: option.splits)
  with Cons.IH Cons.prems(2) have rest: "\<not> doomed s1"
    "\<forall>ts b r. Append ts b r \<in> set as \<longrightarrow> r = Inr () \<and> (\<exists>ev. b = SyscallBody ev)" by blast+
  moreover have "r = Inr () \<and> (\<exists>ev. b = SyscallBody ev)" if "a = Append ts b r" for ts b r
    using append_steps [of s ts b r s1] s1(1) that rest(1) by (cases r) auto
  moreover have "\<not> doomed s" using doomed_stays [OF s1(1)] rest(1) by blast
  ultimately show ?case by auto
qed

text \<open>A run that returned a wait status appended every event it tried to, and only system call events.\<close>

lemma completed_run_appends:
  assumes "sane_errors E" and "run_loop fuel E c w = Some (Inr status, w')"
  shows "\<exists>as. w_log w' = w_log w @ as \<and>
    (\<forall>ts b r. Append ts b r \<in> set as \<longrightarrow> r = Inr () \<and> (\<exists>ev. b = SyscallBody ev))"
proof -
  have "validate_config c \<noteq> Inl e" for e
    using assms(2) by (auto simp: run_loop_def abort_run_def eff_defs call_def Let_def)
  then obtain c' where c': "validate_config c = Inr c'" by (cases "validate_config c") auto
  with assms(2) obtain w1 u where w1: "serve fuel E c' w = Some (Inr u, w1)"
    by (auto simp: run_loop_def split: option.splits sum.splits prod.splits)
  from serve_ok [OF assms(1) _ w1, of Idle] obtain as s where
    as: "w_log w1 = w_log w @ as" "steps run_step as Idle = Some s" "ready s" by (auto simp: ready_def)
  have "w_log w' = w_log w1 @ [Wait (env_wait E (w_log w1))]"
    using assms(2) c' w1 by (auto simp: run_loop_def eff_defs call_def log_action_def Let_def split: sum.splits)
  with as(1) ready_run_appends [OF as(2,3)] show ?thesis by (intro exI [of _ "as @ [Wait (env_wait E (w_log w1))]"]) auto
qed

end
