(* ===== verification/Session_Claims.thy ===== *)
theory Session_Claims imports Session Report_Claims Notify_Trace Notify_Claims begin

text \<open>
  What a session guarantees, from the probes to the report: in which order it touches the outside, what
  the child is launched behind, and that the report it writes summarises exactly what the notify loop
  recorded. The session is a client of the notify loop through the interface of \<open>Notify_Trace\<close>.
\<close>

section \<open>The wait status\<close>

lemma of_nat_of_unat: "unat w = n \<Longrightarrow> w = (of_nat n :: 32 word)"
  by (metis of_nat_unat ucast_id)

lemma low_bits: "unat (status AND 0x7f :: 32 word) = unat status mod 128"
proof -
  have e: "status AND 0x7f = take_bit 7 status" by (simp add: take_bit_eq_mask mask_numeral)
  show ?thesis unfolding e take_bit_eq_mod by (simp add: unat_mod)
qed

lemma sint_small: "n < 2 ^ 31 \<Longrightarrow> sint (of_nat n :: 32 word) = int n"
  by (simp add: signed_of_nat signed_take_bit_int_eq_self)

lemma exit_bits: "sint (signed_drop_bit 8 status AND 0xff :: 32 word) = int (unat status div 256 mod 256)"
proof -
  have "signed_drop_bit 8 status AND mask 8 = take_bit 8 (drop_bit 8 status)"
    by (rule bit_word_eqI) (auto simp: bit_simps bit_signed_drop_bit_iff)
  then have e: "signed_drop_bit 8 status AND 0xff = take_bit 8 (drop_bit 8 status)"
    by (simp add: mask_numeral)
  have "unat (take_bit 8 (drop_bit 8 status)) = unat status div 256 mod 256"
    unfolding take_bit_eq_mod drop_bit_eq_div by (simp add: unat_mod unat_div)
  then have "take_bit 8 (drop_bit 8 status) = of_nat (unat status div 256 mod 256)" by (rule of_nat_of_unat)
  then show ?thesis unfolding e using sint_small [of "unat status div 256 mod 256"] by simp
qed

lemma signal_bits:
  fixes low :: "32 word"
  assumes "unat low < 128"
  shows "0 < sint (signed_drop_bit 1 (ucast (low + 1) :: 8 word)) \<longleftrightarrow> unat low \<noteq> 0 \<and> unat low \<noteq> 127"
proof -
  define k where "k = unat low"
  have low: "low + 1 = of_nat (k + 1)" by (simp add: k_def)
  have "ucast (low + 1) = (of_nat (k + 1) :: 8 word)"
    unfolding low using assms by (subst unsigned_of_nat) (simp add: k_def take_bit_eq_mod)
  then have "sint (signed_drop_bit 1 (ucast (low + 1) :: 8 word)) = sint (of_nat (k + 1) :: 8 word) div 2"
    by (simp add: sint_signed_drop_bit_eq drop_bit_eq_div)
  also have "sint (of_nat (k + 1) :: 8 word) = (if k = 127 then -128 else int k + 1)"
  proof (cases "k = 127")
    case False
    then have "k + 1 < 128" using assms by (simp add: k_def)
    moreover have "sint (of_nat n :: 8 word) = int n" if "n < 128" for n
      using that by (simp add: signed_of_nat signed_take_bit_int_eq_self)
    ultimately have "sint (of_nat (k + 1) :: 8 word) = int (k + 1)" by blast
    then show ?thesis using False by simp
  qed simp
  finally show ?thesis by (auto simp: k_def [symmetric])
qed

lemma decode_exact:
  "decode_wait_status status =
     (let low = unat status mod 128
      in if low = 0 then Inr (Exited (int (unat status div 256 mod 256)))
         else if low = 127 then Inl status else Inr (Signaled (int low)))"
proof -
  define low where "low = status AND 0x7f"
  define k where "k = unat status mod 128"
  have k: "unat low = k" "k < 128" by (simp_all add: low_def k_def low_bits)
  have "low = of_nat k" using of_nat_of_unat [OF k(1)] .
  then have "sint low = int k" using sint_small [of k] k(2) by simp
  moreover have "low = 0 \<longleftrightarrow> k = 0" using k(1) by (simp flip: unat_eq_0)
  ultimately have decode: "decode_wait_status status =
      (if k = 0 then Inr (Exited (int (unat status div 256 mod 256)))
       else if k = 127 then Inl status else Inr (Signaled (int k)))"
    using signal_bits [of low] k exit_bits [of status]
    by (simp add: decode_wait_status_def low_def [symmetric] Let_def)
  show ?thesis unfolding decode by (simp add: k_def [symmetric] Let_def)
qed

lemma decode_bounds:
  "case decode_wait_status status of Inl s \<Rightarrow> s = status
   | Inr (Exited n) \<Rightarrow> 0 \<le> n \<and> n \<le> 255 | Inr (Signaled g) \<Rightarrow> 1 \<le> g \<and> g \<le> 126"
proof -
  have "unat status mod 128 < 128" by simp
  then show ?thesis unfolding decode_exact by (auto simp: Let_def simp del: mod_less_divisor)
qed

section \<open>What is written to the trace\<close>

text \<open>The bytes of the writes that succeeded, and whether a write has failed.\<close>

fun written :: "session_call list \<Rightarrow> string" where
  "written [] = []"
| "written (TraceWrite l (Inr u) # cs) = l @ written cs"
| "written (c # cs) = written cs"

definition no_failed_write :: "session_call list \<Rightarrow> bool" where
  "no_failed_write h \<longleftrightarrow> (\<forall>l e. TraceWrite l (Inl e) \<notin> set h)"

fun is_trace_write :: "session_call \<Rightarrow> bool" where
  "is_trace_write (TraceWrite l r) = True"
| "is_trace_write _ = False"

lemma written_append [simp]: "written (a @ b) = written a @ written b"
  by (induction a rule: written.induct) simp_all

lemma written_none: "\<forall>c \<in> set cs. \<not> is_trace_write c \<Longrightarrow> written cs = [] \<and> no_failed_write cs"
  unfolding no_failed_write_def by (induction cs rule: written.induct) auto

lemma no_failed_write_append [simp]: "no_failed_write (a @ b) \<longleftrightarrow> no_failed_write a \<and> no_failed_write b"
  by (auto simp: no_failed_write_def)

text \<open>From \<open>s\<close> to \<open>s'\<close> the trace has taken exactly the events \<open>bs\<close>, one line each.\<close>

definition records :: "session_env \<Rightarrow> (nat \<times> event_body) list \<Rightarrow> session_state \<Rightarrow> session_state \<Rightarrow> bool" where
  "records K bs s s' \<longleftrightarrow>
     (\<exists>ls xs. encode_all (se_encode K) (ses_next_seq s) bs = Inr ls \<and> ses_log s' = ses_log s @ xs \<and>
        written xs = concat (map (\<lambda>l. l @ [newline]) ls) \<and> no_failed_write xs \<and>
        ses_next_seq s' = ses_next_seq s + length bs)"

lemma encode_all_append:
  "encode_all encode n bs = Inr ls \<Longrightarrow> encode_all encode (n + length bs) cs = Inr ms \<Longrightarrow>
   encode_all encode n (bs @ cs) = Inr (ls @ ms)"
proof (induction bs arbitrary: n ls)
  case (Cons b bs)
  then show ?case by (cases b) (auto simp: result_simps)
qed simp

lemma records_trans: "records K bs s s' \<Longrightarrow> records K cs s' s'' \<Longrightarrow> records K (bs @ cs) s s''"
  unfolding records_def by (auto dest: encode_all_append)

lemma records_refl: "records K [] s s"
  by (simp add: records_def no_failed_write_def)

lemma records_nothing:
  "ses_log s' = ses_log s @ xs \<Longrightarrow> \<forall>c \<in> set xs. \<not> is_trace_write c \<Longrightarrow> ses_next_seq s' = ses_next_seq s \<Longrightarrow>
   records K [] s s'"
  using written_none by (auto simp: records_def)

lemma trace_append_session:
  assumes "trace_append (se_encode K) (trace_ops K) ts b (writer_of s) = (Inr n, w)"
  shows "\<exists>line. se_encode K \<lparr>e_seq = ses_next_seq s, e_ts = ts, e_body = b\<rparr> = Inr line \<and>
    ses_log (of_writer w) = ses_log s @ [TraceWrite (line @ [newline]) (Inr ())] \<and>
    ses_next_seq (of_writer w) = Suc (ses_next_seq s)"
  using trace_append_Ok [OF assms]
  by (auto simp: writer_of_def of_writer_def trace_ops_def Let_def)

lemma records_append:
  assumes "trace_append (se_encode K) (trace_ops K) ts b (writer_of s) = (Inr n, w)"
  shows "records K [(ts, b)] s (of_writer w)"
  using trace_append_session [OF assms] by (auto simp: records_def no_failed_write_def)

lemma writer_of_writer [simp]: "writer_of (of_writer w) = w" "of_writer (writer_of s) = s"
  by (simp_all add: writer_of_def of_writer_def)

section \<open>The loop's appends\<close>

fun appended :: "action list \<Rightarrow> (nat \<times> event_body) list" where
  "appended [] = []"
| "appended (Append ts b r # as) = (ts, b) # appended as"
| "appended (a # as) = appended as"

lemma appended_append [simp]: "appended (as @ bs) = appended as @ appended bs"
  by (induction as rule: appended.induct) simp_all

lemma replay_append: "replay K (as @ bs) w = replay K bs (replay K as w)"
  by (induction K as w rule: replay.induct) simp_all

definition replays :: "session_env \<Rightarrow> session_state \<Rightarrow> action list \<Rightarrow> bool" where
  "replays K s h \<longleftrightarrow>
     ((\<forall>ts b e. Append ts b (Inl e) \<notin> set h) \<longrightarrow> records K (appended h) s (of_writer (replay K h (writer_of s))))"

lemma env_append_loop:
  "env_append (loop_env K s) h ts b =
     map_sum id (\<lambda>_. ()) (fst (trace_append (se_encode K) (trace_ops K) ts b (replay K h (writer_of s))))"
  by (simp add: loop_env_def)

interpretation trace_log: append_log "loop_env K s" "replays K s" for K s
proof
  show "replays K s (h @ [a])" if "replays K s h" "\<not> is_append a" for h a
    using that by (cases a) (auto simp: replays_def replay_append)
  show "replays K s (h @ [Append ts b (env_append (loop_env K s) h ts b)])" if "replays K s h" for h ts b
  proof -
    let ?w = "replay K h (writer_of s)"
    obtain r w where r: "trace_append (se_encode K) (trace_ops K) ts b ?w = (r, w)" by (metis surj_pair)
    show ?thesis
    proof (cases r)
      case (Inl e)
      then have "Append ts b (Inl e) \<in> set (h @ [Append ts b (env_append (loop_env K s) h ts b)])"
        by (simp add: env_append_loop r)
      then show ?thesis unfolding replays_def by blast
    next
      case (Inr n)
      have "records K [(ts, b)] (of_writer ?w) (of_writer w)"
        using records_append [of K ts b "of_writer ?w" n w] r Inr by simp
      with that show ?thesis
        by (auto simp: replays_def replay_append r env_append_loop Inr intro: records_trans)
    qed
  qed
qed

lemma sane_loop_env: "sane_errors (se_kernel K h) \<Longrightarrow> h = ses_log s \<Longrightarrow> sane_errors (loop_env K s)"
  by (simp add: sane_errors_def loop_env_def)

text \<open>A loop that ended with a wait status has put exactly the events of its log on the trace.\<close>

lemma serve_loop_records:
  assumes "serve_loop fuel K c s = Some (Inr status, s')" and "\<forall>h. sane_errors (se_kernel K h)"
  shows "\<exists>as s1. records K (appended as) s s1 \<and> s' = log_call (ServeLoop as (Inr status)) s1 \<and>
    (\<forall>(t, b) \<in> set (appended as). \<exists>ev. b = SyscallBody ev)"
proof -
  let ?w0 = "\<lparr>w_log = [], w_next_seq = ses_next_seq s\<rparr>"
  obtain w where w: "run_loop fuel (loop_env K s) c ?w0 = Some (Inr status, w)"
    "s' = log_call (ServeLoop (w_log w) (Inr status)) (of_writer (replay K (w_log w) (writer_of s)))"
    using assms(1) by (auto simp: serve_loop_def map_sum_def split: option.splits sum.splits prod.splits)
  have "sane_errors (loop_env K s)" using assms(2) sane_loop_env by blast
  from completed_run_appends [OF this w(1)]
  have ok: "\<forall>ts b r. Append ts b r \<in> set (w_log w) \<longrightarrow> r = Inr () \<and> (\<exists>ev. b = SyscallBody ev)" by auto
  have "replays K s []" by (simp add: replays_def records_refl)
  with trace_log.keeps_run_loop [OF _ w(1)] have "replays K s (w_log w)" by simp
  moreover have "\<forall>ts b e. Append ts b (Inl e) \<notin> set (w_log w)" using ok by blast
  moreover have "(t, b) \<in> set (appended as) \<Longrightarrow> \<exists>r. Append t b r \<in> set as" for t b as
    by (induction as rule: appended.induct) auto
  ultimately show ?thesis using w(2) ok by (intro exI [of _ "w_log w"]) (auto simp: replays_def, blast)
qed

section \<open>The calls of each stage\<close>

named_theorems logs_rules \<open>stages whose calls all satisfy a predicate\<close>

definition logs :: "(session_call \<Rightarrow> bool) \<Rightarrow> 'a session \<Rightarrow> bool" where
  "logs P m \<longleftrightarrow> (\<forall>s. \<exists>xs. ses_log (snd (m s)) = ses_log s @ xs \<and> (\<forall>c \<in> set xs. P c))"

lemma logsD: "logs P m \<Longrightarrow> m s = (r, s') \<Longrightarrow> \<exists>xs. ses_log s' = ses_log s @ xs \<and> (\<forall>c \<in> set xs. P c)"
  unfolding logs_def by (metis snd_conv)

lemma logs_ret [logs_rules]: "logs P (retE x)"
  by (simp add: logs_def retE_def)

lemma logs_fail [logs_rules]: "logs P (failE e)"
  by (simp add: logs_def failE_def)

lemma logs_lift [logs_rules]: "logs P (liftE g r)"
  by (cases r) (simp_all add: liftE_def logs_ret logs_fail)

lemma logs_bind [logs_rules]:
  assumes "logs P m" and "\<And>x. logs P (f x)"
  shows "logs P (bindE m f)"
  unfolding logs_def
proof
  fix s
  obtain r s1 where r: "m s = (r, s1)" by (cases "m s")
  from logsD [OF assms(1) r] obtain xs where xs: "ses_log s1 = ses_log s @ xs" "\<forall>c \<in> set xs. P c" by blast
  show "\<exists>xs. ses_log (snd (bindE m f s)) = ses_log s @ xs \<and> (\<forall>c \<in> set xs. P c)"
  proof (cases r)
    case (Inl e)
    with r xs show ?thesis by (auto simp: bindE_def)
  next
    case (Inr x)
    obtain r2 s2 where r2: "f x s1 = (r2, s2)" by (cases "f x s1")
    from logsD [OF assms(2) r2] obtain ys where "ses_log s2 = ses_log s1 @ ys" "\<forall>c \<in> set ys. P c" by blast
    with r r2 xs Inr show ?thesis by (auto simp: bindE_def)
  qed
qed

lemma logs_outside [logs_rules]: "(\<And>r. P (mk r)) \<Longrightarrow> logs P (outside answer mk)"
  by (simp add: logs_def outside_def Let_def)

lemma logs_attempt [logs_rules]: "(\<And>r. P (mk r)) \<Longrightarrow> logs P (attempt err answer mk)"
  unfolding attempt_def by (intro logs_rules)

lemma logs_announce [logs_rules]: "P (Announce msg) \<Longrightarrow> logs P (announce msg)"
  by (simp add: logs_def announce_def log_call_def)

lemma logs_at: "(\<And>w. logs P (m w)) \<Longrightarrow> logs P (\<lambda>w. m w w)"
  by (simp add: logs_def)

lemma logs_lift_at [logs_rules]: "logs P (\<lambda>s. liftE g (r s) s)"
  by (rule logs_at [where m = "\<lambda>s. liftE g (r s)"]) (rule logs_lift)

lemma logs_bind_lift_at [logs_rules]: "(\<And>x. logs P (f x)) \<Longrightarrow> logs P (\<lambda>s. bindE (liftE g (r s)) f s)"
  by (rule logs_at [where m = "\<lambda>s. bindE (liftE g (r s)) f"]) (rule logs_bind [OF logs_lift])

lemma logs_if: "logs P m \<Longrightarrow> logs P m' \<Longrightarrow> logs P (if b then m else m')"
  by simp

lemma logs_case_prod [logs_rules]: "(\<And>a b. logs P (f a b)) \<Longrightarrow> logs P (case x of (a, b) \<Rightarrow> f a b)"
  by (cases x) simp

lemma logs_append_event [logs_rules]: "(\<And>l r. P (TraceWrite l r)) \<Longrightarrow> logs P (append_event K ts b)"
  by (auto simp: logs_def append_event_def trace_append_def trace_ops_def writer_of_def of_writer_def Let_def
      split: prod.splits sum.splits)

lemma logs_sync_trace [logs_rules]:
  "(\<And>r. P (TraceFlush r)) \<Longrightarrow> (\<And>r. P (TraceSync r)) \<Longrightarrow> logs P (sync_trace K)"
  by (auto simp: logs_def sync_trace_def trace_sync_def trace_ops_def writer_of_def of_writer_def Let_def
      split: prod.splits sum.splits)

text \<open>The calls of the preparation, and the calls that are not the launch of the child.\<close>

fun preparing :: "session_call \<Rightarrow> bool" where
  "preparing (LandlockSetup h cs r) = True"
| "preparing (CreateDirAll p r) = True"
| "preparing (CreateDir p r) = True"
| "preparing (CreateNew p r) = True"
| "preparing (WriteFile p t r) = True"
| "preparing (SyncFile p r) = True"
| "preparing c = False"

fun launches :: "session_call \<Rightarrow> bool" where
  "launches (SpawnChild argv m f r) = True"
| "launches c = False"

abbreviation no_launch :: "session_call \<Rightarrow> bool" where "no_launch \<equiv> \<lambda>c. \<not> launches c"

lemma now_ms_logs [logs_rules]: "logs P (now_ms K)"
  unfolding now_ms_def by (intro logs_rules)

lemma prepare_enforcement_logs: "logs preparing (prepare_enforcement K spec abi)"
  unfolding prepare_enforcement_def Let_def
  by (auto intro!: logs_rules split: option.split prod.split)

lemma create_run_dir_logs: "logs preparing (create_run_dir K root meta)"
  unfolding create_run_dir_def Let_def by (intro logs_rules) simp_all

lemma open_trace_logs: "logs preparing (open_trace K d)"
proof -
  have "logs preparing (\<lambda>s. (Inr (), s\<lparr>ses_next_seq := 0\<rparr>))" by (simp add: logs_def)
  then show ?thesis unfolding open_trace_def Let_def by (intro logs_rules) simp
qed

lemma finish_run_logs: "logs no_launch (finish_run K d status)"
  unfolding finish_run_def Let_def by (intro logs_rules) (auto intro!: logs_rules split: exit_disposition.split)

lemma start_trace_logs: "logs no_launch (start_trace K meta)"
  unfolding start_trace_def by (intro logs_rules) simp_all

lemma spawn_broker_logs: "logs no_launch (spawn_broker K spec m ruleset)"
  by (cases m) (auto simp: spawn_broker_def intro!: logs_rules)

lemma replay_logs: "\<exists>xs. ses_log (of_writer (replay K h w)) = ses_log (of_writer w) @ xs \<and> (\<forall>c \<in> set xs. is_trace_write c)"
proof (induction K h w rule: replay.induct)
  case (2 K ts body r as w)
  obtain q v where v: "trace_append (se_encode K) (trace_ops K) ts body w = (q, v)" by (metis surj_pair)
  have "\<exists>xs. ses_log (of_writer v) = ses_log (of_writer w) @ xs \<and> (\<forall>c \<in> set xs. is_trace_write c)"
    using v by (auto simp: trace_append_def trace_ops_def of_writer_def Let_def split: sum.splits)
  with 2 v show ?case by auto
qed simp_all

lemma serve_loop_logs:
  assumes "serve_loop fuel K c s = Some (r, s')"
  shows "\<exists>xs. ses_log s' = ses_log s @ xs \<and> (\<forall>c \<in> set xs. no_launch c)"
proof -
  have "\<exists>q (w :: world). s' = log_call (ServeLoop (w_log w) q) (of_writer (replay K (w_log w) (writer_of s)))"
    using assms by (auto simp: serve_loop_def split: option.splits prod.splits)
  then obtain q and w :: world where "s' = log_call (ServeLoop (w_log w) q) (of_writer (replay K (w_log w) (writer_of s)))"
    by blast
  moreover obtain xs where "ses_log (of_writer (replay K (w_log w) (writer_of s))) = ses_log s @ xs"
    "\<forall>c \<in> set xs. is_trace_write c" using replay_logs [of K "w_log w" "writer_of s"] by auto
  moreover have "is_trace_write c \<Longrightarrow> no_launch c" for c by (cases c) simp_all
  ultimately show ?thesis by (auto simp: log_call_def)
qed

section \<open>The order of a run\<close>

text \<open>A line durably on the trace: written, flushed and synced.\<close>

definition committed :: "string \<Rightarrow> session_call list" where
  "committed line = [TraceWrite (line @ [newline]) (Inr ()), TraceFlush (Inr ()), TraceSync (Inr ())]"

lemma sync_trace_ok:
  assumes "sync_trace K s = (Inr (), s')"
  shows "ses_log s' = ses_log s @ [TraceFlush (Inr ()), TraceSync (Inr ())]" and "ses_next_seq s' = ses_next_seq s"
  using assms by (auto simp: sync_trace_def trace_sync_def trace_ops_def writer_of_def of_writer_def Let_def
      split: prod.splits sum.splits)

lemma append_event_ok:
  assumes "append_event K ts b s = (Inr (), s')"
  shows "\<exists>line. se_encode K \<lparr>e_seq = ses_next_seq s, e_ts = ts, e_body = b\<rparr> = Inr line \<and>
    ses_log s' = ses_log s @ [TraceWrite (line @ [newline]) (Inr ())] \<and> records K [(ts, b)] s s'"
proof -
  obtain n w where w: "trace_append (se_encode K) (trace_ops K) ts b (writer_of s) = (Inr n, w)" "s' = of_writer w"
    using assms by (auto simp: append_event_def map_sum_def split: prod.splits sum.splits)
  from trace_append_session [OF w(1)] records_append [OF w(1)] w(2) show ?thesis by auto
qed

lemma append_synced:
  assumes "append_event K ts b s = (Inr (), s1)" and "sync_trace K s1 = (Inr (), s')"
  shows "\<exists>line. se_encode K \<lparr>e_seq = ses_next_seq s, e_ts = ts, e_body = b\<rparr> = Inr line \<and>
    ses_log s' = ses_log s @ committed line \<and> records K [(ts, b)] s s'"
proof -
  have "records K [] s1 s'"
    by (rule records_nothing [OF sync_trace_ok(1) [OF assms(2)]]) (simp_all add: sync_trace_ok(2) [OF assms(2)])
  with append_event_ok [OF assms(1)] sync_trace_ok(1) [OF assms(2)] show ?thesis
    using records_trans [of K "[(ts, b)]" s s1 "[]" s'] by (auto simp: committed_def)
qed

lemma attempt_Inr:
  "attempt err answer mk s = (Inr x, s') \<longleftrightarrow>
   answer (ses_log s) = Inr x \<and> s' = s\<lparr>ses_log := ses_log s @ [mk (Inr x)]\<rparr>"
  by (auto simp: attempt_def bindE_def outside_def liftE_def retE_def failE_def Let_def split: sum.splits)

lemma retE_Inr: "retE y s = (Inr x, s') \<longleftrightarrow> x = y \<and> s' = s"
  by (auto simp: retE_def)

lemma announce_Inr: "announce msg s = (Inr x, s') \<longleftrightarrow> s' = log_call (Announce msg) s"
  by (auto simp: announce_def)

lemmas session_Inr = bindE_Inr attempt_Inr liftE_Inr retE_Inr announce_Inr

definition mode_notice :: "mode \<Rightarrow> string" where
  "mode_notice m = (case m of RecordOnly \<Rightarrow> record_only_notice | Enforce \<Rightarrow> ''leash: enforce run'')"

lemma start_trace_ok:
  assumes "start_trace K meta s = (Inr (), s')"
  shows "\<exists>line. se_encode K \<lparr>e_seq = ses_next_seq s, e_ts = rm_start_ts meta, e_body = RunStart meta\<rparr> = Inr line \<and>
    ses_log s' = ses_log s @ Announce (mode_notice (rm_mode meta)) # committed line \<and>
    records K [(rm_start_ts meta, RunStart meta)] s s'"
proof -
  let ?s = "log_call (Announce (mode_notice (rm_mode meta))) s"
  obtain s1 where s1: "append_event K (rm_start_ts meta) (RunStart meta) ?s = (Inr (), s1)" "sync_trace K s1 = (Inr (), s')"
    using assms by (auto simp: start_trace_def session_Inr mode_notice_def)
  have "records K [] s ?s"
    by (rule records_nothing [where xs = "[Announce (mode_notice (rm_mode meta))]"]) (simp_all add: log_call_def)
  with append_synced [OF s1] show ?thesis
    using records_trans [of K "[]" s ?s "[(rm_start_ts meta, RunStart meta)]" s'] by (auto simp: log_call_def)
qed

text \<open>In enforce mode the broker was spawned under the ruleset; in record-only there is none.\<close>

definition brokered :: "session_spec \<Rightarrow> mode \<Rightarrow> prepared_ruleset option \<Rightarrow> session_call list \<Rightarrow> bool" where
  "brokered spec m ruleset bs \<longleftrightarrow>
     (case m of RecordOnly \<Rightarrow> bs = []
      | Enforce \<Rightarrow> \<exists>rs. ruleset = Some rs \<and> bs = [SpawnBroker rs (sp_workspace spec) (Inr ())])"

lemma outside_Inr:
  "outside answer mk s = (Inr x, s') \<longleftrightarrow> x = answer (ses_log s) \<and> s' = s\<lparr>ses_log := ses_log s @ [mk x]\<rparr>"
  by (auto simp: outside_def Let_def)

lemma spawn_broker_ok:
  assumes "spawn_broker K spec m ruleset s = (Inr b, s')"
  shows "\<exists>bs. brokered spec m ruleset bs \<and> ses_log s' = ses_log s @ bs \<and> ses_next_seq s' = ses_next_seq s \<and>
    (b = None \<longleftrightarrow> m = RecordOnly)"
  using assms by (cases m) (auto simp: spawn_broker_def brokered_def session_Inr outside_Inr split: option.splits elim!: ok_or.elims)

lemma spawn_child_logs:
  "\<exists>res. ses_log (snd (spawn_child K spec m ruleset s)) =
     ses_log s @ [SpawnChild (sp_argv spec) m (map_option pr_ruleset ruleset) res] \<and>
   ses_next_seq (snd (spawn_child K spec m ruleset s)) = ses_next_seq s"
  by (simp add: spawn_child_def bindE_def outside_def liftE_def retE_def failE_def Let_def split: sum.splits)

text \<open>The launch of the child in the log of a run, whatever becomes of the run.\<close>

definition launched_by ::
  "session_env \<Rightarrow> session_spec \<Rightarrow> run_meta \<Rightarrow> nat \<Rightarrow> prepared_ruleset option \<Rightarrow> session_call list \<Rightarrow> bool" where
  "launched_by K spec meta seq ruleset xs \<longleftrightarrow>
     (\<exists>line bs res ys. xs = Announce (mode_notice (rm_mode meta)) # committed line @ bs @
          SpawnChild (sp_argv spec) (rm_mode meta) (map_option pr_ruleset ruleset) res # ys \<and>
        se_encode K \<lparr>e_seq = seq, e_ts = rm_start_ts meta, e_body = RunStart meta\<rparr> = Inr line \<and>
        brokered spec (rm_mode meta) ruleset bs \<and> (\<forall>c \<in> set ys. no_launch c))"

lemma launched_more:
  "launched_by K spec meta seq ruleset xs \<Longrightarrow> \<forall>c \<in> set ys. no_launch c \<Longrightarrow> launched_by K spec meta seq ruleset (xs @ ys)"
proof -
  assume ys: "\<forall>c \<in> set ys. no_launch c" and "launched_by K spec meta seq ruleset xs"
  then obtain line bs res zs where "xs = Announce (mode_notice (rm_mode meta)) # committed line @ bs @
      SpawnChild (sp_argv spec) (rm_mode meta) (map_option pr_ruleset ruleset) res # zs"
    "se_encode K \<lparr>e_seq = seq, e_ts = rm_start_ts meta, e_body = RunStart meta\<rparr> = Inr line"
    "brokered spec (rm_mode meta) ruleset bs" "\<forall>c \<in> set zs. no_launch c"
    unfolding launched_by_def by blast
  with ys show ?thesis
    unfolding launched_by_def by (intro exI [of _ line] exI [of _ bs] exI [of _ res] exI [of _ "zs @ ys"]) auto
qed

definition run_calls ::
  "session_env \<Rightarrow> session_spec \<Rightarrow> run_meta \<Rightarrow> prepared_ruleset option \<Rightarrow> session_state \<Rightarrow> session_state \<Rightarrow> bool" where
  "run_calls K spec meta ruleset s s' \<longleftrightarrow>
     (\<exists>xs. ses_log s' = ses_log s @ xs \<and>
        ((\<forall>c \<in> set xs. no_launch c) \<or> launched_by K spec meta (ses_next_seq s) ruleset xs))"

lemma run_calls_more:
  assumes "run_calls K spec meta ruleset s s1" and "ses_log s2 = ses_log s1 @ ys" and "\<forall>c \<in> set ys. no_launch c"
  shows "run_calls K spec meta ruleset s s2"
proof -
  obtain xs where xs: "ses_log s1 = ses_log s @ xs"
    "(\<forall>c \<in> set xs. no_launch c) \<or> launched_by K spec meta (ses_next_seq s) ruleset xs"
    using assms(1) by (auto simp: run_calls_def)
  have "(\<forall>c \<in> set (xs @ ys). no_launch c) \<or> launched_by K spec meta (ses_next_seq s) ruleset (xs @ ys)"
    using xs(2) assms(3) launched_more by auto
  with xs(1) assms(2) show ?thesis unfolding run_calls_def by (intro exI [of _ "xs @ ys"]) simp
qed

text \<open>The stages of \<open>run_with_writer\<close>, case by case.\<close>

lemma run_with_writer_cases [consumes 1, case_names early unspawned failed finished]:
  assumes "run_with_writer fuel K spec meta d es s = Some (r, s')"
  obtains (early) e where "r = Inl e"
      "bindE (start_trace K meta) (\<lambda>_. spawn_broker K spec (rm_mode meta) (es_ruleset es)) s = (Inl e, s')"
  | (unspawned) e broker s1 s2 where "r = Inl e"
      "bindE (start_trace K meta) (\<lambda>_. spawn_broker K spec (rm_mode meta) (es_ruleset es)) s = (Inr broker, s1)"
      "bindE (spawn_child K spec (rm_mode meta) (es_ruleset es)) (\<lambda>pid.
         liftE id (loop_config spec (rm_mode meta) pid (es_policy es) broker (es_resolved_hosts es))) s1 = (Inl e, s2)"
      "s' = (if broker = None then s2 else log_call StopBroker s2)"
  | (failed) e broker config s1 s2 s3 where "r = Inl e"
      "bindE (start_trace K meta) (\<lambda>_. spawn_broker K spec (rm_mode meta) (es_ruleset es)) s = (Inr broker, s1)"
      "bindE (spawn_child K spec (rm_mode meta) (es_ruleset es)) (\<lambda>pid.
         liftE id (loop_config spec (rm_mode meta) pid (es_policy es) broker (es_resolved_hosts es))) s1 = (Inr config, s2)"
      "serve_loop fuel K config s2 = Some (Inl e, s3)"
      "s' = (if broker = None then s3 else log_call StopBroker s3)"
  | (finished) broker config status s1 s2 s3 s4 where
      "bindE (start_trace K meta) (\<lambda>_. spawn_broker K spec (rm_mode meta) (es_ruleset es)) s = (Inr broker, s1)"
      "bindE (spawn_child K spec (rm_mode meta) (es_ruleset es)) (\<lambda>pid.
         liftE id (loop_config spec (rm_mode meta) pid (es_policy es) broker (es_resolved_hosts es))) s1 = (Inr config, s2)"
      "serve_loop fuel K config s2 = Some (Inr status, s3)"
      "finish_run K d (of_int status) s3 = (r, s4)"
      "s' = (if broker = None then s4 else log_call StopBroker s4)"
proof -
  let ?start = "bindE (start_trace K meta) (\<lambda>_. spawn_broker K spec (rm_mode meta) (es_ruleset es))"
  obtain q s1 where q: "?start s = (q, s1)" by (metis surj_pair)
  show thesis
  proof (cases q)
    case (Inl e)
    with assms q that(1) [of e] show thesis by (simp add: run_with_writer_def Let_def)
  next
    case (Inr broker)
    let ?spawn = "bindE (spawn_child K spec (rm_mode meta) (es_ruleset es)) (\<lambda>pid.
      liftE id (loop_config spec (rm_mode meta) pid (es_policy es) broker (es_resolved_hosts es)))"
    obtain p s2 where p: "?spawn s1 = (p, s2)" by (metis surj_pair)
    show thesis
    proof (cases p)
      case (Inl e)
      with assms q Inr p that(2) [of e broker s1 s2] show thesis by (simp add: run_with_writer_def Let_def)
    next
      case Config: (Inr config)
      from assms q Inr p Config obtain t s3 where t: "serve_loop fuel K config s2 = Some (t, s3)"
        by (auto simp: run_with_writer_def Let_def split: option.splits)
      show thesis
      proof (cases t)
        case (Inl e)
        with assms q Inr p Config t that(3) [of e broker s1 config s2 s3] show thesis
          by (simp add: run_with_writer_def Let_def)
      next
        case Status: (Inr status)
        obtain u s4 where "finish_run K d (of_int status) s3 = (u, s4)" by (metis surj_pair)
        with assms q Inr p Config t Status that(4) [of broker s1 config s2 status s3 s4] show thesis
          by (simp add: run_with_writer_def Let_def)
      qed
    qed
  qed
qed

lemma start_logs: "logs no_launch (bindE (start_trace K meta) (\<lambda>_. spawn_broker K spec m ruleset))"
  by (intro logs_bind start_trace_logs spawn_broker_logs)

lemma run_with_writer_calls:
  assumes "run_with_writer fuel K spec meta d es s = Some (r, s')"
  shows "run_calls K spec meta (es_ruleset es) s s'"
proof -
  note stop = run_calls_more [where ys = "[StopBroker]"]
  have spawned: "run_calls K spec meta (es_ruleset es) s s2"
    if start: "bindE (start_trace K meta) (\<lambda>_. spawn_broker K spec (rm_mode meta) (es_ruleset es)) s = (Inr broker, s1)"
      and spawn: "bindE (spawn_child K spec (rm_mode meta) (es_ruleset es)) (\<lambda>pid.
        liftE id (loop_config spec (rm_mode meta) pid (es_policy es) broker (es_resolved_hosts es))) s1 = (q, s2)"
    for broker s1 q s2
  proof -
    from start obtain s0 where s0: "start_trace K meta s = (Inr (), s0)"
      "spawn_broker K spec (rm_mode meta) (es_ruleset es) s0 = (Inr broker, s1)" by (auto simp: bindE_Inr)
    have "s2 = snd (spawn_child K spec (rm_mode meta) (es_ruleset es) s1)"
      using spawn by (auto simp: bindE_def liftE_def retE_def failE_def split: prod.splits sum.splits)
    with spawn_child_logs [of K spec "rm_mode meta" "es_ruleset es" s1] start_trace_ok [OF s0(1)] spawn_broker_ok [OF s0(2)]
    show ?thesis unfolding run_calls_def launched_by_def by fastforce
  qed
  from assms show ?thesis
  proof (cases rule: run_with_writer_cases)
    case (early e)
    from logsD [OF start_logs early(2)] show ?thesis by (auto simp: run_calls_def)
  next
    case (unspawned e broker s1 s2)
    with spawned [OF unspawned(2,3)] stop show ?thesis by (auto simp: log_call_def)
  next
    case (failed e broker config s1 s2 s3)
    from serve_loop_logs [OF failed(4)] run_calls_more [OF spawned [OF failed(2,3)]]
    have "run_calls K spec meta (es_ruleset es) s s3" by blast
    with failed(5) stop show ?thesis by (auto simp: log_call_def)
  next
    case (finished broker config status s1 s2 s3 s4)
    from serve_loop_logs [OF finished(3)] run_calls_more [OF spawned [OF finished(1,2)]]
    have "run_calls K spec meta (es_ruleset es) s s3" by blast
    with logsD [OF finish_run_logs finished(4)] run_calls_more
    have "run_calls K spec meta (es_ruleset es) s s4" by blast
    with finished(5) stop show ?thesis by (auto simp: log_call_def)
  qed
qed

section \<open>The whole session\<close>

lemma preflight_same_host: "preflight caps m = Proceed caps' mechanism reason \<Longrightarrow> caps' = caps"
  by (auto simp: preflight_def refuse_floor_def split: if_splits prod.splits)

text \<open>What enforcement is prepared from.\<close>

definition enforces :: "session_env \<Rightarrow> session_spec \<Rightarrow> capabilities \<Rightarrow> enforcement_setup \<Rightarrow> bool" where
  "enforces K spec caps es \<longleftrightarrow>
     (\<exists>p home loaded hosts ruleset calls.
        sp_policy_path spec = Some p \<and> se_home K = Some home \<and>
        load_with_digest (se_read_policy K) (se_sha256 K) (se_toml K) p
          \<lparr>ec_workspace = to_string_lossy (sp_workspace spec), ec_home = home\<rparr> = Inr loaded \<and>
        resolve_policy_hosts K (lp_policy loaded) = Inr hosts \<and>
        prepare_ruleset (se_landlock K) (derive_hull (lp_policy loaded) (cap_landlock_abi caps)) [] = (Inr ruleset, calls) \<and>
        es_policy es = Some (lp_policy loaded) \<and> es_policy_digest es = Some (lp_digest loaded) \<and>
        es_resolved_hosts es = hosts \<and> es_ruleset es = Some ruleset)"

lemma prepare_enforcement_ok:
  assumes "prepare_enforcement K spec (cap_landlock_abi caps) s = (Inr es, s')"
  shows "if sp_mode spec = RecordOnly then es = no_enforcement else enforces K spec caps es"
proof (cases "sp_mode spec = RecordOnly")
  case True
  with assms show ?thesis by (auto simp: prepare_enforcement_def session_Inr)
next
  case False
  with assms obtain p home where p: "sp_policy_path spec = Some p" "se_home K = Some home"
    by (auto simp: prepare_enforcement_def failE_def split: option.splits)
  from assms p False obtain loaded hosts where l:
    "load_with_digest (se_read_policy K) (se_sha256 K) (se_toml K) p
       \<lparr>ec_workspace = to_string_lossy (sp_workspace spec), ec_home = home\<rparr> = Inr loaded"
    "resolve_policy_hosts K (lp_policy loaded) = Inr hosts"
    by (auto simp: prepare_enforcement_def bindE_Inr liftE_Inr)
  obtain q calls where q:
    "prepare_ruleset (se_landlock K) (derive_hull (lp_policy loaded) (cap_landlock_abi caps)) [] = (q, calls)"
    by (metis surj_pair)
  from assms p False l q obtain ruleset where "q = Inr ruleset" "es_policy es = Some (lp_policy loaded)"
    "es_policy_digest es = Some (lp_digest loaded)" "es_resolved_hosts es = hosts" "es_ruleset es = Some ruleset"
    by (auto simp: prepare_enforcement_def session_Inr outside_Inr Let_def)
  with p l q False show ?thesis by (auto simp: enforces_def)
qed

lemma run_session_cases [consumes 1, case_names refused ran]:
  assumes "run_session fuel K spec s = Some (r, s')"
  obtains (refused) e xs where "r = Inl e" "ses_log s' = ses_log s @ xs" "\<forall>c \<in> set xs. no_launch c"
  | (ran) caps mechanism reason es ts meta d xs s2 s3 where
      "probe (se_facts K) = Inr caps" "preflight caps (sp_mode spec) = Proceed caps mechanism reason"
      "if sp_mode spec = RecordOnly then es = no_enforcement else enforces K spec caps es"
      "meta = run_meta_of spec caps es mechanism reason ts"
      "ses_log s2 = ses_log s @ xs" "\<forall>c \<in> set xs. preparing c" "ses_next_seq s2 = 0"
      "run_with_writer fuel K spec meta d es s2 = Some (r, s3)"
      "s' = (if es_ruleset es = None then s3 else log_call DropRuleset s3)"
proof -
  have quiet: "preparing c \<Longrightarrow> no_launch c" for c by (cases c) simp_all
  show thesis
  proof (cases "probe (se_facts K)")
    case (Inl e)
    with assms have "r = Inl (PreflightFailed e)" "s' = s" by (simp_all add: run_session_def)
    with refused [of _ "[]"] show thesis by simp
  next
    case (Inr caps)
    show thesis
    proof (cases "preflight caps (sp_mode spec)")
      case (Refuse msg)
      with assms Inr have "r = Inl (RunRefused msg)" "s' = s" by (simp_all add: run_session_def)
      with refused [of _ "[]"] show thesis by simp
    next
      case (Proceed caps' mechanism reason)
      then have same: "preflight caps (sp_mode spec) = Proceed caps mechanism reason"
        using preflight_same_host by blast
      obtain q s1 where q: "prepare_enforcement K spec (cap_landlock_abi caps) s = (q, s1)" by (metis surj_pair)
      from logsD [OF prepare_enforcement_logs q] obtain as where
        as: "ses_log s1 = ses_log s @ as" "\<forall>c \<in> set as. preparing c" by blast
      show thesis
      proof (cases q)
        case (Inl e)
        with assms \<open>probe (se_facts K) = Inr caps\<close> same q have "r = Inl e" "s' = s1"
          by (simp_all add: run_session_def)
        with as quiet refused show thesis by blast
      next
        case Setup: (Inr es)
        let ?prep = "bindE (now_ms K) (\<lambda>ts. let meta = run_meta_of spec caps es mechanism reason ts
            in bindE (create_run_dir K (sp_state_root spec) meta) (\<lambda>d.
               bindE (open_trace K d) (\<lambda>_. retE (meta, d))))"
        obtain u s2 where u: "?prep s1 = (u, s2)" by (rule prod.exhaust)
        have "logs preparing ?prep"
          unfolding Let_def by (intro logs_rules create_run_dir_logs open_trace_logs)
        from logsD [OF this u] obtain bs where bs: "ses_log s2 = ses_log s1 @ bs" "\<forall>c \<in> set bs. preparing c" by blast
        show thesis
        proof (cases u)
          case (Inl e)
          with assms \<open>probe (se_facts K) = Inr caps\<close> same q Setup u
          have "r = Inl e" "s' = (if es_ruleset es = None then s2 else log_call DropRuleset s2)"
            by (simp_all add: run_session_def Let_def)
          moreover from this(2) as bs have "\<exists>cs. ses_log s' = ses_log s @ as @ bs @ cs \<and> set cs \<subseteq> {DropRuleset}"
            by (auto simp: log_call_def)
          then obtain cs where "ses_log s' = ses_log s @ (as @ bs @ cs)" "set cs \<subseteq> {DropRuleset}" by auto
          moreover from this(2) as(2) bs(2) quiet have "\<forall>c \<in> set (as @ bs @ cs). no_launch c" by auto
          ultimately show thesis using refused by blast
        next
          case Prepared: (Inr md)
          obtain meta d where md: "md = (meta, d)" by (cases md)
          with u Prepared have meta: "\<exists>ts. meta = run_meta_of spec caps es mechanism reason ts" "ses_next_seq s2 = 0"
            by (auto simp: bindE_Inr retE_Inr open_trace_def Let_def)
          from assms \<open>probe (se_facts K) = Inr caps\<close> same q Setup u Prepared md obtain s3 where
            s3: "run_with_writer fuel K spec meta d es s2 = Some (r, s3)"
              "s' = (if es_ruleset es = None then s3 else log_call DropRuleset s3)"
            by (cases "run_with_writer fuel K spec meta d es s2") (auto simp: run_session_def Let_def)
          from meta(1) obtain ts where ts: "meta = run_meta_of spec caps es mechanism reason ts" ..
          from as bs have log: "ses_log s2 = ses_log s @ as @ bs" "\<forall>c \<in> set (as @ bs). preparing c" by auto
          show thesis
            using ran [OF \<open>probe (se_facts K) = Inr caps\<close> same _ ts log meta(2) s3]
              prepare_enforcement_ok q Setup by blast
        qed
      qed
    qed
  qed
qed

section \<open>The end of a run\<close>

definition trace_path :: "path \<Rightarrow> path" where "trace_path p = path_join p ''trace.jsonl''"
definition report_path :: "path \<Rightarrow> path" where "report_path p = path_join p ''report.txt''"

definition exit_code_of :: "exit_disposition \<Rightarrow> int option" where
  "exit_code_of ex = (case ex of Exited c \<Rightarrow> Some c | Signaled g \<Rightarrow> None)"

definition signal_of :: "exit_disposition \<Rightarrow> int option" where
  "signal_of ex = (case ex of Exited c \<Rightarrow> None | Signaled g \<Rightarrow> Some g)"

definition report_calls :: "path \<Rightarrow> string \<Rightarrow> string \<Rightarrow> string \<Rightarrow> session_call list" where
  "report_calls p trace shown msg =
     [ReadFile (trace_path p) (Inr trace), CreateNew (report_path p) (Inr ()), WriteFile (report_path p) shown (Inr ()),
      SyncFile (report_path p) (Inr ()), Announce msg]"

lemma finish_run_ok:
  assumes "finish_run K d status s = (Inr out, s')"
  shows "\<exists>ex ts line trace shown msg s1.
    decode_wait_status status = Inr ex \<and> so_exit out = ex \<and> so_run_path out = rd_path d \<and>
    se_encode K \<lparr>e_seq = ses_next_seq s, e_ts = ts, e_body = RunEnd (exit_code_of ex) (signal_of ex) 0\<rparr> = Inr line \<and>
    records K [(ts, RunEnd (exit_code_of ex) (signal_of ex) 0)] s s1 \<and>
    ses_log s1 = ses_log s @ committed line \<and>
    se_read K (ses_log s1) (trace_path (rd_path d)) = Inr trace \<and> render_report (se_parse K) trace = Inr shown \<and>
    ses_log s' = ses_log s1 @ report_calls (rd_path d) trace shown msg"
proof -
  from assms obtain ex where ex: "decode_wait_status status = Inr ex"
    by (auto simp: finish_run_def bindE_Inr liftE_Inr)
  have parts: "(case ex of Exited c \<Rightarrow> (Some c, None) | Signaled g \<Rightarrow> (None, Some g)) = (exit_code_of ex, signal_of ex)"
    by (cases ex) (simp_all add: exit_code_of_def signal_of_def)
  from assms ex obtain ts s0 s1a s1 trace shown where
    now: "now_ms K s = (Inr ts, s0)" and
    app: "append_event K ts (RunEnd (exit_code_of ex) (signal_of ex) 0) s0 = (Inr (), s1a)" and
    sync: "sync_trace K s1a = (Inr (), s1)" and
    reads: "se_read K (ses_log s1) (trace_path (rd_path d)) = Inr trace" and
    render: "render_report (se_parse K) trace = Inr shown" and
    out: "out = \<lparr>so_run_id = rd_id d, so_run_path = rd_path d, so_exit = ex\<rparr>" and
    log: "ses_log s' = ses_log s1 @ report_calls (rd_path d) trace shown
      (''leash: run '' @ rd_id d @ '' recorded; report: '' @ report_path (rd_path d))"
    by (auto simp: finish_run_def parts Let_def session_Inr log_call_def trace_path_def report_path_def report_calls_def)
  have "s0 = s" using now by (auto simp: now_ms_def liftE_Inr)
  with append_synced [OF app sync] ex reads render out log show ?thesis by fastforce
qed

lemma decoded_ends: "decode_wait_status status = Inr ex \<Longrightarrow> ends_truly (RunEnd (exit_code_of ex) (signal_of ex) 0)"
proof -
  assume "decode_wait_status status = Inr ex"
  then have "case ex of Exited n \<Rightarrow> 0 \<le> n \<and> n \<le> 255 | Signaled g \<Rightarrow> 1 \<le> g \<and> g \<le> 126"
    using decode_bounds [of status] by simp
  then show ?thesis by (cases ex) (auto simp: exit_code_of_def signal_of_def)
qed

section \<open>A sample session for the witnesses\<close>

text \<open>A record-only run of \<open>true\<close> on a host that admits it; every file operation succeeds and the trace
  reads back as it was written.\<close>

definition brief_spec :: session_spec where
  "brief_spec = \<lparr>sp_argv = [''true''], sp_mode = RecordOnly, sp_attendance = Unattended, sp_state_root = ''/s'',
     sp_workspace = ''/w'', sp_policy_path = None, sp_ask_timeout = 30\<rparr>"

definition brief_caps :: capabilities where
  "brief_caps = \<lparr>cap_kernel_release = sample_release, cap_kernel_version = (6, 8), cap_seccomp_unotify = True,
     cap_wait_killable_recv = True, cap_addfd_send = True, cap_landlock_abi = 4,
     cap_overlay = probe_overlay sample_host\<rparr>"

definition brief_meta :: run_meta where
  "brief_meta = run_meta_of brief_spec brief_caps no_enforcement
     (fst (select_mechanism (cap_overlay brief_caps))) (snd (select_mechanism (cap_overlay brief_caps))) 0"

definition brief_start :: event where "brief_start = \<lparr>e_seq = 0, e_ts = 0, e_body = RunStart brief_meta\<rparr>"
definition brief_end :: event where "brief_end = \<lparr>e_seq = 1, e_ts = 0, e_body = RunEnd (Some 0) None 0\<rparr>"

definition brief_encode :: "event \<Rightarrow> string + string" where
  "brief_encode e = (if e = brief_start then Inr ''{0}'' else if e = brief_end then Inr ''{1}'' else Inl ''unused'')"

definition brief_parse :: "string \<Rightarrow> string + json" where
  "brief_parse l = Inr (event_value (if l = ''{0}'' then brief_start else brief_end))"

definition quiet_landlock :: landlock_kernel where
  "quiet_landlock = \<lparr>lk_exists = (\<lambda>_ _. False), lk_canonicalize = (\<lambda>_ p. Inr p), lk_open = (\<lambda>_ _. Inl (Some ENOENT)),
     lk_fstat = (\<lambda>_ _. Inr 0), lk_create = (\<lambda>_ _ _ _. Inr 9), lk_add_path = (\<lambda>_ _ _ _. Inr ()),
     lk_add_net = (\<lambda>_ _ _ _. Inr ())\<rparr>"

definition brief_session :: session_env where
  "brief_session = \<lparr>se_facts = sample_host, se_home = None, se_read_policy = (\<lambda>_. Inl (Some ENOENT)),
     se_sha256 = (\<lambda>_. []), se_toml = Inl, se_resolve = Inl, se_landlock = quiet_landlock,
     se_clock_ms = (\<lambda>_. Some 0), se_random = Inr 0, se_encode = brief_encode, se_encode_meta = (\<lambda>_. Inr ''{}''),
     se_parse = brief_parse, se_file = (\<lambda>_ _. Inr ()), se_read = (\<lambda>h _. Inr (written h)),
     se_spawn_broker = (\<lambda>_ _ _. Inr ()), se_spawn_child = (\<lambda>_ _ _ _. Inr 7), se_kernel = (\<lambda>_. sample_env)\<rparr>"

lemma brief_fields [simp]:
  "se_facts brief_session = sample_host" "se_clock_ms brief_session h = Some 0" "se_random brief_session = Inr 0"
  "se_encode brief_session = brief_encode" "se_encode_meta brief_session meta = Inr ''{}''"
  "se_parse brief_session = brief_parse" "se_file brief_session h p = Inr ()"
  "se_read brief_session h p = Inr (written h)" "se_spawn_child brief_session h argv m f = Inr 7"
  "se_kernel brief_session h = sample_env"
  by (simp_all add: brief_session_def)

lemma brief_codec: "codec brief_encode brief_parse es"
  using sample_lines by (simp add: codec_def brief_encode_def brief_parse_def)

lemma brief_probe: "probe sample_host = Inr brief_caps"
proof -
  have "is_ascii sample_release"
    by (simp add: sample_release_def is_ascii_def show_nat.simps digit_char_def code_def)
  moreover have "parse_kernel_version sample_release = Some (6, 8)"
    unfolding sample_release_def by (rule parse_kernel_version_show) simp_all
  ultimately show ?thesis
    by (simp add: probe_def probe_uname_def sample_host_def lossy_ascii brief_caps_def probe_unotify_def
        probe_wait_killable_recv_def probe_landlock_abi_def Let_def)
qed

lemma brief_admitted:
  "preflight brief_caps RecordOnly =
     Proceed brief_caps (fst (select_mechanism (cap_overlay brief_caps))) (snd (select_mechanism (cap_overlay brief_caps)))"
  by (rule preflight_admits)
    (simp add: admits_def brief_caps_def below_def KERNEL_FLOOR_def LANDLOCK_ABI_FLOOR_def)

lemma brief_events [simp]:
  "brief_encode \<lparr>e_seq = 0, e_ts = 0, e_body = RunStart brief_meta\<rparr> = Inr ''{0}''"
  "brief_encode \<lparr>e_seq = Suc 0, e_ts = 0, e_body = RunEnd (Some 0) None 0\<rparr> = Inr ''{1}''"
  by (simp_all add: brief_encode_def brief_start_def brief_end_def)

text \<open>The run, stage by stage.\<close>

lemma brief_prepared:
  "\<exists>d s. bindE (now_ms brief_session) (\<lambda>ts.
       let meta = run_meta_of brief_spec brief_caps no_enforcement
         (fst (select_mechanism (cap_overlay brief_caps))) (snd (select_mechanism (cap_overlay brief_caps))) ts
       in bindE (create_run_dir brief_session (sp_state_root brief_spec) meta) (\<lambda>d.
          bindE (open_trace brief_session d) (\<lambda>_. retE (meta, d)))) fresh_session = (Inr (brief_meta, d), s) \<and>
     ses_next_seq s = 0 \<and> written (ses_log s) = []"
proof -
  obtain rid where "generate_run_id (Some 0) (Inr 0) = (Inr rid :: trace_error + string)"
    by (simp add: generate_run_id_def result_simps)
  then show ?thesis
    by (simp add: bindE_def now_ms_def liftE_def retE_def create_run_dir_def open_trace_def attempt_def outside_def
        Let_def fresh_session_def flip: brief_meta_def)
qed

lemma brief_started:
  assumes "ses_next_seq s = 0"
  shows "start_trace brief_session brief_meta s =
    (Inr (), \<lparr>ses_log = ses_log s @ Announce record_only_notice # committed ''{0}'', ses_next_seq = Suc 0\<rparr>)"
proof -
  have "rm_start_ts brief_meta = 0" "rm_mode brief_meta = RecordOnly"
    by (simp_all add: brief_meta_def run_meta_of_def brief_spec_def)
  with assms show ?thesis
    by (simp add: start_trace_def bindE_def announce_def append_event_def trace_append_def trace_ops_def writer_of_def
        of_writer_def sync_trace_def trace_sync_def log_call_def committed_def newline_def Let_def)
qed

lemma brief_loop:
  "serve_loop 1 brief_session (with_ask_timeout (config_record_only 7 Unattended) 30) s =
     Some (Inr 0, log_call (ServeLoop [Poll (Inr 16), Wait (Inr 0)] (Inr 0)) s)"
  by (simp add: serve_loop_def loop_env_def run_loop_def validate_config_def with_ask_timeout_def
      config_record_only_def loop_turn_def act_simps abi_defs)

lemma brief_report:
  "\<exists>shown. render_report brief_parse (''{0}'' @ newline # ''{1}'' @ [newline]) = Inr shown"
proof -
  let ?bs = "[(0, RunEnd (Some 0) None 0)] :: (nat \<times> event_body) list"
  have "encode_all brief_encode 0 ((0, RunStart brief_meta) # ?bs) = Inr [''{0}'', ''{1}'']" by simp
  from encoded_trace_renders [OF this brief_codec] show ?thesis by auto
qed

lemma brief_finished:
  assumes "ses_next_seq s = Suc 0" and "written (ses_log s) = ''{0}'' @ [newline]"
  shows "\<exists>out s'. finish_run brief_session d 0 s = (Inr out, s')"
proof -
  obtain shown where "render_report brief_parse (''{0}'' @ newline # ''{1}'' @ [newline]) = Inr shown"
    using brief_report by blast
  moreover have "decode_wait_status 0 = Inr (Exited 0)" by (simp add: decode_wait_status_def)
  ultimately show ?thesis
    using assms by (simp add: finish_run_def bindE_def liftE_def retE_def now_ms_def append_event_def trace_append_def
      trace_ops_def writer_of_def of_writer_def sync_trace_def trace_sync_def attempt_def outside_def announce_def
      log_call_def Let_def newline_def)
qed

lemma brief_run:
  "\<exists>out s pre res post. run_session 1 brief_session brief_spec fresh_session = Some (Inr out, s) \<and>
     ses_log s = pre @ SpawnChild [''true''] RecordOnly None res # post"
proof -
  have spec: "sp_mode brief_spec = RecordOnly" "sp_argv brief_spec = [''true'']" "rm_mode brief_meta = RecordOnly"
    "sp_attendance brief_spec = Unattended" "sp_ask_timeout brief_spec = 30"
    by (simp_all add: brief_spec_def brief_meta_def run_meta_of_def)
  from brief_prepared obtain d s0 where s0: "ses_next_seq s0 = 0" "written (ses_log s0) = []"
    "bindE (now_ms brief_session) (\<lambda>ts.
       let meta = run_meta_of brief_spec brief_caps no_enforcement
         (fst (select_mechanism (cap_overlay brief_caps))) (snd (select_mechanism (cap_overlay brief_caps))) ts
       in bindE (create_run_dir brief_session (sp_state_root brief_spec) meta) (\<lambda>d.
          bindE (open_trace brief_session d) (\<lambda>_. retE (meta, d)))) fresh_session = (Inr (brief_meta, d), s0)"
    by blast
  let ?s1 = "\<lparr>ses_log = ses_log s0 @ Announce record_only_notice # committed ''{0}'', ses_next_seq = Suc 0\<rparr>"
  let ?s2 = "log_call (SpawnChild [''true''] RecordOnly None (Inr 7)) ?s1"
  let ?s3 = "log_call (ServeLoop [Poll (Inr 16), Wait (Inr 0)] (Inr 0)) ?s2"
  have "written (ses_log ?s3) = ''{0}'' @ [newline]"
    using s0(2) by (simp add: log_call_def committed_def)
  then obtain out s4 where fin: "finish_run brief_session d 0 ?s3 = (Inr out, s4)"
    using brief_finished [of ?s3 d] by (auto simp: log_call_def)
  have "bindE (start_trace brief_session brief_meta) (\<lambda>_. spawn_broker brief_session brief_spec RecordOnly None) s0 =
      (Inr None, ?s1)"
    using brief_started [OF s0(1)] by (simp add: bindE_def spawn_broker_def retE_def)
  moreover have "bindE (spawn_child brief_session brief_spec RecordOnly None) (\<lambda>pid.
      liftE id (loop_config brief_spec RecordOnly pid None None (\<lambda>_. None))) ?s1 =
      (Inr (with_ask_timeout (config_record_only 7 Unattended) 30), ?s2)"
    by (simp add: bindE_def spawn_child_def outside_def liftE_def retE_def loop_config_def log_call_def spec Let_def)
  ultimately have "run_with_writer 1 brief_session brief_spec brief_meta d no_enforcement s0 = Some (Inr out, s4)"
    using brief_loop [of ?s2] fin by (simp add: run_with_writer_def Let_def spec no_enforcement_def)
  moreover have "prepare_enforcement brief_session brief_spec (cap_landlock_abi brief_caps) fresh_session =
      (Inr no_enforcement, fresh_session)"
    by (simp add: prepare_enforcement_def spec retE_def)
  moreover have "es_ruleset no_enforcement = None" by (simp add: no_enforcement_def)
  ultimately have run: "run_session 1 brief_session brief_spec fresh_session = Some (Inr out, s4)"
    using s0(3) by (simp add: run_session_def brief_probe brief_admitted spec)
  obtain xs where "ses_log s4 = ses_log ?s3 @ xs" using logsD [OF finish_run_logs fin] by blast
  then have "ses_log s4 = (ses_log s0 @ Announce record_only_notice # committed ''{0}'') @
      SpawnChild [''true''] RecordOnly None (Inr 7) # ServeLoop [Poll (Inr 16), Wait (Inr 0)] (Inr 0) # xs"
    by (simp add: log_call_def)
  with run show ?thesis by blast
qed

text \<open>A run that completes: what it put on the trace, and its last calls.\<close>

lemma completed_run_records:
  assumes "run_with_writer fuel K spec meta d es s = Some (Inr out, s')" and "\<forall>h. sane_errors (se_kernel K h)"
  shows "\<exists>pre as status ex te line trace shown msg post v.
    records K ((rm_start_ts meta, RunStart meta) # appended as @ [(te, RunEnd (exit_code_of ex) (signal_of ex) 0)]) s v \<and>
    (\<forall>(t, b) \<in> set (appended as). \<exists>ev. b = SyscallBody ev) \<and>
    decode_wait_status (of_int status) = Inr ex \<and> so_exit out = ex \<and> so_run_path out = rd_path d \<and>
    ses_log v = pre @ ServeLoop as (Inr status) # committed line \<and>
    se_read K (ses_log v) (trace_path (rd_path d)) = Inr trace \<and> render_report (se_parse K) trace = Inr shown \<and>
    ses_log s' = ses_log v @ report_calls (rd_path d) trace shown msg @ post \<and> set post \<subseteq> {StopBroker}"
  using assms(1)
proof (cases rule: run_with_writer_cases)
  case (finished broker config status t1 t2 t3 t4)
  from finished(1) obtain t0 where t0: "start_trace K meta s = (Inr (), t0)"
    "spawn_broker K spec (rm_mode meta) (es_ruleset es) t0 = (Inr broker, t1)" by (auto simp: bindE_Inr)
  have t2: "t2 = snd (spawn_child K spec (rm_mode meta) (es_ruleset es) t1)"
    using finished(2) by (auto simp: bindE_Inr liftE_Inr)
  from start_trace_ok [OF t0(1)] have r0: "records K [(rm_start_ts meta, RunStart meta)] s t0" by blast
  obtain bs where bs: "brokered spec (rm_mode meta) (es_ruleset es) bs" "ses_log t1 = ses_log t0 @ bs"
    "ses_next_seq t1 = ses_next_seq t0" using spawn_broker_ok [OF t0(2)] by blast
  have r1: "records K [] t0 t1"
    using bs by (intro records_nothing [OF bs(2)]) (auto simp: brokered_def split: mode.splits)
  obtain res where "ses_log t2 = ses_log t1 @ [SpawnChild (sp_argv spec) (rm_mode meta) (map_option pr_ruleset (es_ruleset es)) res]"
    "ses_next_seq t2 = ses_next_seq t1" using spawn_child_logs t2 by metis
  then have r2: "records K [] t1 t2" by (intro records_nothing) auto
  from serve_loop_records [OF finished(3) assms(2)] obtain as u where
    u: "records K (appended as) t2 u" "t3 = log_call (ServeLoop as (Inr status)) u"
      "\<forall>(t, b) \<in> set (appended as). \<exists>ev. b = SyscallBody ev" by blast
  have r3: "records K [] u t3"
    by (rule records_nothing [where xs = "[ServeLoop as (Inr status)]"]) (simp_all add: u(2) log_call_def)
  from finish_run_ok [OF finished(4)] obtain ex te line trace shown msg v where
    v: "decode_wait_status (of_int status) = Inr ex" "so_exit out = ex" "so_run_path out = rd_path d"
      "records K [(te, RunEnd (exit_code_of ex) (signal_of ex) 0)] t3 v" "ses_log v = ses_log t3 @ committed line"
      "se_read K (ses_log v) (trace_path (rd_path d)) = Inr trace" "render_report (se_parse K) trace = Inr shown"
      "ses_log t4 = ses_log v @ report_calls (rd_path d) trace shown msg" by blast
  have rec: "records K ((rm_start_ts meta, RunStart meta) # appended as @ [(te, RunEnd (exit_code_of ex) (signal_of ex) 0)]) s v"
    using records_trans [OF r0 records_trans [OF r1 records_trans [OF r2 records_trans [OF u(1) records_trans [OF r3 v(4)]]]]]
    by simp
  let ?post = "if broker = None then [] else [StopBroker]"
  have pre: "ses_log v = ses_log u @ ServeLoop as (Inr status) # committed line" using v(5) u(2) by (simp add: log_call_def)
  have post: "ses_log s' = ses_log v @ report_calls (rd_path d) trace shown msg @ ?post" "set ?post \<subseteq> {StopBroker}"
    using v(8) finished(5) by (simp_all add: log_call_def)
  show ?thesis using rec u(3) v(1-3) pre v(6,7) post by blast
qed simp_all

section \<open>Properties\<close>

lemma only_one:
  "xs @ x # ys = as @ a # bs \<Longrightarrow> P x \<Longrightarrow> \<forall>c \<in> set as. \<not> P c \<Longrightarrow> \<forall>c \<in> set bs. \<not> P c \<Longrightarrow> xs = as \<and> x = a \<and> ys = bs"
proof (induction as arbitrary: xs)
  case Nil
  then show ?case by (cases xs) auto
next
  case (Cons b as)
  then show ?case by (cases xs) auto
qed

text \<open>
  The wait status is decoded exactly: for every 32-bit status, low seven bits zero are an exit with the
  next byte, \<open>0x7f\<close> is refused as undecodable, and anything else is a death by that signal, with or
  without the core flag; the shell code of what is decoded is the exit byte or 128 plus the signal, and
  is always in 0..255.
\<close>

theorem wait_status_decodes_exactly:
  "decode_wait_status status =
     (let low = unat status mod 128
      in if low = 0 then Inr (Exited (int (unat status div 256 mod 256)))
         else if low = 127 then Inl status else Inr (Signaled (int low))) \<and>
   (case decode_wait_status status of
      Inl s \<Rightarrow> s = status
    | Inr (Exited n) \<Rightarrow> shell_code (Exited n) = n \<and> 0 \<le> n \<and> n \<le> 255
    | Inr (Signaled g) \<Rightarrow> shell_code (Signaled g) = 128 + g \<and> 1 \<le> g \<and> g \<le> 126)"
  using decode_exact [of status] decode_bounds [of status]
  by (auto simp: Let_def split: sum.splits exit_disposition.splits)

text \<open>
  C3. The child is launched only behind its boundary and its record: in every run, however it ends, a
  launch in the log means that the host passed preflight for the mode asked for, and that right before it
  the mode was announced and the \<open>run_start\<close> line of this very run (its mode, command and policy digest)
  was written, flushed and synced as event 0; in record-only no ruleset is passed; in enforce the
  ruleset passed is the one prepared from the hull of the policy that was loaded, exact hosts were
  resolved, and the broker was spawned under it first. There is one launch at most.
\<close>

theorem child_runs_only_behind_boundary:
  assumes "run_session fuel K spec fresh_session = Some (r, s)"
    and "ses_log s = pre @ SpawnChild argv m ruleset_fd res # post"
  shows "\<exists>caps mechanism reason es ts line setup bs.
    probe (se_facts K) = Inr caps \<and> preflight caps (sp_mode spec) = Proceed caps mechanism reason \<and>
    argv = sp_argv spec \<and> m = sp_mode spec \<and>
    se_encode K \<lparr>e_seq = 0, e_ts = ts, e_body = RunStart (run_meta_of spec caps es mechanism reason ts)\<rparr> = Inr line \<and>
    pre = setup @ Announce (mode_notice m) # committed line @ bs \<and> (\<forall>c \<in> set setup. preparing c) \<and>
    (if m = RecordOnly then bs = [] \<and> es = no_enforcement \<and> ruleset_fd = None
     else enforces K spec caps es \<and> ruleset_fd = map_option pr_ruleset (es_ruleset es) \<and>
       (\<exists>rs. es_ruleset es = Some rs \<and> bs = [SpawnBroker rs (sp_workspace spec) (Inr ())])) \<and>
    (\<forall>c \<in> set post. no_launch c)"
  using assms(1)
proof (cases rule: run_session_cases)
  case (refused e xs)
  with assms(2) show ?thesis by (auto simp: fresh_session_def)
next
  case (ran caps mechanism reason es ts meta d xs s2 s3)
  have "run_calls K spec meta (es_ruleset es) s2 s" 
    using run_calls_more [OF run_with_writer_calls [OF ran(8)], of s "if es_ruleset es = None then [] else [DropRuleset]"] ran(9)
    by (auto simp: log_call_def split: if_splits)
  then obtain ys where ys: "ses_log s = xs @ ys"
    "(\<forall>c \<in> set ys. no_launch c) \<or> launched_by K spec meta 0 (es_ruleset es) ys"
    using ran(5,7) by (auto simp: run_calls_def fresh_session_def)
  have quiet: "\<forall>c \<in> set xs. no_launch c"
  proof -
    have "preparing c \<Longrightarrow> no_launch c" for c by (cases c) simp_all
    with ran(6) show ?thesis by blast
  qed
  have "SpawnChild argv m ruleset_fd res \<in> set ys" using quiet ys(1) assms(2) by (metis Un_iff launches.simps(1) list.set_intros(1) set_append)
  with ys(2) obtain line bs res' zs where zs: "ys = Announce (mode_notice (rm_mode meta)) # committed line @ bs @
      SpawnChild (sp_argv spec) (rm_mode meta) (map_option pr_ruleset (es_ruleset es)) res' # zs"
    "se_encode K \<lparr>e_seq = 0, e_ts = rm_start_ts meta, e_body = RunStart meta\<rparr> = Inr line"
    "brokered spec (rm_mode meta) (es_ruleset es) bs" "\<forall>c \<in> set zs. no_launch c"
    unfolding launched_by_def by (metis launches.simps(1))
  have mode: "rm_mode meta = sp_mode spec" by (simp add: ran(4) run_meta_of_def)
  have bs: "\<forall>c \<in> set bs. no_launch c" using zs(3) by (auto simp: brokered_def split: mode.splits)
  let ?launch = "SpawnChild (sp_argv spec) (rm_mode meta) (map_option pr_ruleset (es_ruleset es)) res'"
  let ?before = "xs @ Announce (mode_notice (rm_mode meta)) # committed line @ bs"
  have eq: "pre @ SpawnChild argv m ruleset_fd res # post = ?before @ ?launch # zs"
    using assms(2) ys(1) zs(1) by simp
  have "\<forall>c \<in> set ?before. no_launch c" using quiet bs by (auto simp: committed_def)
  note one = only_one [where P = launches, OF eq _ this zs(4)]
  have split: "pre = ?before" "SpawnChild argv m ruleset_fd res = ?launch" "post = zs"
    using one by simp_all
  have ts: "rm_start_ts meta = ts" by (simp add: ran(4) run_meta_of_def)
  show ?thesis
    using ran(1-3,6) zs(2-4) split mode ts
    by (intro exI [of _ caps] exI [of _ mechanism] exI [of _ reason] exI [of _ es] exI [of _ ts] exI [of _ line]
        exI [of _ xs] exI [of _ bs])
      (auto simp: ran(4) brokered_def no_enforcement_def enforces_def split: mode.splits)
qed

text \<open>
  C10. What the operator reads is what was decided: when a run completes, its last calls are the \<open>run_end\<close>
  line made durable, the trace read back from disk, and the report written and synced; and if the file
  holds the bytes written to it and JSON reads back as it was printed, the report is the rendering of
  exactly the events the notify loop appended, under this run's mode, command and workspace, with an end.
\<close>

theorem completed_run_report_is_its_record:
  assumes "run_session fuel K spec fresh_session = Some (Inr out, s)"
    and "\<forall>h. sane_errors (se_kernel K h)" and "\<forall>es. codec (se_encode K) (se_parse K) es"
    and "\<forall>h t. se_read K h (path_join (so_run_path out) ''trace.jsonl'') = Inr t \<longrightarrow> no_failed_write h \<longrightarrow> t = written h"
  shows "\<exists>pre as status line trace shown msg post st.
    ses_log s = pre @ ServeLoop as (Inr status) # committed line @ report_calls (so_run_path out) trace shown msg @ post \<and>
    set post \<subseteq> {StopBroker, DropRuleset} \<and> decode_wait_status (of_int status) = Inr (so_exit out) \<and>
    shown = format_report (mode_name (sp_mode spec)) (sp_argv spec) (sp_workspace spec) st \<and>
    summarises st [event_seen e. (t, SyscallBody e) \<leftarrow> appended as] \<and> rs_have_run_end st"
  using assms(1)
proof (cases rule: run_session_cases)
  case (ran caps mechanism reason es ts meta d xs s2 s3)
  from completed_run_records [OF ran(8) assms(2)] obtain pre as status ex te line trace shown msg post v where
    rec: "records K ((rm_start_ts meta, RunStart meta) # appended as @ [(te, RunEnd (exit_code_of ex) (signal_of ex) 0)]) s2 v"
      "\<forall>(t, b) \<in> set (appended as). \<exists>ev. b = SyscallBody ev" and
    v: "decode_wait_status (of_int status) = Inr ex" "so_exit out = ex" "so_run_path out = rd_path d"
      "ses_log v = pre @ ServeLoop as (Inr status) # committed line"
      "se_read K (ses_log v) (trace_path (rd_path d)) = Inr trace" "render_report (se_parse K) trace = Inr shown"
      "ses_log s3 = ses_log v @ report_calls (rd_path d) trace shown msg @ post" "set post \<subseteq> {StopBroker}" by blast
  let ?last = "(te, RunEnd (exit_code_of ex) (signal_of ex) 0)"
  from rec(1) obtain ls ys where ls: "encode_all (se_encode K) 0 ((rm_start_ts meta, RunStart meta) # appended as @ [?last]) = Inr ls"
    "ses_log v = ses_log s2 @ ys" "written ys = concat (map (\<lambda>l. l @ [newline]) ls)" "no_failed_write ys"
    using ran(7) by (auto simp: records_def)
  have "preparing c \<Longrightarrow> \<not> is_trace_write c" for c by (cases c) simp_all
  with ran(6) written_none have "written xs = []" "no_failed_write xs" by blast+
  then have "written (ses_log v) = written ys" "no_failed_write (ses_log v)"
    using ls(2,4) ran(5) by (simp_all add: fresh_session_def)
  then have trace: "trace = concat (map (\<lambda>l. l @ [newline]) ls)"
    using assms(4) v(3,5) ls(3) by (simp add: trace_path_def)
  have "\<forall>(t, b) \<in> set (appended as @ [?last]). ends_truly b" using rec(2) decoded_ends [OF v(1)] by auto
  with trace obtain st where st: "render_report (se_parse K) trace =
      Inr (format_report (mode_name (rm_mode meta)) (rm_argv meta) (rm_workspace meta) st)"
    "summarises st [event_seen e. (t, SyscallBody e) \<leftarrow> appended as @ [?last]]" "rs_have_run_end st"
    using encoded_trace_renders [OF ls(1)] assms(3) by (metis Un_iff list.set_intros(1) set_append)
  have "rm_mode meta = sp_mode spec" "rm_argv meta = sp_argv spec" "rm_workspace meta = sp_workspace spec"
    by (simp_all add: ran(4) run_meta_of_def)
  with v st ran(9) show ?thesis
    by (intro exI [of _ pre] exI [of _ as] exI [of _ status] exI [of _ line] exI [of _ trace] exI [of _ shown]
        exI [of _ msg] exI [of _ "post @ (if es_ruleset es = None then [] else [DropRuleset])"] exI [of _ st])
      (auto simp: log_call_def)
qed simp

lemma child_runs_only_behind_boundary_witness:
  "\<exists>out s pre res post line setup. run_session 1 brief_session brief_spec fresh_session = Some (Inr out, s) \<and>
     ses_log s = pre @ SpawnChild [''true''] RecordOnly None res # post \<and>
     pre = setup @ Announce record_only_notice # committed line \<and> (\<forall>c \<in> set setup. preparing c) \<and>
     (\<forall>c \<in> set post. no_launch c)"
proof -
  from brief_run obtain out s pre res post where
    run: "run_session 1 brief_session brief_spec fresh_session = Some (Inr out, s)" and
    log: "ses_log s = pre @ SpawnChild [''true''] RecordOnly None res # post" by blast
  from child_runs_only_behind_boundary [OF run log] obtain line ahead bs where
    "pre = ahead @ Announce (mode_notice RecordOnly) # committed line @ bs" "\<forall>c \<in> set ahead. preparing c" "bs = []"
    "\<forall>c \<in> set post. no_launch c" by auto
  moreover from this have "pre = ahead @ Announce record_only_notice # committed line" by (simp add: mode_notice_def)
  ultimately show ?thesis using run log by blast
qed

lemma completed_run_report_is_its_record_witness:
  "\<exists>out s pre as status line trace shown msg post st.
     run_session 1 brief_session brief_spec fresh_session = Some (Inr out, s) \<and>
     ses_log s = pre @ ServeLoop as (Inr status) # committed line @ report_calls (so_run_path out) trace shown msg @ post \<and>
     shown = format_report ''record_only'' [''true''] ''/w'' st \<and> rs_have_run_end st"
proof -
  from brief_run obtain out s where
    run: "run_session 1 brief_session brief_spec fresh_session = Some (Inr out, s)" by blast
  have "\<forall>h. sane_errors (se_kernel brief_session h)" "\<forall>es. codec (se_encode brief_session) (se_parse brief_session) es"
    using brief_codec by simp_all
  from completed_run_report_is_its_record [OF run this] obtain pre as status line trace shown msg post st where
    "ses_log s = pre @ ServeLoop as (Inr status) # committed line @ report_calls (so_run_path out) trace shown msg @ post"
    "shown = format_report (mode_name (sp_mode brief_spec)) (sp_argv brief_spec) (sp_workspace brief_spec) st"
    "rs_have_run_end st" by auto
  moreover have "mode_name (sp_mode brief_spec) = ''record_only''" "sp_argv brief_spec = [''true'']"
    "sp_workspace brief_spec = ''/w''" by (simp_all add: brief_spec_def)
  ultimately show ?thesis using run by metis
qed

end
