(* ===== verification/Cli.thy ===== *)
theory Cli imports Session begin

text \<open>
  \<open>src/src/cli.rs\<close>: the command line, the attendance of a run, the state root and the exit codes. A
  token is a string; \<open>parse_tokens\<close> is the loop of \<open>parse_run\<close> over the tokens left, the flags read so
  far kept in the record it returns. Existence and canonical form of a path, the environment and the
  terminals are parameters.
\<close>

section \<open>Data\<close>

record run_args =
  ra_command :: "string list"
  ra_unattended :: bool
  ra_state_dir :: "path option"
  ra_policy_path :: "path option"
  ra_ask_timeout :: "nat option"

datatype command = Run run_args | NotImplemented string string

datatype usage_error =
    NoSubcommand
  | UnknownSubcommand string
  | UnknownFlag string
  | MissingSeparator
  | EmptyCommand
  | DuplicateFlag string
  | MissingStateDirValue
  | MissingPolicyValue
  | MissingAskTimeoutValue
  | InvalidAskTimeoutValue

definition single_quoted :: "string \<Rightarrow> string" where
  "single_quoted s = [CHR 0x27] @ s @ [CHR 0x27]"

fun usage_message :: "usage_error \<Rightarrow> string" where
  "usage_message NoSubcommand = ''leash: no subcommand given (try '' @ single_quoted ''leash run -- <command>'' @ '')''"
| "usage_message (UnknownSubcommand s) = ''leash: unknown subcommand '' @ single_quoted s"
| "usage_message (UnknownFlag s) = ''leash: unknown flag '' @ single_quoted s"
| "usage_message MissingSeparator =
     ''leash: '' @ single_quoted ''run'' @ '' requires a '' @ single_quoted ''--'' @ '' separator before the command''"
| "usage_message EmptyCommand = ''leash: empty command after '' @ single_quoted ''--''"
| "usage_message (DuplicateFlag s) = ''leash: flag '' @ single_quoted s @ '' given twice''"
| "usage_message MissingStateDirValue = ''leash: '' @ single_quoted ''--state-dir'' @ '' is missing its value''"
| "usage_message MissingPolicyValue = ''leash: '' @ single_quoted ''--policy'' @ '' is missing its value''"
| "usage_message MissingAskTimeoutValue = ''leash: '' @ single_quoted ''--ask-timeout'' @ '' is missing its value''"
| "usage_message InvalidAskTimeoutValue =
     ''leash: '' @ single_quoted ''--ask-timeout'' @ '' must be a whole number of seconds in 1..=3600''"

section \<open>Parsing\<close>

definition parse_ask_timeout :: "string \<Rightarrow> usage_error + nat" where
  "parse_ask_timeout value =
     (case parse_uint (2 ^ 64 - 1) value of
        Some secs \<Rightarrow> if 1 \<le> secs \<and> secs \<le> 3600 then Inr secs else Inl InvalidAskTimeoutValue
      | None \<Rightarrow> Inl InvalidAskTimeoutValue)"

fun parse_tokens :: "run_args \<Rightarrow> string list \<Rightarrow> usage_error + run_args" where
  "parse_tokens a [] = Inl MissingSeparator"
| "parse_tokens a (tok # rest) =
     (if tok = ''--'' then (if rest = [] then Inl EmptyCommand else Inr (a\<lparr>ra_command := rest\<rparr>))
      else if tok = ''--unattended'' then
        (if ra_unattended a then Inl (DuplicateFlag ''--unattended'')
         else parse_tokens (a\<lparr>ra_unattended := True\<rparr>) rest)
      else if tok = ''--state-dir'' then
        (if ra_state_dir a \<noteq> None then Inl (DuplicateFlag ''--state-dir'')
         else case rest of
           [] \<Rightarrow> Inl MissingStateDirValue
         | value # rest' \<Rightarrow>
             if value = ''--'' then Inl MissingStateDirValue
             else parse_tokens (a\<lparr>ra_state_dir := Some value\<rparr>) rest')
      else if starts_with ''--state-dir='' tok then
        (if ra_state_dir a \<noteq> None then Inl (DuplicateFlag ''--state-dir'')
         else let value = drop (length ''--state-dir='') tok
              in if value = [] then Inl MissingStateDirValue
                 else parse_tokens (a\<lparr>ra_state_dir := Some value\<rparr>) rest)
      else if tok = ''--policy'' then
        (if ra_policy_path a \<noteq> None then Inl (DuplicateFlag ''--policy'')
         else case rest of
           [] \<Rightarrow> Inl MissingPolicyValue
         | value # rest' \<Rightarrow>
             if value = ''--'' then Inl MissingPolicyValue
             else parse_tokens (a\<lparr>ra_policy_path := Some value\<rparr>) rest')
      else if starts_with ''--policy='' tok then
        (if ra_policy_path a \<noteq> None then Inl (DuplicateFlag ''--policy'')
         else let value = drop (length ''--policy='') tok
              in if value = [] then Inl MissingPolicyValue
                 else parse_tokens (a\<lparr>ra_policy_path := Some value\<rparr>) rest)
      else if tok = ''--ask-timeout'' then
        (if ra_ask_timeout a \<noteq> None then Inl (DuplicateFlag ''--ask-timeout'')
         else case rest of
           [] \<Rightarrow> Inl MissingAskTimeoutValue
         | value # rest' \<Rightarrow>
             if value = ''--'' then Inl MissingAskTimeoutValue
             else (case parse_ask_timeout value of
                     Inl e \<Rightarrow> Inl e
                   | Inr secs \<Rightarrow> parse_tokens (a\<lparr>ra_ask_timeout := Some secs\<rparr>) rest'))
      else if starts_with ''--ask-timeout='' tok then
        (if ra_ask_timeout a \<noteq> None then Inl (DuplicateFlag ''--ask-timeout'')
         else let value = drop (length ''--ask-timeout='') tok
              in if value = [] then Inl MissingAskTimeoutValue
                 else (case parse_ask_timeout value of
                         Inl e \<Rightarrow> Inl e
                       | Inr secs \<Rightarrow> parse_tokens (a\<lparr>ra_ask_timeout := Some secs\<rparr>) rest))
      else Inl (UnknownFlag tok))"

definition no_args :: run_args where
  "no_args = \<lparr>ra_command = [], ra_unattended = False, ra_state_dir = None, ra_policy_path = None, ra_ask_timeout = None\<rparr>"

definition parse_run :: "string list \<Rightarrow> usage_error + run_args" where
  "parse_run rest = (if ''--'' \<notin> set rest then Inl MissingSeparator else parse_tokens no_args rest)"

definition parse :: "string list \<Rightarrow> usage_error + command" where
  "parse args =
     (case args of
        [] \<Rightarrow> Inl NoSubcommand
      | first # rest \<Rightarrow>
          if starts_with ''-'' first then Inl NoSubcommand
          else if first = ''run'' then map_sum id Run (parse_run rest)
          else if first = ''diff'' then Inr (NotImplemented ''diff''
            (''leash: '' @ single_quoted ''diff'' @ '' is not implemented yet (planned: time-travel milestone M3)''))
          else if first = ''rewind'' then Inr (NotImplemented ''rewind''
            (''leash: '' @ single_quoted ''rewind'' @ '' is not implemented yet (planned: time-travel milestone M3)''))
          else if first = ''runs'' then Inr (NotImplemented ''runs''
            (''leash: '' @ single_quoted ''runs'' @ '' is not implemented yet (planned: FR-21 run management)''))
          else Inl (UnknownSubcommand first))"

definition attendance_of :: "bool \<Rightarrow> bool \<Rightarrow> bool \<Rightarrow> attendance" where
  "attendance_of stdin_is_tty stderr_is_tty force_unattended =
     (if \<not> force_unattended \<and> stdin_is_tty \<and> stderr_is_tty then Attended else Unattended)"

section \<open>The state root\<close>

datatype state_dir_error = InsideWorkspace path path | Resolve io_error

text \<open>The loop over \<open>existing\<close>; \<open>remainder\<close> is pushed at the end and read backwards, here consed.\<close>

function climb_existing :: "(path \<Rightarrow> bool) \<Rightarrow> path \<Rightarrow> string list \<Rightarrow> path \<times> string list" where
  "climb_existing exists existing remainder =
     (case path_parent existing of
        None \<Rightarrow> (existing, remainder)
      | Some parent \<Rightarrow>
          let remainder' = (case path_file_name existing of Some name \<Rightarrow> name # remainder | None \<Rightarrow> remainder)
          in if exists parent then (parent, remainder') else climb_existing exists parent remainder')"
  by auto
termination by (relation "measure (\<lambda>(_, p, _). length p)") (auto intro: path_parent_length)

declare climb_existing.simps [simp del]

definition canonicalize_deepest_ancestor ::
  "(path \<Rightarrow> bool) \<Rightarrow> (path \<Rightarrow> io_error + path) \<Rightarrow> path \<Rightarrow> io_error + path" where
  "canonicalize_deepest_ancestor exists canon p =
     (if exists p then canon p
      else case climb_existing exists p [] of
             (existing, remainder) \<Rightarrow> map_sum id (\<lambda>resolved. foldl path_join resolved remainder) (canon existing))"

definition resolve_state_root ::
  "(path \<Rightarrow> bool) \<Rightarrow> (path \<Rightarrow> io_error + path) \<Rightarrow> path \<Rightarrow> path \<Rightarrow> path \<Rightarrow> state_dir_error + path" where
  "resolve_state_root exists canon cwd workspace candidate =
     (let joined = (if is_absolute candidate then candidate else path_join cwd candidate)
      in and_then (map_err Resolve (canonicalize_deepest_ancestor exists canon joined)) (\<lambda>resolved.
           if path_eq resolved workspace \<or> path_starts_with resolved workspace
           then Inl (InsideWorkspace resolved workspace) else Inr resolved))"

section \<open>The program\<close>

definition EXIT_USAGE :: nat where "EXIT_USAGE = 2"
definition EXIT_SUPERVISOR_FAILURE :: nat where "EXIT_SUPERVISOR_FAILURE = 125"

text \<open>What is printed on standard error; a panic is not an exit code of the program's table.\<close>

datatype cli_notice =
    UsageNotice usage_error
  | ReservedNotice string
  | NoWorkingDirectory io_error
  | NoWorkspace io_error
  | NoStateDirectory
  | StateDirNotice state_dir_error
  | SessionNotice session_error

datatype cli_exit = ExitCode nat | Panicked

record cli_env =
  ce_args :: "string list"
  ce_cwd :: "io_error + path"
  ce_exists :: "path \<Rightarrow> bool"
  ce_canonicalize :: "path \<Rightarrow> io_error + path"
  ce_xdg :: "string option"
  ce_home :: "string option"
  ce_isatty :: "nat \<Rightarrow> bool"

type_synonym cli_result = "cli_exit \<times> cli_notice list \<times> session_state"

definition dispatch_run :: "nat \<Rightarrow> session_env \<Rightarrow> session_spec \<Rightarrow> cli_result option" where
  "dispatch_run fuel K spec =
     map_option (\<lambda>(r, s).
       case r of
         Inr out \<Rightarrow>
           let low = shell_code (so_exit out) AND 0xff
           in (ExitCode (if 0 \<le> low \<and> low < 256 then nat low else EXIT_SUPERVISOR_FAILURE), [], s)
       | Inl e \<Rightarrow> (ExitCode EXIT_SUPERVISOR_FAILURE, [SessionNotice e], s))
     (run_session fuel K spec fresh_session)"

text \<open>What \<open>run\<close> settles before the session: an exit, or the session to start.\<close>

definition stop_at :: "nat \<Rightarrow> cli_notice \<Rightarrow> (nat \<times> cli_notice) + 'a" where
  "stop_at n msg = Inl (n, msg)"

definition state_candidate :: "cli_env \<Rightarrow> run_args \<Rightarrow> (nat \<times> cli_notice) + path" where
  "state_candidate E a =
     (case ra_state_dir a of
        Some dir \<Rightarrow> Inr dir
      | None \<Rightarrow>
          (case default_state_root (ce_xdg E) (ce_home E) of
             Some root \<Rightarrow> Inr root
           | None \<Rightarrow> stop_at EXIT_SUPERVISOR_FAILURE NoStateDirectory))"

fun dir_refusal :: "state_dir_error \<Rightarrow> nat \<times> cli_notice" where
  "dir_refusal (InsideWorkspace r w) = (EXIT_USAGE, StateDirNotice (InsideWorkspace r w))"
| "dir_refusal (Resolve e) = (EXIT_SUPERVISOR_FAILURE, StateDirNotice (Resolve e))"

definition session_of :: "cli_env \<Rightarrow> run_args \<Rightarrow> (nat \<times> cli_notice) + session_spec" where
  "session_of E a =
     and_then (map_err (\<lambda>e. (EXIT_SUPERVISOR_FAILURE, NoWorkingDirectory e)) (ce_cwd E)) (\<lambda>cwd.
     and_then (map_err (\<lambda>e. (EXIT_SUPERVISOR_FAILURE, NoWorkspace e)) (ce_canonicalize E cwd)) (\<lambda>workspace.
     and_then (state_candidate E a) (\<lambda>candidate.
     and_then (map_err dir_refusal
         (resolve_state_root (ce_exists E) (ce_canonicalize E) cwd workspace candidate)) (\<lambda>state_root.
       Inr \<lparr>sp_argv = ra_command a,
            sp_mode = (if ra_policy_path a \<noteq> None then Enforce else RecordOnly),
            sp_attendance = attendance_of (ce_isatty E 0) (ce_isatty E 2) (ra_unattended a),
            sp_state_root = state_root, sp_workspace = workspace, sp_policy_path = ra_policy_path a,
            sp_ask_timeout = (case ra_ask_timeout a of Some secs \<Rightarrow> secs | None \<Rightarrow> DEFAULT_ASK_TIMEOUT)\<rparr>))))"

definition settle :: "cli_env \<Rightarrow> (nat \<times> cli_notice) + session_spec" where
  "settle E =
     (case parse (ce_args E) of
        Inl usage \<Rightarrow> stop_at EXIT_USAGE (UsageNotice usage)
      | Inr (NotImplemented name message) \<Rightarrow> stop_at EXIT_USAGE (ReservedNotice message)
      | Inr (Run a) \<Rightarrow> session_of E a)"

text \<open>\<open>cli::run\<close>. \<open>std::env::args\<close> panics on an argument that is not UTF-8, which is one that
  \<open>to_string_lossy\<close> would change. \<open>None\<close> when the fuel does not cover the session.\<close>

definition run_cli :: "nat \<Rightarrow> cli_env \<Rightarrow> session_env \<Rightarrow> cli_result option" where
  "run_cli fuel E K =
     (if \<not> list_all (\<lambda>arg. to_string_lossy arg = arg) (ce_args E) then Some (Panicked, [], fresh_session)
      else case settle E of
             Inl (n, msg) \<Rightarrow> Some (ExitCode n, [msg], fresh_session)
           | Inr spec \<Rightarrow> dispatch_run fuel K spec)"

end
