(* ===== verification/Cli_Claims.thy ===== *)
theory Cli_Claims imports Cli Session_Claims begin

text \<open>
  What the command line promises: the grammar of \<open>leash run\<close>, where the state root leads, what the exit code
  says of the run, and that the child of a run is the command the operator wrote.
\<close>

section \<open>The grammar of the flags\<close>

text \<open>
  The flags of \<open>run\<close>, each with the spellings the loop takes. The two-token spelling of a policy takes an
  empty value too, which the comment of \<open>MissingPolicyValue\<close> calls missing.
\<close>

datatype flag = ForceUnattended | StateDir path | PolicyFile path | AskTimeout nat

definition is_timeout :: "string \<Rightarrow> nat \<Rightarrow> bool" where
  "is_timeout v n \<longleftrightarrow> parse_uint (2 ^ 64 - 1) v = Some n \<and> 1 \<le> n \<and> n \<le> 3600"

inductive spells :: "flag \<Rightarrow> string list \<Rightarrow> bool" where
  unattended: "spells ForceUnattended [''--unattended'']"
| state_dir: "v \<noteq> ''--'' \<Longrightarrow> spells (StateDir v) [''--state-dir'', v]"
| state_dir_eq: "v \<noteq> [] \<Longrightarrow> spells (StateDir v) [''--state-dir='' @ v]"
| policy: "v \<noteq> ''--'' \<Longrightarrow> spells (PolicyFile v) [''--policy'', v]"
| policy_eq: "v \<noteq> [] \<Longrightarrow> spells (PolicyFile v) [''--policy='' @ v]"
| ask_timeout: "is_timeout v n \<Longrightarrow> spells (AskTimeout n) [''--ask-timeout'', v]"
| ask_timeout_eq: "is_timeout v n \<Longrightarrow> spells (AskTimeout n) [''--ask-timeout='' @ v]"

inductive spelled :: "flag list \<Rightarrow> string list \<Rightarrow> bool" where
  Nil: "spelled [] []"
| Cons: "spells f ts \<Longrightarrow> spelled fs us \<Longrightarrow> spelled (f # fs) (ts @ us)"

fun flag_name :: "flag \<Rightarrow> string" where
  "flag_name ForceUnattended = ''--unattended''"
| "flag_name (StateDir v) = ''--state-dir''"
| "flag_name (PolicyFile v) = ''--policy''"
| "flag_name (AskTimeout n) = ''--ask-timeout''"

fun set_flag :: "flag \<Rightarrow> run_args \<Rightarrow> run_args" where
  "set_flag ForceUnattended a = a\<lparr>ra_unattended := True\<rparr>"
| "set_flag (StateDir v) a = a\<lparr>ra_state_dir := Some v\<rparr>"
| "set_flag (PolicyFile v) a = a\<lparr>ra_policy_path := Some v\<rparr>"
| "set_flag (AskTimeout n) a = a\<lparr>ra_ask_timeout := Some n\<rparr>"

definition args_of :: "flag list \<Rightarrow> string list \<Rightarrow> run_args" where
  "args_of fs cmd = (fold set_flag fs no_args)\<lparr>ra_command := cmd\<rparr>"

fun unset :: "run_args \<Rightarrow> flag \<Rightarrow> bool" where
  "unset a ForceUnattended \<longleftrightarrow> \<not> ra_unattended a"
| "unset a (StateDir v) \<longleftrightarrow> ra_state_dir a = None"
| "unset a (PolicyFile v) \<longleftrightarrow> ra_policy_path a = None"
| "unset a (AskTimeout n) \<longleftrightarrow> ra_ask_timeout a = None"

lemma unset_after: "unset (set_flag f a) g \<longleftrightarrow> flag_name f \<noteq> flag_name g \<and> unset a g"
  by (cases f; cases g) simp_all

lemma is_timeout_ok: "is_timeout v n \<longleftrightarrow> parse_ask_timeout v = Inr n"
  by (auto simp: is_timeout_def parse_ask_timeout_def split: option.splits)

lemma no_timeout [simp]:
  "parse_ask_timeout ''--'' = Inl InvalidAskTimeoutValue" "parse_ask_timeout [] = Inl InvalidAskTimeoutValue"
  by (simp_all add: parse_ask_timeout_def parse_uint_def is_digit_def code_def)

lemma starts_with_same [simp]: "starts_with p (p @ s)"
  by (simp add: starts_with_iff)

lemma parse_spelled_flag:
  assumes "spells f ts" and "unset a f"
  shows "parse_tokens a (ts @ us) = parse_tokens (set_flag f a) us"
  using assms
  by (cases rule: spells.cases)
    (auto simp: starts_with_def is_timeout_ok)

lemma parse_first_flag:
  assumes "parse_tokens a ts = Inr b"
  shows "(\<exists>cmd. ts = ''--'' # cmd \<and> cmd \<noteq> [] \<and> b = a\<lparr>ra_command := cmd\<rparr>) \<or>
    (\<exists>f os us. spells f os \<and> ts = os @ us \<and> unset a f \<and> length us < length ts \<and> parse_tokens (set_flag f a) us = Inr b)"
proof (cases ts)
  case (Cons tok rest)
  have flag: ?thesis if "spells f os" "ts = os @ us" "unset a f" for f os us
  proof -
    have "parse_tokens (set_flag f a) us = Inr b" using parse_spelled_flag [OF that(1,3)] that(2) assms by simp
    moreover have "os \<noteq> []" using that(1) by (cases rule: spells.cases) auto
    ultimately show ?thesis using that by (cases os) auto
  qed
  have eq_form: "\<exists>v. tok = p @ v \<and> drop (length p) tok = v" if "starts_with p tok" for p
    using that by (auto simp: starts_with_iff)
  consider (sep) "tok = ''--''" | (ua) "tok = ''--unattended''" | (sd) "tok = ''--state-dir''"
    | (sde) "starts_with ''--state-dir='' tok" | (po) "tok = ''--policy''" | (poe) "starts_with ''--policy='' tok"
    | (at) "tok = ''--ask-timeout''" | (ate) "starts_with ''--ask-timeout='' tok"
    using assms Cons by (auto split: if_splits)
  then show ?thesis
  proof cases
    case sep
    then show ?thesis using assms Cons by (auto split: if_splits)
  next
    case ua
    then show ?thesis using assms Cons flag [OF spells.unattended, of rest] by (auto split: if_splits)
  next
    case sd
    then obtain v rest' where "rest = v # rest'" "v \<noteq> ''--''" "ra_state_dir a = None"
      using assms Cons by (auto split: if_splits list.splits)
    with sd Cons show ?thesis by (intro flag [OF spells.state_dir]) auto
  next
    case sde
    then obtain v where v: "tok = ''--state-dir='' @ v" using eq_form by blast
    then have "v \<noteq> []" "ra_state_dir a = None" using assms Cons by (auto simp: starts_with_def split: if_splits)
    with v Cons show ?thesis by (intro flag [OF spells.state_dir_eq]) auto
  next
    case po
    then obtain v rest' where "rest = v # rest'" "v \<noteq> ''--''" "ra_policy_path a = None"
      using assms Cons by (auto simp: starts_with_def split: if_splits list.splits)
    with po Cons show ?thesis by (intro flag [OF spells.policy]) auto
  next
    case poe
    then obtain v where v: "tok = ''--policy='' @ v" using eq_form by blast
    then have "v \<noteq> []" "ra_policy_path a = None" using assms Cons by (auto simp: starts_with_def split: if_splits)
    with v Cons show ?thesis by (intro flag [OF spells.policy_eq]) auto
  next
    case at
    then obtain v rest' n where "rest = v # rest'" "is_timeout v n" "ra_ask_timeout a = None"
      using assms Cons by (auto simp: starts_with_def is_timeout_ok split: if_splits list.splits sum.splits)
    with at Cons show ?thesis by (intro flag [OF spells.ask_timeout]) auto
  next
    case ate
    then obtain v where v: "tok = ''--ask-timeout='' @ v" using eq_form by blast
    then obtain n where "is_timeout v n" "ra_ask_timeout a = None"
      using assms Cons by (auto simp: starts_with_def is_timeout_ok split: if_splits sum.splits)
    with v Cons show ?thesis by (intro flag [OF spells.ask_timeout_eq]) auto
  qed
qed (use assms in simp)

definition parses_as :: "run_args \<Rightarrow> string list \<Rightarrow> run_args \<Rightarrow> bool" where
  "parses_as a ts b \<longleftrightarrow> (\<exists>fs os cmd. spelled fs os \<and> ts = os @ ''--'' # cmd \<and> cmd \<noteq> [] \<and>
     distinct (map flag_name fs) \<and> (\<forall>f \<in> set fs. unset a f) \<and> b = (fold set_flag fs a)\<lparr>ra_command := cmd\<rparr>)"

lemma parse_tokens_sound: "parse_tokens a ts = Inr b \<Longrightarrow> parses_as a ts b"
proof (induction ts arbitrary: a rule: length_induct)
  case (1 ts)
  from parse_first_flag [OF 1(2)] show ?case
  proof (elim disjE exE conjE)
    fix cmd assume "ts = ''--'' # cmd" "cmd \<noteq> []" "b = a\<lparr>ra_command := cmd\<rparr>"
    then show ?thesis unfolding parses_as_def
      by (intro exI [of _ "[]"] exI [of _ cmd]) (simp add: spelled.Nil)
  next
    fix f os us
    assume f: "spells f os" "ts = os @ us" "unset a f" "length us < length ts" "parse_tokens (set_flag f a) us = Inr b"
    with 1(1) have "parses_as (set_flag f a) us b" by blast
    then obtain fs qs cmd where "spelled fs qs" "us = qs @ ''--'' # cmd" "cmd \<noteq> []" "distinct (map flag_name fs)"
      "\<forall>g \<in> set fs. unset (set_flag f a) g" "b = (fold set_flag fs (set_flag f a))\<lparr>ra_command := cmd\<rparr>"
      unfolding parses_as_def by blast
    with f spelled.Cons [OF f(1)] show ?thesis unfolding parses_as_def
      by (intro exI [of _ "f # fs"] exI [of _ "os @ qs"] exI [of _ cmd]) (auto simp: unset_after)
  qed
qed

lemma parse_tokens_complete:
  "spelled fs os \<Longrightarrow> distinct (map flag_name fs) \<Longrightarrow> \<forall>f \<in> set fs. unset a f \<Longrightarrow> cmd \<noteq> [] \<Longrightarrow>
   parse_tokens a (os @ ''--'' # cmd) = Inr ((fold set_flag fs a)\<lparr>ra_command := cmd\<rparr>)"
proof (induction arbitrary: a rule: spelled.induct)
  case (Cons f ts fs us)
  have "\<forall>g \<in> set fs. unset (set_flag f a) g" using Cons.prems by (auto simp: unset_after)
  with Cons.IH [of "set_flag f a"] parse_spelled_flag [OF Cons.hyps(1), of a "us @ ''--'' # cmd"] Cons.prems
  show ?case by simp
qed simp

lemma unset_no_args: "unset no_args f"
  by (cases f) (simp_all add: no_args_def)

lemma parse_run_iff:
  "parse_run ts = Inr a \<longleftrightarrow>
   (\<exists>fs os cmd. spelled fs os \<and> ts = os @ ''--'' # cmd \<and> cmd \<noteq> [] \<and> distinct (map flag_name fs) \<and> a = args_of fs cmd)"
  using parse_tokens_sound [of no_args ts a] parse_tokens_complete [of _ _ no_args]
  by (auto simp: parse_run_def parses_as_def unset_no_args args_of_def)
section \<open>The state root\<close>

fun is_normal :: "path_component \<Rightarrow> bool" where
  "is_normal (Normal s) = True"
| "is_normal _ = False"

lemma body_components_trim: "body_components (rev (dropWhile trivial_piece (rev ps))) = body_components ps"
  by (induction ps rule: rev_induct) (simp_all add: body_components_trivial body_components_append)

lemma parent_components:
  assumes "is_absolute p" and "path_parent p = Some q"
  shows "is_absolute q \<and> (\<exists>c. components p = components q @ [c] \<and>
    (case path_file_name p of Some n \<Rightarrow> c = Normal n | None \<Rightarrow> \<not> is_normal c))"
proof -
  obtain b where b: "p = CHR ''/'' # b" using assms(1) by (cases p) auto
  define ps where "ps = split_on CHR ''/'' b"
  define t where "t = rev (dropWhile trivial_piece (rev ps))"
  define u where "u = rev (dropWhile trivial_piece (rev (butlast t)))"
  have trim: "trim_pieces True xs = rev (dropWhile trivial_piece (rev xs))" for xs
    by (simp add: trim_pieces_def Let_def)
  have "path_parent p = (if t = [] then None else Some (CHR ''/'' # join_with ''/'' u))"
    by (simp add: path_parent_def b trim ps_def [symmetric] t_def [symmetric] u_def [symmetric] Let_def)
  with assms(2) have t: "t \<noteq> []" and q: "q = CHR ''/'' # join_with ''/'' u" by (auto split: if_splits)
  have sub: "set (rev (dropWhile trivial_piece (rev xs))) \<subseteq> set xs" for xs
    by (auto dest: set_dropWhileD)
  have "set u \<subseteq> set (butlast t)" unfolding u_def by (rule sub)
  moreover have "set (butlast t) \<subseteq> set t" by (auto dest: in_set_butlastD)
  moreover have "set t \<subseteq> set ps" unfolding t_def by (rule sub)
  ultimately have "set u \<subseteq> set ps" by blast
  then have "\<forall>x \<in> set u. CHR ''/'' \<notin> set x" using split_on_pieces by (auto simp: ps_def)
  then have "components q = RootDir # body_components (butlast t)"
    unfolding q components_absolute by (simp add: body_components_join) (simp add: u_def body_components_trim)
  moreover have p: "components p = RootDir # body_components t"
    unfolding b components_absolute by (simp add: ps_def [symmetric] t_def body_components_trim)
  moreover have "\<not> trivial_piece (last t)"
    using t hd_dropWhile [of trivial_piece "rev ps"] by (auto simp: t_def last_rev)
  then obtain c where c: "body_component (last t) = [c]" "c = ParentDir \<or> (\<exists>n. c = Normal n)"
    by (cases "last t = ''..''") auto
  moreover have "body_components t = body_components (butlast t) @ [c]"
    using t c(1) by (metis append_butlast_last_id body_components_append body_components_def concat.simps list.map append_Nil2)
  ultimately show ?thesis using q by (auto simp: path_file_name_def)
qed

lemma ancestors_step: "ancestors p = (case path_parent p of None \<Rightarrow> [] | Some q \<Rightarrow> q # ancestors q)"
  by (rule ancestors.simps)

lemma ancestors_shorter:
  "is_absolute p \<Longrightarrow> \<forall>a \<in> set (ancestors p). length (components a) < length (components p)"
proof (induction p rule: ancestors.induct)
  case (1 p)
  show ?case
  proof (cases "path_parent p")
    case (Some q)
    from parent_components [OF 1(2) Some] have q: "is_absolute q" "length (components p) = Suc (length (components q))"
      by auto
    from 1(1) [OF Some q(1)] q(2) show ?thesis by (auto simp: ancestors_step [of p] Some less_Suc_eq)
  qed (simp add: ancestors_step [of p])
qed

text \<open>The climb ends at the deepest ancestor that exists (or at the root), and keeps the names between.\<close>

lemma climb_existing_ends:
  assumes "is_absolute p" and "climb_existing ex p names = (q, names')" and "path_parent p \<noteq> None"
  shows "\<exists>cs. is_absolute q \<and> q \<in> set (ancestors p) \<and> components p = components q @ cs \<and> cs \<noteq> [] \<and>
    map Normal names' = filter is_normal cs @ map Normal names \<and> (ex q \<or> path_parent q = None) \<and>
    (\<forall>a \<in> set (ancestors p). length (components q) < length (components a) \<longrightarrow> \<not> ex a)"
  using assms
proof (induction ex p names rule: climb_existing.induct)
  case (1 ex p names)
  obtain parent where parent: "path_parent p = Some parent" using 1(4) by blast
  define names1 where "names1 = (case path_file_name p of Some name \<Rightarrow> name # names | None \<Rightarrow> names)"
  from parent_components [OF 1(2) parent] obtain c where c: "is_absolute parent" "components p = components parent @ [c]"
    and name: "case path_file_name p of Some n \<Rightarrow> c = Normal n | None \<Rightarrow> \<not> is_normal c" by blast
  from name have n: "map Normal names1 = filter is_normal [c] @ map Normal names"
    by (cases "path_file_name p") (simp_all add: names1_def)
  note c = c n
  have anc: "ancestors p = parent # ancestors parent" by (simp add: ancestors_step [of p] parent)
  have shorter: "\<forall>a \<in> set (ancestors parent). length (components a) < length (components parent)"
    using ancestors_shorter [OF c(1)] .
  have climb: "climb_existing ex p names = (if ex parent then (parent, names1) else climb_existing ex parent names1)"
    by (subst climb_existing.simps) (simp add: parent names1_def Let_def)
  show ?case
  proof (cases "ex parent \<or> path_parent parent = None")
    case True
    then have "climb_existing ex p names = (parent, names1)"
      using climb climb_existing.simps [of ex parent names1] by auto
    with 1(3) True c anc shorter show ?thesis by auto
  next
    case False
    with 1(3) climb have rec: "climb_existing ex parent names1 = (q, names')" by simp
    from 1(1) [OF parent names1_def _ c(1) rec] False obtain cs where
      cs: "is_absolute q" "q \<in> set (ancestors parent)" "components parent = components q @ cs" "cs \<noteq> []"
        "map Normal names' = filter is_normal cs @ map Normal names1" "ex q \<or> path_parent q = None"
        "\<forall>a \<in> set (ancestors parent). length (components q) < length (components a) \<longrightarrow> \<not> ex a"
      by blast
    with c anc False show ?thesis by (intro exI [of _ "cs @ [c]"]) auto
  qed
qed

lemma components_push:
  assumes "is_absolute e" and "is_absolute p" and "Normal n \<in> set (components p)"
  shows "components (path_join e n) = components e @ [Normal n]"
proof -
  obtain b where b: "p = CHR ''/'' # b" using assms(2) by (cases p) auto
  then have "Normal n \<in> set (body_components (split_on CHR ''/'' b))" using assms(3) by (simp add: components_absolute)
  then have n: "n \<in> set (split_on CHR ''/'' b)" "n \<noteq> []" "n \<noteq> ''.''" "n \<noteq> ''..''"
    by (auto simp: body_components_def split: if_splits)
  then have sep: "CHR ''/'' \<notin> set n" using split_on_pieces by blast
  moreover from sep n(2) have "\<not> is_absolute n" by (cases n) auto
  ultimately show ?thesis using components_join [OF assms(1)] n by (simp add: split_on_no_sep body_components_def)
qed

lemma components_pushes:
  "is_absolute e \<Longrightarrow> is_absolute p \<Longrightarrow> \<forall>n \<in> set ns. Normal n \<in> set (components p) \<Longrightarrow>
   is_absolute (foldl path_join e ns) \<and> components (foldl path_join e ns) = components e @ map Normal ns"
proof (induction ns arbitrary: e)
  case (Cons n ns)
  then show ?case using components_push [of e p n] is_absolute_join [of e n] by simp
qed simp


lemma canonicalize_deepest_ok:
  assumes "canonicalize_deepest_ancestor ex canon p = Inr r" and abs: "is_absolute p"
    and canon: "\<And>p q. canon p = Inr q \<Longrightarrow> is_absolute q"
  shows "\<exists>q cs e. q \<in> set (p # ancestors p) \<and> components p = components q @ cs \<and> canon q = Inr e \<and>
    components r = components e @ filter is_normal cs \<and> is_absolute r \<and> (ex q \<or> path_parent q = None) \<and>
    (\<forall>a \<in> set (p # ancestors p). length (components q) < length (components a) \<longrightarrow> \<not> ex a)"
proof -
  have shorter: "\<forall>a \<in> set (ancestors p). length (components a) < length (components p)" using ancestors_shorter [OF abs] .
  consider "ex p" | "\<not> ex p" "path_parent p = None" | "\<not> ex p" "path_parent p \<noteq> None" by blast
  then show ?thesis
  proof cases
    case 1
    with assms shorter show ?thesis
      by (intro exI [of _ p] exI [of _ "[]"] exI [of _ r]) (auto simp: canonicalize_deepest_ancestor_def)
  next
    case 2
    then have "climb_existing ex p [] = (p, [])" by (simp add: climb_existing.simps)
    with 2 assms shorter show ?thesis
      by (intro exI [of _ p] exI [of _ "[]"] exI [of _ r])
        (auto simp: canonicalize_deepest_ancestor_def map_sum_def split: sum.splits)
  next
    case 3
    obtain q names where climb: "climb_existing ex p [] = (q, names)" by (metis surj_pair)
    from climb_existing_ends [OF abs climb 3(2)] obtain cs where cs: "is_absolute q" "q \<in> set (ancestors p)"
      "components p = components q @ cs" "map Normal names = filter is_normal cs" "ex q \<or> path_parent q = None"
      "\<forall>a \<in> set (ancestors p). length (components q) < length (components a) \<longrightarrow> \<not> ex a" by auto
    from assms(1) 3(1) climb obtain e where e: "canon q = Inr e" "r = foldl path_join e names"
      by (auto simp: canonicalize_deepest_ancestor_def map_sum_def split: sum.splits)
    have "Normal n \<in> set (components p)" if "n \<in> set names" for n
    proof -
      from that have "Normal n \<in> set (filter is_normal cs)" by (simp flip: cs(4))
      then show ?thesis using cs(3) by simp
    qed
    with components_pushes [OF canon [OF e(1)] abs, of names] e(2) cs(4)
    have "is_absolute r \<and> components r = components e @ filter is_normal cs" by simp
    with cs e(1) 3(1) show ?thesis by (intro exI [of _ q] exI [of _ cs] exI [of _ e]) auto
  qed
qed

section \<open>Where the session writes\<close>

fun file_of :: "session_call \<Rightarrow> path option" where
  "file_of (CreateDirAll p r) = Some p"
| "file_of (CreateDir p r) = Some p"
| "file_of (CreateNew p r) = Some p"
| "file_of (WriteFile p t r) = Some p"
| "file_of (SyncFile p r) = Some p"
| "file_of (ReadFile p r) = Some p"
| "file_of c = None"

text \<open>
  The calls of the session itself that name a file or directory, and that they name one below a root. The
  other calls name none and are left free: what the policy read, Landlock, the broker, the child and the
  notify loop touch is not the session's own.
\<close>

definition own_file_beneath :: "path \<Rightarrow> session_call \<Rightarrow> bool" where
  "own_file_beneath root c \<longleftrightarrow> (case file_of c of None \<Rightarrow> True | Some p \<Rightarrow> path_starts_with p root)"

lemma beneath_calls [simp]:
  "own_file_beneath root (LandlockSetup h cs r)" "own_file_beneath root (TraceWrite l r1)" "own_file_beneath root (TraceFlush r1)"
  "own_file_beneath root (TraceSync r1)" "own_file_beneath root (Announce m)" "own_file_beneath root (SpawnBroker rs w r2)"
  "own_file_beneath root (SpawnChild argv md f r3)" "own_file_beneath root (ServeLoop as r4)" "own_file_beneath root StopBroker"
  "own_file_beneath root DropRuleset" "own_file_beneath root (CreateDirAll p r1) = path_starts_with p root"
  "own_file_beneath root (CreateDir p r1) = path_starts_with p root" "own_file_beneath root (CreateNew p r1) = path_starts_with p root"
  "own_file_beneath root (WriteFile p t r1) = path_starts_with p root" "own_file_beneath root (SyncFile p r1) = path_starts_with p root"
  "own_file_beneath root (ReadFile p r5) = path_starts_with p root"
  by (simp_all add: own_file_beneath_def)

lemma pad_relative: "\<not> is_absolute (pad w i @ rest)"
proof -
  obtain c cs where c: "show_int i = c # cs" "c \<noteq> CHR ''/''"
  proof (cases "show_int i")
    case Nil
    then show thesis by (simp add: show_int_def split: if_splits)
  next
    case (Cons c cs)
    have "c \<noteq> CHR ''/''"
    proof
      assume "c = CHR ''/''"
      with Cons obtain n where "CHR ''/'' \<in> set (show_nat n)"
        by (auto simp: show_int_def split: if_splits) (metis list.set_intros(1))
      then show False using show_nat_digits [of n] by (auto simp: is_digit_def code_def)
    qed
    with Cons that show thesis by blast
  qed
  then show ?thesis by (cases "w - length (show_int i)") (auto simp: pad_def Let_def)
qed

lemma format_relative: "\<not> is_absolute (format_utc_compact secs @ rest)"
  using pad_relative by (cases "civil_from_days (int (secs div 86400))") (simp add: format_utc_compact_def Let_def)

lemma run_id_relative: "generate_run_id now random = Inr rid \<Longrightarrow> \<not> is_absolute rid"
  using format_relative by (auto simp: generate_run_id_def result_simps)

lemma join_beneath:
  "is_absolute base \<Longrightarrow> \<not> is_absolute p \<Longrightarrow> path_starts_with base root \<Longrightarrow> path_starts_with (path_join base p) root"
  using join_starts_with path_starts_with_trans by blast

lemma logs_lift_bind:
  "(\<And>x. r = Inr x \<Longrightarrow> logs P (f x)) \<Longrightarrow> logs P (bindE (liftE g r) f)"
  by (cases r) (simp_all add: logs_def bindE_def liftE_def retE_def failE_def)

lemma prepare_beneath: "logs (own_file_beneath root) (prepare_enforcement K spec abi)"
  unfolding prepare_enforcement_def Let_def
  by (auto intro!: logs_rules split: option.split prod.split)

lemma run_dir_beneath: "is_absolute root \<Longrightarrow> logs (own_file_beneath root) (create_run_dir K root meta)"
  unfolding create_run_dir_def Let_def
proof (rule logs_at, rule logs_lift_bind)
  fix s rid
  assume root: "is_absolute root"
    and "generate_run_id (map_option (\<lambda>ms. ms div 1000) (se_clock_ms K (ses_log s))) (se_random K) =
      (Inr rid :: trace_error + string)"
  then have rid: "\<not> is_absolute rid" using run_id_relative by blast
  let ?runs = "path_join root ''runs''" and ?p = "path_join (path_join root ''runs'') rid"
  have abs: "is_absolute ?runs" "is_absolute ?p" using root is_absolute_join by simp_all
  have runs: "path_starts_with ?runs root" using join_beneath [OF root] by simp
  have p: "path_starts_with ?p root" using join_beneath [OF abs(1) rid runs] .
  have "path_starts_with (path_join ?p ''snapshots'') root" "path_starts_with (path_join ?p ''meta.json'') root"
    using join_beneath [OF abs(2) _ p] by simp_all
  with runs p show "logs (own_file_beneath root) (bindE (attempt setup_err (\<lambda>h. se_file K h ?runs) (CreateDirAll ?runs)) (\<lambda>_.
      bindE (attempt setup_err (\<lambda>h. se_file K h ?p) (CreateDir ?p)) (\<lambda>_.
      bindE (attempt setup_err (\<lambda>h. se_file K h (path_join ?p ''snapshots'')) (CreateDir (path_join ?p ''snapshots''))) (\<lambda>_.
      bindE (liftE (SessionRecorder \<circ> Serialize) (se_encode_meta K meta)) (\<lambda>txt.
      bindE (attempt setup_err (\<lambda>h. se_file K h (path_join ?p ''meta.json'')) (CreateNew (path_join ?p ''meta.json''))) (\<lambda>_.
      bindE (attempt setup_err (\<lambda>h. se_file K h (path_join ?p ''meta.json'')) (WriteFile (path_join ?p ''meta.json'') txt)) (\<lambda>_.
      bindE (attempt setup_err (\<lambda>h. se_file K h (path_join ?p ''meta.json'')) (SyncFile (path_join ?p ''meta.json''))) (\<lambda>_.
        retE \<lparr>rd_id = rid, rd_path = ?p\<rparr>))))))))"
    by (intro logs_rules) simp_all
qed

lemma run_dir_path:
  assumes "create_run_dir K root meta s = (Inr d, s')"
  shows "rd_path d = path_join (path_join root ''runs'') (rd_id d) \<and> \<not> is_absolute (rd_id d)"
  using assms by (auto simp: create_run_dir_def Let_def session_Inr dest: run_id_relative)

text \<open>The run directory of a session with an absolute state root.\<close>

definition homed :: "path \<Rightarrow> run_dir \<Rightarrow> bool" where
  "homed root d \<longleftrightarrow> is_absolute (rd_path d) \<and> path_starts_with (rd_path d) root"

lemma run_dir_homed: "is_absolute root \<Longrightarrow> create_run_dir K root meta s = (Inr d, s') \<Longrightarrow> homed root d"
  using run_dir_path [of K root meta s d s'] is_absolute_join join_beneath [OF _ _ join_starts_with]
  by (auto simp: homed_def)

lemma open_trace_beneath: "homed root d \<Longrightarrow> logs (own_file_beneath root) (open_trace K d)"
proof -
  assume "homed root d"
  then have "path_starts_with (path_join (rd_path d) ''trace.jsonl'') root"
    using join_beneath by (simp add: homed_def)
  moreover have "logs (own_file_beneath root) (\<lambda>s. (Inr (), s\<lparr>ses_next_seq := 0\<rparr>))" by (simp add: logs_def)
  ultimately show ?thesis unfolding open_trace_def Let_def by (intro logs_rules) simp_all
qed

lemma start_beneath: "logs (own_file_beneath root) (bindE (start_trace K meta) (\<lambda>_. spawn_broker K spec m ruleset))"
proof -
  have "logs (own_file_beneath root) (start_trace K meta)" unfolding start_trace_def by (intro logs_rules) simp_all
  moreover have "logs (own_file_beneath root) (spawn_broker K spec m ruleset)"
    by (cases m) (auto simp: spawn_broker_def intro!: logs_rules)
  ultimately show ?thesis by (intro logs_bind)
qed

lemma spawn_beneath: "logs (own_file_beneath root) (bindE (spawn_child K spec m ruleset) (\<lambda>pid. liftE id (f pid)))"
  unfolding spawn_child_def Let_def by (intro logs_rules) simp_all

lemma serve_beneath:
  assumes "serve_loop fuel K c s = Some (r, s')"
  shows "\<exists>xs. ses_log s' = ses_log s @ xs \<and> (\<forall>c \<in> set xs. own_file_beneath root c)"
proof -
  obtain q and w :: world where "s' = log_call (ServeLoop (w_log w) q) (of_writer (replay K (w_log w) (writer_of s)))"
    using assms by (auto simp: serve_loop_def split: option.splits prod.splits)
  moreover obtain xs where "ses_log (of_writer (replay K (w_log w) (writer_of s))) = ses_log s @ xs"
    "\<forall>c \<in> set xs. is_trace_write c" using replay_logs [of K "w_log w" "writer_of s"] by auto
  moreover have "is_trace_write c \<Longrightarrow> own_file_beneath root c" for c by (cases c) simp_all
  ultimately show ?thesis by (auto simp: log_call_def)
qed

lemma finish_beneath: "homed root d \<Longrightarrow> logs (own_file_beneath root) (finish_run K d status)"
proof -
  assume "homed root d"
  then have "path_starts_with (path_join (rd_path d) ''trace.jsonl'') root"
    "path_starts_with (path_join (rd_path d) ''report.txt'') root" using join_beneath by (simp_all add: homed_def)
  then show ?thesis
    unfolding finish_run_def Let_def
    by (intro logs_rules) (auto intro!: logs_rules now_ms_logs split: exit_disposition.split)
qed

lemma run_with_writer_beneath:
  assumes "run_with_writer fuel K spec meta d es s = Some (r, s')" and home: "homed root d"
  shows "\<exists>xs. ses_log s' = ses_log s @ xs \<and> (\<forall>c \<in> set xs. own_file_beneath root c)"
  using assms(1)
proof (cases rule: run_with_writer_cases)
  case (early e)
  from logsD [OF start_beneath early(2)] show ?thesis .
next
  case (unspawned e broker s1 s2)
  from logsD [OF start_beneath unspawned(2)] logsD [OF spawn_beneath unspawned(3)] unspawned(4) show ?thesis
    by (fastforce simp: log_call_def)
next
  case (failed e broker config s1 s2 s3)
  from logsD [OF start_beneath failed(2)] logsD [OF spawn_beneath failed(3)] serve_beneath [OF failed(4)] failed(5)
  show ?thesis by (fastforce simp: log_call_def)
next
  case (finished broker config status s1 s2 s3 s4)
  from logsD [OF start_beneath finished(1)] logsD [OF spawn_beneath finished(2)] serve_beneath [OF finished(3)]
    logsD [OF finish_beneath [OF home] finished(4)] finished(5)
  show ?thesis by (fastforce simp: log_call_def)
qed

lemma session_beneath:
  assumes "run_session fuel K spec s = Some (r, s')" and root: "is_absolute (sp_state_root spec)"
  shows "\<exists>xs. ses_log s' = ses_log s @ xs \<and> (\<forall>c \<in> set xs. own_file_beneath (sp_state_root spec) c)"
proof (cases "\<exists>caps mechanism reason. probe (se_facts K) = Inr caps \<and> preflight caps (sp_mode spec) = Proceed caps mechanism reason")
  case False
  then have "s' = s"
    using assms(1) preflight_same_host
    by (auto simp: run_session_def split: sum.splits outcome.splits)
  then show ?thesis by simp
next
  case True
  then obtain caps mechanism reason where
    host: "probe (se_facts K) = Inr caps" "preflight caps (sp_mode spec) = Proceed caps mechanism reason" by blast
  obtain q s1 where q: "prepare_enforcement K spec (cap_landlock_abi caps) s = (q, s1)" by (metis surj_pair)
  note one = logsD [OF prepare_beneath q, of "sp_state_root spec"]
  show ?thesis
  proof (cases q)
    case (Inl e)
    with assms(1) host q one show ?thesis by (simp add: run_session_def)
  next
    case (Inr es)
    define leave where "leave = (\<lambda>t. if es_ruleset es = None then t else log_call DropRuleset t)"
    have leave: "\<exists>zs. ses_log (leave t) = ses_log t @ zs \<and> (\<forall>c \<in> set zs. own_file_beneath (sp_state_root spec) c)" for t
      by (auto simp: leave_def log_call_def)
    let ?prep = "bindE (now_ms K) (\<lambda>ts. let meta = run_meta_of spec caps es mechanism reason ts
        in bindE (create_run_dir K (sp_state_root spec) meta) (\<lambda>d. bindE (open_trace K d) (\<lambda>_. retE (meta, d))))"
    obtain u s2 where u: "?prep s1 = (u, s2)" by (rule prod.exhaust)
    have two: "\<exists>ys. ses_log s2 = ses_log s1 @ ys \<and> (\<forall>c \<in> set ys. own_file_beneath (sp_state_root spec) c)"
    proof -
      obtain v t where v: "now_ms K s1 = (v, t)" by (metis surj_pair)
      then have t: "t = s1" by (auto simp: now_ms_def liftE_def retE_def failE_def split: sum.splits)
      show ?thesis
      proof (cases v)
        case (Inl e)
        with u v t show ?thesis by (simp add: bindE_def)
      next
        case (Inr ts)
        let ?meta = "run_meta_of spec caps es mechanism reason ts"
        obtain w t2 where w: "create_run_dir K (sp_state_root spec) ?meta s1 = (w, t2)" by (metis surj_pair)
        note dir = logsD [OF run_dir_beneath [OF root] w]
        show ?thesis
        proof (cases w)
          case (Inl e)
          with u v t w dir \<open>v = Inr ts\<close> show ?thesis by (simp add: bindE_def Let_def)
        next
          case Dir: (Inr d)
          obtain x t3 where x: "open_trace K d t2 = (x, t3)" by (metis surj_pair)
          have "homed (sp_state_root spec) d" using run_dir_homed [OF root] w Dir by blast
          note opened = logsD [OF open_trace_beneath [OF this] x]
          have "s2 = t3" using u v t w x \<open>v = Inr ts\<close> Dir
            by (auto simp: bindE_def retE_def Let_def split: sum.splits)
          with dir opened show ?thesis by fastforce
        qed
      qed
    qed
    show ?thesis
    proof (cases u)
      case (Inl e)
      with assms(1) host q \<open>q = Inr es\<close> u have "s' = leave s2" by (simp add: run_session_def leave_def Let_def)
      with one two leave [of s2] show ?thesis by fastforce
    next
      case Prepared: (Inr md)
      obtain meta d where md: "md = (meta, d)" by (cases md)
      from u Prepared md have "homed (sp_state_root spec) d"
        using run_dir_homed [OF root] by (auto simp: bindE_Inr retE_Inr Let_def)
      moreover from assms(1) host q \<open>q = Inr es\<close> u Prepared md obtain s3 where
        "run_with_writer fuel K spec meta d es s2 = Some (r, s3)" "s' = leave s3"
        by (cases "run_with_writer fuel K spec meta d es s2") (auto simp: run_session_def leave_def Let_def)
      ultimately show ?thesis using one two leave [of s3] run_with_writer_beneath by fastforce
    qed
  qed
qed

section \<open>The outcome\<close>

lemma serve_loop_logged:
  assumes "serve_loop fuel K c s = Some (Inr status, s')"
  shows "\<exists>as t. s' = log_call (ServeLoop as (Inr status)) t"
  using assms by (auto simp: serve_loop_def map_sum_def split: option.splits prod.splits sum.splits)

lemma session_outcome:
  assumes "run_session fuel K spec s = Some (Inr out, s')"
  shows "\<exists>as status. ServeLoop as (Inr status) \<in> set (ses_log s') \<and> decode_wait_status (of_int status) = Inr (so_exit out)"
  using assms
proof (cases rule: run_session_cases)
  case (ran caps mechanism reason es ts meta d xs s2 s3)
  from ran(8) show ?thesis
  proof (cases rule: run_with_writer_cases)
    case (finished broker config status t1 t2 t3 t4)
    from serve_loop_logged [OF finished(3)] obtain as t where as: "t3 = log_call (ServeLoop as (Inr status)) t" by blast
    from logsD [OF finish_run_logs finished(4)] obtain ys where "ses_log t4 = ses_log t3 @ ys" by blast
    then have "ServeLoop as (Inr status) \<in> set (ses_log s')"
      using as ran(9) finished(5) by (auto simp: log_call_def)
    moreover have "decode_wait_status (of_int status) = Inr (so_exit out)"
      using finish_run_ok [OF finished(4)] by blast
    ultimately show ?thesis by blast
  qed simp_all
qed simp

lemma launched_as_asked:
  assumes "run_session fuel K spec fresh_session = Some (r, s)" and "SpawnChild argv m ruleset_fd res \<in> set (ses_log s)"
  shows "argv = sp_argv spec \<and> m = sp_mode spec \<and> (m = Enforce \<longrightarrow> (\<exists>caps es. enforces K spec caps es))"
  using assms(1)
proof (cases rule: run_session_cases)
  case (refused e xs)
  with assms(2) show ?thesis by (auto simp: fresh_session_def)
next
  case (ran caps mechanism reason es ts meta d xs s2 s3)
  have "preparing c \<Longrightarrow> no_launch c" for c by (cases c) simp_all
  with ran(6) assms(2) have "SpawnChild argv m ruleset_fd res \<notin> set xs" by fastforce
  moreover have "SpawnChild argv m ruleset_fd res \<in> set (ses_log s3)"
    using assms(2) ran(9) by (auto simp: log_call_def split: if_splits)
  moreover obtain ys where "ses_log s3 = ses_log s2 @ ys"
    "(\<forall>c \<in> set ys. no_launch c) \<or> launched_by K spec meta (ses_next_seq s2) (es_ruleset es) ys"
    using run_with_writer_calls [OF ran(8)] by (auto simp: run_calls_def)
  ultimately have "SpawnChild argv m ruleset_fd res \<in> set ys" "launched_by K spec meta (ses_next_seq s2) (es_ruleset es) ys"
    using ran(5) by (auto simp: fresh_session_def)
  then obtain line bs res' zs where zs: "ys = Announce (mode_notice (rm_mode meta)) # committed line @ bs @
      SpawnChild (sp_argv spec) (rm_mode meta) (map_option pr_ruleset (es_ruleset es)) res' # zs"
    "brokered spec (rm_mode meta) (es_ruleset es) bs" "\<forall>c \<in> set zs. no_launch c" unfolding launched_by_def by blast
  moreover from zs(2) have "\<forall>c \<in> set bs. no_launch c" by (auto simp: brokered_def split: mode.splits)
  ultimately have "argv = sp_argv spec \<and> m = rm_mode meta"
    using \<open>SpawnChild argv m ruleset_fd res \<in> set ys\<close> by (fastforce simp: committed_def)
  moreover from this have "m = Enforce \<longrightarrow> (\<exists>caps es. enforces K spec caps es)"
    using ran(3) by (cases "sp_mode spec") (auto simp: ran(4) run_meta_of_def intro!: exI)
  ultimately show ?thesis by (simp add: ran(4) run_meta_of_def)
qed

lemma shell_code_bounds: "decode_wait_status status = Inr ex \<Longrightarrow> 0 \<le> shell_code ex \<and> shell_code ex \<le> 254 \<or> shell_code ex = 255"
  using decode_bounds [of status] by (cases ex) auto

lemma low_byte: "0 \<le> (n :: int) \<Longrightarrow> n \<le> 255 \<Longrightarrow> n AND 0xff = n"
  using take_bit_int_eq_self [of n 8] by (simp add: take_bit_eq_mask mask_numeral)

lemma dispatch_ends:
  assumes "dispatch_run fuel K spec = Some (answer, msgs, s)"
  obtains (failed) e where "run_session fuel K spec fresh_session = Some (Inl e, s)" "answer = ExitCode 125"
      "msgs = [SessionNotice e]"
  | (completed) out where "run_session fuel K spec fresh_session = Some (Inr out, s)"
      "answer = ExitCode (nat (shell_code (so_exit out) AND 0xff))" "msgs = []"
proof -
  from assms obtain z where z: "run_session fuel K spec fresh_session = Some z" by (auto simp: dispatch_run_def)
  obtain r t where r: "z = (r, t)" by (cases z)
  show thesis
  proof (cases r)
    case (Inl e)
    with assms z r failed [of e] show thesis by (simp add: dispatch_run_def EXIT_SUPERVISOR_FAILURE_def)
  next
    case (Inr out)
    with assms z r completed [of out] show thesis by (simp add: dispatch_run_def Let_def)
  qed
qed

text \<open>The refusals of the program that are the operator's to mend.\<close>

fun usage_class :: "cli_notice \<Rightarrow> bool" where
  "usage_class (UsageNotice e) = True"
| "usage_class (ReservedNotice m) = True"
| "usage_class (StateDirNotice (InsideWorkspace r w)) = True"
| "usage_class _ = False"

lemma dir_refusal_class: "(n, msg) = dir_refusal e \<Longrightarrow> n = (if usage_class msg then 2 else 125)"
  by (cases e) (simp_all add: EXIT_USAGE_def EXIT_SUPERVISOR_FAILURE_def)

lemma settle_refuses:
  assumes "settle E = Inl (n, msg)"
  shows "n = (if usage_class msg then 2 else 125)"
proof -
  consider "n = 2" "usage_class msg" | "n = 125" "\<not> usage_class msg" | e where "(n, msg) = dir_refusal e"
    using assms
    by (auto simp: settle_def session_of_def state_candidate_def stop_at_def result_simps EXIT_USAGE_def
        EXIT_SUPERVISOR_FAILURE_def split: sum.splits command.splits option.splits)
  then show ?thesis by cases (simp_all add: dir_refusal_class)
qed

section \<open>Properties\<close>

lemma policy_of_flag:
  "ra_policy_path (fold set_flag fs a) = Some p \<Longrightarrow> PolicyFile p \<in> set fs \<or> ra_policy_path a = Some p"
proof (induction fs arbitrary: a)
  case (Cons f fs)
  then show ?case by (cases f) fastforce+
qed simp

lemma policy_of_flags: "(ra_policy_path (fold set_flag fs a) \<noteq> None) = ((\<exists>p. PolicyFile p \<in> set fs) \<or> ra_policy_path a \<noteq> None)"
proof (induction fs arbitrary: a)
  case (Cons f fs)
  then show ?case by (cases f) auto
qed simp

lemma the_policy_flag:
  "distinct (map flag_name fs) \<Longrightarrow> PolicyFile p \<in> set fs \<Longrightarrow> ra_policy_path (fold set_flag fs a) = Some p"
proof (induction fs arbitrary: a)
  case (Cons f fs)
  have kept: "ra_policy_path (fold set_flag gs a) = ra_policy_path a"
    if "''--policy'' \<notin> flag_name ` set gs" for gs a
    using that
  proof (induction gs arbitrary: a)
    case (Cons g gs)
    then show ?case by (cases g) auto
  qed simp
  show ?case
  proof (cases "f = PolicyFile p")
    case True
    with Cons.prems(1) show ?thesis by (simp add: kept)
  qed (use Cons in auto)
qed simp

lemma parse_run_command: "parse args = Inr (Run a) \<longleftrightarrow> (\<exists>rest. args = ''run'' # rest \<and> parse_run rest = Inr a)"
  by (auto simp: parse_def starts_with_def map_sum_def split: list.splits sum.splits)

text \<open>
  C28. The grammar of \<open>leash run\<close>: the arguments parse as a run with no empty policy path just when they
  are \<open>run\<close>, then flags in any order, each kind at most once, each in its one-token or two-token spelling
  with its value, a policy's not empty, then the first \<open>--\<close> that is not a value, then a command that is not
  empty; the record is what the flags say, and the command is passed on verbatim. The empty policy value,
  which the comments rule out and the code takes in one spelling, is \<open>empty_policy_is_accepted\<close>.
\<close>

theorem command_line_grammar:
  "parse args = Inr (Run a) \<and> ra_policy_path a \<noteq> Some [] \<longleftrightarrow>
   (\<exists>fs os cmd. args = ''run'' # os @ ''--'' # cmd \<and> spelled fs os \<and> PolicyFile [] \<notin> set fs \<and> cmd \<noteq> [] \<and>
      distinct (map flag_name fs) \<and> a = args_of fs cmd)"
proof -
  have "ra_policy_path (args_of fs cmd) = Some [] \<longleftrightarrow> PolicyFile [] \<in> set fs"
    if "distinct (map flag_name fs)" for fs cmd
    using policy_of_flag [of fs no_args "[]"] the_policy_flag [OF that]
    by (auto simp: args_of_def no_args_def)
  then show ?thesis unfolding parse_run_command parse_run_iff by blast
qed

text \<open>
  The two-token spelling takes the empty policy value, which the comment of \<open>MissingPolicyValue\<close> says is
  missing; the run is then an enforce run of an empty policy path.
\<close>

lemma empty_policy_is_accepted:
  "cmd \<noteq> [] \<Longrightarrow> parse (''run'' # ''--policy'' # [] # ''--'' # cmd) = Inr (Run (args_of [PolicyFile []] cmd))"
  by (simp add: parse_def parse_run_def starts_with_def args_of_def no_args_def)

text \<open>
  An accepted state root is where its path leads, and that is not in the workspace: it is the canonical
  form of the deepest ancestor of the path that exists (no deeper one does), with the names of the path
  below that ancestor appended in order, \<open>..\<close> dropped; and it neither equals nor lies under the workspace.
\<close>

theorem accepted_state_root_leads_outside:
  assumes "resolve_state_root ex canon cwd workspace candidate = Inr root"
    and "is_absolute cwd" and "\<forall>p q. canon p = Inr q \<longrightarrow> is_absolute q"
  shows "\<exists>joined q cs e. joined = path_join cwd candidate \<and> q \<in> set (joined # ancestors joined) \<and>
    components joined = components q @ cs \<and> canon q = Inr e \<and>
    (ex q \<or> path_parent q = None) \<and>
    (\<forall>a \<in> set (joined # ancestors joined). length (components q) < length (components a) \<longrightarrow> \<not> ex a) \<and>
    components root = components e @ filter is_normal cs \<and> is_absolute root \<and> \<not> path_starts_with root workspace"
proof -
  let ?joined = "path_join cwd candidate"
  have joined: "(if is_absolute candidate then candidate else path_join cwd candidate) = ?joined" by simp
  from assms(1) have "canonicalize_deepest_ancestor ex canon ?joined = Inr root" "\<not> path_starts_with root workspace"
    unfolding resolve_state_root_def joined by (auto simp: result_simps Let_def split: if_splits)
  with canonicalize_deepest_ok [OF this(1) is_absolute_join [OF assms(2)]] assms(3) show ?thesis by blast
qed

text \<open>
  The check looks at the state root, but what has to be out of the child's reach is below it: if the
  workspace is the state root's own \<open>runs\<close> directory (\<open>leash\<close> started there), the state root is accepted
  and the run directory, with the trace in it, is created inside the workspace.
\<close>

theorem trace_may_lie_in_workspace:
  assumes "is_absolute root" and "ce_exists E root" and "ce_canonicalize E root = Inr root"
    and "ce_cwd E = Inr (path_join root ''runs'')" and "ce_canonicalize E (path_join root ''runs'') = Inr (path_join root ''runs'')"
    and "ra_state_dir a = Some root"
  shows "\<exists>spec. session_of E a = Inr spec \<and> sp_workspace spec = path_join root ''runs'' \<and>
    (\<forall>K meta s. case create_run_dir K (sp_state_root spec) meta s of
       (Inr d, s') \<Rightarrow> path_starts_with (path_join (rd_path d) ''trace.jsonl'') (sp_workspace spec)
     | (Inl e, s') \<Rightarrow> True)"
proof -
  let ?w = "path_join root ''runs''"
  have w: "components ?w = components root @ [Normal ''runs'']"
    using components_join [OF assms(1), of "''runs''"] by (simp add: body_components_def)
  then have "\<not> path_eq root ?w" "\<not> path_starts_with root ?w" by (simp_all add: path_eq_def path_starts_with_iff)
  then have "resolve_state_root (ce_exists E) (ce_canonicalize E) ?w ?w root = Inr root"
    using assms(1-3) by (simp add: resolve_state_root_def canonicalize_deepest_ancestor_def Let_def)
  then obtain spec where spec: "session_of E a = Inr spec" "sp_workspace spec = ?w" "sp_state_root spec = root"
    using assms(4-6) by (auto simp: session_of_def state_candidate_def)
  have "path_starts_with (path_join (rd_path d) ''trace.jsonl'') ?w"
    if "create_run_dir K root meta s = (Inr d, s')" for K meta s d s'
  proof -
    from run_dir_path [OF that] have d: "rd_path d = path_join ?w (rd_id d)" "\<not> is_absolute (rd_id d)" by auto
    have "is_absolute ?w" using is_absolute_join [OF assms(1)] .
    then show ?thesis
      using d join_beneath [OF is_absolute_join _ join_starts_with] by simp
  qed
  with spec show ?thesis by (auto split: prod.splits sum.splits)
qed

text \<open>
  C30. The exit code is the table's: a panic only on an argument that is not UTF-8, before anything is done;
  without a message the run completed and the code is the shell code of the wait status the loop returned,
  in 0..255; with one it is 2 for the operator's mistakes, and then nothing at all was called, or 125.
\<close>

theorem exit_code_is_the_outcome:
  assumes "run_cli fuel E K = Some (answer, msgs, s)"
  shows "case answer of
      Panicked \<Rightarrow> s = fresh_session \<and> (\<exists>arg \<in> set (ce_args E). to_string_lossy arg \<noteq> arg)
    | ExitCode n \<Rightarrow>
        (case msgs of
           [] \<Rightarrow> n \<le> 255 \<and> (\<exists>as status ex. ServeLoop as (Inr status) \<in> set (ses_log s) \<and>
                   decode_wait_status (of_int status) = Inr ex \<and> int n = shell_code ex)
         | [msg] \<Rightarrow> (if usage_class msg then n = 2 \<and> s = fresh_session else n = 125)
         | _ \<Rightarrow> False)"
proof (cases "list_all (\<lambda>arg. to_string_lossy arg = arg) (ce_args E)")
  case False
  with assms show ?thesis by (auto simp: run_cli_def list_all_iff)
next
  case utf8: True
  show ?thesis
  proof (cases "settle E")
    case (Inl stop)
    obtain n msg where "stop = (n, msg)" by (cases stop)
    with Inl settle_refuses [of E n msg] utf8 assms show ?thesis by (auto simp: run_cli_def)
  next
    case (Inr spec)
    with assms utf8 have "dispatch_run fuel K spec = Some (answer, msgs, s)" by (simp add: run_cli_def)
    then show ?thesis
    proof (cases rule: dispatch_ends)
      case (completed out)
      from session_outcome [OF completed(1)] obtain as status where
        as: "ServeLoop as (Inr status) \<in> set (ses_log s)" "decode_wait_status (of_int status) = Inr (so_exit out)" by blast
      from shell_code_bounds [OF as(2)] have b: "0 \<le> shell_code (so_exit out)" "shell_code (so_exit out) \<le> 255" by auto
      with low_byte completed have "answer = ExitCode (nat (shell_code (so_exit out)))" by simp
      with as b completed(3) show ?thesis by auto
    qed simp
  qed
qed

text \<open>
  C9. The child is the command the operator wrote, under the mode and the policy the operator chose: a
  launch in a run means the arguments were \<open>run\<close>, flags of distinct kinds, \<open>--\<close> and exactly the launched
  command; without a policy flag the launch is record-only; with one it is an enforce launch, and the file
  that flag names was loaded as a policy whose workspace is the canonical working directory.
\<close>

theorem launched_child_is_the_command:
  assumes "run_cli fuel E K = Some (answer, msgs, s)" and "SpawnChild argv m ruleset_fd res \<in> set (ses_log s)"
  shows "\<exists>fs os cwd workspace. ce_args E = ''run'' # os @ ''--'' # argv \<and> spelled fs os \<and>
    distinct (map flag_name fs) \<and> argv \<noteq> [] \<and> ce_cwd E = Inr cwd \<and> ce_canonicalize E cwd = Inr workspace \<and>
    (case m of
       RecordOnly \<Rightarrow> \<forall>p. PolicyFile p \<notin> set fs
     | Enforce \<Rightarrow> \<exists>p home loaded. PolicyFile p \<in> set fs \<and> se_home K = Some home \<and>
         load_with_digest (se_read_policy K) (se_sha256 K) (se_toml K) p
           \<lparr>ec_workspace = to_string_lossy workspace, ec_home = home\<rparr> = Inr loaded)"
proof -
  from assms(1,2) obtain spec where settled: "settle E = Inr spec" "dispatch_run fuel K spec = Some (answer, msgs, s)"
    by (auto simp: run_cli_def fresh_session_def split: if_splits sum.splits)
  from settled(2) obtain r where run: "run_session fuel K spec fresh_session = Some (r, s)"
    by (cases rule: dispatch_ends) auto
  from settled(1) obtain a where a: "parse (ce_args E) = Inr (Run a)" "session_of E a = Inr spec"
    by (auto simp: settle_def stop_at_def split: sum.splits command.splits)
  from a(1) obtain fs os cmd where fs: "ce_args E = ''run'' # os @ ''--'' # cmd" "spelled fs os" "cmd \<noteq> []"
    "distinct (map flag_name fs)" "a = args_of fs cmd" unfolding parse_run_command parse_run_iff by blast
  from a(2) obtain cwd workspace where w: "ce_cwd E = Inr cwd" "ce_canonicalize E cwd = Inr workspace"
    "sp_workspace spec = workspace" "sp_argv spec = ra_command a" "sp_policy_path spec = ra_policy_path a"
    "sp_mode spec = (if ra_policy_path a \<noteq> None then Enforce else RecordOnly)"
    by (auto simp: session_of_def result_simps)
  from launched_as_asked [OF run assms(2)] have launch: "argv = sp_argv spec" "m = sp_mode spec"
    "m = Enforce \<Longrightarrow> \<exists>caps es. enforces K spec caps es" by auto
  have argv: "argv = cmd" using launch(1) w(4) fs(5) by (simp add: args_of_def)
  have pol: "ra_policy_path a = Some p \<Longrightarrow> PolicyFile p \<in> set fs"
    "PolicyFile p \<in> set fs \<Longrightarrow> ra_policy_path a = Some p" for p
    using policy_of_flag [of fs no_args p] the_policy_flag [OF fs(4)] fs(5) by (auto simp: args_of_def no_args_def)
  have chosen: "case m of RecordOnly \<Rightarrow> \<forall>p. PolicyFile p \<notin> set fs
     | Enforce \<Rightarrow> \<exists>p home loaded. PolicyFile p \<in> set fs \<and> se_home K = Some home \<and>
         load_with_digest (se_read_policy K) (se_sha256 K) (se_toml K) p
           \<lparr>ec_workspace = to_string_lossy workspace, ec_home = home\<rparr> = Inr loaded"
  proof (cases m)
    case RecordOnly
    with launch(2) w(6) pol(2) show ?thesis by (auto split: if_splits)
  next
    case Enforce
    with launch(3) w(3,5) pol(1) show ?thesis by (auto simp: enforces_def)
  qed
  from fs w(1,2) argv chosen show ?thesis by blast
qed

section \<open>A sample command line for the witnesses\<close>

definition brief_cli :: cli_env where
  "brief_cli = \<lparr>ce_args = [''run'', ''--state-dir=/s'', ''--unattended'', ''--ask-timeout'', ''30'', ''--'', ''true''],
     ce_cwd = Inr ''/w'', ce_exists = (\<lambda>p. p = ''/s''), ce_canonicalize = (\<lambda>p. if p \<in> {''/w'', ''/s''} then Inr p else Inl (Some ENOENT)),
     ce_xdg = None, ce_home = None, ce_isatty = (\<lambda>_. True)\<rparr>"

lemma brief_settled: "settle brief_cli = Inr brief_spec"
proof -
  have "parse (ce_args brief_cli) = Inr (Run \<lparr>ra_command = [''true''], ra_unattended = True, ra_state_dir = Some ''/s'',
      ra_policy_path = None, ra_ask_timeout = Some 30\<rparr>)"
    by (simp add: brief_cli_def parse_def parse_run_def starts_with_def no_args_def parse_ask_timeout_def parse_uint_def
        is_digit_def code_def Let_def)
  moreover have "\<not> path_starts_with ''/s'' ''/w''" "\<not> path_eq ''/s'' ''/w''"
    by (simp_all add: path_starts_with_def path_eq_def components_def body_components_def)
  ultimately show ?thesis
    by (simp add: settle_def session_of_def state_candidate_def resolve_state_root_def canonicalize_deepest_ancestor_def
        brief_cli_def brief_spec_def attendance_of_def Let_def)
qed

lemma brief_cli_run:
  "\<exists>answer s pre res post. run_cli 1 brief_cli brief_session = Some (answer, [], s) \<and>
     ses_log s = pre @ SpawnChild [''true''] RecordOnly None res # post"
proof -
  from brief_run obtain out s pre res post where run: "run_session 1 brief_session brief_spec fresh_session = Some (Inr out, s)"
    and log: "ses_log s = pre @ SpawnChild [''true''] RecordOnly None res # post" by blast
  have "list_all (\<lambda>arg. to_string_lossy arg = arg) (ce_args brief_cli)"
    by (simp add: brief_cli_def lossy_ascii is_ascii_def code_def)
  with run have "\<exists>answer. run_cli 1 brief_cli brief_session = Some (answer, [], s)"
    by (simp add: run_cli_def brief_settled dispatch_run_def Let_def)
  with log show ?thesis by blast
qed

lemma accepted_state_root_leads_outside_witness:
  "\<exists>root. resolve_state_root (\<lambda>p. p = ''/'') (\<lambda>p. if p = ''/'' then Inr p else Inl None) ''/w'' ''/w'' ''/s'' = Inr root \<and>
     is_absolute root \<and> \<not> path_starts_with root ''/w''"
proof -
  let ?ex = "\<lambda>p. p = ''/''" and ?canon = "\<lambda>p. if p = ''/'' then Inr p else Inl None :: io_error + path"
  have "path_parent ''/s'' = Some ''/''" "path_file_name ''/s'' = Some ''s''"
    by (simp_all add: path_parent_def trim_pieces_def path_file_name_def components_def body_components_def Let_def)
  moreover have "\<not> path_starts_with ''/s'' ''/w''" "\<not> path_eq ''/s'' ''/w''"
    by (simp_all add: path_starts_with_def path_eq_def components_def body_components_def)
  ultimately have run: "resolve_state_root ?ex ?canon ''/w'' ''/w'' ''/s'' = Inr ''/s''"
    by (simp add: resolve_state_root_def canonicalize_deepest_ancestor_def climb_existing.simps path_join_def Let_def)
  have "is_absolute ''/w''" "\<forall>p q. ?canon p = Inr q \<longrightarrow> is_absolute q" by simp_all
  from accepted_state_root_leads_outside [OF run this] run show ?thesis by blast
qed

lemma trace_may_lie_in_workspace_witness:
  "\<exists>spec. session_of \<lparr>ce_args = [], ce_cwd = Inr ''/s/runs'', ce_exists = \<lambda>_. True, ce_canonicalize = Inr, ce_xdg = None,
       ce_home = None, ce_isatty = \<lambda>_. True\<rparr> (no_args\<lparr>ra_state_dir := Some ''/s''\<rparr>) = Inr spec \<and> sp_workspace spec = ''/s/runs''"
proof -
  let ?E = "\<lparr>ce_args = [], ce_cwd = Inr ''/s/runs'', ce_exists = \<lambda>_. True, ce_canonicalize = Inr, ce_xdg = None,
    ce_home = None, ce_isatty = \<lambda>_. True\<rparr>"
  have "path_join ''/s'' ''runs'' = ''/s/runs''" by (simp add: path_join_def)
  then show ?thesis
    using trace_may_lie_in_workspace [of "''/s''" ?E "no_args\<lparr>ra_state_dir := Some ''/s''\<rparr>"] by auto
qed

lemma exit_code_is_the_outcome_witness:
  "\<exists>n s as status. run_cli 1 brief_cli brief_session = Some (ExitCode n, [], s) \<and> n \<le> 255 \<and>
     ServeLoop as (Inr status) \<in> set (ses_log s)"
proof -
  from brief_cli_run obtain answer s where run: "run_cli 1 brief_cli brief_session = Some (answer, [], s)" by blast
  have "\<forall>arg \<in> set (ce_args brief_cli). to_string_lossy arg = arg"
    by (simp add: brief_cli_def lossy_ascii is_ascii_def code_def)
  with exit_code_is_the_outcome [OF run] run show ?thesis by (cases answer) auto
qed

lemma launched_child_is_the_command_witness:
  "\<exists>answer s fs os. run_cli 1 brief_cli brief_session = Some (answer, [], s) \<and>
     ce_args brief_cli = ''run'' # os @ [''--'', ''true''] \<and> spelled fs os \<and> (\<forall>p. PolicyFile p \<notin> set fs)"
proof -
  from brief_cli_run obtain answer s pre res post where run: "run_cli 1 brief_cli brief_session = Some (answer, [], s)"
    and log: "ses_log s = pre @ SpawnChild [''true''] RecordOnly None res # post" by blast
  have launch: "SpawnChild [''true''] RecordOnly None res \<in> set (ses_log s)" using log by simp
  from launched_child_is_the_command [OF run launch] run show ?thesis by auto
qed

end
