(* ===== verification/Broker_Ipc.thy ===== *)
theory Broker_Ipc imports Broker_Client Broker_Packet begin

text \<open>
  \<open>src/src/supervisor/broker.rs\<close>, below the typed requests: the packets of the socket between supervisor
  and broker, and the life of the broker process as its handle sees it, from the fork to the drop. The
  serde encoders, the socket calls and the process calls are answered by an environment; every call is
  logged. \<open>exchange\<close> is what the client's other model takes as one call.
\<close>

section \<open>Packets\<close>

definition SETUP_TIMEOUT :: nat where "SETUP_TIMEOUT = 5000"
definition OPERATION_TIMEOUT :: nat where "OPERATION_TIMEOUT = 30000"

definition POLLIN :: u16 where "POLLIN = 1"

datatype ipc_call =
    SocketPair "io_error + unit"
  | Fork "io_error + int"
  | CloseChildEnd
  | CloseParentEnd
  | SendMsg sent_message "io_error + int"
  | PollSocket nat "io_error + int \<times> u16"
  | RecvMsg "io_error + received"
  | WaitPid int "io_error + unit"
  | KillPid int
  | CloseReceived fd

record ipc_env =
  ie_pair :: "ipc_call list \<Rightarrow> io_error + unit"
  ie_fork :: "ipc_call list \<Rightarrow> io_error + int"
  ie_sendmsg :: "ipc_call list \<Rightarrow> sent_message \<Rightarrow> io_error + int"
  ie_poll :: "ipc_call list \<Rightarrow> nat \<Rightarrow> io_error + int \<times> u16"
  ie_recvmsg :: "ipc_call list \<Rightarrow> io_error + received"
  ie_waitpid :: "ipc_call list \<Rightarrow> int \<Rightarrow> io_error + unit"
  ie_encode :: "broker_request \<Rightarrow> string + string"
  ie_decode :: "string \<Rightarrow> string + broker_response"

text \<open>The handle: the process (0 once reaped) and the log.\<close>

record ipc_state =
  ib_pid :: int
  ib_log :: "ipc_call list"

type_synonym ('e, 'a) ipc_act = "(ipc_state, 'e, 'a) eff"

definition log_ipc :: "ipc_call \<Rightarrow> ipc_state \<Rightarrow> ipc_state" where
  "log_ipc c s = s\<lparr>ib_log := ib_log s @ [c]\<rparr>"

definition os_call :: "(ipc_call list \<Rightarrow> io_error + 'r) \<Rightarrow> (io_error + 'r \<Rightarrow> ipc_call) \<Rightarrow> (io_error, 'r) ipc_act" where
  "os_call answer mk = (\<lambda>s. let r = answer (ib_log s) in (r, log_ipc (mk r) s))"

definition send_packet :: "ipc_env \<Rightarrow> ('v \<Rightarrow> string + string) \<Rightarrow> 'v \<Rightarrow> fd option \<Rightarrow> (io_error, unit) ipc_act" where
  "send_packet E encode v passed =
     (case packet_message encode v passed of
        Inl e \<Rightarrow> failE e
      | Inr msg \<Rightarrow>
          bindE (os_call (\<lambda>h. ie_sendmsg E h msg) (SendMsg msg)) (\<lambda>sent.
            if sent = int (length (sm_bytes msg)) then retE () else failE None))"

definition recv_packet :: "ipc_env \<Rightarrow> (string \<Rightarrow> string + 'v) \<Rightarrow> (io_error, 'v \<times> fd option) ipc_act" where
  "recv_packet E decode = bindE (os_call (ie_recvmsg E) RecvMsg) (\<lambda>m. liftE id (take_packet decode m))"

definition poll_readable :: "ipc_env \<Rightarrow> nat \<Rightarrow> (io_error, bool) ipc_act" where
  "poll_readable E timeout =
     (let millis = min timeout (2 ^ 31 - 1)
      in bindE (os_call (\<lambda>h. ie_poll E h millis) (PollSocket millis)) (\<lambda>(rc, revents).
           retE (0 < rc \<and> revents AND POLLIN \<noteq> 0)))"

section \<open>The handle\<close>

definition io_act :: "(io_error, 'a) ipc_act \<Rightarrow> (broker_error, 'a) ipc_act" where
  "io_act m = (\<lambda>s. case m s of (r, s') \<Rightarrow> (map_sum BrokerIo id r, s'))"

definition send_request :: "ipc_env \<Rightarrow> broker_request \<Rightarrow> fd option \<Rightarrow> (broker_error, unit) ipc_act" where
  "send_request E req passed = io_act (send_packet E (ie_encode E) req passed)"

definition wait_broker :: "ipc_env \<Rightarrow> (broker_error, unit) ipc_act" where
  "wait_broker E = (\<lambda>s.
     if ib_pid s \<le> 0 then (Inr (), s)
     else io_act (os_call (\<lambda>h. ie_waitpid E h (ib_pid s)) (WaitPid (ib_pid s))) (s\<lparr>ib_pid := 0\<rparr>))"

definition stop_broker :: "ipc_env \<Rightarrow> (broker_error, unit) ipc_act" where
  "stop_broker E = bindE (tryE (send_request E Shutdown None)) (\<lambda>_. wait_broker E)"

definition kill_broker :: "ipc_env \<Rightarrow> ipc_state \<Rightarrow> ipc_state" where
  "kill_broker E s = (if 0 < ib_pid s then snd (wait_broker E (log_ipc (KillPid (ib_pid s)) s)) else s)"

definition recv_response :: "ipc_env \<Rightarrow> nat \<Rightarrow> (broker_error, broker_response \<times> fd option) ipc_act" where
  "recv_response E timeout =
     bindE (io_act (poll_readable E timeout)) (\<lambda>ready.
       if \<not> ready then (\<lambda>s. (Inl BrokerTimeout, kill_broker E s))
       else io_act (recv_packet E (ie_decode E)))"

text \<open>\<open>impl Drop for Broker\<close>, and the drop of its socket after it.\<close>

definition drop_broker :: "ipc_env \<Rightarrow> ipc_state \<Rightarrow> ipc_state" where
  "drop_broker E s =
     log_ipc CloseParentEnd
       (if 0 < ib_pid s
        then (case stop_broker E s of (Inl _, s') \<Rightarrow> kill_broker E s' | (Inr _, s') \<Rightarrow> s')
        else s)"

definition drop_received :: "fd option \<Rightarrow> ipc_state \<Rightarrow> ipc_state" where
  "drop_received f s = (case f of None \<Rightarrow> s | Some d \<Rightarrow> log_ipc (CloseReceived d) s)"

text \<open>\<open>Broker::spawn\<close> in the parent. A handle that is not returned is dropped; both ends of the pair are
  dropped when the fork fails.\<close>

definition setup_broker :: "ipc_env \<Rightarrow> (broker_error, unit) ipc_act" where
  "setup_broker E =
     bindE (recv_response E SETUP_TIMEOUT) (\<lambda>(response, passed) s.
       case (response, passed) of
         (Ready, None) \<Rightarrow> (Inr (), s)
       | (SetupError message, None) \<Rightarrow> (Inl (BrokerSetup message), snd (stop_broker E s))
       | (other, _) \<Rightarrow> (Inl BrokerProtocol, drop_received passed (snd (stop_broker E s))))"

definition spawn_handle :: "ipc_env \<Rightarrow> (broker_error, unit) ipc_act" where
  "spawn_handle E =
     bindE (io_act (os_call (ie_pair E) SocketPair)) (\<lambda>_.
     bindE (\<lambda>s. case io_act (os_call (ie_fork E) Fork) s of
              (Inl e, s') \<Rightarrow> (Inl e, log_ipc CloseParentEnd (log_ipc CloseChildEnd s'))
            | (Inr pid, s') \<Rightarrow> (Inr (), log_ipc CloseChildEnd (s'\<lparr>ib_pid := pid\<rparr>))) (\<lambda>_ s.
       case setup_broker E s of
         (Inl e, s') \<Rightarrow> (Inl e, drop_broker E s')
       | (Inr u, s') \<Rightarrow> (Inr u, s')))"

text \<open>One request and its answer, as every method of the handle makes them.\<close>

definition exchange :: "ipc_env \<Rightarrow> broker_request \<Rightarrow> fd option \<Rightarrow> (broker_error, broker_response \<times> fd option) ipc_act" where
  "exchange E req passed = bindE (send_request E req passed) (\<lambda>_. recv_response E OPERATION_TIMEOUT)"

text \<open>A whole life: the spawn, then any requests with whatever comes of each, then the drop.\<close>

fun exchanges :: "ipc_env \<Rightarrow> (broker_request \<times> fd option) list \<Rightarrow> ipc_state \<Rightarrow> ipc_state" where
  "exchanges E [] s = s"
| "exchanges E ((req, passed) # rs) s = exchanges E rs (snd (exchange E req passed s))"

definition broker_life :: "ipc_env \<Rightarrow> (broker_request \<times> fd option) list \<Rightarrow> ipc_state" where
  "broker_life E rs =
     (case spawn_handle E \<lparr>ib_pid = 0, ib_log = []\<rparr> of
        (Inl e, s) \<Rightarrow> s
      | (Inr _, s) \<Rightarrow> drop_broker E (exchanges E rs s))"

section \<open>The process is reaped once\<close>

fun process_call :: "ipc_call \<Rightarrow> bool" where
  "process_call (Fork r) = True"
| "process_call (WaitPid p q) = True"
| "process_call (KillPid p) = True"
| "process_call c = False"

definition reaps :: "ipc_state \<Rightarrow> ipc_call list" where
  "reaps s = filter process_call (ib_log s)"

text \<open>Not yet waited for, or waited for once and forgotten; a kill comes right before the wait.\<close>

definition alive :: "int \<Rightarrow> ipc_state \<Rightarrow> bool" where
  "alive p s \<longleftrightarrow> ib_pid s = p \<and> reaps s = [Fork (Inr p)]"

definition reaped :: "int \<Rightarrow> ipc_state \<Rightarrow> bool" where
  "reaped p s \<longleftrightarrow> ib_pid s = 0 \<and> (\<exists>r. reaps s = [Fork (Inr p), WaitPid p r] \<or> reaps s = [Fork (Inr p), KillPid p, WaitPid p r])"

abbreviation owned :: "int \<Rightarrow> ipc_state \<Rightarrow> bool" where
  "owned p s \<equiv> alive p s \<or> reaped p s"

lemma log_ipc_simps [simp]:
  "ib_pid (log_ipc c s) = ib_pid s" "ib_log (log_ipc c s) = ib_log s @ [c]"
  "reaps (log_ipc c s) = (if process_call c then reaps s @ [c] else reaps s)"
  "reaps (s\<lparr>ib_pid := n\<rparr>) = reaps s"
  by (simp_all add: log_ipc_def reaps_def)

lemma alive_log [simp]: "\<not> process_call c \<Longrightarrow> alive p (log_ipc c s) = alive p s"
  and reaped_log [simp]: "\<not> process_call c \<Longrightarrow> reaped p (log_ipc c s) = reaped p s"
  by (simp_all add: alive_def reaped_def)

named_theorems keeps_rules \<open>operations that make no process call\<close>

definition keeps_process :: "('e, 'a) ipc_act \<Rightarrow> bool" where
  "keeps_process m \<longleftrightarrow> (\<forall>s. ib_pid (snd (m s)) = ib_pid s \<and> reaps (snd (m s)) = reaps s)"

lemma spares_ret [keeps_rules]: "keeps_process (retE x)"
  by (simp add: keeps_process_def retE_def)

lemma spares_fail [keeps_rules]: "keeps_process (failE e)"
  by (simp add: keeps_process_def failE_def)

lemma spares_bind [keeps_rules]:
  "keeps_process m \<Longrightarrow> (\<And>x. keeps_process (f x)) \<Longrightarrow> keeps_process (bindE m f)"
  by (auto simp: keeps_process_def bindE_def split: prod.split sum.split) (metis snd_conv)+

lemma spares_call [keeps_rules]: "(\<And>r. \<not> process_call (mk r)) \<Longrightarrow> keeps_process (os_call answer mk)"
  by (simp add: keeps_process_def os_call_def Let_def)

lemma spares_io [keeps_rules]: "keeps_process m \<Longrightarrow> keeps_process (io_act m)"
  by (simp add: keeps_process_def io_act_def split: prod.split) (metis snd_conv)

lemma spares_lift [keeps_rules]: "keeps_process (liftE g r)"
  by (cases r) (simp_all add: keeps_process_def liftE_def retE_def failE_def)

lemma spares_try [keeps_rules]: "keeps_process m \<Longrightarrow> keeps_process (tryE m)"
  by (simp add: keeps_process_def tryE_def split: prod.split) (metis snd_conv)

lemma spares_if [keeps_rules]: "keeps_process m \<Longrightarrow> keeps_process m' \<Longrightarrow> keeps_process (if b then m else m')"
  by simp

lemma spares_sum [keeps_rules]:
  "(\<And>e. keeps_process (f e)) \<Longrightarrow> (\<And>x. keeps_process (g x)) \<Longrightarrow> keeps_process (case r of Inl e \<Rightarrow> f e | Inr x \<Rightarrow> g x)"
  by (cases r) simp_all

lemma spares_option [keeps_rules]:
  "keeps_process f \<Longrightarrow> (\<And>x. keeps_process (g x)) \<Longrightarrow> keeps_process (case r of None \<Rightarrow> f | Some x \<Rightarrow> g x)"
  by (cases r) simp_all

lemma spares_pair [keeps_rules]: "(\<And>a b. keeps_process (f a b)) \<Longrightarrow> keeps_process (case x of (a, b) \<Rightarrow> f a b)"
  by (cases x) simp

lemma spares_send [keeps_rules]: "keeps_process (send_packet E encode v passed)"
  unfolding send_packet_def by (intro keeps_rules) simp

lemma spares_recv [keeps_rules]: "keeps_process (recv_packet E decode)"
  unfolding recv_packet_def by (intro keeps_rules) simp

lemma spares_poll [keeps_rules]: "keeps_process (poll_readable E timeout)"
  unfolding poll_readable_def Let_def by (intro keeps_rules) simp

lemma spares_request [keeps_rules]: "keeps_process (send_request E req passed)"
  unfolding send_request_def by (intro keeps_rules)

lemma keepsD: "keeps_process m \<Longrightarrow> owned p s \<Longrightarrow> owned p (snd (m s))"
  by (simp add: keeps_process_def alive_def reaped_def)

lemma spares_alive: "keeps_process m \<Longrightarrow> alive p s \<Longrightarrow> alive p (snd (m s))"
  by (simp add: keeps_process_def alive_def)

lemma spares_reaped: "keeps_process m \<Longrightarrow> reaped p s \<Longrightarrow> reaped p (snd (m s))"
  by (simp add: keeps_process_def reaped_def)

lemma wait_alive: "alive p s \<Longrightarrow> 0 < p \<Longrightarrow> reaped p (snd (wait_broker E s))"
  by (simp add: wait_broker_def alive_def reaped_def io_act_def os_call_def Let_def)

lemma wait_reaped: "reaped p s \<Longrightarrow> wait_broker E s = (Inr (), s)"
  by (simp add: wait_broker_def reaped_def)

lemma kill_owned: "owned p s \<Longrightarrow> 0 < p \<Longrightarrow> reaped p (kill_broker E s)"
  by (auto simp: kill_broker_def wait_broker_def alive_def reaped_def io_act_def os_call_def Let_def)

lemma kill_reaped: "reaped p s \<Longrightarrow> kill_broker E s = s"
  by (simp add: kill_broker_def reaped_def)

lemma stop_owned:
  assumes "owned p s" and "0 < p"
  shows "reaped p (snd (stop_broker E s))"
proof -
  let ?t = "snd (tryE (send_request E Shutdown None) s :: (broker_error + broker_error + unit) \<times> ipc_state)"
  have "stop_broker E s = wait_broker E ?t"
    by (simp add: stop_broker_def bindE_def tryE_def split: prod.split)
  moreover have "owned p ?t" by (rule keepsD [OF _ assms(1)]) (intro keeps_rules)
  ultimately show ?thesis using wait_alive [OF _ assms(2)] wait_reaped by fastforce
qed

text \<open>The kill of \<open>Drop\<close> finds the process forgotten: the stop before it has waited, failed or not.\<close>

lemma drop_owned: "owned p s \<Longrightarrow> 0 < p \<Longrightarrow> reaped p (drop_broker E s)"
proof -
  assume s: "owned p s" and p: "0 < p"
  from stop_owned [OF s p] have "reaped p (snd (stop_broker E s))" .
  with s p show ?thesis using kill_reaped
    by (auto simp: drop_broker_def alive_def split: prod.split sum.split)
qed

lemma recv_owned: "owned p s \<Longrightarrow> 0 < p \<Longrightarrow> owned p (snd (recv_response E timeout s))"
proof -
  assume s: "owned p s" and p: "0 < p"
  obtain b s1 where b: "io_act (poll_readable E timeout) s = (b, s1)" by (metis surj_pair)
  have s1: "owned p s1" using keepsD [OF spares_io [OF spares_poll], of p s E timeout] s b by simp
  have "owned p (snd (io_act (recv_packet E (ie_decode E)) s1))"
    by (rule keepsD [OF _ s1]) (intro keeps_rules)
  with b s1 kill_owned [OF s1 p] show ?thesis by (simp add: recv_response_def bindE_def split: sum.split)
qed

lemma exchange_owned: "owned p s \<Longrightarrow> 0 < p \<Longrightarrow> owned p (snd (exchange E req passed s))"
proof -
  assume s: "owned p s" and p: "0 < p"
  obtain r s1 where r: "send_request E req passed s = (r, s1)" by (metis surj_pair)
  with keepsD [OF spares_request s] have "owned p s1" by (metis snd_conv)
  with r recv_owned [OF _ p] show ?thesis by (simp add: exchange_def bindE_def split: sum.split)
qed

lemma exchanges_owned: "owned p s \<Longrightarrow> 0 < p \<Longrightarrow> owned p (exchanges E rs s)"
  by (induction E rs s rule: exchanges.induct) (simp_all add: exchange_owned)

lemma drop_received_reaped [simp]: "reaped p (drop_received f s) = reaped p s"
  by (cases f) (simp_all add: drop_received_def)

lemma setup_owned: "owned p s \<Longrightarrow> 0 < p \<Longrightarrow> owned p (snd (setup_broker E s))"
proof -
  assume s: "owned p s" and p: "0 < p"
  obtain r s1 where r: "recv_response E SETUP_TIMEOUT s = (r, s1)" by (metis surj_pair)
  with recv_owned [OF s p] have s1: "owned p s1" by (metis snd_conv)
  then have "reaped p (snd (stop_broker E s1))" using stop_owned p by blast
  with r s1 show ?thesis
    by (auto simp: setup_broker_def bindE_def split: sum.split prod.split broker_response.split option.split)
qed

lemma setup_ok_alive: "alive p s \<Longrightarrow> setup_broker E s = (Inr u, s') \<Longrightarrow> alive p s'"
proof -
  assume s: "alive p s" and run: "setup_broker E s = (Inr u, s')"
  then obtain r where "recv_response E SETUP_TIMEOUT s = (Inr r, s')"
    by (auto simp: setup_broker_def bindE_def split: prod.splits sum.splits broker_response.splits option.splits)
  then obtain b s1 where "io_act (poll_readable E SETUP_TIMEOUT) s = (b, s1)"
    "io_act (recv_packet E (ie_decode E)) s1 = (Inr r, s')"
    by (auto simp: recv_response_def bindE_def split: prod.splits sum.splits if_splits)
  then show ?thesis using spares_alive [OF spares_io [OF spares_poll] s] spares_alive [OF spares_io [OF spares_recv]]
    by (metis snd_conv)
qed

text \<open>A spawn: no process, a process that is reaped with the error, or one that the handle owns.\<close>

lemma spawn_outcome [consumes 2, case_names unforked failed running]:
  assumes pos: "\<forall>h n. ie_fork E h = Inr n \<longrightarrow> 0 < n" and run: "spawn_handle E \<lparr>ib_pid = 0, ib_log = []\<rparr> = (r, s)"
  obtains (unforked) e where "r = Inl e" "ib_pid s = 0" "reaps s = [] \<or> (\<exists>f. reaps s = [Fork (Inl f)])"
  | (failed) e p where "r = Inl e" "0 < p" "reaped p s"
  | (running) p where "r = Inr ()" "0 < p" "alive p s"
proof -
  let ?s0 = "\<lparr>ib_pid = 0, ib_log = []\<rparr>"
  obtain a s1 where a: "io_act (os_call (ie_pair E) SocketPair) ?s0 = (a, s1)" by (metis surj_pair)
  then have s1: "ib_pid s1 = 0" "reaps s1 = []"
    by (auto simp: io_act_def os_call_def Let_def reaps_def)
  show thesis
  proof (cases a)
    case (Inl e)
    with a run s1 unforked show thesis by (auto simp: spawn_handle_def bindE_def)
  next
    case (Inr u)
    obtain b s2 where b: "io_act (os_call (ie_fork E) Fork) s1 = (b, s2)" by (metis surj_pair)
    then have s2: "ib_pid s2 = 0" "case b of Inl e \<Rightarrow> \<exists>f. reaps s2 = [Fork (Inl f)] | Inr n \<Rightarrow> 0 < n \<and> reaps s2 = [Fork (Inr n)]"
      using s1 pos by (cases "ie_fork E (ib_log s1)"; force simp: io_act_def os_call_def Let_def)+
    show thesis
    proof (cases b)
      case (Inl e)
      with a \<open>a = Inr u\<close> b run s2 unforked show thesis by (auto simp: spawn_handle_def bindE_def)
    next
      case Forked: (Inr p)
      let ?s3 = "log_ipc CloseChildEnd (s2\<lparr>ib_pid := p\<rparr>)"
      have p: "0 < p" and s3: "alive p ?s3" using s2 Forked by (simp_all add: alive_def)
      obtain c s4 where c: "setup_broker E ?s3 = (c, s4)" by (metis surj_pair)
      have s4: "owned p s4" using setup_owned [of p ?s3 E] s3 p c by simp
      show thesis
      proof (cases c)
        case (Inl e)
        with a \<open>a = Inr u\<close> b Forked run c have "r = Inl e" "s = drop_broker E s4" by (simp_all add: spawn_handle_def bindE_def)
        with failed p drop_owned [OF s4 p] show thesis by blast
      next
        case (Inr v)
        with a \<open>a = Inr u\<close> b Forked run c have "r = Inr ()" "s = s4" by (simp_all add: spawn_handle_def bindE_def)
        with running p setup_ok_alive [OF s3] c Inr show thesis by blast
      qed
    qed
  qed
qed

section \<open>One round\<close>

lemma send_packet_ok:
  assumes "send_packet E encode v passed s = (Inr u, s')"
  shows "\<exists>msg. packet_message encode v passed = Inr msg \<and>
    s' = log_ipc (SendMsg msg (Inr (int (length (sm_bytes msg))))) s"
  using assms
  by (auto simp: send_packet_def bindE_def failE_def retE_def os_call_def Let_def split: sum.splits if_splits)

lemma recv_packet_ok:
  assumes "recv_packet E decode s = (Inr (v, f), s')"
  shows "\<exists>m. ie_recvmsg E (ib_log s) = Inr m \<and> s' = log_ipc (RecvMsg (Inr m)) s \<and> decode (rm_bytes m) = Inr v \<and>
    rm_flags m AND (MSG_TRUNC OR MSG_CTRUNC) = 0 \<and> f = map_option cm_fd (rm_control m)"
  using assms
  by (auto simp: recv_packet_def bindE_def liftE_def failE_def retE_def os_call_def Let_def dest: take_packet_ok
      split: sum.splits)

definition same_process :: "ipc_state \<Rightarrow> ipc_state \<Rightarrow> bool" where
  "same_process s s' \<longleftrightarrow> ib_pid s' = ib_pid s"

lemma spares_same: "keeps_process m \<Longrightarrow> m s = (r, s') \<Longrightarrow> ib_pid s' = ib_pid s"
  by (metis keeps_process_def snd_conv)

lemma recv_response_round:
  "case recv_response E timeout s of
     (Inr (response, f), s') \<Rightarrow> ib_pid s' = ib_pid s \<and>
       (\<exists>rc revents m. ib_log s' = ib_log s @ [PollSocket (min timeout (2 ^ 31 - 1)) (Inr (rc, revents)), RecvMsg (Inr m)] \<and>
          0 < rc \<and> revents AND POLLIN \<noteq> 0 \<and> ie_decode E (rm_bytes m) = Inr response \<and>
          rm_flags m AND (MSG_TRUNC OR MSG_CTRUNC) = 0 \<and> f = map_option cm_fd (rm_control m))
   | (Inl e, s') \<Rightarrow>
       if e = BrokerTimeout \<and> 0 < ib_pid s
       then ib_pid s' = 0 \<and> (\<exists>h r. ib_log s' = h @ [KillPid (ib_pid s), WaitPid (ib_pid s) r])
       else ib_pid s' = ib_pid s"
proof -
  obtain b s2 where b: "io_act (poll_readable E timeout) s = (b, s2)" by (metis surj_pair)
  have s2: "ib_pid s2 = ib_pid s" using spares_same [OF spares_io [OF spares_poll] b] .
  show ?thesis
  proof (cases b)
    case (Inl e)
    then have "e \<noteq> BrokerTimeout" using b by (auto simp: io_act_def map_sum_def split: prod.splits sum.splits)
    with Inl b s2 show ?thesis by (simp add: recv_response_def bindE_def)
  next
    case Ready: (Inr ready)
    show ?thesis
    proof (cases ready)
      case False
      with b Ready s2 show ?thesis
        by (auto simp: recv_response_def bindE_def kill_broker_def wait_broker_def io_act_def os_call_def Let_def)
    next
      case True
      from b Ready True obtain rc revents where polled: "0 < rc" "revents AND POLLIN \<noteq> 0"
        "s2 = log_ipc (PollSocket (min timeout (2 ^ 31 - 1)) (Inr (rc, revents))) s"
        by (auto simp: io_act_def poll_readable_def bindE_def os_call_def retE_def Let_def split: sum.splits prod.splits)
      have x: "recv_response E timeout s = io_act (recv_packet E (ie_decode E)) s2"
        using b Ready True by (simp add: recv_response_def bindE_def)
      obtain r s3 where r: "recv_packet E (ie_decode E) s2 = (r, s3)" by (metis surj_pair)
      have s3: "ib_pid s3 = ib_pid s2" using spares_same [OF spares_recv r] .
      show ?thesis
      proof (cases r)
        case (Inl e)
        with x r s2 s3 show ?thesis by (simp add: io_act_def)
      next
        case (Inr v)
        obtain response f where v: "v = (response, f)" by (cases v)
        from recv_packet_ok [of E "ie_decode E" s2 response f s3] r Inr v obtain m where
          "s3 = log_ipc (RecvMsg (Inr m)) s2" "ie_decode E (rm_bytes m) = Inr response"
          "rm_flags m AND (MSG_TRUNC OR MSG_CTRUNC) = 0" "f = map_option cm_fd (rm_control m)" by blast
        with x r Inr v polled show ?thesis by (simp add: io_act_def)
      qed
    qed
  qed
qed

section \<open>Properties\<close>

text \<open>
  C21. The broker process is reaped exactly once, whatever happens: through a spawn that fails at any point,
  any requests with any answers, timeouts and socket errors, and the drop of the handle, the forked
  process is waited for once, is signalled only right before that wait, and the handle ends without it;
  if no process came to be, none is waited for or signalled.
\<close>

theorem broker_reaped_once:
  assumes "\<forall>h n. ie_fork E h = Inr n \<longrightarrow> 0 < n"
  shows "ib_pid (broker_life E rs) = 0 \<and>
    (case reaps (broker_life E rs) of
       Fork (Inr p) # calls \<Rightarrow> (\<exists>r. calls = [WaitPid p r] \<or> calls = [KillPid p, WaitPid p r])
     | calls \<Rightarrow> (calls = [] \<or> (\<exists>e. calls = [Fork (Inl e)])))"
proof -
  obtain r s where run: "spawn_handle E \<lparr>ib_pid = 0, ib_log = []\<rparr> = (r, s)" by (metis surj_pair)
  have ok: "?thesis" if "0 < p" "reaped p (broker_life E rs)" for p using that by (auto simp: reaped_def)
  from assms run show ?thesis
  proof (cases rule: spawn_outcome)
    case (unforked e)
    with run show ?thesis by (auto simp: broker_life_def)
  next
    case (failed e p)
    with run ok show ?thesis by (simp add: broker_life_def)
  next
    case (running p)
    with drop_owned [OF exchanges_owned, of p s] run ok show ?thesis by (simp add: broker_life_def)
  qed
qed

text \<open>
  A request is one round on the socket: an answer comes only from one packet sent whole (at most 1 MiB) with
  the request and its descriptor, a readable socket within 30 s, and one packet received untruncated
  that decodes to the answer, its descriptor the one attached; a timeout has killed and reaped the
  broker; no other failure touches the process.
\<close>

theorem request_is_one_round:
  "case exchange E req passed s of
     (Inr (response, f), s') \<Rightarrow> ib_pid s' = ib_pid s \<and>
       (\<exists>msg rc revents m. packet_message (ie_encode E) req passed = Inr msg \<and>
          ib_log s' = ib_log s @ [SendMsg msg (Inr (int (length (sm_bytes msg)))), PollSocket 30000 (Inr (rc, revents)),
            RecvMsg (Inr m)] \<and>
          0 < rc \<and> revents AND POLLIN \<noteq> 0 \<and> ie_decode E (rm_bytes m) = Inr response \<and>
          rm_flags m AND (MSG_TRUNC OR MSG_CTRUNC) = 0 \<and> f = map_option cm_fd (rm_control m))
   | (Inl e, s') \<Rightarrow>
       if e = BrokerTimeout \<and> 0 < ib_pid s
       then ib_pid s' = 0 \<and> (\<exists>h r. ib_log s' = h @ [KillPid (ib_pid s), WaitPid (ib_pid s) r])
       else ib_pid s' = ib_pid s"
proof -
  obtain a s1 where a: "send_request E req passed s = (a, s1)" by (metis surj_pair)
  have s1: "ib_pid s1 = ib_pid s" using spares_same [OF spares_request a] .
  show ?thesis
  proof (cases a)
    case (Inl e)
    then have "e \<noteq> BrokerTimeout" using a by (auto simp: send_request_def io_act_def map_sum_def split: prod.splits sum.splits)
    with Inl a s1 show ?thesis by (simp add: exchange_def bindE_def)
  next
    case (Inr u)
    with a obtain msg where sent: "packet_message (ie_encode E) req passed = Inr msg"
      "s1 = log_ipc (SendMsg msg (Inr (int (length (sm_bytes msg))))) s"
      using send_packet_ok [of E "ie_encode E" req passed s]
      by (auto simp: send_request_def io_act_def map_sum_def split: prod.splits sum.splits)
    have "exchange E req passed s = recv_response E OPERATION_TIMEOUT s1"
      using a Inr by (simp add: exchange_def bindE_def)
    with recv_response_round [where E = E and timeout = OPERATION_TIMEOUT and s = s1] sent s1 show ?thesis
      by (auto simp: OPERATION_TIMEOUT_def split: sum.splits prod.splits)
  qed
qed

text \<open>
  C24. Packets round-trip: whatever \<open>send_packet\<close> reports as sent, \<open>recv_packet\<close> in the other process gives
  back as the same value with the same descriptor, if the encoder's text decodes to what was encoded
  and is not empty. The cap of the sender keeps the packet within the receiver's buffer, and the
  control header it builds is one the kernel passes a descriptor for and the receiver accepts.
\<close>

theorem packet_round_trip:
  assumes "send_packet E encode v passed s = (Inr (), s')"
    and "\<forall>bytes. encode v = Inr bytes \<longrightarrow> decode bytes = Inr v \<and> bytes \<noteq> []"
  shows "\<exists>msg. s' = log_ipc (SendMsg msg (Inr (int (length (sm_bytes msg))))) s \<and> encode v = Inr (sm_bytes msg) \<and>
    (\<forall>E' t. ie_recvmsg E' (ib_log t) = Inr (transfer MAX_PACKET install msg) \<longrightarrow>
       recv_packet E' decode t = (Inr (v, map_option install passed),
         log_ipc (RecvMsg (Inr (transfer MAX_PACKET install msg))) t))"
proof -
  from send_packet_ok [OF assms(1)] obtain msg where msg: "packet_message encode v passed = Inr msg"
    "s' = log_ipc (SendMsg msg (Inr (int (length (sm_bytes msg))))) s" by blast
  from msg take_transferred [OF msg(1) assms(2)] packet_message_ok [OF msg(1)] show ?thesis
    by (intro exI [of _ msg]) (simp add: recv_packet_def bindE_def os_call_def liftE_def retE_def Let_def)
qed

section \<open>Samples for the witnesses\<close>

definition silent_socket :: ipc_env where
  "silent_socket = \<lparr>ie_pair = (\<lambda>_. Inr ()), ie_fork = (\<lambda>_. Inr 12), ie_sendmsg = (\<lambda>_ msg. Inr (int (length (sm_bytes msg)))),
     ie_poll = (\<lambda>_ _. Inr (0, 0)), ie_recvmsg = (\<lambda>_. Inl None), ie_waitpid = (\<lambda>_ _. Inr ()),
     ie_encode = (\<lambda>_. Inr ''r''), ie_decode = Inl\<rparr>"

lemma broker_reaped_once_witness:
  "ib_pid (broker_life silent_socket []) = 0 \<and>
   reaps (broker_life silent_socket []) = [Fork (Inr 12), KillPid 12, WaitPid 12 (Inr ())]"
proof -
  have "\<forall>h n. ie_fork silent_socket h = Inr n \<longrightarrow> 0 < n" by (simp add: silent_socket_def)
  from broker_reaped_once [OF this, of "[]"] have "ib_pid (broker_life silent_socket []) = 0" by simp
  moreover have "reaps (broker_life silent_socket []) = [Fork (Inr 12), KillPid 12, WaitPid 12 (Inr ())]"
    by (simp add: silent_socket_def broker_life_def spawn_handle_def bindE_def io_act_def os_call_def Let_def setup_broker_def
        recv_response_def poll_readable_def retE_def SETUP_TIMEOUT_def kill_broker_def wait_broker_def drop_broker_def
        reaps_def log_ipc_def)
  ultimately show ?thesis by simp
qed

lemma packet_round_trip_witness:
  "\<exists>s' msg. send_packet silent_socket (\<lambda>n :: nat. Inr (replicate n CHR ''x'')) 3 (Some 5) \<lparr>ib_pid = 12, ib_log = []\<rparr> =
     (Inr (), s') \<and> s' = log_ipc (SendMsg msg (Inr (int (length (sm_bytes msg))))) \<lparr>ib_pid = 12, ib_log = []\<rparr>"
proof -
  let ?s = "\<lparr>ib_pid = 12, ib_log = []\<rparr>" and ?encode = "\<lambda>n :: nat. Inr (replicate n CHR ''x'') :: string + string"
  obtain s' where run: "send_packet silent_socket ?encode 3 (Some 5) ?s = (Inr (), s')"
    by (simp add: send_packet_def packet_message_def silent_socket_def MAX_PACKET_def no_first_header_def
        CONTROL_SIZE_def CMSG_HEADER_def bindE_def os_call_def retE_def Let_def)
  have "\<forall>bytes. ?encode 3 = Inr bytes \<longrightarrow> (\<lambda>b. Inr (length b) :: string + nat) bytes = Inr 3 \<and> bytes \<noteq> []" by auto
  from packet_round_trip [OF run this] run show ?thesis by blast
qed

end
