(* ===== verification/Broker_Link.thy ===== *)
theory Broker_Link imports Broker_Ipc Broker_Claims Notify_Claims begin

text \<open>
  The three layers of \<open>src/src/supervisor/broker.rs\<close> put together. The locale \<open>broker_service\<close> is what the
  typed client relies on: the shape of the answer to each request. It is interpreted on what the
  confined process of theory \<open>Broker_Server\<close> may answer at any point of its life; the packets of theory
  \<open>Broker_Ipc\<close> carry an answer to the client or an error of their own.
\<close>

section \<open>The service the client relies on\<close>

text \<open>An answer as it crosses the socket: the response, and whether a descriptor comes with it.\<close>

definition refusal :: "broker_response \<times> bool \<Rightarrow> bool" where
  "refusal a = (\<exists>e. a = (ErrnoValue e, False) \<and> e \<noteq> 0)"

definition served_by :: "(broker_request \<Rightarrow> broker_response \<times> bool \<Rightarrow> bool) \<Rightarrow> env \<Rightarrow> bool" where
  "served_by replies E \<longleftrightarrow>
     (\<forall>h req p. case env_ipc E h req p of
        Inl e \<Rightarrow> e \<noteq> BrokerProtocol | Inr (r, f) \<Rightarrow> replies req (r, f \<noteq> None))"

text \<open>The results of the client's operations: a value, a descriptor, or a real error number.\<close>

definition real_errno :: "broker_result \<Rightarrow> bool" where
  "real_errno r = (\<exists>e. r = Errno e \<and> e \<noteq> 0)"

lemma ipc_runs: "ipc E req p w = (env_ipc E (w_log w) req p, log_action (Ipc req p (env_ipc E (w_log w) req p)) w)"
  by (simp add: ipc_def call_def bindE_def liftE_def Let_def retE_def failE_def split: sum.split)

locale broker_service =
  fixes replies :: "broker_request \<Rightarrow> broker_response \<times> bool \<Rightarrow> bool" and roots :: "path list"
  assumes prepare_law: "replies (PreparePath i rel follow missing) a \<Longrightarrow>
      (\<exists>t identity ex. a = (Prepared t identity ex, False) \<and> i < length roots \<and> path_starts_with identity (roots ! i)) \<or>
      refusal a"
    and open_law: "replies (CommitOpen t flags m) a \<Longrightarrow> a = (ResultValue 0, True) \<or> refusal a"
    and mutation_law: "replies (CommitMutation t u op) a \<Longrightarrow> a = (ResultValue 0, False) \<or> refusal a"
    and release_law: "replies (Release t) a \<Longrightarrow> a = (Released, False)"
    and network_law: "replies (Network nop address payload fl) a \<Longrightarrow> (\<exists>v. a = (ResultValue v, False)) \<or> refusal a"
begin

lemma served:
  assumes "served_by replies E"
  obtains (failed) e where "env_ipc E h req p = Inl e" "e \<noteq> BrokerProtocol"
  | (answered) r f where "env_ipc E h req p = Inr (r, f)" "replies req (r, f \<noteq> None)"
proof -
  have "case env_ipc E h req p of Inl e \<Rightarrow> e \<noteq> BrokerProtocol | Inr (r, f) \<Rightarrow> replies req (r, f \<noteq> None)"
    using assms by (simp add: served_by_def)
  then show thesis by (cases "env_ipc E h req p") (auto intro: failed answered)
qed

lemma client_prepares:
  assumes "served_by replies E" and "prepare_path E b p follow missing w = (r, w')" and "bc_anchors b = roots"
  shows "case r of
     Inl e \<Rightarrow> e \<noteq> BrokerProtocol
   | Inr (ResultR x) \<Rightarrow> real_errno x
   | Inr (PathR q) \<Rightarrow> \<exists>i rel. select_anchor b p = Some (i, rel) \<and> i < length (bc_anchors b) \<and>
       path_starts_with (pp_identity q) (bc_anchors b ! i)"
proof (cases "select_anchor b p")
  case None
  with assms(2) show ?thesis by (auto simp: prepare_path_def retE_def real_errno_def EACCES_def)
next
  case (Some ir)
  obtain i rel where ir: "ir = (i, rel)" by (cases ir)
  from assms(1) show ?thesis
  proof (cases rule: served [where h = "w_log w" and req = "PreparePath i rel follow missing" and p = None])
    case (failed e)
    with assms(2) Some ir show ?thesis by (auto simp: prepare_path_def bindE_def ipc_runs)
  next
    case (answered x f)
    from prepare_law [OF answered(2)] show ?thesis
      using assms(2,3) Some ir answered(1)
      by (auto simp: prepare_path_def bindE_def ipc_runs retE_def refusal_def real_errno_def)
  qed
qed

lemma client_opens:
  assumes "served_by replies E" and "commit_open E q flags m w = (r, w')"
  shows "case r of Inl e \<Rightarrow> e \<noteq> BrokerProtocol | Inr x \<Rightarrow> (\<exists>f. x = FdResult f) \<or> real_errno x"
  using assms(1)
proof (cases rule: served [where h = "w_log w" and req = "CommitOpen (pp_token q) flags m" and p = None])
  case (failed e)
  with assms(2) show ?thesis by (auto simp: commit_open_def bindE_def ipc_runs)
next
  case (answered x f)
  from open_law [OF answered(2)] show ?thesis
    using assms(2) answered(1)
    by (auto simp: commit_open_def bindE_def ipc_runs decode_result_def retE_def refusal_def real_errno_def)
qed

lemma client_mutates:
  assumes "served_by replies E" and "commit_mutation E q u op w = (r, w')"
  shows "case r of Inl e \<Rightarrow> e \<noteq> BrokerProtocol | Inr x \<Rightarrow> x = Value 0 \<or> real_errno x"
  using assms(1)
proof (cases rule: served [where h = "w_log w" and p = None
      and req = "CommitMutation (pp_token q) (map_option pp_token u) op"])
  case (failed e)
  with assms(2) show ?thesis by (auto simp: commit_mutation_def bindE_def ipc_runs)
next
  case (answered x f)
  from mutation_law [OF answered(2)] show ?thesis
    using assms(2) answered(1)
    by (auto simp: commit_mutation_def bindE_def ipc_runs decode_result_def retE_def refusal_def real_errno_def)
qed

lemma client_releases:
  assumes "served_by replies E" and "release E q w = (r, w')"
  shows "case r of Inl e \<Rightarrow> e \<noteq> BrokerProtocol | Inr x \<Rightarrow> True"
  using assms(1)
proof (cases rule: served [where h = "w_log w" and req = "Release (pp_token q)" and p = None])
  case (failed e)
  with assms(2) show ?thesis by (auto simp: release_def bindE_def ipc_runs)
next
  case (answered x f)
  from release_law [OF answered(2)] show ?thesis
    using assms(2) answered(1) by (auto simp: release_def bindE_def ipc_runs retE_def)
qed

lemma client_networks:
  assumes "served_by replies E" and "network E nop socket address payload fl w = (r, w')"
  shows "case r of Inl e \<Rightarrow> e \<noteq> BrokerProtocol | Inr x \<Rightarrow> (\<exists>v. x = Value v) \<or> real_errno x"
  using assms(1)
proof (cases rule: served [where h = "w_log w" and req = "Network nop address payload fl" and p = "Some socket"])
  case (failed e)
  with assms(2) show ?thesis by (auto simp: network_def bindE_def ipc_runs)
next
  case (answered x f)
  from network_law [OF answered(2)] show ?thesis
    using assms(2) answered(1)
    by (auto simp: network_def bindE_def ipc_runs decode_result_def retE_def refusal_def real_errno_def)
qed

end

section \<open>The confined process provides it\<close>

text \<open>The states between two requests, and the answers given from them.\<close>

inductive broker_reaches :: "kernel \<Rightarrow> config \<Rightarrow> broker_state \<Rightarrow> bool" for K c where
  start: "broker_reaches K c (initial_state (fst c) (snd c))"
| turn: "broker_reaches K c s \<Longrightarrow> serve_one K s = (Inr True, s') \<Longrightarrow> broker_reaches K c s'"

definition broker_replies :: "config \<Rightarrow> broker_request \<Rightarrow> broker_response \<times> fd option \<Rightarrow> bool" where
  "broker_replies c req a \<longleftrightarrow>
     (\<exists>K s passed s1 go s2. sane_kernel K \<and> broker_reaches K c s \<and> receive_request K s = (Inr (req, passed), s1) \<and>
        dispatch K req passed s1 = (Inr go, s2) \<and> answers (bs_log s2) = answers (bs_log s) @ [a])"

definition reply_shape :: "config \<Rightarrow> broker_request \<Rightarrow> broker_response \<times> bool \<Rightarrow> bool" where
  "reply_shape c req a \<longleftrightarrow> (\<exists>f. broker_replies c req (fst a, f) \<and> snd a = (f \<noteq> None))"

lemma reaches_account:
  assumes "sane_kernel K" and "broker_reaches K c s"
  shows "\<exists>N D rs. owes c N D rs {#} s \<and> session c N D rs"
  using assms(2)
proof induction
  case start
  then show ?case using owes_initial [of "fst c" "snd c"] session.start by fastforce
next
  case (turn s s')
  then obtain N D rs where "owes c N D rs {#} s" "session c N D rs" by blast
  from holdsD [OF serve_one_account [OF assms(1) this] turn.hyps(2)] show ?case by auto
qed

lemma replies_answered:
  assumes "broker_replies c req a"
  shows "\<exists>N D N' D'. answered c N D req a N' D'"
proof -
  obtain K s passed s1 go s2 where K: "sane_kernel K" and r: "broker_reaches K c s"
    "receive_request K s = (Inr (req, passed), s1)" "dispatch K req passed s1 = (Inr go, s2)"
    "answers (bs_log s2) = answers (bs_log s) @ [a]"
    using assms by (auto simp: broker_replies_def)
  obtain N D rs where o: "owes c N D rs {#} s" using reaches_account [OF K r(1)] by blast
  have o1: "owes c N D rs (mset (option_list passed)) s1" using holdsD [OF receive_account [OF o] r(2)] by simp
  have log: "answers (bs_log s2) = rs @ [a]" using r(4) o by (simp add: owes_def)
  from holdsD [OF ok_dispatch [OF o1 K] r(3)] log show ?thesis
    by (auto simp: served_post_def owes_def split: if_splits)
qed

lemma shape_refused: "refused (x, f) \<Longrightarrow> refusal (x, f \<noteq> None)"
  by (auto simp: refused_def refusal_def)

interpretation confined: broker_service "reply_shape c" "map ra_root (fst c)" for c
proof
  fix a :: "broker_response \<times> bool"
  have shape: "\<exists>f N D N' D'. answered c N D req (fst a, f) N' D' \<and> snd a = (f \<noteq> None)" if "reply_shape c req a" for req
    using that replies_answered unfolding reply_shape_def by metis
  obtain x d where a: "a = (x, d)" by (cases a)
  show "reply_shape c (PreparePath i rel follow missing) a \<Longrightarrow>
      (\<exists>t identity ex. a = (Prepared t identity ex, False) \<and> i < length (map ra_root (fst c)) \<and>
        path_starts_with identity (map ra_root (fst c) ! i)) \<or> refusal a" for i rel follow missing
    by (drule shape) (auto simp: a dest: shape_refused)
  show "reply_shape c (CommitOpen t flags m) a \<Longrightarrow> a = (ResultValue 0, True) \<or> refusal a" for t flags m
    by (drule shape) (auto simp: a dest: shape_refused)
  show "reply_shape c (CommitMutation t u op) a \<Longrightarrow> a = (ResultValue 0, False) \<or> refusal a" for t u op
    by (drule shape) (auto simp: a dest: shape_refused)
  show "reply_shape c (Release t) a \<Longrightarrow> a = (Released, False)" for t
    by (drule shape) (auto simp: a)
  show "reply_shape c (Network nop address payload fl) a \<Longrightarrow> (\<exists>v. a = (ResultValue v, False)) \<or> refusal a"
    for nop address payload fl
    by (drule shape) (auto simp: a dest: shape_refused)
qed

section \<open>Over the packets\<close>

text \<open>A packet carries an answer: its bytes decode to the response, and a descriptor is attached exactly
  if the broker passed one.\<close>

definition carries :: "ipc_env \<Rightarrow> received \<Rightarrow> broker_response \<times> fd option \<Rightarrow> bool" where
  "carries I m a \<longleftrightarrow> ie_decode I (rm_bytes m) = Inr (fst a) \<and> (rm_control m = None \<longleftrightarrow> snd a = None)"

text \<open>The client's one call is an exchange of packets with the confined process: whatever arrives is an
  answer it gives to that request.\<close>

definition linked :: "config \<Rightarrow> env \<Rightarrow> bool" where
  "linked c E \<longleftrightarrow>
     (\<forall>h req p. \<exists>I s s'. exchange I req p s = (env_ipc E h req p, s') \<and>
        (\<forall>g m. ie_recvmsg I g = Inr m \<longrightarrow> (\<exists>a. broker_replies c req a \<and> carries I m a)))"

lemma io_act_outcome: "io_act m s = (Inl e, s') \<Longrightarrow> e \<noteq> BrokerProtocol"
  by (auto simp: io_act_def map_sum_def split: prod.splits sum.splits)

lemma exchange_outcome:
  assumes "exchange I req p s = (r, s')"
  shows "case r of Inl e \<Rightarrow> e \<noteq> BrokerProtocol
    | Inr (response, f) \<Rightarrow> \<exists>g m. ie_recvmsg I g = Inr m \<and> ie_decode I (rm_bytes m) = Inr response \<and>
        f = map_option cm_fd (rm_control m)"
proof -
  obtain x s1 where x: "send_request I req p s = (x, s1)" by (metis surj_pair)
  obtain y s2 where y: "io_act (poll_readable I OPERATION_TIMEOUT) s1 = (y, s2)" by (metis surj_pair)
  obtain z s3 where z: "recv_packet I (ie_decode I) s2 = (z, s3)" by (metis surj_pair)
  have run: "exchange I req p s =
      (case x of Inl e \<Rightarrow> (Inl e, s1)
       | Inr _ \<Rightarrow> (case y of Inl e \<Rightarrow> (Inl e, s2)
                  | Inr rdy \<Rightarrow> if rdy then (map_sum BrokerIo id z, s3) else (Inl BrokerTimeout, kill_broker I s2)))"
    using x y z by (simp add: exchange_def bindE_def recv_response_def io_act_def split: sum.splits)
  have "e \<noteq> BrokerProtocol" if "x = Inl e" for e using io_act_outcome x that by (simp add: send_request_def) blast
  moreover have "e \<noteq> BrokerProtocol" if "y = Inl e" for e using io_act_outcome y that by blast
  moreover have "\<exists>g m. ie_recvmsg I g = Inr m \<and> ie_decode I (rm_bytes m) = Inr response \<and> f = map_option cm_fd (rm_control m)"
    if "z = Inr (response, f)" for response f
    using recv_packet_ok [of I "ie_decode I" s2 response f s3] z that by blast
  ultimately show ?thesis using run assms by (cases x; cases y; cases z) (auto split: if_splits)
qed

lemma linked_served: "linked c E \<Longrightarrow> served_by (reply_shape c) E"
  unfolding served_by_def
proof (intro allI)
  fix h req p
  assume "linked c E"
  then obtain I s s' where x: "exchange I req p s = (env_ipc E h req p, s')"
    and I: "\<And>g m. ie_recvmsg I g = Inr m \<Longrightarrow> \<exists>a. broker_replies c req a \<and> carries I m a"
    unfolding linked_def by metis
  note outcome = exchange_outcome [OF x]
  show "case env_ipc E h req p of Inl e \<Rightarrow> e \<noteq> BrokerProtocol | Inr (r, f) \<Rightarrow> reply_shape c req (r, f \<noteq> None)"
  proof (cases "env_ipc E h req p")
    case (Inl e)
    with outcome show ?thesis by simp
  next
    case (Inr rf)
    obtain r f where rf: "rf = (r, f)" by (cases rf)
    with outcome Inr obtain g m where m: "ie_recvmsg I g = Inr m" "ie_decode I (rm_bytes m) = Inr r"
      "f = map_option cm_fd (rm_control m)" by auto
    obtain a where a: "broker_replies c req a" "carries I m a" using I [OF m(1)] by blast
    then have "broker_replies c req (r, snd a)" "(f \<noteq> None) = (snd a \<noteq> None)"
      using m by (auto simp: carries_def)
    then have "reply_shape c req (r, f \<noteq> None)" unfolding reply_shape_def by auto
    with Inr rf show ?thesis by simp
  qed
qed

section \<open>Properties\<close>

text \<open>
  C17. The two halves of the broker agree: when the client's calls are packets exchanged with the confined
  process, none of its operations ends in a protocol error, a prepared path names an object under the
  very root the client selected, a commit yields the opened descriptor or the value 0, and a
  refusal is always a real errno. So the errors of an operation are those of the socket alone.
\<close>

theorem broker_halves_agree:
  assumes "linked c E" and "bc_anchors b = map ra_root (fst c)"
  shows "(case fst (prepare_path E b p follow missing w) of
        Inl e \<Rightarrow> e \<noteq> BrokerProtocol
      | Inr (ResultR x) \<Rightarrow> real_errno x
      | Inr (PathR q) \<Rightarrow> \<exists>i rel. select_anchor b p = Some (i, rel) \<and> i < length (bc_anchors b) \<and>
          path_starts_with (pp_identity q) (bc_anchors b ! i)) \<and>
    (case fst (commit_open E q flags m w) of
        Inl e \<Rightarrow> e \<noteq> BrokerProtocol | Inr x \<Rightarrow> (\<exists>f. x = FdResult f) \<or> real_errno x) \<and>
    (case fst (commit_mutation E q u op w) of
        Inl e \<Rightarrow> e \<noteq> BrokerProtocol | Inr x \<Rightarrow> x = Value 0 \<or> real_errno x) \<and>
    (case fst (network E nop socket address payload fl w) of
        Inl e \<Rightarrow> e \<noteq> BrokerProtocol | Inr x \<Rightarrow> (\<exists>v. x = Value v) \<or> real_errno x) \<and>
    (case fst (release E q w) of Inl e \<Rightarrow> e \<noteq> BrokerProtocol | Inr x \<Rightarrow> True)"
proof -
  note s = linked_served [OF assms(1)]
  note steps = confined.client_prepares [OF s surjective_pairing assms(2)]
    confined.client_opens [OF s surjective_pairing] confined.client_mutates [OF s surjective_pairing]
    confined.client_networks [OF s surjective_pairing] confined.client_releases [OF s surjective_pairing]
  show ?thesis by (intro conjI; rule steps)
qed

text \<open>The same contract discharges what the notify loop assumes of its broker: an answered errno is not 0.\<close>

lemma linked_errno: "linked c E \<Longrightarrow> env_ipc E h req p = Inr (ErrnoValue e, f) \<Longrightarrow> e \<noteq> 0"
proof -
  assume "linked c E" and r: "env_ipc E h req p = Inr (ErrnoValue e, f)"
  then have "served_by (reply_shape c) E" by (simp add: linked_served)
  then have "case env_ipc E h req p of Inl e \<Rightarrow> e \<noteq> BrokerProtocol | Inr (r, f) \<Rightarrow> reply_shape c req (r, f \<noteq> None)"
    unfolding served_by_def by blast
  then obtain g where "broker_replies c req (ErrnoValue e, g)" using r by (auto simp: reply_shape_def)
  from replies_answered [OF this] obtain N D N' D' where "answered c N D req (ErrnoValue e, g) N' D'" by blast
  then show "e \<noteq> 0" by (cases req) (auto simp: refused_def)
qed

text \<open>A broker over the sample kernel, asked for one path; every other exchange times out.\<close>

definition sample_config :: config where
  "sample_config = ([\<lparr>ra_root = ''/w'', ra_allowed_access = 0, ra_fd = 3\<rparr>], ''/w'')"

definition sample_socket :: "broker_request \<Rightarrow> ipc_env" where
  "sample_socket req = \<lparr>ie_pair = (\<lambda>_. Inr ()), ie_fork = (\<lambda>_. Inr 12), ie_sendmsg = (\<lambda>_ msg. Inr (int (length (sm_bytes msg)))),
     ie_poll = (\<lambda>_ _. if req = PreparePath 0 ''a'' True False then Inr (1, Broker_Ipc.POLLIN) else Inr (0, 0)),
     ie_recvmsg = (\<lambda>_. if req = PreparePath 0 ''a'' True False
       then Inr \<lparr>rm_bytes = ''p'', rm_flags = 0, rm_control = None\<rparr> else Inl None),
     ie_waitpid = (\<lambda>_ _. Inr ()), ie_encode = (\<lambda>_. Inr ''r''),
     ie_decode = (\<lambda>_. Inr (Prepared 1 ''/w/a'' True))\<rparr>"

definition linked_env :: env where
  "linked_env = sample_env\<lparr>env_ipc := (\<lambda>_ req p. fst (exchange (sample_socket req) req p \<lparr>ib_pid = 12, ib_log = []\<rparr>))\<rparr>"

lemma sample_reply: "broker_replies sample_config (PreparePath 0 ''a'' True False) (Prepared 1 ''/w/a'' True, None)"
proof -
  obtain s1 where s1: "receive_request sample_kernel sample_state = (Inr (PreparePath 0 ''a'' True False, None), s1)"
    "\<exists>s2. dispatch sample_kernel (PreparePath 0 ''a'' True False) None s1 = (Inr True, s2) \<and>
       answers (bs_log s2) = answers (bs_log sample_state) @ [(Prepared 1 ''/w/a'' True, None)]"
    by (simp add: receive_request_def take_packet_def dispatch_def bs_prepare_path_def sample_state_def
      initial_state_def open_target_def openat2_def fd_result_def prepare_at_def prepare_parent_def dup_fd_def
      prepare_identity_def identity_of_def fd_identity_def hold_path_def respond_def sample_paths resolve_flags_def
      sample_kernel_def sys_call_def eff_defs Let_def drop_fds_def next_token_def answers_def)
  moreover have "broker_reaches sample_kernel sample_config sample_state"
    using broker_reaches.start [of sample_kernel sample_config] by (simp add: sample_state_def sample_config_def)
  ultimately show ?thesis using sample_kernel_sane unfolding broker_replies_def by blast
qed

lemma sample_linked: "linked sample_config linked_env"
  unfolding linked_def
proof (intro allI)
  fix h req p
  let ?s = "\<lparr>ib_pid = 12, ib_log = []\<rparr>"
  have "exchange (sample_socket req) req p ?s =
      (env_ipc linked_env h req p, snd (exchange (sample_socket req) req p ?s))"
    by (simp add: linked_env_def)
  moreover have "\<exists>a. broker_replies sample_config req a \<and> carries (sample_socket req) m a"
    if "ie_recvmsg (sample_socket req) g = Inr m" for g m
    using that sample_reply by (auto simp: sample_socket_def carries_def split: if_splits)
  ultimately show "\<exists>I s s'. exchange I req p s = (env_ipc linked_env h req p, s') \<and>
      (\<forall>g m. ie_recvmsg I g = Inr m \<longrightarrow> (\<exists>a. broker_replies sample_config req a \<and> carries I m a))" by blast
qed

definition sample_client :: broker_client where
  "sample_client = \<lparr>bc_anchors = [''/w''], bc_workspace = ''/w''\<rparr>"

lemma sample_anchor: "select_anchor sample_client ''/w/a'' = Some (0, ''a'')"
  by (simp add: sample_client_def select_anchor_def path_starts_with_def components_def body_components_def path_eq_def
      path_strip_prefix_def is_absolute_def starts_with_def)

lemma broker_halves_agree_witness:
  "fst (prepare_path linked_env sample_client ''/w/a'' True False \<lparr>w_log = [], w_next_seq = 0\<rparr>) =
     Inr (PathR \<lparr>pp_token = 1, pp_identity = ''/w/a'', pp_exists = True\<rparr>) \<and> path_starts_with ''/w/a'' ''/w''"
proof -
  let ?w = "\<lparr>w_log = [], w_next_seq = 0\<rparr>"
  have r: "fst (prepare_path linked_env sample_client ''/w/a'' True False ?w) =
      Inr (PathR \<lparr>pp_token = 1, pp_identity = ''/w/a'', pp_exists = True\<rparr>)"
    by (simp add: prepare_path_def sample_anchor bindE_def ipc_runs linked_env_def exchange_def send_request_def
        send_packet_def packet_message_def recv_response_def poll_readable_def recv_packet_def take_packet_def
        liftE_def io_act_def os_call_def retE_def Let_def sample_socket_def MAX_PACKET_def Broker_Ipc.POLLIN_def)
  have "bc_anchors sample_client = map ra_root (fst sample_config)" by (simp add: sample_client_def sample_config_def)
  from broker_halves_agree [OF sample_linked this, of "''/w/a''" True False ?w]
  have "path_starts_with ''/w/a'' (bc_anchors sample_client ! 0)" unfolding r by (simp add: sample_anchor)
  with r show ?thesis by (simp add: sample_client_def)
qed

end
