(* ===== verification/Notify_Abi.thy ===== *)
theory Notify_Abi imports Notify_World begin

text \<open>
  \<open>src/src/supervisor/notify.rs\<close>, the binary interface: how \<open>repr(C)\<close> lays out the structures of
  \<open>linux/seccomp.h\<close>, how the ioctl numbers are built from their sizes, and how a notification is received
  into a buffer that a newer kernel may need larger. The kernel is the function that answers an ioctl with
  the bytes it leaves in the buffer.
\<close>

section \<open>Layouts\<close>

text \<open>A field is its size and alignment; \<open>repr(C)\<close> places each at the next aligned offset and pads the end.\<close>

record c_layout =
  cl_offsets :: "nat list"
  cl_size :: nat
  cl_align :: nat

definition align_up :: "nat \<Rightarrow> nat \<Rightarrow> nat" where
  "align_up a n = (n + a - 1) div a * a"

fun place_fields :: "nat \<Rightarrow> (nat \<times> nat) list \<Rightarrow> nat list \<times> nat" where
  "place_fields n [] = ([], n)"
| "place_fields n ((s, a) # fs) =
     (let off = align_up a n; (offsets, m) = place_fields (off + s) fs in (off # offsets, m))"

definition repr_c :: "(nat \<times> nat) list \<Rightarrow> c_layout" where
  "repr_c fs =
     (let (offsets, n) = place_fields 0 fs; a = fold (max \<circ> snd) fs 1
      in \<lparr>cl_offsets = offsets, cl_size = align_up a n, cl_align = a\<rparr>)"

definition as_field :: "c_layout \<Rightarrow> nat \<times> nat" where
  "as_field l = (cl_size l, cl_align l)"

text \<open>\<open>nr: i32, arch: u32, instruction_pointer: u64, args: [u64; 6]\<close>.\<close>

definition seccomp_data_layout :: c_layout where
  "seccomp_data_layout = repr_c [(4, 4), (4, 4), (8, 8), (6 * 8, 8)]"

text \<open>\<open>id: u64, pid: u32, flags: u32, data: SeccompData\<close>.\<close>

definition seccomp_notif_layout :: c_layout where
  "seccomp_notif_layout = repr_c [(8, 8), (4, 4), (4, 4), as_field seccomp_data_layout]"

text \<open>\<open>id: u64, val: i64, error: i32, flags: u32\<close>.\<close>

definition seccomp_notif_resp_layout :: c_layout where
  "seccomp_notif_resp_layout = repr_c [(8, 8), (8, 8), (4, 4), (4, 4)]"

text \<open>\<open>id: u64, flags: u32, srcfd: u32, newfd: u32, newfd_flags: u32\<close>.\<close>

definition seccomp_notif_addfd_layout :: c_layout where
  "seccomp_notif_addfd_layout = repr_c [(8, 8), (4, 4), (4, 4), (4, 4), (4, 4)]"

record notif_sizes =
  ns_notif :: u16
  ns_notif_resp :: u16
  ns_data :: u16

definition seccomp_notif_sizes_layout :: c_layout where
  "seccomp_notif_sizes_layout = repr_c [(2, 2), (2, 2), (2, 2)]"

section \<open>Numbers\<close>

definition SECCOMP_SET_MODE_FILTER :: u32 where "SECCOMP_SET_MODE_FILTER = 1"
definition SECCOMP_GET_NOTIF_SIZES :: u32 where "SECCOMP_GET_NOTIF_SIZES = 3"
definition SECCOMP_FILTER_FLAG_NEW_LISTENER :: u64 where "SECCOMP_FILTER_FLAG_NEW_LISTENER = push_bit 3 1"
definition SECCOMP_FILTER_FLAG_WAIT_KILLABLE_RECV :: u64 where
  "SECCOMP_FILTER_FLAG_WAIT_KILLABLE_RECV = push_bit 5 1"
definition SECCOMP_ADDFD_FLAG_SETFD :: u32 where "SECCOMP_ADDFD_FLAG_SETFD = 1"

definition IOC_WRITE :: u32 where "IOC_WRITE = 1"
definition IOC_READ :: u32 where "IOC_READ = 2"
definition SECCOMP_IOC_MAGIC :: u32 where "SECCOMP_IOC_MAGIC = of_char CHR 0x21"

definition ioc :: "u32 \<Rightarrow> u32 \<Rightarrow> u32 \<Rightarrow> u64" where
  "ioc dir nr sz =
     ucast (push_bit 30 dir OR push_bit 16 sz OR push_bit 8 SECCOMP_IOC_MAGIC OR nr)"

definition iowr :: "u32 \<Rightarrow> nat \<Rightarrow> u64" where
  "iowr nr sz = ioc (IOC_READ OR IOC_WRITE) nr (of_nat sz)"

definition iow :: "u32 \<Rightarrow> nat \<Rightarrow> u64" where
  "iow nr sz = ioc IOC_WRITE nr (of_nat sz)"

definition SECCOMP_IOCTL_NOTIF_RECV :: u64 where
  "SECCOMP_IOCTL_NOTIF_RECV = iowr 0 (cl_size seccomp_notif_layout)"
definition SECCOMP_IOCTL_NOTIF_SEND :: u64 where
  "SECCOMP_IOCTL_NOTIF_SEND = iowr 1 (cl_size seccomp_notif_resp_layout)"
definition SECCOMP_IOCTL_NOTIF_ID_VALID :: u64 where
  "SECCOMP_IOCTL_NOTIF_ID_VALID = iow 2 8"
definition SECCOMP_IOCTL_NOTIF_ADDFD :: u64 where
  "SECCOMP_IOCTL_NOTIF_ADDFD = iow 3 (cl_size seccomp_notif_addfd_layout)"

section \<open>The notify fd\<close>

record notify_fd =
  nf_fd :: fd
  nf_notif_size :: nat

text \<open>\<open>query\<close> is the kernel's answer to \<open>SECCOMP_GET_NOTIF_SIZES\<close>.\<close>

definition notify_fd_new :: "io_error + notif_sizes \<Rightarrow> fd \<Rightarrow> io_error + notify_fd" where
  "notify_fd_new query f =
     and_then query (\<lambda>sizes. Inr \<lparr>nf_fd = f, nf_notif_size = unat (ns_notif sizes)\<rparr>)"

text \<open>The read of \<open>SeccompNotif\<close> from the buffer's prefix, field by field at its offset.\<close>

definition field_at :: "bytes \<Rightarrow> nat \<Rightarrow> nat \<Rightarrow> bytes" where
  "field_at buf off n = take n (drop off buf)"

definition notif_at :: "bytes \<Rightarrow> seccomp_notif" where
  "notif_at buf =
     (let off = cl_offsets seccomp_notif_layout; data = off ! 3; doff = cl_offsets seccomp_data_layout
      in \<lparr>sn_id = le_word (field_at buf (off ! 0) 8), sn_pid = le_word (field_at buf (off ! 1) 4),
          sn_nr = le_word (field_at buf (data + doff ! 0) 4), sn_arch = le_word (field_at buf (data + doff ! 1) 4),
          sn_args = map (\<lambda>i. le_word (field_at buf (data + doff ! 3 + 8 * i) 8)) [0..<6]\<rparr>)"

definition recv_notif ::
  "(fd \<Rightarrow> u64 \<Rightarrow> bytes \<Rightarrow> io_error + bytes) \<Rightarrow> notify_fd \<Rightarrow> io_error + seccomp_notif" where
  "recv_notif ioctl self =
     (let len = max (nf_notif_size self) (cl_size seccomp_notif_layout);
          buf = replicate (8 * ((len + 7) div 8)) 0
      in and_then (ioctl (nf_fd self) SECCOMP_IOCTL_NOTIF_RECV buf) (\<lambda>buf'. Inr (notif_at buf')))"

section \<open>Layouts and numbers\<close>

lemma layouts:
  "seccomp_data_layout = \<lparr>cl_offsets = [0, 4, 8, 16], cl_size = 64, cl_align = 8\<rparr>"
  "seccomp_notif_layout = \<lparr>cl_offsets = [0, 8, 12, 16], cl_size = 80, cl_align = 8\<rparr>"
  "seccomp_notif_resp_layout = \<lparr>cl_offsets = [0, 8, 16, 20], cl_size = 24, cl_align = 8\<rparr>"
  "seccomp_notif_addfd_layout = \<lparr>cl_offsets = [0, 8, 12, 16, 20], cl_size = 24, cl_align = 8\<rparr>"
  "seccomp_notif_sizes_layout = \<lparr>cl_offsets = [0, 2, 4], cl_size = 6, cl_align = 2\<rparr>"
  by code_simp+

text \<open>No field of a layout overlaps the next, and each is aligned.\<close>

lemma align_up_least: "0 < a \<Longrightarrow> n \<le> align_up a n \<and> align_up a n < n + a \<and> a dvd align_up a n"
proof -
  assume a: "0 < a"
  have "n + a - 1 = align_up a n + (n + a - 1) mod a" "(n + a - 1) mod a < a"
    using a by (simp_all add: align_up_def)
  then have "n \<le> align_up a n" "align_up a n < n + a" using a by linarith+
  then show ?thesis by (simp add: align_up_def)
qed

lemma ioctl_numbers:
  "SECCOMP_IOCTL_NOTIF_RECV = 0xc0502100" "SECCOMP_IOCTL_NOTIF_SEND = 0xc0182101"
  "SECCOMP_IOCTL_NOTIF_ID_VALID = 0x40082102" "SECCOMP_IOCTL_NOTIF_ADDFD = 0x40182103"
  by (simp_all add: SECCOMP_IOCTL_NOTIF_RECV_def SECCOMP_IOCTL_NOTIF_SEND_def SECCOMP_IOCTL_NOTIF_ID_VALID_def
      SECCOMP_IOCTL_NOTIF_ADDFD_def layouts iowr_def iow_def ioc_def IOC_READ_def IOC_WRITE_def SECCOMP_IOC_MAGIC_def)

section \<open>Receiving\<close>

text \<open>What the kernel writes: its structure, little endian, field after field; \<open>ext\<close> is what a newer
  kernel has added at the end.\<close>

definition le_bytes :: "nat \<Rightarrow> 'a::len word \<Rightarrow> bytes" where
  "le_bytes k w = map (\<lambda>i. of_nat (unat w div 256 ^ i)) [0..<k]"

definition kernel_bytes :: "seccomp_notif \<Rightarrow> u32 \<Rightarrow> u64 \<Rightarrow> bytes" where
  "kernel_bytes n flags ip =
     le_bytes 8 (sn_id n) @ le_bytes 4 (sn_pid n) @ le_bytes 4 flags @ le_bytes 4 (sn_nr n) @ le_bytes 4 (sn_arch n) @
     le_bytes 8 ip @ concat (map (le_bytes 8) (sn_args n))"

lemma length_le_bytes [simp]: "length (le_bytes k w) = k"
  by (simp add: le_bytes_def)

lemma le_digits: "foldr (\<lambda>b acc. unat b + 256 * acc) (map (\<lambda>i. of_nat (m div 256 ^ i) :: u8) [0..<k]) 0 = m mod 256 ^ k"
proof (induction k arbitrary: m)
  case (Suc k)
  have "map (\<lambda>i. of_nat (m div 256 ^ i) :: u8) [0..<Suc k] =
      of_nat m # map (\<lambda>i. of_nat (m div 256 div 256 ^ i)) [0..<k]"
    by (simp add: upt_conv_Cons map_Suc_upt [symmetric] comp_def div_mult2_eq del: upt_Suc)
  with Suc.IH [of "m div 256"] show ?case
    by (simp add: unat_of_nat mod_mult2_eq)
qed simp

lemma le_word_bytes: "LENGTH('a) \<le> 8 * k \<Longrightarrow> le_word (le_bytes k w) = (w :: 'a::len word)"
proof -
  assume k: "LENGTH('a) \<le> 8 * k"
  have "unat w < 2 ^ LENGTH('a)" by (rule unsigned_less)
  also have "(2::nat) ^ LENGTH('a) \<le> 2 ^ (8 * k)" using k by (intro power_increasing) simp_all
  finally have "unat w < 256 ^ k" by (simp add: power_mult)
  then show ?thesis by (simp add: le_word_def le_bytes_def le_digits)
qed

lemma field_at_skip: "length a \<le> off \<Longrightarrow> field_at (a @ b) off k = field_at b (off - length a) k"
  by (simp add: field_at_def)

lemma field_at_here: "length a = k \<Longrightarrow> field_at (a @ b) 0 k = a"
  by (simp add: field_at_def)

lemma notif_at_kernel:
  assumes "length (sn_args n) = 6"
  shows "notif_at (kernel_bytes n flags ip @ tail) = n"
proof -
  obtain a b c d e f where args: "sn_args n = [a, b, c, d, e, f]"
    using assms by (auto simp: numeral_eq_Suc length_Suc_conv)
  have six: "[0..<6] = [0, 1, 2, 3, 4, 5]" by (simp add: upt_rec)
  show ?thesis
    by (cases n) (use args in \<open>simp add: notif_at_def kernel_bytes_def field_at_skip field_at_here layouts six le_word_bytes\<close>)
qed

text \<open>
  C32. A notification is received as the kernel wrote it, on a kernel whose structure has any size at
  least ours: the buffer is zeroed and large enough for what the kernel writes, so it never writes past
  it, the ioctl number is the one the header computes, and the fields read at the offsets of
  \<open>repr(C)\<close> are those of the notification.\<close>

theorem received_notification_is_exact:
  assumes kernel: "\<And>buf. unat ksize \<le> length buf \<Longrightarrow> set (take (unat ksize) buf) \<subseteq> {0} \<Longrightarrow>
      ioctl f 0xc0502100 buf = Inr (kernel_bytes n flags ip @ ext @ drop (unat ksize) buf)"
    and "unat ksize = 80 + length ext" and "length (sn_args n) = 6"
    and "notify_fd_new (Inr \<lparr>ns_notif = ksize, ns_notif_resp = 24, ns_data = 64\<rparr>) f = Inr self"
  shows "recv_notif ioctl self = Inr n"
proof -
  let ?len = "max (unat ksize) 80"
  have self: "nf_fd self = f" "nf_notif_size self = unat ksize" using assms(4) by (auto simp: notify_fd_new_def)
  have "unat ksize \<le> 8 * ((?len + 7) div 8)" by linarith
  then have "ioctl f 0xc0502100 (replicate (8 * ((?len + 7) div 8)) 0) =
      Inr (kernel_bytes n flags ip @ ext @ drop (unat ksize) (replicate (8 * ((?len + 7) div 8)) 0))"
    by (intro kernel) (auto dest: in_set_takeD)
  then show ?thesis using notif_at_kernel [OF assms(3)] by (simp add: recv_notif_def self layouts ioctl_numbers Let_def)
qed

definition sample_notif :: seccomp_notif where
  "sample_notif = \<lparr>sn_id = 0x1122334455667788, sn_pid = 4242, sn_nr = 257, sn_arch = 0xC000003E,
     sn_args = [0xFFFFFFFFFFFFFF9C, 0x7FFF00001000, 0x80000, 0, 1, 2]\<rparr>"

definition grown_kernel :: "fd \<Rightarrow> u64 \<Rightarrow> bytes \<Rightarrow> io_error + bytes" where
  "grown_kernel f request buf =
     (if request = 0xc0502100 \<and> 84 \<le> length buf \<and> set (take 84 buf) \<subseteq> {0}
      then Inr (kernel_bytes sample_notif 0 0x401000 @ [1, 2, 3, 4] @ drop 84 buf) else Inl (Some EINVAL))"

lemma received_notification_is_exact_witness:
  "recv_notif grown_kernel \<lparr>nf_fd = 5, nf_notif_size = 84\<rparr> = Inr sample_notif"
  by (rule received_notification_is_exact [where ksize = 84 and f = 5 and ext = "[1, 2, 3, 4]" and flags = 0
        and ip = "0x401000"]) (simp_all add: grown_kernel_def sample_notif_def notify_fd_new_def)

end
