(* ===== verification/Notify_Handover.thy ===== *)
theory Notify_Handover imports Spawn Broker_Packet begin

text \<open>
  The message that hands the notify descriptor from the child to the supervisor: \<open>send_notify_fd\<close> and
  \<open>recv_ack\<close> of \<open>src/src/sandbox/child.rs\<close>, \<open>recv_notify_fd\<close> of \<open>src/src/supervisor/spawn.rs\<close>, over the
  messages of \<open>Broker_Packet\<close>. In \<open>Spawn\<close> these are the calls \<open>SendNotifyFd\<close>, \<open>RecvAck\<close> and
  \<open>RecvNotifyFd\<close>, a message in flight being its byte and whether it carries the descriptor;
  \<open>in_flight\<close> relates the two.
\<close>

section \<open>The two ends\<close>

definition byte_char :: "u8 \<Rightarrow> char" where
  "byte_char b = char_of (unat b)"

text \<open>The control buffer has the length of one descriptor's message from the start.\<close>

definition send_notify_fd :: "(sent_message \<Rightarrow> io_error + int) \<Rightarrow> fd \<Rightarrow> bool" where
  "send_notify_fd sendmsg f =
     (let controllen = CMSG_SPACE FD_SIZE
      in if no_first_header controllen then False
         else sendmsg \<lparr>sm_bytes = [byte_char CHILD_READY], sm_control = Some (rights_header f),
                       sm_controllen = controllen\<rparr> = Inr 1)"

text \<open>The result of \<open>recvmsg\<close> into a one-byte buffer; an installed descriptor number is not negative.\<close>

definition recv_notify_fd :: "io_error + received \<Rightarrow> fd option" where
  "recv_notify_fd r =
     (case r of
        Inl e \<Rightarrow> None
      | Inr m \<Rightarrow>
          if length (rm_bytes m) \<noteq> 1 then None
          else (case rm_control m of
                  None \<Rightarrow> None
                | Some c \<Rightarrow>
                    if cm_level c \<noteq> SOL_SOCKET \<or> cm_type c \<noteq> SCM_RIGHTS then None else Some (cm_fd c)))"

text \<open>The result of \<open>read\<close> into a one-byte buffer.\<close>

definition recv_ack :: "io_error + string \<Rightarrow> bool" where
  "recv_ack r =
     (case r of
        Inl e \<Rightarrow> False
      | Inr bytes \<Rightarrow> length bytes = 1 \<and> bytes ! 0 = byte_char SUPERVISOR_ACK)"

section \<open>A message in flight\<close>

text \<open>A one-byte message of the step relation, as the bytes and the control message received.\<close>

definition in_flight :: "received \<Rightarrow> u8 \<times> bool \<Rightarrow> bool" where
  "in_flight m x \<longleftrightarrow> rm_bytes m = [byte_char (fst x)] \<and>
     (case rm_control m of None \<Rightarrow> \<not> snd x | Some c \<Rightarrow> snd x \<and> cm_level c = SOL_SOCKET \<and> cm_type c = SCM_RIGHTS)"

lemma recv_in_flight: "in_flight m x \<Longrightarrow> recv_notify_fd (Inr m) \<noteq> None \<longleftrightarrow> snd x"
  by (auto simp: in_flight_def recv_notify_fd_def split: option.splits)

lemma recv_at_eof: "rm_bytes m = [] \<Longrightarrow> recv_notify_fd (Inr m) = None"
  by (simp add: recv_notify_fd_def)

lemma byte_char_inj: "byte_char a = byte_char b \<longleftrightarrow> a = b"
proof
  assume "byte_char a = byte_char b"
  then have "(of_char (char_of (unat a)) :: nat) = of_char (char_of (unat b))" by (simp add: byte_char_def)
  moreover have "unat x mod 256 = unat x" for x :: u8 using unsigned_less [of x, where 'a = nat] by simp
  ultimately show "a = b" by (simp add: of_char_of unsigned_word_eqI)
qed simp

lemma recv_ack_iff: "recv_ack (Inr [byte_char b]) \<longleftrightarrow> b = SUPERVISOR_ACK"
  by (simp add: recv_ack_def byte_char_inj)

section \<open>Properties\<close>

text \<open>
  C29. The notify descriptor arrives: when \<open>send_notify_fd\<close> reports success, the message it sent is, on
  the supervisor's side, the \<open>CHILD_READY\<close> message with the descriptor that the handshake's step
  relation puts in flight, and \<open>recv_notify_fd\<close> takes out the child's descriptor under the number the
  kernel gave it; of that message without its control part, which is what a full descriptor table
  leaves, and of the end of the stream it takes none.
\<close>

theorem notify_fd_is_handed_over:
  assumes "send_notify_fd sendmsg f"
  shows "\<exists>msg. sendmsg msg = Inr 1 \<and> in_flight (transfer 1 install msg) (CHILD_READY, True) \<and>
    recv_notify_fd (Inr (transfer 1 install msg)) = Some (install f) \<and>
    recv_notify_fd (Inr ((transfer 1 install msg)\<lparr>rm_control := None\<rparr>)) = None \<and>
    recv_notify_fd (Inr ((transfer 1 install msg)\<lparr>rm_bytes := []\<rparr>)) = None"
  using assms
  by (intro exI [of _ "\<lparr>sm_bytes = [byte_char CHILD_READY], sm_control = Some (rights_header f),
       sm_controllen = CMSG_SPACE FD_SIZE\<rparr>"])
    (auto simp: send_notify_fd_def recv_notify_fd_def in_flight_def transfer_def passes_fd_def rights_header_def
      CMSG_SPACE_def CMSG_LEN_def FD_SIZE_def CMSG_HEADER_def Let_def split: if_splits)

lemma notify_fd_is_handed_over_witness:
  "\<exists>msg. in_flight (transfer 1 Suc msg) (CHILD_READY, True) \<and> recv_notify_fd (Inr (transfer 1 Suc msg)) = Some 6"
proof -
  have "send_notify_fd (\<lambda>msg. Inr (int (length (sm_bytes msg)))) 5"
    by (simp add: send_notify_fd_def no_first_header_def CMSG_SPACE_def CMSG_HEADER_def Let_def)
  from notify_fd_is_handed_over [OF this, of Suc] show ?thesis by auto
qed

end
