(* ===== verification/Measure.thy ===== *)
theory Measure imports Json_Value Rust_Text "HOL-Library.Log_Nat" begin

text \<open>
  \<open>src/src/measure.rs\<close>: quantiles of timing samples and the gaps between the mutating events of a trace.
  A \<open>u64\<close> is a \<open>nat\<close>: the only arithmetic on samples is a saturating subtraction. The rank of a percentile
  is computed in \<open>f64\<close>, whose rounding is written out: a positive double is a natural with 53 significant
  bits over a power of two.
\<close>

section \<open>Doubles\<close>

text \<open>The quotient rounded to the nearest natural, ties to even.\<close>

definition round_div :: "nat \<Rightarrow> nat \<Rightarrow> nat" where
  "round_div a b =
     (let q = a div b; r = a mod b in if 2 * r < b \<or> 2 * r = b \<and> even q then q else q + 1)"

text \<open>The nearest natural with 53 significant bits.\<close>

definition round53 :: "nat \<Rightarrow> nat" where
  "round53 x = (let s = floorlog 2 x - 53 in round_div x (2 ^ s) * 2 ^ s)"

text \<open>\<open>a / b\<close> for \<open>0 < a \<le> b\<close>: \<open>(m, k)\<close> stands for \<open>m / 2 ^ k\<close>.\<close>

definition f64_div :: "nat \<Rightarrow> nat \<Rightarrow> nat \<times> nat" where
  "f64_div a b =
     (let k = 53 + floorlog 2 b - floorlog 2 a;
          k' = (if 2 ^ 53 * b \<le> a * 2 ^ k then k - 1 else k)
      in (round_div (a * 2 ^ k') b, k'))"

section \<open>Quantiles\<close>

record quantile_summary =
  q_count :: nat
  q_min :: nat
  q_p50 :: nat
  q_p90 :: nat
  q_p99 :: nat
  q_max :: nat

definition percentile :: "nat list \<Rightarrow> nat \<Rightarrow> nat" where
  "percentile xs p =
     (let n = length xs;
          (m, k) = f64_div p 100;
          y = round53 (m * round53 n);
          rank = (y + 2 ^ k - 1) div 2 ^ k;
          idx = max 1 (min rank n) - 1
      in xs ! idx)"

definition quantiles :: "nat list \<Rightarrow> quantile_summary option" where
  "quantiles samples =
     (if samples = [] then None
      else let xs = sort samples
           in Some \<lparr>q_count = length xs, q_min = xs ! 0, q_p50 = percentile xs 50, q_p90 = percentile xs 90,
                   q_p99 = percentile xs 99, q_max = xs ! (length xs - 1)\<rparr>)"

section \<open>Mutating events\<close>

fun as_u64 :: "json \<Rightarrow> nat option" where
  "as_u64 (JNumber (Some i)) = (if 0 \<le> i \<and> i < 2 ^ 64 then Some (nat i) else None)"
| "as_u64 _ = None"

definition get_u64 :: "json \<Rightarrow> string \<Rightarrow> nat option" where
  "get_u64 v f = Option.bind (get v f) as_u64"

definition is_mutating_event :: "json \<Rightarrow> bool" where
  "is_mutating_event event =
     (if get_str event ''type'' \<noteq> Some ''syscall'' then False
      else case get event ''fact'' of
             None \<Rightarrow> False
           | Some obj \<Rightarrow>
               if get_str obj ''family'' \<noteq> Some ''fs'' then False
               else case get_array obj ''access'' of
                      None \<Rightarrow> False
                    | Some access \<Rightarrow>
                        list_ex (\<lambda>a. as_str a \<in> {Some ''write'', Some ''create'', Some ''delete''}) access)"

fun mutating_events :: "(string \<Rightarrow> string + json) \<Rightarrow> string list \<Rightarrow> (nat \<times> nat) list" where
  "mutating_events parse [] = []"
| "mutating_events parse (raw_line # rest) =
     (let line = trim raw_line; events = mutating_events parse rest
      in if line = [] then events
         else case parse line of
                Inl e \<Rightarrow> events
              | Inr value \<Rightarrow>
                  if \<not> is_mutating_event value then events
                  else case (get_u64 value ''seq'', get_u64 value ''ts'') of
                         (Some seq, Some ts) \<Rightarrow> (seq, ts) # events
                       | _ \<Rightarrow> events)"

definition mutating_event_timestamps :: "(string \<Rightarrow> string + json) \<Rightarrow> string \<Rightarrow> nat list" where
  "mutating_event_timestamps parse trace = map snd (sort_key fst (mutating_events parse (lines trace)))"

section \<open>Gaps\<close>

text \<open>Natural subtraction is the saturating one.\<close>

fun consecutive_gaps :: "nat list \<Rightarrow> nat list" where
  "consecutive_gaps (a # b # ts) = (b - a) # consecutive_gaps (b # ts)"
| "consecutive_gaps _ = []"

definition GAP_BUCKET_EDGES_MS :: "nat list" where
  "GAP_BUCKET_EDGES_MS = [0, 1, 2, 5, 10, 20, 50, 100, 200, 500, 1000, 2000, 5000, 10000]"

record gap_bucket =
  gb_upper :: "nat option"
  gb_count :: nat

text \<open>The index of the first edge that is not below the gap.\<close>

fun bucket_of :: "nat list \<Rightarrow> nat \<Rightarrow> nat" where
  "bucket_of [] g = 0"
| "bucket_of (edge # edges) g = (if g \<le> edge then 0 else Suc (bucket_of edges g))"

definition gap_counts :: "nat list \<Rightarrow> nat list" where
  "gap_counts gaps =
     fold (\<lambda>g counts. let i = bucket_of GAP_BUCKET_EDGES_MS g in counts[i := counts ! i + 1]) gaps
       (replicate (length GAP_BUCKET_EDGES_MS + 1) 0)"

definition gap_histogram :: "nat list \<Rightarrow> gap_bucket list" where
  "gap_histogram gaps =
     map (\<lambda>(i, count). \<lparr>gb_upper = (if i < length GAP_BUCKET_EDGES_MS then Some (GAP_BUCKET_EDGES_MS ! i) else None),
                        gb_count = count\<rparr>)
       (enumerate 0 (gap_counts gaps))"

record gap_summary =
  gr_event_count :: nat
  gr_gap_count :: nat
  gr_quantiles :: "quantile_summary option"
  gr_histogram :: "gap_bucket list"

definition gap_report :: "(string \<Rightarrow> string + json) \<Rightarrow> string \<Rightarrow> gap_summary" where
  "gap_report parse trace =
     (let timestamps = mutating_event_timestamps parse trace; gaps = consecutive_gaps timestamps
      in \<lparr>gr_event_count = length timestamps, gr_gap_count = length gaps, gr_quantiles = quantiles gaps,
          gr_histogram = gap_histogram gaps\<rparr>)"

end
