(* ===== verification/Measure_Claims.thy ===== *)
theory Measure_Claims imports Measure Report_Claims begin

text \<open>
  What the measurement helpers compute: the rank taken in floating point is the exact nearest rank, the
  histogram counts each gap in its bucket, and the timestamps mined from a trace the recorder wrote are
  those of its mutating file events.
\<close>

section \<open>Ranks\<close>

text \<open>Rounding to 53 bits moves by less than a unit of the last place, and never across a multiple of it.\<close>

lemma round_div_low: "0 < b \<Longrightarrow> a < round_div a b * b + b"
proof -
  assume "0 < b"
  then have "a < (a div b + 1) * b" by (simp add: dividend_less_div_times)
  moreover have "a div b \<le> round_div a b" by (auto simp: round_div_def Let_def)
  then have "(a div b + 1) * b \<le> (round_div a b + 1) * b" by (intro mult_le_mono1) simp
  ultimately have "a < (round_div a b + 1) * b" by (rule less_le_trans)
  then show ?thesis by simp
qed

lemma round_div_le:
  assumes "0 < b" and "a \<le> c * b"
  shows "round_div a b \<le> c"
proof (cases "a mod b = 0")
  case True
  then have "round_div a b = a div b" using assms(1) by (simp add: round_div_def)
  with assms show ?thesis by (metis div_le_mono nonzero_mult_div_cancel_right not_gr_zero)
next
  case False
  have "a div b < c"
  proof (rule ccontr)
    assume "\<not> a div b < c"
    then have "c * b \<le> a div b * b" by simp
    moreover have "a div b * b + a mod b = a" by simp
    ultimately show False using assms(2) False by linarith
  qed
  then show ?thesis by (simp add: round_div_def Let_def)
qed

lemma round_div_down: "0 < b \<Longrightarrow> 2 * r < b \<Longrightarrow> round_div (c * b + r) b = c"
  by (simp add: round_div_def)

lemma round53_small: "x < 2 ^ 53 \<Longrightarrow> round53 x = x"
proof -
  assume "x < 2 ^ 53"
  then have "floorlog 2 x \<le> 53" by (simp add: floorlog_le_iff)
  then show ?thesis by (simp add: round53_def round_div_def)
qed

text \<open>The unit of the last place of a number below \<open>2 ^ 93\<close> is at most \<open>2 ^ 40\<close>.\<close>

lemma last_place: "0 < x \<Longrightarrow> x < 2 ^ 93 \<Longrightarrow> floorlog 2 x - 53 \<le> 40" for x :: nat
  using floorlog_le_iff [of 2 x 93] by simp

lemma round53_low:
  assumes "x < 2 ^ 93"
  shows "x < round53 x + 2 ^ 40"
proof (cases "x = 0")
  case False
  let ?s = "floorlog 2 x - 53"
  have "x < round53 x + 2 ^ ?s" using round_div_low [of "2 ^ ?s" x] by (simp add: round53_def Let_def)
  also have "(2::nat) ^ ?s \<le> 2 ^ 40" using last_place [of x] assms False by (intro power_increasing) simp_all
  finally show ?thesis by simp
qed simp

lemma round53_le:
  assumes "x \<le> c * 2 ^ 53" and "x < 2 ^ 93"
  shows "round53 x \<le> c * 2 ^ 53"
proof (cases "x = 0")
  case True
  then show ?thesis by (simp add: round53_small)
next
  case False
  define s where "s = floorlog 2 x - 53"
  have "s \<le> 40" using last_place [of x] assms(2) False by (simp add: s_def)
  then have "(2::nat) ^ 53 = 2 ^ (53 - s) * 2 ^ s" by (simp flip: power_add)
  then have c: "c * 2 ^ 53 = c * 2 ^ (53 - s) * 2 ^ s" by (simp only: mult.assoc)
  have "round_div x (2 ^ s) \<le> c * 2 ^ (53 - s)" using assms(1) unfolding c by (intro round_div_le) simp_all
  then have "round_div x (2 ^ s) * 2 ^ s \<le> c * 2 ^ (53 - s) * 2 ^ s" by (rule mult_le_mono1)
  then show ?thesis unfolding c by (simp add: round53_def Let_def flip: s_def)
qed

text \<open>The rank of a product that is in the upper part of its unit interval.\<close>

lemma rank_of:
  assumes "0 < c" and "c < 2 ^ 40" and "round53 x \<le> c * 2 ^ 53" and "(c - 1) * 2 ^ 53 + 2 ^ 40 \<le> x" and "x < 2 ^ 93"
  shows "(round53 x + 2 ^ 53 - 1) div 2 ^ 53 = c"
proof -
  have "(c - 1) * 2 ^ 53 < round53 x" using round53_low [OF assms(5)] assms(4) by simp
  then show ?thesis using assms(1,3) by (intro div_nat_eqI) (cases c; simp)+
qed

text \<open>A product just above an integer that the rounding brings back to it.\<close>

lemma round53_down:
  assumes "x = c * 2 ^ 53 + r" and "2 * r < 2 ^ (floorlog 2 x - 53)" and "x < 2 ^ 93"
  shows "round53 x = c * 2 ^ 53"
proof (cases "x = 0")
  case True
  with assms(1) show ?thesis by (simp add: round53_small)
next
  case False
  define s where "s = floorlog 2 x - 53"
  have "s \<le> 40" using last_place [of x] assms(3) False by (simp add: s_def)
  then have "(2::nat) ^ 53 = 2 ^ (53 - s) * 2 ^ s" by (simp flip: power_add)
  then have c: "c * 2 ^ 53 = c * 2 ^ (53 - s) * 2 ^ s" by (simp only: mult.assoc)
  have "round_div x (2 ^ s) = c * 2 ^ (53 - s)"
    unfolding assms(1) c by (rule round_div_down) (use assms(2) in \<open>simp_all add: s_def\<close>)
  then show ?thesis unfolding c by (simp add: round53_def Let_def flip: s_def)
qed

lemma ceil_div: "0 < b \<Longrightarrow> a \<le> (a + b - 1) div b * b \<and> (a + b - 1) div b * b < a + b" for a b :: nat
proof -
  assume b: "0 < b"
  have "a + b - 1 = (a + b - 1) div b * b + (a + b - 1) mod b" "(a + b - 1) mod b < b"
    using b by simp_all
  then show ?thesis using b by linarith
qed

lemma quotients: "f64_div 50 100 = (2 ^ 52, 53)" "f64_div 90 100 = (8106479329266893, 53)"
  "f64_div 99 100 = (8917127262193582, 53)"
proof -
  have l: "floorlog 2 (50::nat) = 6" "floorlog 2 (90::nat) = 7" "floorlog 2 (99::nat) = 7" "floorlog 2 (100::nat) = 7"
    by (simp_all add: compute_floorlog)
  show "f64_div 50 100 = (2 ^ 52, 53)" "f64_div 90 100 = (8106479329266893, 53)"
    "f64_div 99 100 = (8917127262193582, 53)"
    by (simp_all add: f64_div_def round_div_def l)
qed

text \<open>The rank the floating-point arithmetic yields is the exact ceiling.\<close>

definition float_rank :: "nat \<Rightarrow> nat \<Rightarrow> nat" where
  "float_rank m n = (round53 (m * n) + 2 ^ 53 - 1) div 2 ^ 53"

lemma rank_50:
  assumes "0 < n" and "n < 2 ^ 40"
  shows "float_rank (2 ^ 52) n = (50 * n + 99) div 100"
proof -
  define c where "c = (50 * n + 99) div 100"
  have c: "50 * n \<le> c * 100" "c * 100 < 50 * n + 100" using ceil_div [of 100 "50 * n"] by (simp_all add: c_def)
  have n: "n < 1099511627776" using assms by simp
  show ?thesis
    unfolding float_rank_def c_def [symmetric]
    by (rule rank_of [OF _ _ round53_le]) (use c assms(1) n in simp_all)
qed

lemma rank_99:
  assumes "0 < n" and "n < 2 ^ 40"
  shows "float_rank 8917127262193582 n = (99 * n + 99) div 100"
proof -
  define c where "c = (99 * n + 99) div 100"
  have c: "99 * n \<le> c * 100" "c * 100 < 99 * n + 100" using ceil_div [of 100 "99 * n"] by (simp_all add: c_def)
  have n: "n < 1099511627776" using assms by simp
  show ?thesis
    unfolding float_rank_def c_def [symmetric]
    by (rule rank_of [OF _ _ round53_le]) (use c assms(1) n in simp_all)
qed

lemma rank_90:
  assumes "0 < n" and "n < 2 ^ 40"
  shows "float_rank 8106479329266893 n = (90 * n + 99) div 100"
proof -
  define c where "c = (90 * n + 99) div 100"
  have c: "90 * n \<le> c * 100" "c * 100 < 90 * n + 100" using ceil_div [of 100 "90 * n"] by (simp_all add: c_def)
  have up: "round53 (8106479329266893 * n) \<le> c * 2 ^ 53"
  proof (cases "90 * n = c * 100")
    case False
    then have "90 * n < c * 100" using c by simp
    then have "9 * n + 1 \<le> 10 * c" by linarith
    then show ?thesis using assms by (intro round53_le) simp_all
  next
    case True
    then have n: "9 * n = 10 * c" by simp
    then have "10 dvd 9 * n" by simp
    then have "10 dvd n" by presburger
    then obtain j where j: "n = 10 * j" by auto
    with n have c': "c = 9 * j" by simp
    have j0: "0 < j" using assms j by simp
    define x where "x = 8106479329266893 * n"
    have x: "x = c * 2 ^ 53 + 2 * j" by (simp add: x_def j c')
    have "x < 2 ^ 93" using assms by (simp add: x_def)
    moreover have "2 * (2 * j) < 2 ^ (floorlog 2 x - 53)"
    proof -
      let ?l = "floorlog 2 j"
      have l: "0 < ?l" "2 ^ (?l - 1) \<le> j" "j < 2 ^ ?l" using floorlog_bounds [of j 2] floorlog_eq_zero_iff [of 2 j] j0 by auto
      have "?l + 55 = 56 + (?l - 1)" using l(1) by simp
      then have "(2::nat) ^ (?l + 55) = 2 ^ 56 * 2 ^ (?l - 1)" by (simp only: power_add)
      also have "\<dots> \<le> x" using l(2) by (simp add: x_def j)
      finally have "Suc (?l + 55) \<le> floorlog 2 x" by (rule floorlog_ge_SucI) simp
      then have "(2::nat) ^ (?l + 2) \<le> 2 ^ (floorlog 2 x - 53)" by (intro power_increasing) simp_all
      then show ?thesis using l(3) by simp
    qed
    ultimately have "round53 x = c * 2 ^ 53" by (intro round53_down [OF x])
    then show ?thesis by (simp add: x_def)
  qed
  have n: "n < 1099511627776" using assms by simp
  show ?thesis
    unfolding float_rank_def c_def [symmetric]
    by (rule rank_of [OF _ _ up]) (use c assms(1) n in simp_all)
qed

lemma rank_range:
  fixes p n :: nat
  assumes "p \<in> {50, 90, 99}" and "0 < n"
  shows "0 < (p * n + 99) div 100" "(p * n + 99) div 100 \<le> n"
  using assms by (auto simp: div_greater_zero_iff)

lemma percentile_rank:
  assumes "p \<in> {50, 90, 99}" and "xs \<noteq> []" and "length xs < 2 ^ 40"
  shows "percentile xs p = xs ! ((p * length xs + 99) div 100 - 1)"
proof -
  let ?n = "length xs"
  have n: "0 < ?n" "round53 ?n = ?n" using assms(2,3) by (simp_all add: round53_small)
  obtain m where m: "f64_div p 100 = (m, 53)" "float_rank m ?n = (p * ?n + 99) div 100"
    using assms(1) quotients rank_50 [OF n(1) assms(3)] rank_90 [OF n(1) assms(3)] rank_99 [OF n(1) assms(3)]
    by auto
  with rank_range [OF assms(1) n(1)] show ?thesis by (simp add: percentile_def n(2) float_rank_def Suc_le_eq)
qed

lemma sort_empty: "sort xs = [] \<longleftrightarrow> xs = []"
  by (metis length_0_conv length_sort)

lemma sorted_ends:
  assumes "sorted xs" and "xs \<noteq> []"
  shows "Min (set xs) = xs ! 0" "Max (set xs) = xs ! (length xs - 1)"
proof -
  have "\<forall>x\<in>set xs. xs ! 0 \<le> x \<and> x \<le> xs ! (length xs - 1)"
    using assms by (auto simp: in_set_conv_nth intro!: sorted_nth_mono)
  then show "Min (set xs) = xs ! 0" "Max (set xs) = xs ! (length xs - 1)"
    using assms(2) by (auto intro!: Min_eqI Max_eqI nth_mem)
qed

lemma le_diff_one: "i < r \<Longrightarrow> i \<le> r - Suc 0" for i r :: nat
  by simp

text \<open>At least \<open>p\<close> percent of the samples are at or below the percentile.\<close>

lemma nearest_rank_covers:
  assumes "sorted xs" and "p \<in> {50, 90, 99}" and "xs \<noteq> []" and "length xs < 2 ^ 40"
  shows "p * length xs \<le> 100 * length (filter (\<lambda>x. x \<le> percentile xs p) xs)"
proof -
  define r where "r = (p * length xs + 99) div 100"
  have r: "p * length xs \<le> r * 100" "r * 100 < p * length xs + 100"
    using ceil_div [of 100 "p * length xs"] by (simp_all add: r_def)
  have "0 < r" "r \<le> length xs" using rank_range [OF assms(2), of "length xs"] assms(3) by (simp_all add: r_def)
  then have i: "r - 1 < length xs" "Suc (r - 1) = r" by simp_all
  have y: "percentile xs p = xs ! (r - 1)" using percentile_rank assms(2-4) by (simp add: r_def)
  have "filter (\<lambda>x. x \<le> xs ! (r - 1)) (take r xs) = take r xs"
    using assms(1) i by (auto simp: filter_id_conv in_set_conv_nth intro!: sorted_nth_mono le_diff_one)
  then have "r \<le> length (filter (\<lambda>x. x \<le> xs ! (r - 1)) (take r xs))" using i by simp
  also have "\<dots> \<le> length (filter (\<lambda>x. x \<le> xs ! (r - 1)) (take r xs @ drop r xs))"
    unfolding filter_append by simp
  finally show ?thesis using r(1) unfolding y by simp
qed

text \<open>
  C40. The quantiles of at most \<open>2 ^ 40\<close> samples are their least and greatest and the samples at the exact
  nearest ranks, the least whole numbers not below \<open>p / 100\<close> of the count: although \<open>9 / 10\<close> has no exact
  double, the rounding of the product undoes the error of the quotient. At least 99 percent of the
  samples are at or below the last percentile.\<close>

theorem quantiles_are_nearest_rank:
  assumes "samples \<noteq> []" and "length samples < 2 ^ 40"
  shows "quantiles samples =
      Some \<lparr>q_count = length samples, q_min = Min (set samples),
            q_p50 = sort samples ! ((50 * length samples + 99) div 100 - 1),
            q_p90 = sort samples ! ((90 * length samples + 99) div 100 - 1),
            q_p99 = sort samples ! ((99 * length samples + 99) div 100 - 1),
            q_max = Max (set samples)\<rparr> \<and>
    99 * length samples \<le> 100 * length (filter (\<lambda>x. x \<le> q_p99 (the (quantiles samples))) samples)"
proof -
  let ?xs = "sort samples"
  have ne: "?xs \<noteq> []" and n: "length ?xs = length samples" using assms(1) by (simp_all add: sort_empty)
  have q: "quantiles samples = Some \<lparr>q_count = length ?xs, q_min = ?xs ! 0, q_p50 = percentile ?xs 50,
      q_p90 = percentile ?xs 90, q_p99 = percentile ?xs 99, q_max = ?xs ! (length ?xs - 1)\<rparr>"
    using assms(1) by (simp add: quantiles_def Let_def)
  have "Min (set ?xs) = ?xs ! 0" "Max (set ?xs) = ?xs ! (length ?xs - 1)" using sorted_ends [OF _ ne] by simp_all
  then have "quantiles samples =
      Some \<lparr>q_count = length samples, q_min = Min (set samples),
            q_p50 = sort samples ! ((50 * length samples + 99) div 100 - 1),
            q_p90 = sort samples ! ((90 * length samples + 99) div 100 - 1),
            q_p99 = sort samples ! ((99 * length samples + 99) div 100 - 1),
            q_max = Max (set samples)\<rparr>"
    unfolding q using percentile_rank [OF _ ne] assms(2) by simp
  moreover have "length (filter (\<lambda>x. x \<le> percentile ?xs 99) ?xs) = length (filter (\<lambda>x. x \<le> percentile ?xs 99) samples)"
    by (simp add: filter_sort)
  then have "99 * length samples \<le> 100 * length (filter (\<lambda>x. x \<le> q_p99 (the (quantiles samples))) samples)"
    unfolding q using nearest_rank_covers [of ?xs 99] ne assms(2) by simp
  ultimately show ?thesis by blast
qed

lemma quantiles_are_nearest_rank_witness:
  "quantiles [9, 1, 7, 3, 5] = Some \<lparr>q_count = 5, q_min = 1, q_p50 = 5, q_p90 = 9, q_p99 = 9, q_max = 9\<rparr>"
proof -
  have "Min {9, 1, 7, 3, 5::nat} = 1" "Max {9, 1, 7, 3, 5::nat} = 9" by simp_all
  then show ?thesis using quantiles_are_nearest_rank [of "[9, 1, 7, 3, 5]"] by (simp add: insort_key.simps)
qed

section \<open>Histograms\<close>

lemma bucket_of_range: "bucket_of edges g \<le> length edges"
  by (induction edges) auto

text \<open>The bucket of a gap: it is above every earlier edge and, unless it overflows, not above its own.\<close>

lemma bucket_of_iff:
  assumes "sorted edges" and "i \<le> length edges"
  shows "bucket_of edges g = i \<longleftrightarrow>
    (\<forall>k < i. edges ! k < g) \<and> (i < length edges \<longrightarrow> g \<le> edges ! i)"
  using assms
proof (induction edges arbitrary: i)
  case (Cons e edges)
  show ?case
  proof (cases i)
    case (Suc j)
    with Cons.prems have "bucket_of edges g = j \<longleftrightarrow> (\<forall>k < j. edges ! k < g) \<and> (j < length edges \<longrightarrow> g \<le> edges ! j)"
      by (intro Cons.IH) simp_all
    then show ?thesis using Suc by (auto simp: less_Suc_eq_0_disj All_less_Suc2 not_le)
  qed simp
qed simp

lemma counted:
  assumes "length counts = length GAP_BUCKET_EDGES_MS + 1"
  shows "fold (\<lambda>g counts. let i = bucket_of GAP_BUCKET_EDGES_MS g in counts[i := counts ! i + 1]) gaps counts =
    map (\<lambda>i. counts ! i + length (filter (\<lambda>g. bucket_of GAP_BUCKET_EDGES_MS g = i) gaps)) [0..<length counts]"
  using assms
proof (induction gaps arbitrary: counts)
  case Nil
  show ?case by (simp add: map_nth del: upt_Suc)
next
  case (Cons g gaps)
  have "bucket_of GAP_BUCKET_EDGES_MS g < length counts"
    using bucket_of_range [of GAP_BUCKET_EDGES_MS g] Cons.prems by simp
  then show ?case using Cons by (auto simp: Let_def nth_list_update simp del: upt_Suc)
qed

lemma gap_counts_exact:
  "gap_counts gaps =
     map (\<lambda>i. length (filter (\<lambda>g. bucket_of GAP_BUCKET_EDGES_MS g = i) gaps)) [0..<length GAP_BUCKET_EDGES_MS + 1]"
  unfolding gap_counts_def by (subst counted) (auto simp del: upt_Suc replicate_Suc)

text \<open>The least a gap of a bucket exceeds, if any.\<close>

definition lower_edge :: "nat \<Rightarrow> nat option" where
  "lower_edge i = (if i = 0 then None else Some (GAP_BUCKET_EDGES_MS ! (i - 1)))"

definition in_bucket :: "nat \<Rightarrow> gap_bucket \<Rightarrow> nat \<Rightarrow> bool" where
  "in_bucket i b g \<longleftrightarrow>
     (case lower_edge i of None \<Rightarrow> True | Some e \<Rightarrow> e < g) \<and>
     (case gb_upper b of None \<Rightarrow> True | Some e \<Rightarrow> g \<le> e)"

lemma edges_sorted: "sorted GAP_BUCKET_EDGES_MS"
  by (simp add: GAP_BUCKET_EDGES_MS_def)

lemma above_earlier:
  assumes "i \<le> length GAP_BUCKET_EDGES_MS"
  shows "(\<forall>k < i. GAP_BUCKET_EDGES_MS ! k < g) \<longleftrightarrow> (case lower_edge i of None \<Rightarrow> True | Some e \<Rightarrow> e < g)"
proof (cases i)
  case (Suc j)
  then show ?thesis
    using assms sorted_nth_mono [OF edges_sorted, of _ j] by (force simp: lower_edge_def less_Suc_eq_le)
qed (simp add: lower_edge_def)

lemma bucket_total:
  assumes "\<forall>g \<in> set gaps. f g < n"
  shows "sum_list (map (\<lambda>i. length (filter (\<lambda>g. f g = i) gaps)) [0..<n]) = length gaps"
  using assms
proof (induction gaps)
  case (Cons g gaps)
  have "sum_list (map (\<lambda>i. length (filter (\<lambda>h. f h = i) (g # gaps))) [0..<n]) =
      sum_list (map (\<lambda>i. of_bool (f g = i) + length (filter (\<lambda>h. f h = i) gaps)) [0..<n])"
    by (rule arg_cong [where f = sum_list]) simp
  also have "\<dots> = sum_list (map (\<lambda>i. of_bool (f g = i)) [0..<n]) + length gaps"
    using Cons by (simp add: sum_list_addf)
  also have "sum_list (map (\<lambda>i. of_bool (f g = i) :: nat) [0..<n]) = 1"
    using Cons.prems by (simp add: sum_list_sum_nth of_bool_def sum.delta')
  finally show ?case by simp
qed (simp add: sum_list_triv)

text \<open>The histogram loses no gap and counts none twice: it has one bucket for each edge and one for
  the overflow, each holds exactly the gaps above the edge before and not above its own, and the counts
  add up to the number of gaps.\<close>

theorem histogram_partitions_gaps:
  "length (gap_histogram gaps) = 15 \<and>
   (\<forall>i < 15. gb_count (gap_histogram gaps ! i) = length (filter (in_bucket i (gap_histogram gaps ! i)) gaps)) \<and>
   sum_list (map gb_count (gap_histogram gaps)) = length gaps"
proof -
  let ?edges = GAP_BUCKET_EDGES_MS
  have n: "length ?edges = 14" by (simp add: GAP_BUCKET_EDGES_MS_def)
  have hist: "gap_histogram gaps ! i = \<lparr>gb_upper = (if i < 14 then Some (?edges ! i) else None),
      gb_count = length (filter (\<lambda>g. bucket_of ?edges g = i) gaps)\<rparr>" if "i < 15" for i
    using that n by (simp add: gap_histogram_def gap_counts_exact nth_enumerate_eq del: upt_Suc)
  have "in_bucket i (gap_histogram gaps ! i) = (\<lambda>g. bucket_of ?edges g = i)" if "i < 15" for i
    using that n bucket_of_iff [OF edges_sorted, of i] above_earlier [of i]
    by (intro ext) (simp add: in_bucket_def hist [OF that])
  then have "\<forall>i < 15. gb_count (gap_histogram gaps ! i) = length (filter (in_bucket i (gap_histogram gaps ! i)) gaps)"
    by (simp add: hist)
  moreover have len: "length (gap_histogram gaps) = 15"
    using n by (simp add: gap_histogram_def gap_counts_exact del: upt_Suc)
  moreover have "map gb_count (gap_histogram gaps) = gap_counts gaps"
    by (simp add: gap_histogram_def comp_def case_prod_unfold)
  moreover have "sum_list (gap_counts gaps) = length gaps"
    unfolding gap_counts_exact using bucket_of_range [of ?edges] by (intro bucket_total) (simp add: less_Suc_eq_le)
  ultimately show ?thesis by simp
qed

section \<open>Mining\<close>

lemma chars_skip_nonempty: "[] \<notin> set (chars_skip n s acc)"
  by (induction n s acc rule: chars_skip.induct) auto

lemma whitespace_no_brace: "is_whitespace c \<Longrightarrow> last c \<noteq> CHR ''}''"
  by (auto simp: is_whitespace_def whitespace_chars_def bytes_char_def char_of_def upt_rec)

lemma json_line_trim:
  assumes "json_line l"
  shows "trim l = l"
proof -
  obtain cs where cs: "chars l = ''{'' # cs" using assms chars_brace by (auto simp: json_line_def)
  have ne: "chars l \<noteq> []" "last (chars l) \<noteq> []"
    using cs chars_skip_nonempty [of 0 l "[]"] last_in_set [of "chars l"] by (auto simp: chars_def)
  have "concat (butlast (chars l)) @ last (chars l) = l"
    using ne(1) concat_chars [of l] by (metis append_butlast_last_id concat.simps concat_append append_Nil2)
  then have "last (last (chars l)) = last l" using ne(2) by (metis last_appendR)
  also have "last l = CHR ''}''" using assms by (auto simp: json_line_def)
  finally have tail: "\<not> is_whitespace (last (chars l))" using whitespace_no_brace by blast
  have front: "dropWhile is_whitespace (chars l) = chars l"
    using cs by (simp add: is_whitespace_def whitespace_chars_def bytes_char_def char_of_def upt_rec)
  have "dropWhile is_whitespace (rev (chars l)) = rev (chars l)"
    using ne(1) tail by (cases "rev (chars l)") (auto simp: last_rev [of "rev (chars l)", simplified] hd_rev [symmetric])
  then show ?thesis by (simp add: trim_def front concat_chars)
qed

fun mutates :: "event_body \<Rightarrow> bool" where
  "mutates (SyscallBody e) =
     (case ev_fact e of FsFact path access dest \<Rightarrow> list_ex (\<lambda>a. a \<noteq> AccRead) access | _ \<Rightarrow> False)"
| "mutates b = False"

lemma mutating_access: "as_str (access_value a) \<in> {Some ''write'', Some ''create'', Some ''delete''} \<longleftrightarrow> a \<noteq> AccRead"
  by (cases a) simp_all

lemma is_mutating_body: "is_mutating_event (event_value \<lparr>e_seq = n, e_ts = t, e_body = b\<rparr>) = mutates b"
proof (cases b)
  case (SyscallBody e)
  then show ?thesis
    using mutating_access
    by (cases "ev_fact e") (simp_all add: is_mutating_event_def event_value_def syscall_fields_def list_ex_iff)
qed (simp_all add: is_mutating_event_def event_value_def)

lemma envelope_numbers:
  assumes "n < 2 ^ 64" and "t < 2 ^ 64"
  shows "get_u64 (event_value \<lparr>e_seq = n, e_ts = t, e_body = b\<rparr>) ''seq'' = Some n"
    "get_u64 (event_value \<lparr>e_seq = n, e_ts = t, e_body = b\<rparr>) ''ts'' = Some t"
  using assms by (simp_all add: get_u64_def event_value_def jnat_def)

fun mined :: "nat \<Rightarrow> (nat \<times> event_body) list \<Rightarrow> (nat \<times> nat) list" where
  "mined n [] = []"
| "mined n ((t, b) # bs) = (if mutates b then (n, t) # mined (Suc n) bs else mined (Suc n) bs)"

lemma mined_times: "map snd (mined n bs) = [t. (t, b) \<leftarrow> bs, mutates b]"
  by (induction n bs rule: mined.induct) simp_all

lemma mined_above: "(k, t) \<in> set (mined n bs) \<Longrightarrow> n \<le> k"
  by (induction n bs rule: mined.induct) (auto split: if_splits)

lemma mined_sorted: "sorted (map fst (mined n bs))"
  by (induction n bs rule: mined.induct) (use mined_above in force)+

lemma mutating_encoded:
  assumes "encode_all encode n bs = Inr ls" and "codec encode parse (sequenced n bs)"
    and "\<forall>(t, b) \<in> set bs. t < 2 ^ 64" and "n + length bs \<le> 2 ^ 64"
  shows "mutating_events parse ls = mined n bs \<and> (\<forall>l \<in> set ls. json_line l)"
  using assms
proof (induction bs arbitrary: n ls)
  case (Cons tb bs)
  obtain t b where tb: "tb = (t, b)" by (cases tb)
  with Cons.prems(1) obtain l ls' where l: "encode \<lparr>e_seq = n, e_ts = t, e_body = b\<rparr> = Inr l" "ls = l # ls'"
    "encode_all encode (Suc n) bs = Inr ls'" by (auto simp: result_simps)
  with Cons.prems(2) tb have line: "json_line l" "parse l = Inr (event_value \<lparr>e_seq = n, e_ts = t, e_body = b\<rparr>)"
    by (auto simp: codec_def)
  have "codec encode parse (sequenced (Suc n) bs)" using Cons.prems(2) tb by (simp add: codec_def)
  then have IH: "mutating_events parse ls' = mined (Suc n) bs \<and> (\<forall>l \<in> set ls'. json_line l)"
    using Cons.IH [OF l(3)] Cons.prems(3,4) by simp
  have "n < 2 ^ 64" "t < 2 ^ 64" using Cons.prems(3,4) tb by simp_all
  with IH l(2) tb line json_line_shown [of l] show ?case
    by (simp add: json_line_trim is_mutating_body envelope_numbers)
qed simp

lemma mined_sort: "sort_key fst (mined n bs) = mined n bs"
  by (rule sort_key_id_if_sorted [OF mined_sorted])

lemma length_gaps: "length (consecutive_gaps ts) = length ts - 1"
  by (induction ts rule: consecutive_gaps.induct) simp_all

text \<open>The gap report of a trace the recorder wrote is that of the run: the events it mines are exactly
  the file events with a write, create or delete access, in the order they were appended, each with the
  time it was appended at; one gap fewer, and the quantiles and the histogram of those gaps.\<close>

theorem gap_report_is_of_the_run:
  assumes "honest_sink content ops" and "content s = []"
    and "append_all encode ops bs (new_writer s) = (Inr (), w)"
    and "codec encode parse (sequenced 0 bs)"
    and "\<forall>(t, b) \<in> set bs. t < 2 ^ 64" and "length bs \<le> 2 ^ 64"
  shows "gap_report parse (content (tw_sink w)) =
     (let ts = [t. (t, b) \<leftarrow> bs, mutates b]; gaps = consecutive_gaps ts
      in \<lparr>gr_event_count = length ts, gr_gap_count = length ts - 1, gr_quantiles = quantiles gaps,
          gr_histogram = gap_histogram gaps\<rparr>)"
proof -
  obtain ls where ls: "encode_all encode 0 bs = Inr ls" "content (tw_sink w) = concat (map (\<lambda>l. l @ [newline]) ls)"
    using append_all_lines [OF assms(1,3)] assms(2) by (auto simp: new_writer_def)
  have "mutating_events parse ls = mined 0 bs \<and> (\<forall>l \<in> set ls. json_line l)"
    using mutating_encoded [OF ls(1) assms(4,5)] assms(6) by simp
  then have "mutating_event_timestamps parse (content (tw_sink w)) = [t. (t, b) \<leftarrow> bs, mutates b]"
    unfolding ls(2) by (simp add: mutating_event_timestamps_def lines_of_json mined_sort mined_times)
  then show ?thesis by (simp add: gap_report_def Let_def length_gaps)
qed

definition sample_write :: "string \<Rightarrow> fs_access \<Rightarrow> event_body" where
  "sample_write p a = SyscallBody \<lparr>ev_pid = 7, ev_syscall = ''openat'', ev_fact = FsFact p [a] None,
     ev_decision = Allow, ev_ask_resolution = None, ev_matched_rule = ''base:record_only'', ev_would_deny = None,
     ev_operand_decisions = None\<rparr>"

definition sample_burst :: "(nat \<times> event_body) list" where
  "sample_burst = [(1000, sample_write ''/w/a'' AccWrite), (1001, sample_write ''/w/b'' AccRead),
     (1030, sample_write ''/w/c'' AccDelete)]"

definition burst_encode :: "event \<Rightarrow> string + string" where
  "burst_encode e = Inr (if e_seq e = 0 then ''{0}'' else if e_seq e = 1 then ''{1}'' else ''{2}'')"

definition burst_parse :: "string \<Rightarrow> string + json" where
  "burst_parse l = Inr (event_value (sequenced 0 sample_burst ! (if l = ''{0}'' then 0 else if l = ''{1}'' then 1 else 2)))"

lemma gap_report_is_of_the_run_witness:
  "gap_report burst_parse (''{0}'' @ [newline] @ ''{1}'' @ [newline] @ ''{2}'' @ [newline]) =
     \<lparr>gr_event_count = 2, gr_gap_count = 1,
      gr_quantiles = Some \<lparr>q_count = 1, q_min = 30, q_p50 = 30, q_p90 = 30, q_p99 = 30, q_max = 30\<rparr>,
      gr_histogram = gap_histogram [30]\<rparr>"
proof -
  have run: "append_all burst_encode buffer_ops sample_burst (new_writer []) =
      (Inr (), \<lparr>tw_sink = ''{0}'' @ [newline] @ ''{1}'' @ [newline] @ ''{2}'' @ [newline], tw_next_seq = 3\<rparr>)"
    by (simp add: trace_append_def buffer_ops_def new_writer_def newline_def burst_encode_def sample_burst_def)
  have "honest_sink id buffer_ops" by (simp add: honest_sink_def buffer_ops_def)
  moreover have "codec burst_encode burst_parse (sequenced 0 sample_burst)"
    using sample_lines by (simp add: codec_def burst_encode_def burst_parse_def sample_burst_def)
  moreover have "percentile [30] p = 30" if "p \<in> {50, 90, 99}" for p
    using percentile_rank [OF that, of "[30]"] that by auto
  then have "quantiles [30] = Some \<lparr>q_count = 1, q_min = 30, q_p50 = 30, q_p90 = 30, q_p99 = 30, q_max = 30\<rparr>"
    by (simp add: quantiles_def)
  ultimately show ?thesis
    using gap_report_is_of_the_run [OF _ _ run, of id burst_parse]
    by (simp add: sample_burst_def sample_write_def)
qed

end
