(* ===== verification/Spec2Isabelle.thy ===== *)
theory Spec2Isabelle imports Notify_Ops Landlock_Hull Broker_Claims Preflight Spawn_Claims Session_Claims Cli_Claims Broker_Link
    Notify_Abi Notify_Handover Measure_Claims begin

text \<open>
  A verification development for Leash (\<open>src/src\<close>), a supervisor that runs a command under a seccomp
  user-notification filter and a Landlock hull, decides every mediated system call against a policy,
  and records the decision before it answers.

  \<^bold>\<open>The program's parts and how they meet.\<close> \<open>cli.rs\<close> reads the command line and starts a session.
  \<open>supervisor/session.rs\<close> probes the host (\<open>preflight.rs\<close>), in enforce mode loads the policy
  (\<open>policy/\<close>) and builds the Landlock ruleset (\<open>sandbox/landlock.rs\<close>), creates the run directory and
  the trace (\<open>recorder.rs\<close>), writes and syncs \<open>run_start\<close>, forks the confined broker
  (\<open>supervisor/broker.rs\<close>) and then the child (\<open>supervisor/spawn.rs\<close>, \<open>sandbox/child.rs\<close>), which installs
  the filter of \<open>sandbox/filter.rs\<close> and hands its notify descriptor over. From there the notify loop
  (\<open>supervisor/run.rs\<close>, over the structures of \<open>notify.rs\<close>) receives one system call at a time,
  reads its arguments (\<open>fact.rs\<close>, \<open>mem.rs\<close>), evaluates them (\<open>policy/engine.rs\<close>), asks the operator
  (\<open>ask.rs\<close>), appends the event, and lets the call continue, refuses it, or has the broker perform
  it. At the end the session writes \<open>run_end\<close> and renders the report (\<open>recorder/report.rs\<close>).

  \<^bold>\<open>Theories and sources.\<close> A Rust operation keeps its name where HOL allows it; a struct is a record,
  an enum a datatype, a fixed-width integer a word wherever its width can matter, a string or path the
  list of its bytes, a \<open>Result\<close> a sum whose left side is the error.
  \<^item> \<open>Prelude\<close>, \<open>Effect\<close>: named collections, the model of \<open>Result\<close>, UTF-8, decimal numbers; code that may
    fail and that calls out, as a function from a state to an outcome and a state with a log of the calls.
  \<^item> \<open>Rust_Text\<close>, \<open>Rust_Path\<close>, \<open>Rust_Net\<close>, \<open>Rust_BTree\<close>, \<open>Json_Value\<close>: what the sources use of the standard
    library (\<open>str\<close>, \<open>Path\<close>, \<open>IpAddr\<close>, \<open>BTreeMap\<close>) and the public \<open>serde_json::Value\<close>.
  \<^item> \<open>Glob\<close>, \<open>Host\<close>, \<open>Policy_Load\<close>, \<open>Engine\<close>: \<open>policy/glob.rs\<close>, \<open>policy/host.rs\<close>, \<open>policy/mod.rs\<close>,
    \<open>policy/engine.rs\<close>. Locales: \<open>backtracking\<close> (both matching loops), \<open>rule_walk\<close> (the three tables).
  \<^item> \<open>Seccomp_Filter\<close>: \<open>sandbox/filter.rs\<close>, the program builder and an interpreter of classic BPF.
  \<^item> \<open>Landlock\<close>, \<open>Landlock_Hull\<close>: \<open>sandbox/landlock.rs\<close> and what its hull guarantees of \<open>Engine\<close>.
  \<^item> \<open>Fact_Table\<close>, \<open>Mem\<close>, \<open>Ask_Prompt\<close>: \<open>supervisor/fact.rs\<close>, \<open>mem.rs\<close>, \<open>ask.rs\<close>.
  \<^item> \<open>Notify_Abi\<close>, \<open>Notify_World\<close>, \<open>Notify_Loop\<close>: \<open>supervisor/notify.rs\<close> and \<open>supervisor/run.rs\<close>. The world of the
    loop is the log of its actions; \<open>Notify_Spec\<close> is the automaton the log must follow, \<open>Notify_Logic\<close> a
    weakest-precondition calculus for it (locales \<open>child_reads\<close>, \<open>status_reads\<close>), \<open>Notify_Proofs\<close> one rule per
    handler, \<open>Notify_Claims\<close> and \<open>Notify_Ops\<close> the consequences. \<open>Notify_Trace\<close> is the loop as a client of
    the trace (locale \<open>append_log\<close>, interpreted on the recorder in \<open>Session_Claims\<close>).
  \<^item> \<open>Broker_Client\<close>, \<open>Broker_Packet\<close>, \<open>Broker_Ipc\<close>, \<open>Broker_Server\<close>: the layers of \<open>supervisor/broker.rs\<close>, the typed
    requests, the messages with their control header, the process handle, and the confined process; \<open>Broker_Logic\<close>, \<open>Broker_Proofs\<close> and
    \<open>Broker_Claims\<close> account for its descriptors, tokens, answers and kernel calls. \<open>Broker_Link\<close> joins the
    layers: the locale \<open>broker_service\<close> is what the client relies on, interpreted on the confined process.
  \<^item> \<open>Recorder\<close>, \<open>Trace_Json\<close>, \<open>Report\<close>, \<open>Report_Claims\<close>: \<open>recorder.rs\<close>, its serde shapes, \<open>recorder/report.rs\<close>.
  \<^item> \<open>Preflight\<close>, \<open>Spawn\<close>, \<open>Spawn_Claims\<close>, \<open>Notify_Handover\<close>: \<open>supervisor/preflight.rs\<close>; \<open>supervisor/spawn.rs\<close> with
    \<open>sandbox/child.rs\<close> as an inductive step relation of two processes, each with faults, and the message that
    hands the notify descriptor over.
  \<^item> \<open>Session\<close>, \<open>Session_Claims\<close>, \<open>Cli\<close>, \<open>Cli_Claims\<close>: \<open>supervisor/session.rs\<close> with the run directory of
    \<open>recorder.rs\<close>, and \<open>cli.rs\<close>.
  \<^item> \<open>Measure\<close>, \<open>Measure_Claims\<close>: \<open>measure.rs\<close>.

  \<^bold>\<open>What the lemmas show.\<close>
  \<^item> Order of effects: every handler and the whole loop refine the automaton (an effect needs a recorded
    allow and a fresh liveness check, an answer follows its record, an event that cannot be recorded is
    not served, every run ends with the child reaped), for every kernel, child, broker and operator.
  \<^item> The boundary: the filter routes every call as its tables say; the hull covers whatever the policy
    may permit; in every interleaving of the launch the agent runs confined, the launch never
    deadlocks without a fault, a failed one has run no agent and has reaped the child but for two named
    faults of the parent; the ruleset is prepared by exactly the calls the hull asks for; a session launches only behind
    an admitted host, a durable \<open>run_start\<close> and, in enforce mode, the policy's own ruleset and broker.
  \<^item> Decisions: globs accept the declarative language, enforce decides as the first matching rule, a
    call is allowed only if every operand is, only an explicit yes approves and the prompt keeps its one
    deadline, policies load whole.
  \<^item> Evidence: a trace is one line per event, every trace renders, the sections of the report are
    exact (what it does not show is named with the theorem), and the report of a completed run is that of the events appended. The gap report of \<open>measure.rs\<close> is of the same run.
  \<^item> The broker: what becomes of a request for every outcome, tokens issued once under their anchor, all
    descriptors accounted for (a refused packet loses the one it brought), only the calls asked for; its
    process is reaped exactly once; packets round-trip, control header included; client and
    confined process agree, so an operation fails only with an error of the socket.
  \<^item> Front end: the flag grammar, exit codes, and that the child is the command given, under the mode and
    the policy file given.
  \<^item> Where the code does not do what it means to, a lemma proves the behaviour it has:
    \<open>creat_is_always_refused\<close>, \<open>bad_descriptor_aborts_run\<close>, \<open>workspace_metacharacter_widens_rule\<close>,
    \<open>prompt_can_be_forged\<close>, \<open>overlong_line_can_approve\<close>, \<open>empty_policy_is_accepted\<close>, \<open>delete_rule_on_file_refuses_run\<close>,
    \<open>port_zero_is_not_granted\<close>, \<open>ask_outcome_is_not_reported\<close>, \<open>trace_may_lie_in_workspace\<close>,
    \<open>reap_can_wait_forever\<close>.

  \<^bold>\<open>Environments and hypotheses.\<close> A call out of the process (kernel, child memory, broker, operator,
  clock, file system, DNS) is answered by a function of the log of calls so far, so it may answer the
  same call differently later. The hypotheses on it are named: \<open>sane_errors\<close> and \<open>sane_kernel\<close> (a call
  that fails does not report the error number 0, in the loop and in the broker), \<open>honest_sink\<close> (a
  write that succeeds has appended its bytes), \<open>codec\<close> (the JSON printer and parser invert each other on
  a run's events, one line each), \<open>punctual\<close> (\<open>poll\<close> and the scheduler are late by at most a slack, and
  \<open>poll\<close> does not time out early). Each property that has one comes with a sample environment at which
  it holds.

  \<^bold>\<open>Bounds and fuel.\<close> Loops whose length the code bounds are total functions with a measure: the
  matchers, the memory readers, the path walks, and the walk up the process tree with its own limit of
  256. Three loops run as long as others feed them and take fuel, \<open>None\<close> meaning still running: \<open>serve\<close>
  (and with it \<open>run_loop\<close>, \<open>run_session\<close>, \<open>run_cli\<close>), \<open>bs_run\<close>, and the prompt's read loop. That enough fuel
  exists is proved where the code promises an end: \<open>run_ends_on_hangup\<close> for the notify loop and
  \<open>prompt_keeps_its_deadline\<close> for the prompt, whose every turn takes time; the handshake takes at most twenty steps. The percentile theorem
  assumes fewer than \<open>2 ^ 40\<close> samples, so that products fit the rounding argument.

  \<^bold>\<open>Not modelled.\<close> The TOML parser, serde's printer and parser, SHA-256, DNS, randomness and the clock are
  parameters. The unsafe wrappers of single system calls are the calls of the environments, their
  pointer set-up included; the control messages of \<open>sendmsg\<close> and \<open>recvmsg\<close> are modelled, with one
  descriptor each, and \<open>transfer\<close> of \<open>Broker_Packet\<close> is the kernel between them. The child side of \<open>Broker::spawn\<close> is \<open>broker_child\<close> of
  \<open>Broker_Server\<close>; the fork is one call. \<open>snapshot.rs\<close> holds no code; \<open>main.rs\<close>, \<open>lib.rs\<close> and the two
  \<open>mod.rs\<close> files are module declarations; the stub of \<open>dispatch_run\<close> for other systems, the derived
  \<open>Debug\<close> and \<open>Display\<close> texts that nothing parses, the tests and the benchmark driver of \<open>benches/\<close> are left out.
\<close>

end
